(* ===== verification/Prelude.thy ===== *)
theory Prelude
  imports Main
begin

text \<open>
  Shared vocabulary of the development.

  \<^item> \<open>go_result\<close>: the pair \<open>(value, error)\<close> of a Go function, as a sum: \<open>Inl\<close> is the
    non-nil error, \<open>Inr\<close> the value of the success return;
  \<^item> \<open>bindR\<close> sequences two such calls the way \<open>if err != nil { return err }\<close> does,
    \<open>guardR\<close> is one early return;
  \<^item> \<open>mapR\<close> is a loop that stops at the first error;
  \<^item> \<open>wrap64\<close> is the wrap-around of a Go \<open>int64\<close> (and of \<open>time.Duration\<close>), \<open>godiv\<close> Go's
    division, which truncates towards zero;
  \<^item> times are nanoseconds since the Unix epoch, \<open>zero_time\<close> is Go's zero \<open>time.Time\<close>.

  The collections \<open>go_simps\<close> (unfolding rules) and \<open>go_dest\<close> (facts that follow from a
  successful call) are filled by the components.
\<close>

named_theorems go_simps "unfolding rules of the operations"
named_theorems go_dest "facts that follow from a successful call"

type_synonym ('e, 'a) go_result = "'e + 'a"

subsection \<open>Results\<close>

definition bindR :: "('e, 'a) go_result \<Rightarrow> ('a \<Rightarrow> ('e, 'b) go_result) \<Rightarrow> ('e, 'b) go_result" where
  "bindR r f = (case r of Inl e \<Rightarrow> Inl e | Inr a \<Rightarrow> f a)"

definition guardR :: "bool \<Rightarrow> 'e \<Rightarrow> ('e, 'a) go_result \<Rightarrow> ('e, 'a) go_result" where
  "guardR bad e k = (if bad then Inl e else k)"

fun mapR :: "('a \<Rightarrow> ('e, 'b) go_result) \<Rightarrow> 'a list \<Rightarrow> ('e, 'b list) go_result" where
  "mapR f [] = Inr []"
| "mapR f (x # xs) = bindR (f x) (\<lambda>y. bindR (mapR f xs) (\<lambda>ys. Inr (y # ys)))"

lemma bindR_simps [simp]:
  "bindR (Inl e) f = Inl e"
  "bindR (Inr a) f = f a"
  by (simp_all add: bindR_def)

lemma bindR_eq_Inr [simp]: "bindR r f = Inr b \<longleftrightarrow> (\<exists>a. r = Inr a \<and> f a = Inr b)"
  by (cases r) auto

lemma bindR_eq_Inl: "bindR r f = Inl e \<longleftrightarrow> r = Inl e \<or> (\<exists>a. r = Inr a \<and> f a = Inl e)"
  by (cases r) auto

lemma bindR_assoc: "bindR (bindR r f) g = bindR r (\<lambda>a. bindR (f a) g)"
  by (cases r) auto

lemma guardR_simps [simp]:
  "guardR True e k = Inl e"
  "guardR False e k = k"
  by (simp_all add: guardR_def)

lemma guardR_eq_Inr [simp]: "guardR bad e k = Inr b \<longleftrightarrow> \<not> bad \<and> k = Inr b"
  by (simp add: guardR_def)

lemma mapR_Inr_map: "mapR (\<lambda>x. Inr (f x)) xs = Inr (map f xs)"
  by (induction xs) auto

lemma mapR_length: "mapR f xs = Inr ys \<Longrightarrow> length ys = length xs"
  by (induction xs arbitrary: ys) auto

lemma mapR_nth: "mapR f xs = Inr ys \<Longrightarrow> i < length xs \<Longrightarrow> f (xs ! i) = Inr (ys ! i)"
  by (induction xs arbitrary: ys i) (auto simp: nth_Cons split: nat.splits)

subsection \<open>Machine integers and time\<close>

definition wrap64 :: "int \<Rightarrow> int" where
  "wrap64 x = (x + 2 ^ 63) mod 2 ^ 64 - 2 ^ 63"

definition int64 :: "int \<Rightarrow> bool" where
  "int64 x \<longleftrightarrow> - (2 ^ 63) \<le> x \<and> x < 2 ^ 63"

lemma wrap64_id [simp]: "int64 x \<Longrightarrow> wrap64 x = x"
  by (simp add: wrap64_def int64_def)

lemma int64_wrap64 [simp]: "int64 (wrap64 x)"
proof -
  have "0 \<le> (x + 2 ^ 63) mod 2 ^ 64" "(x + 2 ^ 63) mod 2 ^ 64 < (2 ^ 64 :: int)"
    by simp_all
  then show ?thesis by (simp add: wrap64_def int64_def)
qed

text \<open>Go's integer division truncates towards zero.\<close>

definition godiv :: "int \<Rightarrow> int \<Rightarrow> int" where
  "godiv a b = sgn a * sgn b * (\<bar>a\<bar> div \<bar>b\<bar>)"

lemma godiv_nonneg [simp]: "0 \<le> a \<Longrightarrow> 0 < b \<Longrightarrow> godiv a b = a div b"
  by (cases "a = 0") (simp_all add: godiv_def)

type_synonym time = int
type_synonym duration = int

definition second :: duration where "second = 1000000000"
definition millisecond :: duration where "millisecond = 1000000"
definition microsecond :: duration where "microsecond = 1000"

definition zero_time :: time where
  "zero_time = - 62135596800000000000"

definition is_zero_time :: "time \<Rightarrow> bool" where
  "is_zero_time t \<longleftrightarrow> t = zero_time"

text \<open>
  \<open>Time.Truncate(d)\<close> rounds down to a multiple of \<open>d\<close> since the zero time, which is a
  whole number of seconds before the Unix epoch: for a microsecond or a millisecond the
  multiples are those of the Unix epoch.
\<close>

definition truncate_us :: "time \<Rightarrow> time" where
  "truncate_us t = t - (t - zero_time) mod microsecond"

lemma truncate_us_idem [simp]: "truncate_us (truncate_us t) = truncate_us t"
proof -
  have "(truncate_us t - zero_time) mod microsecond = 0"
    by (simp add: truncate_us_def microsecond_def mod_eq_0_iff_dvd dvd_minus_mod
      diff_right_commute [of t])
  then show ?thesis by (simp add: truncate_us_def [of "truncate_us t"])
qed

lemma truncate_us_le: "truncate_us t \<le> t"
  by (simp add: truncate_us_def microsecond_def)

lemma truncate_us_alt: "truncate_us t = zero_time + microsecond * ((t - zero_time) div microsecond)"
  by (simp add: truncate_us_def minus_mod_eq_mult_div [symmetric])

lemma truncate_us_mono: "s \<le> t \<Longrightarrow> truncate_us s \<le> truncate_us t"
  by (simp add: truncate_us_alt microsecond_def zdiv_mono1)

end
