(* ===== verification/GoStrings.thy ===== *)
theory GoStrings
  imports Prelude
begin

text \<open>
  What the modelled code uses of Go's \<open>strings\<close>, \<open>strconv\<close>, \<open>unicode\<close> and \<open>unicode/utf8\<close>.
  A Go string (and a \<open>[]byte\<close>) is a list of bytes, HOL's \<^typ>\<open>string\<close>.

  \<^item> \<open>decode_rune\<close> is \<open>utf8.DecodeRune\<close>: the rune and its width, \<open>0xFFFD\<close> of width 1 where
    the bytes are no UTF-8; \<open>chunks\<close> is what \<open>for _, r := range s\<close> visits, each rune with the
    bytes it was decoded from;
  \<^item> \<open>trim_space\<close>, \<open>split_on\<close>, \<open>join\<close>, \<open>index_of\<close>, \<open>has_prefix\<close>, \<open>replace_char\<close>,
    \<open>replace_all\<close>: the functions of \<open>strings\<close>;
  \<^item> \<open>itoa\<close>, \<open>atoi_nat\<close>: decimal numbers.

  \<open>unicode.IsLetter\<close> and \<open>unicode.IsDigit\<close> are tables beyond ASCII. They are concrete on ASCII
  and an argument \<open>word_tbl\<close> (the code points from 0x80 on that are a letter or a digit) beyond.
\<close>

abbreviation byte :: "char \<Rightarrow> nat" where
  "byte c \<equiv> of_char c"

lemma byte_inject: "byte c = byte d \<longleftrightarrow> c = d"
  by (rule of_char_eq_iff)

subsection \<open>UTF-8\<close>

definition cont_byte :: "nat \<Rightarrow> bool" where
  "cont_byte b \<longleftrightarrow> 0x80 \<le> b \<and> b \<le> 0xBF"

definition second_byte :: "nat \<Rightarrow> nat \<Rightarrow> bool" where
  "second_byte b0 b1 \<longleftrightarrow>
     (if b0 = 0xE0 then 0xA0 else if b0 = 0xF0 then 0x90 else 0x80) \<le> b1 \<and>
     b1 \<le> (if b0 = 0xED then 0x9F else if b0 = 0xF4 then 0x8F else 0xBF)"

definition decode_rune :: "string \<Rightarrow> nat \<times> nat" where
  "decode_rune s = (case s of [] \<Rightarrow> (0xFFFD, 0)
   | c0 # r0 \<Rightarrow>
      if byte c0 < 0x80 then (byte c0, 1)
      else if byte c0 < 0xC2 \<or> 0xF4 < byte c0 then (0xFFFD, 1)
      else (case r0 of [] \<Rightarrow> (0xFFFD, 1)
       | c1 # r1 \<Rightarrow>
          if \<not> second_byte (byte c0) (byte c1) then (0xFFFD, 1)
          else if byte c0 < 0xE0 then ((byte c0 - 0xC0) * 64 + (byte c1 - 0x80), 2)
          else (case r1 of [] \<Rightarrow> (0xFFFD, 1)
           | c2 # r2 \<Rightarrow>
              if \<not> cont_byte (byte c2) then (0xFFFD, 1)
              else if byte c0 < 0xF0 then
                ((byte c0 - 0xE0) * 4096 + (byte c1 - 0x80) * 64 + (byte c2 - 0x80), 3)
              else (case r2 of [] \<Rightarrow> (0xFFFD, 1)
               | c3 # r3 \<Rightarrow>
                  if \<not> cont_byte (byte c3) then (0xFFFD, 1)
                  else ((byte c0 - 0xF0) * 262144 + (byte c1 - 0x80) * 4096 +
                        (byte c2 - 0x80) * 64 + (byte c3 - 0x80), 4)))))"

lemma decode_rune_Nil [simp]: "decode_rune [] = (0xFFFD, 0)"
  by (simp add: decode_rune_def)

lemma decode_rune_ascii [simp]: "byte c < 0x80 \<Longrightarrow> decode_rune (c # s) = (byte c, 1)"
  by (simp add: decode_rune_def)

lemma decode_rune_width:
  "s \<noteq> [] \<Longrightarrow> 1 \<le> snd (decode_rune s) \<and> snd (decode_rune s) \<le> length s"
  by (simp add: decode_rune_def split: list.split)

text \<open>An ASCII byte never continues a sequence, so it does not change what precedes it.\<close>

lemma high_bytes: "second_byte a b \<Longrightarrow> 128 \<le> b" "cont_byte b \<Longrightarrow> 128 \<le> b"
  by (auto simp: second_byte_def cont_byte_def split: if_splits)

lemma decode_rune_high:
  "128 \<le> byte c0 \<Longrightarrow> c \<in> set (take (snd (decode_rune (c0 # r))) (c0 # r)) \<Longrightarrow> 128 \<le> byte c"
  by (auto simp: decode_rune_def split: list.splits if_split_asm dest: high_bytes)

lemma decode_rune_append_ascii:
  "s \<noteq> [] \<Longrightarrow> byte d < 0x80 \<Longrightarrow> decode_rune (s @ d # t) = decode_rune s"
  by (simp add: decode_rune_def cont_byte_def second_byte_def split: list.split)

function chunks :: "string \<Rightarrow> (nat \<times> string) list" where
  "chunks s = (if s = [] then [] else
     (fst (decode_rune s), take (snd (decode_rune s)) s) # chunks (drop (snd (decode_rune s)) s))"
  by pat_completeness auto
termination
proof (relation "measure length")
  fix s :: string
  assume "s \<noteq> []"
  then show "(drop (snd (decode_rune s)) s, s) \<in> measure length"
    using decode_rune_width [of s] by auto
qed simp

declare chunks.simps [simp del]

lemma chunks_Nil [simp]: "chunks [] = []"
  by (simp add: chunks.simps [of "[]"])

lemma chunks_ascii [simp]: "byte c < 0x80 \<Longrightarrow> chunks (c # s) = (byte c, [c]) # chunks s"
  by (simp add: chunks.simps [of "c # s"])

lemma chunks_eq_Nil [simp]: "chunks s = [] \<longleftrightarrow> s = []"
  by (subst chunks.simps) simp

lemma chunks_concat [simp]: "concat (map snd (chunks s)) = s"
proof (induction s rule: chunks.induct)
  case (1 s)
  show ?case
  proof (cases "s = []")
    case False
    with 1 show ?thesis by (simp add: chunks.simps [of s])
  qed simp
qed

lemma chunks_append_ascii:
  assumes d: "byte d < 0x80"
  shows "chunks (s @ d # t) = chunks s @ (byte d, [d]) # chunks t"
proof (induction s rule: chunks.induct)
  case (1 s)
  show ?case
  proof (cases "s = []")
    case True
    with d show ?thesis by simp
  next
    case False
    let ?w = "snd (decode_rune s)"
    from False have w: "?w \<le> length s" and dec: "decode_rune (s @ d # t) = decode_rune s"
      using decode_rune_width [of s] decode_rune_append_ascii [OF False d] by auto
    from 1 [OF False] False w show ?thesis
      by (simp add: chunks.simps [of "s @ d # t"] chunks.simps [of s] dec)
  qed
qed

subsection \<open>Classes of runes, \<open>TrimSpace\<close>\<close>

definition is_space_rune :: "nat \<Rightarrow> bool" where
  "is_space_rune r \<longleftrightarrow> r = 0x20 \<or> (9 \<le> r \<and> r \<le> 13) \<or> r = 0x85 \<or> r = 0xA0 \<or> r = 0x1680
     \<or> (0x2000 \<le> r \<and> r \<le> 0x200A) \<or> r = 0x2028 \<or> r = 0x2029 \<or> r = 0x202F \<or> r = 0x205F
     \<or> r = 0x3000"

definition is_word_rune :: "(nat \<Rightarrow> bool) \<Rightarrow> nat \<Rightarrow> bool" where
  "is_word_rune word_tbl r \<longleftrightarrow>
     (if r < 0x80 then (0x30 \<le> r \<and> r \<le> 0x39) \<or> (0x41 \<le> r \<and> r \<le> 0x5A) \<or> (0x61 \<le> r \<and> r \<le> 0x7A)
      else word_tbl r)"

definition trim_space :: "string \<Rightarrow> string" where
  "trim_space s = concat (map snd (rev (dropWhile (\<lambda>k. is_space_rune (fst k))
     (rev (dropWhile (\<lambda>k. is_space_rune (fst k)) (chunks s))))))"

lemma trim_space_Nil [simp]: "trim_space [] = []"
  by (simp add: trim_space_def)

lemma trim_space_id:
  assumes "s \<noteq> [] \<Longrightarrow> \<not> is_space_rune (fst (hd (chunks s)))"
    and "s \<noteq> [] \<Longrightarrow> \<not> is_space_rune (fst (last (chunks s)))"
  shows "trim_space s = s"
proof (cases "s = []")
  case False
  let ?P = "\<lambda>k. is_space_rune (fst k)"
  from False have ne: "chunks s \<noteq> []" by simp
  from ne assms(1) [OF False] have 1: "dropWhile ?P (chunks s) = chunks s"
    by (cases "chunks s") auto
  from ne assms(2) [OF False] have "\<not> ?P (hd (rev (chunks s)))" by (simp add: hd_rev)
  with ne have 2: "dropWhile ?P (rev (chunks s)) = rev (chunks s)"
    by (cases "rev (chunks s)") simp_all
  show ?thesis by (simp add: trim_space_def 1 2)
qed simp

subsection \<open>Functions of \<open>strings\<close>\<close>

definition has_prefix :: "string \<Rightarrow> string \<Rightarrow> bool" where
  "has_prefix p s \<longleftrightarrow> take (length p) s = p"

fun split_on :: "char \<Rightarrow> string \<Rightarrow> string list" where
  "split_on c [] = [[]]"
| "split_on c (x # xs) =
     (if x = c then [] # split_on c xs
      else (case split_on c xs of [] \<Rightarrow> [[x]] | p # ps \<Rightarrow> (x # p) # ps))"

fun join :: "string \<Rightarrow> string list \<Rightarrow> string" where
  "join sep [] = []"
| "join sep [p] = p"
| "join sep (p # q # ps) = p @ sep @ join sep (q # ps)"

fun index_of :: "string \<Rightarrow> string \<Rightarrow> nat option" where
  "index_of p [] = (if p = [] then Some 0 else None)"
| "index_of p (x # xs) = (if has_prefix p (x # xs) then Some 0 else map_option Suc (index_of p xs))"

definition replace_char :: "char \<Rightarrow> string \<Rightarrow> string \<Rightarrow> string" where
  "replace_char c r s = concat (map (\<lambda>x. if x = c then r else [x]) s)"

text \<open>\<open>strings.ReplaceAll\<close> with a two-byte pattern, left to right without overlap.\<close>

fun replace_pair :: "char \<Rightarrow> char \<Rightarrow> string \<Rightarrow> string \<Rightarrow> string" where
  "replace_pair a b r [] = []"
| "replace_pair a b r [x] = [x]"
| "replace_pair a b r (x # y # s) =
     (if x = a \<and> y = b then r @ replace_pair a b r s else x # replace_pair a b r (y # s))"

definition trim_left_char :: "char \<Rightarrow> string \<Rightarrow> string" where
  "trim_left_char c s = dropWhile (\<lambda>x. x = c) s"

definition trim_right_char :: "char \<Rightarrow> string \<Rightarrow> string" where
  "trim_right_char c s = rev (dropWhile (\<lambda>x. x = c) (rev s))"

lemma split_on_nonempty [simp]: "split_on c s \<noteq> []"
  by (induction s) (auto split: list.splits)

lemma join_Cons: "ps \<noteq> [] \<Longrightarrow> join sep (p # ps) = p @ sep @ join sep ps"
  by (cases ps) auto

lemma join_Cons_char: "join sep ((x # p) # ps) = x # join sep (p # ps)"
  by (cases ps) auto

lemma join_split_on [simp]: "join [c] (split_on c s) = s"
proof (induction s)
  case (Cons x xs)
  then show ?case
    by (cases "split_on c xs") (auto simp: join_Cons join_Cons_char)
qed simp

lemma split_on_part: "p \<in> set (split_on c s) \<Longrightarrow> c \<notin> set p"
  by (induction s arbitrary: p) (auto split: list.splits if_splits)

lemma split_on_no_sep [simp]: "c \<notin> set p \<Longrightarrow> split_on c p = [p]"
  by (induction p) auto

lemma split_on_append: "c \<notin> set p \<Longrightarrow> split_on c (p @ c # s) = p # split_on c s"
  by (induction p) auto

lemma split_on_join:
  "ps \<noteq> [] \<Longrightarrow> (\<And>p. p \<in> set ps \<Longrightarrow> c \<notin> set p) \<Longrightarrow> split_on c (join [c] ps) = ps"
  by (induction ps rule: induct_list012) (simp_all add: split_on_append)

lemma join_set: "x \<in> set (join sep ps) \<Longrightarrow> x \<in> set sep \<or> (\<exists>p \<in> set ps. x \<in> set p)"
  by (induction sep ps rule: join.induct) auto

lemma has_prefix_append [simp]: "has_prefix p (p @ s)"
  by (simp add: has_prefix_def)

lemma has_prefix_conv: "has_prefix p s \<longleftrightarrow> (\<exists>t. s = p @ t)"
  by (metis append_eq_conv_conj append_take_drop_id has_prefix_def)

lemma index_of_Some:
  "index_of p s = Some i \<Longrightarrow> i + length p \<le> length s \<and> take (length p) (drop i s) = p"
proof (induction s arbitrary: i)
  case (Cons x xs)
  show ?case
  proof (cases "has_prefix p (x # xs)")
    case True
    then obtain t where "x # xs = p @ t" by (auto simp: has_prefix_conv)
    then have "length p \<le> length (x # xs)" by (metis length_append le_add1)
    with True Cons.prems show ?thesis by (simp add: has_prefix_def)
  next
    case False
    with Cons.prems obtain j where "index_of p xs = Some j" "i = Suc j" by auto
    with Cons.IH [of j] show ?thesis by simp
  qed
qed (auto split: if_splits)

lemma index_of_None:
  "index_of p s = None \<Longrightarrow> \<not> (\<exists>a b. s = a @ p @ b)"
proof (induction s)
  case (Cons x xs)
  then show ?case
    by (auto simp: has_prefix_conv Cons_eq_append_conv split: if_splits)
qed (auto split: if_splits)

lemma index_of_first:
  "index_of p s = Some i \<Longrightarrow> j < i \<Longrightarrow> \<not> has_prefix p (drop j s)"
  by (induction s arbitrary: i j) (auto simp: drop_Cons split: if_splits nat.splits)

lemma index_of_append:
  "(\<And>j. j < length a \<Longrightarrow> \<not> has_prefix p (drop j (a @ p @ b))) \<Longrightarrow>
   index_of p (a @ p @ b) = Some (length a)"
proof (induction a)
  case Nil
  show ?case
  proof (cases "p @ b")
    case (Cons y ys)
    then have "has_prefix p (y # ys)" by (metis has_prefix_append)
    with Cons show ?thesis by simp
  qed simp
next
  case (Cons x a)
  from Cons.prems [of 0] have "\<not> has_prefix p (x # a @ p @ b)" by simp
  moreover have "index_of p (a @ p @ b) = Some (length a)"
    by (rule Cons.IH) (use Cons.prems [of "Suc _"] in auto)
  ultimately show ?case by simp
qed

subsection \<open>Decimal numbers\<close>

definition digit_char :: "nat \<Rightarrow> char" where
  "digit_char d = char_of (48 + d)"

definition is_digit :: "char \<Rightarrow> bool" where
  "is_digit c \<longleftrightarrow> 48 \<le> byte c \<and> byte c \<le> 57"

definition digit_val :: "char \<Rightarrow> nat" where
  "digit_val c = byte c - 48"

fun itoa :: "nat \<Rightarrow> string" where
  "itoa n = (if n < 10 then [digit_char n] else itoa (n div 10) @ [digit_char (n mod 10)])"

declare itoa.simps [simp del]

definition digits_val :: "string \<Rightarrow> nat" where
  "digits_val s = foldl (\<lambda>n c. 10 * n + digit_val c) 0 s"

text \<open>\<open>strconv.Atoi\<close> on a 64-bit platform: \<open>None\<close> is its error, range errors included.\<close>

definition atoi :: "string \<Rightarrow> int option" where
  "atoi s = (let neg = (s \<noteq> [] \<and> hd s = CHR ''-'');
       ds = (if s \<noteq> [] \<and> (hd s = CHR ''-'' \<or> hd s = CHR ''+'') then tl s else s)
     in if ds = [] \<or> \<not> list_all is_digit ds then None
        else let v = (if neg then - int (digits_val ds) else int (digits_val ds))
             in if int64 v then Some v else None)"

lemma digit_char_props [simp]:
  assumes "d < 10"
  shows "is_digit (digit_char d)" "digit_val (digit_char d) = d"
    "byte (digit_char d) = 48 + d"
proof -
  show b: "byte (digit_char d) = 48 + d"
    using assms by (simp add: digit_char_def of_char_of)
  show "is_digit (digit_char d)" "digit_val (digit_char d) = d"
    using assms by (simp_all add: is_digit_def digit_val_def b)
qed

lemma itoa_digits: "list_all is_digit (itoa n)"
  by (induction n rule: itoa.induct) (subst itoa.simps, simp)

lemma itoa_nonempty [simp]: "itoa n \<noteq> []"
  by (subst itoa.simps) simp

lemma digits_val_snoc [simp]: "digits_val (s @ [c]) = 10 * digits_val s + digit_val c"
  by (simp add: digits_val_def)

lemma digits_val_itoa [simp]: "digits_val (itoa n) = n"
proof (induction n rule: itoa.induct)
  case (1 n)
  show ?case
  proof (cases "n < 10")
    case True
    then show ?thesis by (simp add: itoa.simps [of n] digits_val_def)
  next
    case False
    with 1 show ?thesis by (simp add: itoa.simps [of n])
  qed
qed

lemma itoa_hd_not_sign: "hd (itoa n) \<noteq> CHR ''-''" "hd (itoa n) \<noteq> CHR ''+''"
proof -
  have "is_digit (hd (itoa n))"
    using itoa_digits [of n] itoa_nonempty [of n] by (cases "itoa n") auto
  then show "hd (itoa n) \<noteq> CHR ''-''" "hd (itoa n) \<noteq> CHR ''+''"
    by (auto simp: is_digit_def)
qed

lemma atoi_itoa [simp]: "int64 (int n) \<Longrightarrow> atoi (itoa n) = Some (int n)"
  using itoa_digits [of n] itoa_hd_not_sign [of n] by (simp add: atoi_def)

lemma itoa_inject: "itoa m = itoa n \<longleftrightarrow> m = n"
  by (metis digits_val_itoa)

text \<open>Trimming one character.\<close>

lemma trim_right_char_ex:
  obtains n where "s = trim_right_char c s @ replicate n c" 
    "trim_right_char c s = [] \<or> last (trim_right_char c s) \<noteq> c"
proof -
  let ?t = "takeWhile (\<lambda>x. x = c) (rev s)"
  have "rev s = ?t @ dropWhile (\<lambda>x. x = c) (rev s)" by simp
  then have "s = trim_right_char c s @ rev ?t"
    by (metis rev_append rev_rev_ident trim_right_char_def)
  moreover have "rev ?t = replicate (length ?t) c"
    by (metis (mono_tags, lifting) map_replicate_const rev_replicate set_takeWhileD replicate_length_same)
  moreover have "trim_right_char c s = [] \<or> last (trim_right_char c s) \<noteq> c"
    by (metis (mono_tags, lifting) hd_dropWhile last_rev rev_is_Nil_conv trim_right_char_def)
  ultimately show thesis using that by metis
qed

lemma trim_left_char_ex:
  obtains n where "s = replicate n c @ trim_left_char c s"
    "trim_left_char c s = [] \<or> hd (trim_left_char c s) \<noteq> c"
proof -
  let ?t = "takeWhile (\<lambda>x. x = c) s"
  have "s = ?t @ trim_left_char c s" by (simp add: trim_left_char_def)
  moreover have "?t = replicate (length ?t) c"
    by (metis (mono_tags, lifting) set_takeWhileD replicate_length_same)
  moreover have "trim_left_char c s = [] \<or> hd (trim_left_char c s) \<noteq> c"
    using hd_dropWhile [of "\<lambda>x. x = c" s] by (auto simp: trim_left_char_def)
  ultimately show thesis using that by metis
qed

lemma trim_right_char_mid: "d \<noteq> c \<Longrightarrow> trim_right_char c (a @ d # b) = a @ d # trim_right_char c b"
  by (simp add: trim_right_char_def dropWhile_append3)

lemma trim_right_char_id: "s = [] \<or> last s \<noteq> c \<Longrightarrow> trim_right_char c s = s"
  by (cases s rule: rev_cases) (auto simp: trim_right_char_def)

lemma trim_right_char_snoc: "trim_right_char c (s @ [c]) = trim_right_char c s"
  by (simp add: trim_right_char_def)

lemma trim_right_char_set: "set (trim_right_char c s) \<subseteq> set s"
  unfolding trim_right_char_def by (metis set_dropWhileD set_rev subsetI)

lemma trim_right_no: "c \<notin> set s \<Longrightarrow> trim_right_char c s = s"
  by (rule trim_right_char_id) (metis last_in_set)

end
