(* ===== verification/Json.thy ===== *)
theory Json
  imports GoStrings
begin

text \<open>
  JSON values as Go holds them after a decode with \<open>UseNumber\<close>: \<open>JNum\<close> keeps the number token
  (\<open>json.Number\<close>), \<open>JObj\<close> the members of a \<open>map[string]any\<close> (keys distinct). \<open>JFloat\<close> is a
  \<open>float64\<close> of the caller, by its 64 bits; how a finite one prints is \<open>strconv\<close>'s shortest
  form, an argument \<open>show_float\<close>.

  \<open>marshal\<close> is \<open>json.Marshal\<close> on these values: keys sorted, strings escaped for HTML.
\<close>

datatype json =
    JNull
  | JBool bool
  | JNum string
  | JFloat nat
  | JStr string
  | JArr "json list"
  | JObj "(string \<times> json) list"

definition float_finite :: "nat \<Rightarrow> bool" where
  "float_finite bits \<longleftrightarrow> (bits div 2 ^ 52) mod 2048 \<noteq> 2047"

subsection \<open>Number tokens\<close>

definition strip_minus :: "string \<Rightarrow> string" where
  "strip_minus s = (case s of c # r \<Rightarrow> if c = CHR ''-'' then r else s | [] \<Rightarrow> [])"

definition valid_exp :: "string \<Rightarrow> bool" where
  "valid_exp s \<longleftrightarrow> (case s of [] \<Rightarrow> True
     | c # r \<Rightarrow> (c = CHR ''e'' \<or> c = CHR ''E'') \<and>
        (let ds = (case r of x # r' \<Rightarrow> if x = CHR ''-'' \<or> x = CHR ''+'' then r' else r | [] \<Rightarrow> [])
         in ds \<noteq> [] \<and> list_all is_digit ds))"

definition valid_frac_exp :: "string \<Rightarrow> bool" where
  "valid_frac_exp s \<longleftrightarrow> (case s of [] \<Rightarrow> True
     | c # r \<Rightarrow> if c = CHR ''.''
               then takeWhile is_digit r \<noteq> [] \<and> valid_exp (dropWhile is_digit r)
               else valid_exp s)"

text \<open>The grammar \<open>json.Marshal\<close> checks a \<open>json.Number\<close> against.\<close>

definition valid_number :: "string \<Rightarrow> bool" where
  "valid_number s \<longleftrightarrow>
     (let r = strip_minus s; ip = takeWhile is_digit r
      in ip \<noteq> [] \<and> (hd ip = CHR ''0'' \<longrightarrow> length ip = 1) \<and> valid_frac_exp (dropWhile is_digit r))"

subsection \<open>Encoding\<close>

definition hex_digit :: "nat \<Rightarrow> char" where
  "hex_digit d = (if d < 10 then char_of (48 + d) else char_of (87 + d))"

definition escape_chunk :: "nat \<times> string \<Rightarrow> string" where
  "escape_chunk k = (let r = fst k in
     if r = 0x22 then [CHR 0x5C, CHR 0x22]
     else if r = 0x5C then [CHR 0x5C, CHR 0x5C]
     else if r = 8 then CHR 0x5C # ''b'' else if r = 12 then CHR 0x5C # ''f''
     else if r = 10 then CHR 0x5C # ''n'' else if r = 13 then CHR 0x5C # ''r''
     else if r = 9 then CHR 0x5C # ''t''
     else if r < 0x20 \<or> r = 0x3C \<or> r = 0x3E \<or> r = 0x26 then
       CHR 0x5C # ''u00'' @ [hex_digit (r div 16), hex_digit (r mod 16)]
     else if r = 0xFFFD \<and> length (snd k) = 1 then CHR 0x5C # ''ufffd''
     else if r = 0x2028 then CHR 0x5C # ''u2028'' else if r = 0x2029 then CHR 0x5C # ''u2029''
     else snd k)"

definition quote_string :: "string \<Rightarrow> string" where
  "quote_string s = [CHR 0x22] @ concat (map escape_chunk (chunks s)) @ [CHR 0x22]"

text \<open>Byte order of strings, Go's \<open><\<close>.\<close>

fun str_less :: "string \<Rightarrow> string \<Rightarrow> bool" where
  "str_less s [] = False"
| "str_less [] (y # ys) = True"
| "str_less (x # xs) (y # ys) = (byte x < byte y \<or> (x = y \<and> str_less xs ys))"

fun insert_member :: "string \<times> 'v \<Rightarrow> (string \<times> 'v) list \<Rightarrow> (string \<times> 'v) list" where
  "insert_member m [] = [m]"
| "insert_member m (n # ns) =
     (if str_less (fst n) (fst m) then n # insert_member m ns else m # n # ns)"

definition sort_members :: "(string \<times> 'v) list \<Rightarrow> (string \<times> 'v) list" where
  "sort_members ms = foldr insert_member ms []"

fun sequence_opt :: "'a option list \<Rightarrow> 'a list option" where
  "sequence_opt [] = Some []"
| "sequence_opt (x # xs) = (case x of None \<Rightarrow> None
     | Some a \<Rightarrow> map_option ((#) a) (sequence_opt xs))"

fun marshal :: "(nat \<Rightarrow> string) \<Rightarrow> json \<Rightarrow> string option" where
  "marshal show_float JNull = Some ''null''"
| "marshal show_float (JBool b) = Some (if b then ''true'' else ''false'')"
| "marshal show_float (JNum s) =
     (if s = [] then Some ''0'' else if valid_number s then Some s else None)"
| "marshal show_float (JFloat bits) = (if float_finite bits then Some (show_float bits) else None)"
| "marshal show_float (JStr s) = Some (quote_string s)"
| "marshal show_float (JArr vs) =
     map_option (\<lambda>ss. ''['' @ join '','' ss @ '']'') (sequence_opt (map (marshal show_float) vs))"
| "marshal show_float (JObj ms) =
     map_option (\<lambda>ss. ''{'' @ join '','' (map snd (sort_members ss)) @ ''}'')
       (sequence_opt (map (\<lambda>m. map_option (\<lambda>s. (fst m, quote_string (fst m) @ '':'' @ s))
          (marshal show_float (snd m))) ms))"

subsection \<open>Strict objects\<close>

lemma str_less_irrefl [simp]: "\<not> str_less s s"
  by (induction s) auto

lemma str_less_linear: "s \<noteq> t \<Longrightarrow> str_less s t \<or> str_less t s"
proof (induction s t rule: str_less.induct)
  case (3 x xs y ys)
  then show ?case by (cases "byte x" "byte y" rule: linorder_cases) (auto simp: byte_inject)
qed (auto simp: neq_Nil_conv)

lemma str_less_trans: "str_less s t \<Longrightarrow> str_less t u \<Longrightarrow> str_less s u"
proof (induction s t arbitrary: u rule: str_less.induct)
  case (3 x xs y ys)
  then show ?case by (cases u) auto
next
  case (2 y ys)
  then show ?case by (cases u) auto
qed auto

lemma set_insert_member [simp]: "set (insert_member m ms) = insert m (set ms)"
  by (induction ms) auto

lemma set_sort_members [simp]: "set (sort_members ms) = set ms"
  by (induction ms) (auto simp: sort_members_def)

end
