(* ===== verification/Reference.thy ===== *)
theory Reference
  imports GoStrings
begin

text \<open>
  \<open>src/variables/reference.go\<close>: references of the variable language \<open>aheronVarsV1\<close>.

  \<open>parse_reference_v1\<close> is \<open>ParseReferenceV1\<close>, \<open>expression\<close> the method \<open>Reference.Expression\<close>;
  \<open>None\<close> is \<open>ErrInvalidReference\<close>. \<open>word_tbl\<close> is the Unicode table of letters and digits
  beyond ASCII (see GoStrings); \<open>unicode_ok\<close> is the one fact of it that is needed: no letter
  and no digit is white space.
\<close>

datatype scope = ScopeSubject | ScopeProject | ScopeIntegration | ScopeRuntime | ScopeOther string

record reference =
  ref_scope :: scope
  ref_namespace :: string
  ref_key :: string
  ref_path :: "string list"

definition unicode_ok :: "(nat \<Rightarrow> bool) \<Rightarrow> bool" where
  "unicode_ok word_tbl \<longleftrightarrow> (\<forall>r. is_word_rune word_tbl r \<longrightarrow> \<not> is_space_rune r)"

definition valid_segment :: "(nat \<Rightarrow> bool) \<Rightarrow> string \<Rightarrow> bool" where
  "valid_segment word_tbl s \<longleftrightarrow> s \<noteq> [] \<and>
     list_all (\<lambda>k. fst k = byte (CHR ''_'') \<or> fst k = byte (CHR ''-'')
                 \<or> is_word_rune word_tbl (fst k)) (chunks s)"

text \<open>The reference a list of valid segments stands for: the switch of \<open>ParseReferenceV1\<close>.\<close>

fun classify :: "string list \<Rightarrow> reference option" where
  "classify [] = None"
| "classify [p] = Some \<lparr>ref_scope = ScopeSubject, ref_namespace = [], ref_key = p, ref_path = []\<rparr>"
| "classify (p # k # rest) = Some (
     if p = ''subject'' then
       \<lparr>ref_scope = ScopeSubject, ref_namespace = [], ref_key = k, ref_path = rest\<rparr>
     else if p = ''project'' then
       (if k = ''id'' then
          \<lparr>ref_scope = ScopeRuntime, ref_namespace = ''project'', ref_key = k, ref_path = rest\<rparr>
        else \<lparr>ref_scope = ScopeProject, ref_namespace = [], ref_key = k, ref_path = rest\<rparr>)
     else if p = ''context'' \<or> p = ''integrationState'' then
       \<lparr>ref_scope = ScopeRuntime, ref_namespace = p, ref_key = k, ref_path = rest\<rparr>
     else \<lparr>ref_scope = ScopeIntegration, ref_namespace = p, ref_key = k, ref_path = rest\<rparr>)"

definition parse_reference_v1 :: "(nat \<Rightarrow> bool) \<Rightarrow> string \<Rightarrow> reference option" where
  "parse_reference_v1 word_tbl key =
     (let parts = split_on (CHR ''.'') (trim_space key)
      in if list_all (valid_segment word_tbl) parts then classify parts else None)"

definition same_path :: "string list \<Rightarrow> string list \<Rightarrow> bool" where
  "same_path a b \<longleftrightarrow> (length a = length b \<and> list_all (\<lambda>i. a ! i = b ! i) [0..<length a])"

definition expression_prefix :: "reference \<Rightarrow> string option" where
  "expression_prefix r = (case ref_scope r of
     ScopeSubject \<Rightarrow> if ref_namespace r \<noteq> [] then None else Some ''subject''
   | ScopeProject \<Rightarrow> if ref_namespace r \<noteq> [] then None else Some ''project''
   | ScopeIntegration \<Rightarrow> Some (ref_namespace r)
   | ScopeRuntime \<Rightarrow> Some (ref_namespace r)
   | ScopeOther _ \<Rightarrow> None)"

definition expression :: "(nat \<Rightarrow> bool) \<Rightarrow> reference \<Rightarrow> string option" where
  "expression word_tbl r = (case expression_prefix r of None \<Rightarrow> None
   | Some prefix \<Rightarrow>
      let e = join ''.'' (prefix # ref_key r # ref_path r)
      in (case parse_reference_v1 word_tbl e of None \<Rightarrow> None
          | Some parsed \<Rightarrow>
             if ref_scope parsed \<noteq> ref_scope r \<or> ref_namespace parsed \<noteq> ref_namespace r
                \<or> ref_key parsed \<noteq> ref_key r \<or> \<not> same_path (ref_path parsed) (ref_path r)
             then None else Some e))"

subsection \<open>Segments\<close>

lemma same_path_iff [simp]: "same_path a b \<longleftrightarrow> a = b"
  by (auto simp: same_path_def list_all_iff intro: nth_equalityI)

lemma not_word_dot: "\<not> is_word_rune word_tbl (byte (CHR ''.''))"
  by (simp add: is_word_rune_def)

lemma valid_segment_no_ascii:
  assumes v: "valid_segment word_tbl s" and c: "byte c < 0x80"
    and "\<not> is_word_rune word_tbl (byte c)" and "c \<noteq> CHR ''_''" and "c \<noteq> CHR ''-''"
  shows "c \<notin> set s"
proof
  assume "c \<in> set s"
  then obtain a b where "s = a @ c # b" by (auto simp: in_set_conv_decomp)
  then have "chunks s = chunks a @ (byte c, [c]) # chunks b"
    using c by (simp add: chunks_append_ascii)
  with v have "byte c = byte (CHR ''_'') \<or> byte c = byte (CHR ''-'')
      \<or> is_word_rune word_tbl (byte c)"
    by (auto simp: valid_segment_def)
  with assms(3-5) show False by (metis of_char_eqI)
qed

lemma valid_segment_no_dot: "valid_segment word_tbl s \<Longrightarrow> CHR ''.'' \<notin> set s"
  by (rule valid_segment_no_ascii) (auto simp: is_word_rune_def)

lemma valid_segment_no_brace:
  "valid_segment word_tbl s \<Longrightarrow> CHR ''{'' \<notin> set s \<and> CHR ''}'' \<notin> set s"
  by (intro conjI; rule valid_segment_no_ascii) (auto simp: is_word_rune_def)

lemma valid_segment_reserved [simp]:
  "valid_segment word_tbl ''subject''" "valid_segment word_tbl ''project''"
  by (simp_all add: valid_segment_def is_word_rune_def)

lemma segment_rune_not_space:
  assumes "unicode_ok word_tbl"
    and "r = byte (CHR ''_'') \<or> r = byte (CHR ''-'') \<or> is_word_rune word_tbl r"
  shows "\<not> is_space_rune r"
proof -
  have "\<not> is_space_rune (byte (CHR ''_''))" "\<not> is_space_rune (byte (CHR ''-''))"
    by (simp_all add: is_space_rune_def)
  with assms show ?thesis by (auto simp: unicode_ok_def)
qed

lemma chunks_join:
  "ps \<noteq> [] \<Longrightarrow> \<forall>p \<in> set ps. valid_segment word_tbl p \<Longrightarrow>
   chunks (join ''.'' ps) \<noteq> [] \<and> hd (chunks (join ''.'' ps)) = hd (chunks (hd ps)) \<and>
   last (chunks (join ''.'' ps)) = last (chunks (last ps))"
proof (induction ps rule: induct_list012)
  case (3 p q ps)
  from "3.prems" have p: "chunks p \<noteq> []" by (auto simp: valid_segment_def)
  have "chunks (join ''.'' (p # q # ps)) =
      chunks p @ (byte (CHR ''.''), ''.'') # chunks (join ''.'' (q # ps))"
    using chunks_append_ascii [of "CHR ''.''" p] by simp
  moreover have "chunks (join ''.'' (q # ps)) \<noteq> []"
    and "last (chunks (join ''.'' (q # ps))) = last (chunks (last (q # ps)))"
    using "3.IH"(2) "3.prems" by auto
  ultimately show ?case using p by simp
qed (auto simp: valid_segment_def)

lemma trim_space_join:
  assumes ok: "unicode_ok word_tbl" and ps: "ps \<noteq> []"
    and v: "\<forall>p \<in> set ps. valid_segment word_tbl p"
  shows "trim_space (join ''.'' ps) = join ''.'' ps"
proof (rule trim_space_id)
  have seg: "\<not> is_space_rune (fst k)" if "p \<in> set ps" "k \<in> set (chunks p)" for p k
    using v that by (intro segment_rune_not_space [OF ok]) (auto simp: valid_segment_def list_all_iff)
  have ne: "chunks p \<noteq> []" if "p \<in> set ps" for p
    using v that by (auto simp: valid_segment_def)
  show "\<not> is_space_rune (fst (hd (chunks (join ''.'' ps))))"
    using chunks_join [OF ps v] seg [OF hd_in_set [OF ps]] ne [OF hd_in_set [OF ps]] by simp
  show "\<not> is_space_rune (fst (last (chunks (join ''.'' ps))))"
    using chunks_join [OF ps v] seg [OF last_in_set [OF ps]] ne [OF last_in_set [OF ps]] by simp
qed

lemma parse_join:
  assumes "unicode_ok word_tbl" and "ps \<noteq> []" and v: "\<forall>p \<in> set ps. valid_segment word_tbl p"
  shows "parse_reference_v1 word_tbl (join ''.'' ps) = classify ps"
proof -
  have "split_on (CHR ''.'') (join ''.'' ps) = ps"
    using assms valid_segment_no_dot by (intro split_on_join) auto
  with assms show ?thesis
    by (simp add: parse_reference_v1_def trim_space_join list_all_iff)
qed

lemma parse_reference_cases:
  assumes "parse_reference_v1 word_tbl s = Some r"
  obtains ps where "ps \<noteq> []" "\<forall>p \<in> set ps. valid_segment word_tbl p" "classify ps = Some r"
    "trim_space s = join ''.'' ps"
proof -
  let ?ps = "split_on (CHR ''.'') (trim_space s)"
  have "?ps \<noteq> []" by simp
  moreover have "\<forall>p \<in> set ?ps. valid_segment word_tbl p" "classify ?ps = Some r"
    using assms by (auto simp: parse_reference_v1_def Let_def list_all_iff split: if_splits)
  moreover have "trim_space s = join ''.'' ?ps" by simp
  ultimately show thesis using that by blast
qed

subsection \<open>Expressions\<close>

text \<open>Any parsed reference has a qualified list of segments that is classified the same way.\<close>

lemma classify_qualified:
  assumes "classify ps = Some r" and "ps \<noteq> []"
    and "\<forall>p \<in> set ps. valid_segment word_tbl p"
  obtains prefix where "expression_prefix r = Some prefix"
    "\<forall>p \<in> set (prefix # ref_key r # ref_path r). valid_segment word_tbl p"
    "classify (prefix # ref_key r # ref_path r) = Some r"
proof (cases ps rule: classify.cases)
  case (2 p)
  with assms have "r = \<lparr>ref_scope = ScopeSubject, ref_namespace = [], ref_key = p, ref_path = []\<rparr>"
    by simp
  with assms 2 show thesis
    by (intro that [of "''subject''"]) (auto simp: expression_prefix_def)
next
  case (3 p k rest)
  with assms(1) have r: "classify (p # k # rest) = Some r" by simp
  then have "ref_key r = k" "ref_path r = rest" "expression_prefix r = Some p"
    by (cases "p = ''subject''"; cases "p = ''project''"; cases "k = ''id''";
        cases "p = ''context''"; cases "p = ''integrationState''"; auto simp: expression_prefix_def)+
  with assms 3 r show thesis by (intro that [of p]) simp_all
qed (use assms in simp)

lemma expression_of_parsed:
  assumes "unicode_ok word_tbl" and "parse_reference_v1 word_tbl s = Some r"
  obtains prefix where "expression_prefix r = Some prefix"
    "expression word_tbl r = Some (join ''.'' (prefix # ref_key r # ref_path r))"
    "parse_reference_v1 word_tbl (join ''.'' (prefix # ref_key r # ref_path r)) = Some r"
proof -
  from parse_reference_cases [OF assms(2)] obtain ps where ps: "ps \<noteq> []"
    "\<forall>p \<in> set ps. valid_segment word_tbl p" "classify ps = Some r" .
  from classify_qualified [OF ps(3,1,2)] obtain prefix where pre:
    "expression_prefix r = Some prefix"
    "\<forall>p \<in> set (prefix # ref_key r # ref_path r). valid_segment word_tbl p"
    "classify (prefix # ref_key r # ref_path r) = Some r" .
  then have "parse_reference_v1 word_tbl (join ''.'' (prefix # ref_key r # ref_path r)) = Some r"
    using parse_join [OF assms(1) _ pre(2)] by simp
  with pre show thesis by (intro that [of prefix]) (simp_all add: expression_def)
qed

lemma expression_parse [go_dest]:
  assumes "expression word_tbl r = Some e"
  shows "parse_reference_v1 word_tbl e = Some r"
proof -
  from assms obtain prefix p where "expression_prefix r = Some prefix"
    and e: "e = join ''.'' (prefix # ref_key r # ref_path r)"
    and p: "parse_reference_v1 word_tbl e = Some p"
    and eq: "ref_scope p = ref_scope r" "ref_namespace p = ref_namespace r"
      "ref_key p = ref_key r" "ref_path p = ref_path r"
    by (auto simp: expression_def Let_def split: option.splits if_splits)
  from eq have "p = r" by (cases p, cases r) simp
  with p show ?thesis by simp
qed

lemma expression_no_brace:
  assumes "expression word_tbl r = Some e"
  shows "CHR ''{'' \<notin> set (trim_space e) \<and> CHR ''}'' \<notin> set (trim_space e)"
proof -
  from parse_reference_cases [OF expression_parse [OF assms]] obtain ps where
    "\<forall>p \<in> set ps. valid_segment word_tbl p" "trim_space e = join ''.'' ps" .
  then show ?thesis by (auto dest!: join_set valid_segment_no_brace)
qed

text \<open>
  Canonical expressions: every reference the parser accepts has a qualified expression,
  and parsing that expression gives the very same reference. So a template that is exported
  with explicit scopes means what its author wrote.
\<close>

theorem parsed_reference_has_expression:
  assumes "unicode_ok word_tbl" and "parse_reference_v1 word_tbl s = Some r"
  shows "\<exists>e. expression word_tbl r = Some e \<and> parse_reference_v1 word_tbl e = Some r"
  using expression_of_parsed [OF assms] by blast

lemma unicode_ok_ascii: "unicode_ok (\<lambda>_. False)"
  by (auto simp: unicode_ok_def is_word_rune_def is_space_rune_def split: if_splits)

theorem parsed_reference_has_expression_witness:
  "\<exists>r e. parse_reference_v1 (\<lambda>_. False) '' order.items.0 '' = Some r \<and>
     expression (\<lambda>_. False) r = Some e \<and> parse_reference_v1 (\<lambda>_. False) e = Some r"
proof -
  have "parse_reference_v1 (\<lambda>_. False) '' order.items.0 '' =
      Some \<lparr>ref_scope = ScopeIntegration, ref_namespace = ''order'', ref_key = ''items'',
        ref_path = [''0'']\<rparr>"
    by (simp add: parse_reference_v1_def trim_space_def is_space_rune_def valid_segment_def
      is_word_rune_def)
  from parsed_reference_has_expression [OF unicode_ok_ascii this] this show ?thesis by blast
qed

end
