(* ===== verification/Template.thy ===== *)
theory Template
  imports Reference
begin

text \<open>
  \<open>src/variables/template.go\<close>: templates of text and \<open>{{reference}}\<close> placeholders.

  \<open>parse_v1\<close> is \<open>ParseV1\<close> (\<open>Inl off\<close> is \<open>SyntaxError{Offset: off}\<close>), \<open>render\<close> and \<open>rewrite\<close>
  are \<open>Template.Render\<close> and \<open>Template.Rewrite\<close>. A nil resolver or mapper is \<open>None\<close>; the values
  a resolver returns, and the function that formats them, are parameters (\<open>Values\<close> supplies
  both).
\<close>

record part =
  part_text :: string
  part_ref :: "reference option"
  part_start :: nat
  part_end :: nat

definition lit_part :: "string \<Rightarrow> nat \<Rightarrow> nat \<Rightarrow> part" where
  "lit_part src a b = \<lparr>part_text = take (b - a) (drop a src), part_ref = None,
     part_start = a, part_end = b\<rparr>"

definition ref_part :: "reference \<Rightarrow> nat \<Rightarrow> nat \<Rightarrow> part" where
  "ref_part r a b = \<lparr>part_text = [], part_ref = Some r, part_start = a, part_end = b\<rparr>"

function parse_loop :: "(nat \<Rightarrow> bool) \<Rightarrow> string \<Rightarrow> nat \<Rightarrow> part list \<Rightarrow> (nat, part list) go_result" where
  "parse_loop word_tbl src offset acc =
     (if length src \<le> offset then Inr acc
      else (case index_of ''{{'' (drop offset src) of
        None \<Rightarrow> Inr (acc @ [lit_part src offset (length src)])
      | Some i \<Rightarrow>
          let start = offset + i;
              acc' = (if offset < start then acc @ [lit_part src offset start] else acc)
          in (case index_of ''}}'' (drop (start + 2) src) of
                None \<Rightarrow> Inl start
              | Some j \<Rightarrow>
                  (case parse_reference_v1 word_tbl (take j (drop (start + 2) src)) of
                     None \<Rightarrow> Inl start
                   | Some r \<Rightarrow> parse_loop word_tbl src (start + 2 + j + 2)
                                (acc' @ [ref_part r start (start + 2 + j + 2)])))))"
  by pat_completeness auto
termination
  by (relation "measure (\<lambda>(_, src, offset, _). length src - offset)") auto

declare parse_loop.simps [simp del]

definition parse_v1 :: "(nat \<Rightarrow> bool) \<Rightarrow> string \<Rightarrow> (nat, part list) go_result" where
  "parse_v1 word_tbl src = parse_loop word_tbl src 0 []"

subsection \<open>What the parser accepts\<close>

text \<open>
  \<open>wf_parts word_tbl src off ps\<close>: the parts \<open>ps\<close> tile the text from the byte \<open>off\<close> to its
  end. A literal is the text up to the next \<open>{{\<close> (or the end), a reference is \<open>{{\<close>, the
  shortest text before \<open>}}\<close>, which is a reference, and \<open>}}\<close>.
\<close>

fun wf_parts :: "(nat \<Rightarrow> bool) \<Rightarrow> string \<Rightarrow> nat \<Rightarrow> part list \<Rightarrow> bool" where
  "wf_parts word_tbl src off [] = (off = length src)"
| "wf_parts word_tbl src off (p # ps) =
     (part_start p = off \<and> off < part_end p \<and> part_end p \<le> length src \<and>
      (case part_ref p of
         None \<Rightarrow> part_text p = take (part_end p - off) (drop off src) \<and>
           index_of ''{{'' (drop off src) = (if ps = [] then None else Some (part_end p - off))
       | Some r \<Rightarrow> part_text p = [] \<and> off + 4 \<le> part_end p \<and> has_prefix ''{{'' (drop off src) \<and>
           index_of ''}}'' (drop (off + 2) src) = Some (part_end p - off - 4) \<and>
           parse_reference_v1 word_tbl (take (part_end p - off - 4) (drop (off + 2) src)) = Some r) \<and>
      wf_parts word_tbl src (part_end p) ps)"

lemma index_of_prefix [simp]: "has_prefix p s \<Longrightarrow> index_of p s = Some 0"
  by (cases s) (auto simp: has_prefix_def)

lemma index_of_zero: "index_of p s = Some 0 \<Longrightarrow> has_prefix p s"
  by (drule index_of_Some) (simp add: has_prefix_def)

lemma ref_at_brace:
  "wf_parts word_tbl src o' (q # qs) \<Longrightarrow> has_prefix ''{{'' (drop o' src) \<Longrightarrow> part_ref q \<noteq> None"
  by (cases "part_ref q") (auto split: if_splits)

lemma index_of_drop:
  assumes "index_of p (drop off src) = Some i" and "p \<noteq> []"
  shows "off + i + length p \<le> length src" and "has_prefix p (drop (off + i) src)"
proof -
  from index_of_Some [OF assms(1)]
  have "i + length p \<le> length src - off" "take (length p) (drop (off + i) src) = p"
    by (simp_all add: add.commute)
  moreover from assms(2) have "0 < length p" by simp
  ultimately show "off + i + length p \<le> length src" "has_prefix p (drop (off + i) src)"
    unfolding has_prefix_def by linarith+
qed

lemma parse_loop_sound:
  "parse_loop word_tbl src off acc = Inr ps \<Longrightarrow> off \<le> length src \<Longrightarrow>
   \<exists>qs. ps = acc @ qs \<and> wf_parts word_tbl src off qs"
proof (induction word_tbl src off acc rule: parse_loop.induct)
  case (1 word_tbl src off acc)
  show ?case
  proof (cases "length src \<le> off")
    case True
    with "1.prems" show ?thesis by (simp add: parse_loop.simps [of _ _ off])
  next
    case less: False
    show ?thesis
    proof (cases "index_of ''{{'' (drop off src)")
      case None
      with "1.prems" less show ?thesis
        by (auto simp: parse_loop.simps [of _ _ off] lit_part_def)
    next
      case (Some i)
      let ?st = "off + i"
      let ?acc = "if off < ?st then acc @ [lit_part src off ?st] else acc"
      from index_of_drop [OF Some] have st: "?st + 2 \<le> length src"
        "has_prefix ''{{'' (drop ?st src)" by simp_all
      from "1.prems"(1) less Some obtain j r where
        j: "index_of ''}}'' (drop (?st + 2) src) = Some j" and
        r: "parse_reference_v1 word_tbl (take j (drop (?st + 2) src)) = Some r" and
        rec: "parse_loop word_tbl src (?st + 2 + j + 2) (?acc @ [ref_part r ?st (?st + 2 + j + 2)])
          = Inr ps"
        by (subst (asm) parse_loop.simps) (auto simp: Let_def split: option.splits)
      from index_of_drop [OF j] have e: "?st + 2 + j + 2 \<le> length src" by simp
      from "1.IH" [OF less Some refl refl j r rec e] obtain qs where
        qs: "ps = (?acc @ [ref_part r ?st (?st + 2 + j + 2)]) @ qs"
        "wf_parts word_tbl src (?st + 2 + j + 2) qs" by blast
      let ?rp = "ref_part r ?st (?st + 2 + j + 2)"
      have rp: "wf_parts word_tbl src ?st (?rp # qs)"
        using st j r e qs(2) by (simp add: ref_part_def add.commute)
      show ?thesis
      proof (cases "i = 0")
        case True
        with qs(1) rp show ?thesis by (intro exI [of _ "?rp # qs"]) simp
      next
        case False
        have "wf_parts word_tbl src off (lit_part src off ?st # ?rp # qs)"
          using rp Some st False by (simp add: lit_part_def del: wf_parts.simps(2))
            (simp add: lit_part_def)
        with qs(1) False show ?thesis
          by (intro exI [of _ "lit_part src off ?st # ?rp # qs"]) simp
      qed
    qed
  qed
qed

lemma parse_loop_complete:
  "wf_parts word_tbl src off qs \<Longrightarrow> parse_loop word_tbl src off acc = Inr (acc @ qs)"
proof (induction qs arbitrary: off acc rule: length_induct)
  case (1 qs)
  have ref: "parse_loop word_tbl src o' acc' = Inr (acc' @ p # ps)"
    if "part_ref p = Some r" "wf_parts word_tbl src o' (p # ps)" "length ps < length qs"
    for p ps r o' acc'
  proof -
    let ?j = "part_end p - o' - 4"
    from that have w: "o' + 4 \<le> part_end p" "part_end p \<le> length src" "part_start p = o'"
      "part_text p = []" "has_prefix ''{{'' (drop o' src)"
      "index_of ''}}'' (drop (o' + 2) src) = Some ?j"
      "parse_reference_v1 word_tbl (take ?j (drop (o' + 2) src)) = Some r"
      "wf_parts word_tbl src (part_end p) ps" by simp_all
    from w(1) have e: "o' + 2 + ?j + 2 = part_end p" "Suc (Suc (Suc (Suc (part_end p - 4)))) = part_end p"
      by simp_all
    have p: "ref_part r o' (part_end p) = p"
      using w that(1) by (cases p) (simp add: ref_part_def)
    have "parse_loop word_tbl src o' acc' =
        parse_loop word_tbl src (part_end p) (acc' @ [ref_part r o' (part_end p)])"
      using w e by (subst parse_loop.simps) (simp add: Let_def)
    also have "\<dots> = Inr ((acc' @ [ref_part r o' (part_end p)]) @ ps)"
      using "1.IH" that(3) w(8) by blast
    finally show ?thesis by (simp add: p)
  qed
  show ?case
  proof (cases qs)
    case Nil
    with "1.prems" show ?thesis by (subst parse_loop.simps) simp
  next
    case (Cons p ps)
    show ?thesis
    proof (cases "part_ref p")
      case (Some r)
      with ref [OF Some, of off ps] "1.prems" Cons show ?thesis by simp
    next
      case None
      from "1.prems" Cons None have w: "part_start p = off" "off < part_end p"
        "part_end p \<le> length src" "part_text p = take (part_end p - off) (drop off src)"
        "index_of ''{{'' (drop off src) = (if ps = [] then None else Some (part_end p - off))"
        "wf_parts word_tbl src (part_end p) ps" by simp_all
      have p: "lit_part src off (part_end p) = p"
        using w None by (cases p) (simp add: lit_part_def)
      show ?thesis
      proof (cases ps)
        case Nil
        with w p Cons show ?thesis by (subst parse_loop.simps) simp
      next
        case ps: (Cons q qs')
        with w(5) have ix: "index_of ''{{'' (drop off src) = Some (part_end p - off)" by simp
        from index_of_drop(2) [OF ix] w(2) have "has_prefix ''{{'' (drop (part_end p) src)" by simp
        then have z: "index_of ''{{'' (drop (part_end p) src) = Some 0"
          by simp
        from w(6) ps have "wf_parts word_tbl src (part_end p) (q # qs')" by simp
        from ref_at_brace [OF this \<open>has_prefix ''{{'' (drop (part_end p) src)\<close>]
        obtain r where r: "part_ref q = Some r" by auto
        from index_of_drop(1) [OF ix] w(2) have lt: "part_end p < length src" by simp
        have "parse_loop word_tbl src off acc = parse_loop word_tbl src (part_end p) (acc @ [p])"
          using w(2) lt ix z by (subst (1 2) parse_loop.simps)
            (simp add: Let_def p split: option.split)
        also have "\<dots> = Inr ((acc @ [p]) @ ps)"
          using ref [OF r, of "part_end p" qs'] w(6) ps Cons by simp
        finally show ?thesis using Cons by simp
      qed
    qed
  qed
qed

lemma parse_v1_tiling: "parse_v1 word_tbl src = Inr ps \<longleftrightarrow> wf_parts word_tbl src 0 ps"
  using parse_loop_sound [of word_tbl src 0 "[]" ps] parse_loop_complete [of word_tbl src 0 ps "[]"]
  by (auto simp: parse_v1_def)

text \<open>
  C2. The parser accepts a text with exactly the parts that tile it: no byte of the field is
  lost or read twice, literals carry their bytes verbatim and hold no unread \<open>{{\<close>, and every
  placeholder is a well-formed reference between its own braces.
\<close>

theorem parse_v1_iff_tiling:
  "parse_v1 word_tbl src = Inr ps \<longleftrightarrow> wf_parts word_tbl src 0 ps"
  by (rule parse_v1_tiling)

subsection \<open>Rewriting references\<close>

datatype 'e rewrite_error = MapperRequired | MapFailed nat 'e | MappedInvalid nat

fun rewrite :: "(nat \<Rightarrow> bool) \<Rightarrow> (reference \<Rightarrow> ('e, reference) go_result) option \<Rightarrow> part list \<Rightarrow>
    string \<Rightarrow> ('e rewrite_error, string) go_result" where
  "rewrite word_tbl mapper [] out = Inr out"
| "rewrite word_tbl mapper (p # ps) out =
     (case part_ref p of
        None \<Rightarrow> rewrite word_tbl mapper ps (out @ part_text p)
      | Some r \<Rightarrow>
          (case mapper of None \<Rightarrow> Inl MapperRequired
           | Some f \<Rightarrow>
               (case f r of Inl e \<Rightarrow> Inl (MapFailed (part_start p) e)
                | Inr mapped \<Rightarrow>
                    (case expression word_tbl mapped of None \<Rightarrow> Inl (MappedInvalid (part_start p))
                     | Some e \<Rightarrow> rewrite word_tbl mapper ps (out @ ''{{'' @ e @ ''}}'')))))"

text \<open>What a part says, without its place in the text.\<close>

definition part_content :: "part \<Rightarrow> string + reference" where
  "part_content p = (case part_ref p of None \<Rightarrow> Inl (part_text p) | Some r \<Rightarrow> Inr r)"

lemma has_prefix_local:
  assumes "j < length a"
  shows "has_prefix ''{{'' (drop j (a @ ''{{'' @ x)) \<longleftrightarrow> has_prefix ''{{'' (drop j (a @ ''{{'' @ y))"
proof -
  obtain c cs where d: "drop j a = c # cs" using assms by (cases "drop j a") auto
  have "drop j (a @ ''{{'' @ z) = c # cs @ ''{{'' @ z" for z
    using assms d by simp
  then show ?thesis by (cases cs) (simp_all add: has_prefix_def)
qed

lemma index_of_literal:
  assumes "index_of ''{{'' (a @ ''{{'' @ x) = Some (length a)"
  shows "index_of ''{{'' (a @ ''{{'' @ y) = Some (length a)"
  by (rule index_of_append) (use index_of_first [OF assms] has_prefix_local in blast)

lemma index_of_brace: "CHR ''}'' \<notin> set e \<Longrightarrow> index_of ''}}'' (e @ ''}}'' @ x) = Some (length e)"
  by (induction e) (auto simp: has_prefix_def)

lemma expression_brace_free:
  assumes "expression word_tbl r = Some e"
  shows "CHR ''}'' \<notin> set e"
proof -
  from parse_reference_cases [OF expression_parse [OF assms]] obtain ps where ps: "ps \<noteq> []"
    "\<forall>p \<in> set ps. valid_segment word_tbl p" "classify ps = Some r" .
  from classify_qualified [OF ps(3,1,2)] obtain prefix where
    pre: "expression_prefix r = Some prefix"
    and v: "\<forall>p \<in> set (prefix # ref_key r # ref_path r). valid_segment word_tbl p" .
  from pre assms have e: "e = join ''.'' (prefix # ref_key r # ref_path r)"
    by (auto simp: expression_def Let_def split: option.splits if_splits)
  show ?thesis
  proof
    assume "CHR ''}'' \<in> set e"
    from join_set [OF this [unfolded e]] v valid_segment_no_brace show False by fastforce
  qed
qed

text \<open>
  The rewritten text, re-parsed: \<open>src\<close> is the text the parts came from, \<open>out\<close> what was
  written before them.
\<close>

definition rewritten_part :: "(reference \<Rightarrow> ('e, reference) go_result) \<Rightarrow> part \<Rightarrow> part \<Rightarrow> bool" where
  "rewritten_part f p p' \<longleftrightarrow> (case part_content p of Inl t \<Rightarrow> part_content p' = Inl t
     | Inr r \<Rightarrow> (\<exists>r'. f r = Inr r' \<and> part_content p' = Inr r'))"

lemma rewrite_tiling:
  "wf_parts word_tbl src off ps \<Longrightarrow> rewrite word_tbl (Some f) ps out = Inr res \<Longrightarrow>
   \<exists>ps'. wf_parts word_tbl res (length out) ps' \<and> take (length out) res = out \<and>
     list_all2 (rewritten_part f) ps ps'"
  (is "_ \<Longrightarrow> _ \<Longrightarrow> \<exists>ps'. ?Q res out ps ps'")
proof (induction ps arbitrary: off out)
  case (Cons p ps)
  from Cons.prems(1) have tail: "wf_parts word_tbl src (part_end p) ps" by simp
  show ?case
  proof (cases "part_ref p")
    case (Some r)
    with Cons.prems(2) obtain r' e where f: "f r = Inr r'" and e: "expression word_tbl r' = Some e"
      and rw: "rewrite word_tbl (Some f) ps (out @ ''{{'' @ e @ ''}}'') = Inr res"
      by (auto split: sum.splits option.splits)
    from Cons.IH [OF tail rw] obtain ps' where ps': "?Q res (out @ ''{{'' @ e @ ''}}'') ps ps'"
      by blast
    then obtain rest where res: "res = out @ ''{{'' @ e @ ''}}'' @ rest"
      by (metis append_assoc append_take_drop_id)
    let ?p' = "ref_part r' (length out) (length out + 4 + length e)"
    have d: "drop (length out) res = ''{{'' @ e @ ''}}'' @ rest"
      "drop (length out + 2) res = e @ ''}}'' @ rest" "length out + 4 + length e \<le> length res"
      by (simp_all add: res)
    have "length (out @ ''{{'' @ e @ ''}}'') = length out + 4 + length e" by simp
    with ps' have "wf_parts word_tbl res (length out + 4 + length e) ps'" by metis
    moreover have "index_of ''}}'' (drop (length out + 2) res) = Some (length e)"
      unfolding d by (rule index_of_brace [OF expression_brace_free [OF e]])
    moreover have "parse_reference_v1 word_tbl (take (length e) (drop (length out + 2) res)) = Some r'"
      unfolding d using expression_parse [OF e] by simp
    moreover have "has_prefix ''{{'' (drop (length out) res)"
      unfolding d by (rule has_prefix_append)
    ultimately have "wf_parts word_tbl res (length out) (?p' # ps')"
      using d(3) by (simp add: ref_part_def)
    moreover have "rewritten_part f p ?p'"
      by (simp add: rewritten_part_def part_content_def ref_part_def Some f)
    with ps' have "list_all2 (rewritten_part f) (p # ps) (?p' # ps')" by simp
    moreover have "take (length out) res = out" by (simp add: res)
    ultimately show ?thesis by blast
  next
    case None
    let ?t = "part_text p"
    from Cons.prems(2) None have rw: "rewrite word_tbl (Some f) ps (out @ ?t) = Inr res" by simp
    from Cons.IH [OF tail rw] obtain ps' where ps': "?Q res (out @ ?t) ps ps'" by blast
    then obtain rest where res: "res = out @ ?t @ rest"
      by (metis append_assoc append_take_drop_id)
    from Cons.prems(1) None have t: "?t = take (part_end p - off) (drop off src)"
      "off < part_end p" "part_end p \<le> length src"
      "index_of ''{{'' (drop off src) = (if ps = [] then None else Some (part_end p - off))"
      by simp_all
    then have len: "length ?t = part_end p - off" by simp
    have ix: "index_of ''{{'' (?t @ rest) = (if ps' = [] then None else Some (length ?t))"
    proof (cases ps)
      case Nil
      with ps' have "ps' = []" "length (out @ ?t) = length res" by auto
      with res have "rest = []" "ps' = []" by simp_all
      with tail t Nil show ?thesis by simp
    next
      case (Cons q qs)
      with t have i: "index_of ''{{'' (drop off src) = Some (length ?t)" by (simp add: len)
      from index_of_drop(2) [OF i] len t(2) have "has_prefix ''{{'' (drop (part_end p) src)" by simp
      then obtain x where "drop (part_end p) src = ''{{'' @ x" by (auto simp: has_prefix_conv)
      moreover have "drop off src = ?t @ drop (part_end p) src"
        using t by (metis append_take_drop_id drop_drop le_add_diff_inverse2 less_imp_le)
      ultimately have i2: "index_of ''{{'' (?t @ ''{{'' @ x) = Some (length ?t)" using i by simp
      from ps' Cons obtain q' qs' where q': "ps' = q' # qs'" by (auto simp: list_all2_Cons1)
      have "part_ref q \<noteq> None"
        using tail Cons \<open>has_prefix ''{{'' (drop (part_end p) src)\<close> ref_at_brace by blast
      with ps' Cons q' have "part_ref q' \<noteq> None"
        by (auto simp: rewritten_part_def part_content_def split: option.splits)
      with ps' q' res have "has_prefix ''{{'' rest" by auto
      then obtain y where "rest = ''{{'' @ y" by (auto simp: has_prefix_conv)
      with index_of_literal [OF i2, of y] q' show ?thesis by simp
    qed
    let ?p' = "lit_part res (length out) (length out + length ?t)"
    have p': "part_text ?p' = ?t" by (simp add: lit_part_def res)
    have "drop (length out) res = ?t @ rest" by (simp add: res)
    moreover have "length out + length ?t \<le> length res" by (simp add: res)
    moreover from ps' have "wf_parts word_tbl res (length out + length ?t) ps'" by simp
    ultimately have "wf_parts word_tbl res (length out) (?p' # ps')"
      using ix len t(2) by (simp add: lit_part_def)
    moreover have "rewritten_part f p ?p'"
      using p' None by (simp add: rewritten_part_def part_content_def lit_part_def)
    with ps' have "list_all2 (rewritten_part f) (p # ps) (?p' # ps')" by simp
    moreover have "take (length out) res = out" by (simp add: res)
    ultimately show ?thesis by blast
  qed
qed simp

text \<open>
  C34. Rewriting round trip: re-parsing a rewritten template gives the same literals, byte for
  byte and part for part, and at each reference the mapped one.
\<close>

theorem rewrite_then_parse:
  assumes "parse_v1 word_tbl src = Inr ps" and "rewrite word_tbl (Some f) ps [] = Inr res"
  shows "\<exists>ps'. parse_v1 word_tbl res = Inr ps' \<and>
    list_all2 (rewritten_part f) ps ps'"
  using rewrite_tiling [OF assms(1) [unfolded parse_v1_tiling] assms(2)] parse_v1_tiling by auto

theorem rewrite_then_parse_witness:
  "\<exists>ps res. parse_v1 (\<lambda>_. False) ''a {{ x }}!'' = Inr ps \<and>
     rewrite (\<lambda>_. False) (Some Inr) ps [] = (Inr res :: (unit rewrite_error, string) go_result) \<and>
     res = ''a {{subject.x}}!'' \<and>
     (\<exists>ps'. parse_v1 (\<lambda>_. False) res = Inr ps' \<and>
        list_all2 (rewritten_part (Inr :: reference \<Rightarrow> (unit, reference) go_result)) ps ps')"
proof -
  let ?r = "\<lparr>ref_scope = ScopeSubject, ref_namespace = [], ref_key = ''x'', ref_path = []\<rparr>"
  let ?ps = "[lit_part ''a {{ x }}!'' 0 2, ref_part ?r 2 9, lit_part ''a {{ x }}!'' 9 10]"
  have ref: "parse_reference_v1 (\<lambda>_. False) '' x '' = Some ?r"
    "parse_reference_v1 (\<lambda>_. False) ''subject.x'' = Some ?r"
    by (simp_all add: parse_reference_v1_def trim_space_def is_space_rune_def valid_segment_def
      is_word_rune_def)
  have ps: "parse_v1 (\<lambda>_. False) ''a {{ x }}!'' = Inr ?ps"
    by (simp add: parse_v1_def parse_loop.simps has_prefix_def ref eval_nat_numeral)
  have ex: "expression (\<lambda>_. False) ?r = Some ''subject.x''"
    by (simp add: expression_def expression_prefix_def ref)
  have rw: "rewrite (\<lambda>_. False) (Some Inr) ?ps [] =
      (Inr ''a {{subject.x}}!'' :: (unit rewrite_error, string) go_result)"
    by (simp add: lit_part_def ref_part_def ex)
  from rewrite_then_parse [OF ps rw] ps rw show ?thesis by blast
qed

subsection \<open>Rendering\<close>

type_synonym missing_policy = nat \<comment> \<open>Go: \<open>uint8\<close>\<close>

definition missing_error :: missing_policy where "missing_error = 0"
definition missing_empty :: missing_policy where "missing_empty = 1"

datatype ('e, 'f) render_error =
    UnsupportedPolicy
  | ResolverRequired
  | ResolveFailed nat 'e
  | Unresolved nat
  | FormatFailed nat 'f

type_synonym ('e, 'v) resolver = "reference \<Rightarrow> ('e, 'v option) go_result"

fun render_loop :: "('v \<Rightarrow> ('f, string) go_result) \<Rightarrow> ('e, 'v) resolver option \<Rightarrow> missing_policy \<Rightarrow>
    (string \<Rightarrow> string) option \<Rightarrow> part list \<Rightarrow> string \<Rightarrow> (('e, 'f) render_error, string) go_result" where
  "render_loop format resolve missing escape [] out = Inr out"
| "render_loop format resolve missing escape (p # ps) out =
     (case part_ref p of
        None \<Rightarrow> render_loop format resolve missing escape ps (out @ part_text p)
      | Some r \<Rightarrow>
          (case resolve of None \<Rightarrow> Inl ResolverRequired
           | Some f \<Rightarrow>
               (case f r of Inl e \<Rightarrow> Inl (ResolveFailed (part_start p) e)
                | Inr None \<Rightarrow>
                    if missing = missing_empty
                    then render_loop format resolve missing escape ps out
                    else Inl (Unresolved (part_start p))
                | Inr (Some v) \<Rightarrow>
                    (case format v of Inl e \<Rightarrow> Inl (FormatFailed (part_start p) e)
                     | Inr t \<Rightarrow>
                         let t' = (case escape of None \<Rightarrow> t | Some g \<Rightarrow> g t)
                         in render_loop format resolve missing escape ps (out @ t')))))"

definition render :: "('v \<Rightarrow> ('f, string) go_result) \<Rightarrow> ('e, 'v) resolver option \<Rightarrow> missing_policy \<Rightarrow>
    (string \<Rightarrow> string) option \<Rightarrow> part list \<Rightarrow> (('e, 'f) render_error, string) go_result" where
  "render format resolve missing escape ps =
     (if missing \<noteq> missing_error \<and> missing \<noteq> missing_empty then Inl UnsupportedPolicy
      else render_loop format resolve missing escape ps [])"

text \<open>What one part contributes to the text: the contract of rendering.\<close>

definition part_renders :: "('v \<Rightarrow> ('f, string) go_result) \<Rightarrow> ('e, 'v) resolver option \<Rightarrow>
    missing_policy \<Rightarrow> (string \<Rightarrow> string) option \<Rightarrow> part \<Rightarrow> string \<Rightarrow> bool" where
  "part_renders format resolve missing escape p t \<longleftrightarrow>
     (case part_content p of
        Inl lit \<Rightarrow> t = lit
      | Inr r \<Rightarrow> (\<exists>f. resolve = Some f \<and>
          ((f r = Inr None \<and> missing = missing_empty \<and> t = []) \<or>
           (\<exists>v s. f r = Inr (Some v) \<and> format v = Inr s \<and>
              t = (case escape of None \<Rightarrow> s | Some g \<Rightarrow> g s)))))"

lemma render_loop_Inr:
  "render_loop format resolve missing escape ps out = Inr res \<longleftrightarrow>
   (\<exists>ts. list_all2 (part_renders format resolve missing escape) ps ts \<and> res = out @ concat ts)"
proof (induction ps arbitrary: out)
  case (Cons p ps)
  have step: "render_loop format resolve missing escape (p # ps) out = Inr res \<longleftrightarrow>
      (\<exists>t. part_renders format resolve missing escape p t \<and>
         render_loop format resolve missing escape ps (out @ t) = Inr res)"
    by (auto simp: part_renders_def part_content_def Let_def split: option.splits sum.splits)
  show ?case by (simp only: step Cons.IH) (force simp: list_all2_Cons1)
qed auto

text \<open>
  Rendering is all or nothing and never re-reads a value: it succeeds exactly when the
  policy is known and every part has its text (a literal its bytes, a reference the value
  formatted and escaped once, or nothing where a missing value is permitted), and the result
  is these texts in order.
\<close>

theorem render_Inr_iff:
  "render format resolve missing escape ps = Inr res \<longleftrightarrow>
   (missing = missing_error \<or> missing = missing_empty) \<and>
   (\<exists>ts. list_all2 (part_renders format resolve missing escape) ps ts \<and> res = concat ts)"
  by (auto simp: render_def render_loop_Inr)

end
