(* ===== verification/Values.thy ===== *)
theory Values
  imports Complex_Main Json Template
begin

text \<open>
  \<open>src/variables/values.go\<close> and \<open>src/integration/vars.go\<close>: the already loaded scopes a reference
  is looked up in, and how a found value becomes text.

  A Go map is an association list (\<open>map_of\<close> reads it, a nil map is \<open>[]\<close>). \<open>lookup\<close> is
  \<open>Values.Lookup\<close> (its error is the one of \<open>Reference.Expression\<close>), \<open>walk\<close> is \<open>Walk\<close>,
  \<open>format_value\<close> is \<open>Format\<close>, \<open>format_number\<close> is \<open>formatNumber\<close>. \<open>show_float\<close> and
  \<open>show_fixed\<close> are the two shortest forms of a finite \<open>float64\<close> (\<open>json.Marshal\<close>'s and
  \<open>FormatFloat(x, 'f', -1, 64)\<close>), by its bits.
\<close>

type_synonym json_map = "(string \<times> json) list"

record var_values =
  v_subject :: json_map
  v_project :: json_map
  v_integrations :: "(string \<times> json_map) list"
  v_project_id :: string
  v_context :: json_map
  v_integration_state :: json_map

subsection \<open>Lookup\<close>

fun walk :: "json \<Rightarrow> string list \<Rightarrow> json option" where
  "walk v [] = Some v"
| "walk v (p # ps) = (case v of
     JObj ms \<Rightarrow> (case map_of ms p of None \<Rightarrow> None | Some w \<Rightarrow> walk w ps)
   | JArr vs \<Rightarrow> (case atoi p of None \<Rightarrow> None
       | Some i \<Rightarrow> if i < 0 \<or> int (length vs) \<le> i \<or> itoa (nat i) \<noteq> p then None
                   else walk (vs ! nat i) ps)
   | _ \<Rightarrow> None)"

definition scope_root :: "var_values \<Rightarrow> reference \<Rightarrow> json_map" where
  "scope_root v r = (case ref_scope r of
     ScopeSubject \<Rightarrow> v_subject v
   | ScopeProject \<Rightarrow> v_project v
   | ScopeIntegration \<Rightarrow> (case map_of (v_integrations v) (ref_namespace r) of None \<Rightarrow> [] | Some m \<Rightarrow> m)
   | ScopeRuntime \<Rightarrow>
       if ref_namespace r = ''context'' then v_context v
       else if ref_namespace r = ''integrationState'' then v_integration_state v else []
   | ScopeOther _ \<Rightarrow> [])"

definition lookup :: "(nat \<Rightarrow> bool) \<Rightarrow> var_values \<Rightarrow> reference \<Rightarrow> (unit, json option) go_result" where
  "lookup word_tbl v r =
     (if expression word_tbl r = None then Inl ()
      else if ref_scope r = ScopeRuntime \<and> ref_namespace r = ''project'' then
        (if v_project_id v = [] then Inr None else Inr (walk (JStr (v_project_id v)) (ref_path r)))
      else (case map_of (scope_root v r) (ref_key r) of
              None \<Rightarrow> Inr None
            | Some w \<Rightarrow> Inr (walk w (ref_path r))))"

subsection \<open>Text of a value\<close>

datatype format_error = EncodeFailed | InvalidNumber | ExpansionTooLong

definition is_exp_char :: "char \<Rightarrow> bool" where
  "is_exp_char c \<longleftrightarrow> c = CHR ''e'' \<or> c = CHR ''E''"

definition split_exponent :: "string \<Rightarrow> (int \<times> string) option" where
  "split_exponent ds =
     (if \<not> list_ex is_exp_char ds then Some (0, ds)
      else let i = length (takeWhile (\<lambda>c. \<not> is_exp_char c) ds)
           in (case atoi (drop (i + 1) ds) of None \<Rightarrow> None
               | Some e \<Rightarrow> if e < - 4096 \<or> 4096 < e then None else Some (e, take i ds)))"

definition split_point :: "string \<Rightarrow> nat \<times> string" where
  "split_point ds = (case index_of ''.'' ds of
     None \<Rightarrow> (length ds, ds)
   | Some i \<Rightarrow> (i, take i ds @ drop (i + 1) ds))"

definition place_point :: "string \<Rightarrow> int \<Rightarrow> string" where
  "place_point ds p =
     (if p \<le> 0 then ''0.'' @ replicate (nat (- p)) (CHR ''0'') @ ds
      else if int (length ds) \<le> p then ds @ replicate (nat p - length ds) (CHR ''0'')
      else take (nat p) ds @ ''.'' @ drop (nat p) ds)"

definition tidy :: "string \<Rightarrow> string" where
  "tidy ds =
     (let ds = (if CHR ''.'' \<in> set ds
                then trim_right_char (CHR ''.'') (trim_right_char (CHR ''0'') ds) else ds);
          ds = trim_left_char (CHR ''0'') ds
      in if ds = [] \<or> has_prefix ''.'' ds then ''0'' @ ds else ds)"

definition format_number :: "string \<Rightarrow> (format_error, string) go_result" where
  "format_number num =
     (if \<not> valid_number num \<and> num \<noteq> [] \<or> num = [] then Inl InvalidNumber
      else let sign = (if has_prefix ''-'' num then ''-'' else []);
               ds = (if has_prefix ''-'' num then drop 1 num else num)
           in (case split_exponent ds of None \<Rightarrow> Inl ExpansionTooLong
               | Some (e, ds) \<Rightarrow>
                   (case split_point ds of (point, ds) \<Rightarrow>
                      let point = int point + e
                      in if 4096 < length ds \<or> 4096 < point \<or> 4096 < int (length ds) - point
                         then Inl ExpansionTooLong
                         else Inr (sign @ tidy (place_point ds point)))))"

definition format_value ::
  "(nat \<Rightarrow> string) \<Rightarrow> (nat \<Rightarrow> string) \<Rightarrow> json \<Rightarrow> (format_error, string) go_result" where
  "format_value show_float show_fixed v = (case v of
     JNull \<Rightarrow> Inr []
   | JStr s \<Rightarrow> Inr s
   | JBool b \<Rightarrow> Inr (if b then ''true'' else ''false'')
   | JFloat bits \<Rightarrow> if float_finite bits then Inr (show_fixed bits) else Inl EncodeFailed
   | JNum s \<Rightarrow> format_number s
   | _ \<Rightarrow> (case marshal show_float v of None \<Rightarrow> Inl EncodeFailed | Some s \<Rightarrow> Inr s))"

text \<open>\<open>Vars.SubstituteFunc\<close>: a template rendered over the values; the left summand of its
  error is the syntax error of the template.\<close>

definition substitute_func :: "(nat \<Rightarrow> bool) \<Rightarrow> (nat \<Rightarrow> string) \<Rightarrow> (nat \<Rightarrow> string) \<Rightarrow> var_values \<Rightarrow>
    string \<Rightarrow> (string \<Rightarrow> string) option \<Rightarrow>
    (nat + (unit, format_error) render_error, string) go_result" where
  "substitute_func word_tbl show_float show_fixed v src escape =
     (case parse_v1 word_tbl src of
        Inl off \<Rightarrow> Inl (Inl off)
      | Inr ps \<Rightarrow>
          (case render (format_value show_float show_fixed) (Some (lookup word_tbl v))
                  missing_empty escape ps of
             Inl e \<Rightarrow> Inl (Inr e) | Inr out \<Rightarrow> Inr out))"

definition substitute where
  "substitute word_tbl show_float show_fixed v src =
     substitute_func word_tbl show_float show_fixed v src None"

text \<open>\<open>Vars.Lookup\<close>: a reference without braces.\<close>

definition vars_lookup :: "(nat \<Rightarrow> bool) \<Rightarrow> var_values \<Rightarrow> string \<Rightarrow> json option" where
  "vars_lookup word_tbl v key = (case parse_reference_v1 word_tbl key of None \<Rightarrow> None
     | Some r \<Rightarrow> (case lookup word_tbl v r of Inl _ \<Rightarrow> None | Inr w \<Rightarrow> w))"

subsection \<open>The value of a number token\<close>

definition frac_part :: "string \<Rightarrow> string" where
  "frac_part s = drop 1 (dropWhile (\<lambda>c. c \<noteq> CHR ''.'') s)"

definition int_part :: "string \<Rightarrow> string" where
  "int_part s = takeWhile (\<lambda>c. c \<noteq> CHR ''.'') s"

definition decimal_val :: "string \<Rightarrow> rat" where
  "decimal_val s = of_nat (digits_val (int_part s @ frac_part s)) / 10 ^ length (frac_part s)"

definition exponent_val :: "string \<Rightarrow> int" where
  "exponent_val s = (case s of [] \<Rightarrow> 0
     | c # r \<Rightarrow> if has_prefix ''-'' r then - int (digits_val (drop 1 r))
               else if has_prefix ''+'' r then int (digits_val (drop 1 r)) else int (digits_val r))"

definition number_val :: "string \<Rightarrow> rat" where
  "number_val s = (if has_prefix ''-'' s then - 1 else 1)
     * decimal_val (takeWhile (\<lambda>c. \<not> is_exp_char c) (strip_minus s))
     * 10 powi exponent_val (dropWhile (\<lambda>c. \<not> is_exp_char c) (strip_minus s))"

lemma digits_val_append: "digits_val (a @ b) = digits_val a * 10 ^ length b + digits_val b"
proof (induction b rule: rev_induct)
  case Nil
  then show ?case by (simp add: digits_val_def)
next
  case (snoc c b)
  have "digits_val (a @ b @ [c]) = 10 * digits_val (a @ b) + digit_val c"
    by (metis append_assoc digits_val_snoc)
  with snoc show ?case by (simp add: algebra_simps)
qed

lemma digits_val_zero_Cons [simp]: "digits_val (CHR ''0'' # s) = digits_val s"
  by (simp add: digits_val_def digit_val_def)

lemma digits_val_zeros [simp]: "digits_val (replicate n (CHR ''0'') @ s) = digits_val s"
  by (induction n) simp_all

lemma digits_val_Nil [simp]: "digits_val [] = 0"
  by (simp add: digits_val_def)

lemma digits_val_only_zeros [simp]: "digits_val (replicate n (CHR ''0'')) = 0"
  using digits_val_zeros [of n "[]"] by simp

lemma int_part_plain: "CHR ''.'' \<notin> set a \<Longrightarrow> int_part a = a \<and> frac_part a = []"
  by (induction a) (auto simp: int_part_def frac_part_def)

lemma int_part_point: "CHR ''.'' \<notin> set a \<Longrightarrow>
    int_part (a @ CHR ''.'' # b) = a \<and> frac_part (a @ CHR ''.'' # b) = b"
  by (induction a) (auto simp: int_part_def frac_part_def)

lemma decimal_plain: "CHR ''.'' \<notin> set a \<Longrightarrow> decimal_val a = of_nat (digits_val a)"
  by (simp add: decimal_val_def int_part_plain)

lemma decimal_point: "CHR ''.'' \<notin> set a \<Longrightarrow>
  decimal_val (a @ CHR ''.'' # b) = of_nat (digits_val (a @ b)) / 10 ^ length b"
  by (simp add: decimal_val_def int_part_point)

text \<open>The three steps of \<open>tidy\<close>.\<close>

lemma decimal_zero_Cons [simp]: "decimal_val (CHR ''0'' # s) = decimal_val s"
  by (simp add: decimal_val_def int_part_def frac_part_def)

lemma decimal_zeros [simp]: "decimal_val (replicate n (CHR ''0'') @ s) = decimal_val s"
  by (induction n) simp_all

lemma decimal_trim_left: "decimal_val (trim_left_char (CHR ''0'') s) = decimal_val s"
  by (rule trim_left_char_ex [of s "CHR ''0''"]) (metis decimal_zeros)

lemma decimal_frac_zeros:
  assumes "CHR ''.'' \<notin> set a"
  shows "decimal_val (a @ CHR ''.'' # b @ replicate n (CHR ''0'')) = decimal_val (a @ CHR ''.'' # b)"
  using assms by (simp add: decimal_point digits_val_append power_add field_simps)

lemma tidy_point:
  assumes "CHR ''.'' \<notin> set a" "CHR ''.'' \<notin> set b"
  shows "decimal_val (trim_right_char (CHR ''.'') (trim_right_char (CHR ''0'') (a @ CHR ''.'' # b)))
     = decimal_val (a @ CHR ''.'' # b)"
proof -
  let ?b = "trim_right_char (CHR ''0'') b"
  obtain n where n: "b = ?b @ replicate n (CHR ''0'')"
    using trim_right_char_ex by blast
  have v: "decimal_val (a @ CHR ''.'' # ?b) = decimal_val (a @ CHR ''.'' # b)"
    using decimal_frac_zeros [OF assms(1), of ?b n] n by simp
  have t: "trim_right_char (CHR ''0'') (a @ CHR ''.'' # b) = a @ CHR ''.'' # ?b"
    by (simp add: trim_right_char_mid)
  show ?thesis
  proof (cases "?b = []")
    case True
    with t v assms(1) show ?thesis
      by (simp add: trim_right_char_snoc trim_right_no decimal_plain decimal_point)
  next
    case False
    have "CHR ''.'' \<notin> set ?b" using assms(2) trim_right_char_set by blast
    with False have "last (a @ CHR ''.'' # ?b) \<noteq> CHR ''.''"
      by (metis last_appendR last_ConsR last_in_set list.distinct(1))
    with t v show ?thesis by (simp add: trim_right_char_id)
  qed
qed

lemma tidy_val:
  assumes "CHR ''.'' \<notin> set ds \<or> (\<exists>a b. ds = a @ CHR ''.'' # b \<and> CHR ''.'' \<notin> set a \<and> CHR ''.'' \<notin> set b)"
  shows "decimal_val (tidy ds) = decimal_val ds"
proof -
  let ?d = "if CHR ''.'' \<in> set ds
    then trim_right_char (CHR ''.'') (trim_right_char (CHR ''0'') ds) else ds"
  have 1: "decimal_val ?d = decimal_val ds" using assms tidy_point by auto
  let ?e = "trim_left_char (CHR ''0'') ?d"
  have "decimal_val (tidy ds) = decimal_val ?e" unfolding tidy_def Let_def by simp
  with 1 show ?thesis by (simp only: decimal_trim_left)
qed

lemma place_point_shape:
  assumes "list_all is_digit ds"
  shows "CHR ''.'' \<notin> set (place_point ds p) \<or>
    (\<exists>a b. place_point ds p = a @ CHR ''.'' # b \<and> CHR ''.'' \<notin> set a \<and> CHR ''.'' \<notin> set b)"
proof -
  have "CHR ''.'' \<notin> set ds" using assms by (auto simp: list_all_iff is_digit_def)
  then have t: "CHR ''.'' \<notin> set (take n ds)" "CHR ''.'' \<notin> set (drop n ds)" for n
    by (meson in_set_takeD in_set_dropD)+
  show ?thesis
  proof (cases "p \<le> 0")
    case True
    let ?b = "replicate (nat (- p)) (CHR ''0'') @ ds"
    have "place_point ds p = ''0'' @ CHR ''.'' # ?b" using True by (simp add: place_point_def)
    moreover have "CHR ''.'' \<notin> set ?b" using \<open>CHR ''.'' \<notin> set ds\<close> by simp
    ultimately show ?thesis by (intro disjI2 exI [of _ "''0''"] exI [of _ ?b]) simp
  next
    case False
    show ?thesis
    proof (cases "int (length ds) \<le> p")
      case True
      with False \<open>CHR ''.'' \<notin> set ds\<close> show ?thesis by (simp add: place_point_def)
    next
      case F: False
      with False have "place_point ds p = take (nat p) ds @ CHR ''.'' # drop (nat p) ds"
        by (simp add: place_point_def)
      with t show ?thesis by blast
    qed
  qed
qed

lemma powi_neg_nat: "x / (10::rat) ^ k = x * 10 powi (- int k)"
  by (simp only: power_int_minus power_int_of_nat divide_inverse)

lemma place_point_val:
  assumes "list_all is_digit ds"
  shows "decimal_val (place_point ds p) = of_nat (digits_val ds) * 10 powi (p - int (length ds))"
proof -
  have nd: "CHR ''.'' \<notin> set ds" using assms by (auto simp: list_all_iff is_digit_def)
  consider "p \<le> 0" | "0 < p" "int (length ds) \<le> p" | "0 < p" "p < int (length ds)" by linarith
  then show ?thesis
  proof cases
    case 1
    let ?n = "nat (- p)"
    have "place_point ds p = ''0'' @ CHR ''.'' # (replicate ?n (CHR ''0'') @ ds)"
      using 1 by (simp add: place_point_def)
    then have "decimal_val (place_point ds p) = of_nat (digits_val ds) / 10 ^ (?n + length ds)"
      using decimal_point [of "''0''" "replicate ?n (CHR ''0'') @ ds"] by simp
    also have "\<dots> = of_nat (digits_val ds) * 10 powi (- int (?n + length ds))"
      by (rule powi_neg_nat)
    also have "- int (?n + length ds) = p - int (length ds)" using 1 by simp
    finally show ?thesis .
  next
    case 2
    let ?n = "nat p - length ds"
    have "decimal_val (place_point ds p) = of_nat (digits_val ds) * 10 ^ ?n"
      using 2 nd by (simp add: place_point_def decimal_plain digits_val_append)
    also have "\<dots> = of_nat (digits_val ds) * 10 powi (int ?n)" by simp
    also have "int ?n = p - int (length ds)" using 2 by simp
    finally show ?thesis .
  next
    case 3
    have "CHR ''.'' \<notin> set (take (nat p) ds)" using nd by (meson in_set_takeD)
    then have "decimal_val (place_point ds p) = of_nat (digits_val ds) / 10 ^ (length ds - nat p)"
      using 3 decimal_point [of "take (nat p) ds" "drop (nat p) ds"] by (simp add: place_point_def)
    also have "\<dots> = of_nat (digits_val ds) * 10 powi (- int (length ds - nat p))"
      by (rule powi_neg_nat)
    also have "- int (length ds - nat p) = p - int (length ds)" using 3 by simp
    finally show ?thesis .
  qed
qed

text \<open>The shape of a number token.\<close>

lemma valid_number_shape:
  assumes "valid_number s"
  obtains ip fp ex where "strip_minus s = ip @ fp @ ex" "ip \<noteq> []" "list_all is_digit ip"
    "fp = [] \<or> (\<exists>ds. fp = CHR ''.'' # ds \<and> list_all is_digit ds)" "valid_exp ex"
proof -
  let ?r = "strip_minus s"
  let ?ip = "takeWhile is_digit ?r"
  let ?q = "dropWhile is_digit ?r"
  have ip: "?r = ?ip @ ?q" "list_all is_digit ?ip" by (simp_all add: list_all_iff) (meson set_takeWhileD)
  from assms have ne: "?ip \<noteq> []" and q: "valid_frac_exp ?q"
    unfolding valid_number_def Let_def by simp_all
  show thesis
  proof (cases "\<exists>r. ?q = CHR ''.'' # r")
    case True
    then obtain r where r: "?q = CHR ''.'' # r" ..
    have "r = takeWhile is_digit r @ dropWhile is_digit r" by simp
    moreover have "list_all is_digit (takeWhile is_digit r)"
      by (simp add: list_all_iff) (meson set_takeWhileD)
    moreover have "valid_exp (dropWhile is_digit r)" using q by (simp add: valid_frac_exp_def r)
    ultimately show thesis
      using that [of ?ip "CHR ''.'' # takeWhile is_digit r" "dropWhile is_digit r"] ip ne r by simp
  next
    case False
    have "valid_exp ?q"
    proof (cases "?q")
      case Nil
      then show ?thesis by (simp only: valid_exp_def list.case)
    next
      case (Cons c r)
      with False have "c \<noteq> CHR ''.''" by blast
      with q Cons show ?thesis by (simp only: valid_frac_exp_def list.case if_False)
    qed
    then show thesis using that [of ?ip "[]" ?q] ip ne by simp
  qed
qed

lemma digit_not_special:
  "is_digit c \<Longrightarrow> \<not> is_exp_char c \<and> c \<noteq> CHR ''.'' \<and> c \<noteq> CHR ''-'' \<and> c \<noteq> CHR ''+''"
  by (auto simp: is_digit_def is_exp_char_def)

lemma mantissa_shape:
  assumes "valid_number s"
  obtains ip fp where
    "takeWhile (\<lambda>c. \<not> is_exp_char c) (strip_minus s) = ip @ (if fp = None then [] else CHR ''.'' # the fp)"
    "list_all is_digit (ip @ (if fp = None then [] else the fp))" "ip \<noteq> []"
proof -
  from valid_number_shape [OF assms] obtain ip fp ex where s:
    "strip_minus s = ip @ fp @ ex" "ip \<noteq> []" "list_all is_digit ip"
    "fp = [] \<or> (\<exists>ds. fp = CHR ''.'' # ds \<and> list_all is_digit ds)" "valid_exp ex" .
  have "takeWhile (\<lambda>c. \<not> is_exp_char c) ex = []"
    using s(5) by (cases ex) (auto simp: valid_exp_def is_exp_char_def)
  moreover have "\<not> is_exp_char c" if "c \<in> set (ip @ fp)" for c
  proof -
    have "\<not> is_exp_char (CHR ''.'')" by (simp add: is_exp_char_def)
    moreover from that s(4) have "c \<in> set ip \<or> c = CHR ''.'' \<or> c \<in> set (tl fp) \<and> list_all is_digit (tl fp)"
      by force
    ultimately show ?thesis using s(3) digit_not_special by (metis list_all_iff)
  qed
  ultimately have "takeWhile (\<lambda>c. \<not> is_exp_char c) (strip_minus s) = ip @ fp"
    using takeWhile_append2 [of "ip @ fp" "\<lambda>c. \<not> is_exp_char c" ex] s(1) by simp
  note m = this
  from s(4) show thesis
  proof
    assume "fp = []"
    with m s(2,3) show thesis by (intro that [of ip None]) simp_all
  next
    assume "\<exists>ds. fp = CHR ''.'' # ds \<and> list_all is_digit ds"
    then obtain ds where "fp = CHR ''.'' # ds" "list_all is_digit ds" by blast
    with m s(2,3) show thesis by (intro that [of ip "Some ds"]) simp_all
  qed
qed

lemma atoi_exponent:
  assumes "atoi r = Some e"
  shows "(if has_prefix ''-'' r then - int (digits_val (drop 1 r))
     else if has_prefix ''+'' r then int (digits_val (drop 1 r)) else int (digits_val r)) = e"
proof (cases r)
  case Nil
  with assms show ?thesis by (simp add: atoi_def)
next
  case (Cons x xs)
  consider "x = CHR ''-''" | "x = CHR ''+''" | "x \<noteq> CHR ''-''" "x \<noteq> CHR ''+''" by blast
  then show ?thesis
    by cases (use assms Cons in \<open>simp_all add: atoi_def has_prefix_def Let_def split: if_splits\<close>)
qed

lemma split_exponent_Some:
  assumes "split_exponent ds = Some (e, m)"
  shows "m = takeWhile (\<lambda>c. \<not> is_exp_char c) ds"
    and "e = exponent_val (dropWhile (\<lambda>c. \<not> is_exp_char c) ds)"
    and "- 4096 \<le> e" "e \<le> 4096"
proof -
  let ?P = "\<lambda>c. \<not> is_exp_char c"
  show "m = takeWhile ?P ds" "- 4096 \<le> e" "e \<le> 4096"
    using assms takeWhile_eq_take [of ?P ds] takeWhile_eq_all_conv [of ?P ds, THEN iffD2, symmetric]
    by (auto simp: split_exponent_def Let_def list_ex_iff split: if_splits option.splits)
  show "e = exponent_val (dropWhile ?P ds)"
  proof (cases "list_ex is_exp_char ds")
    case False
    then have "dropWhile ?P ds = []" by (simp add: list_ex_iff dropWhile_eq_Nil_conv)
    moreover have "e = 0" using False assms by (simp add: split_exponent_def)
    ultimately show ?thesis by (simp only: exponent_val_def list.case)
  next
    case True
    then have "dropWhile ?P ds \<noteq> []" by (auto simp: list_ex_iff)
    then obtain c r where cr: "dropWhile ?P ds = c # r" by (cases "dropWhile ?P ds") auto
    have "drop (length (takeWhile ?P ds) + 1) ds = r"
      by (metis cr drop_Suc Suc_eq_plus1 drop_drop dropWhile_eq_drop list.sel(3) drop_0 add.commute)
    with True assms have "atoi r = Some e"
      by (auto simp: split_exponent_def Let_def split: option.splits if_splits)
    then show ?thesis by (simp add: cr exponent_val_def atoi_exponent)
  qed
qed

lemma set_place_point: "set (place_point ds p) \<subseteq> insert (CHR ''0'') (insert (CHR ''.'') (set ds))"
  by (auto simp: place_point_def dest: in_set_takeD in_set_dropD)

lemma tidy_decomp:
  obtains r x k l where "ds = r @ x" "r = replicate k (CHR ''0'') @ l"
    "tidy ds = (if l = [] \<or> has_prefix ''.'' l then ''0'' @ l else l)"
proof -
  define r where "r = (if CHR ''.'' \<in> set ds
    then trim_right_char (CHR ''.'') (trim_right_char (CHR ''0'') ds) else ds)"
  have t: "tidy ds = (let l = trim_left_char (CHR ''0'') r in
      if l = [] \<or> has_prefix ''.'' l then ''0'' @ l else l)"
    unfolding tidy_def r_def Let_def by simp
  have "\<exists>x. s = trim_right_char c s @ x" for s c using trim_right_char_ex by blast
  then obtain u v where u: "ds = trim_right_char (CHR ''0'') ds @ u" and
    v: "trim_right_char (CHR ''0'') ds =
      trim_right_char (CHR ''.'') (trim_right_char (CHR ''0'') ds) @ v" by meson
  have "\<exists>x. ds = r @ x"
  proof (cases "CHR ''.'' \<in> set ds")
    case True
    then have "ds = r @ v @ u" unfolding r_def using u v by (simp only: if_True append_assoc [symmetric])
    then show ?thesis ..
  qed (simp add: r_def)
  then obtain x where x: "ds = r @ x" ..
  obtain k where k: "r = replicate k (CHR ''0'') @ trim_left_char (CHR ''0'') r"
    using trim_left_char_ex by blast
  show thesis by (rule that [OF x k]) (simp add: t Let_def)
qed

lemma set_tidy: "set (tidy ds) \<subseteq> insert (CHR ''0'') (set ds)"
proof -
  obtain r x k l where "ds = r @ x" "r = replicate k (CHR ''0'') @ l"
    "tidy ds = (if l = [] \<or> has_prefix ''.'' l then ''0'' @ l else l)" by (rule tidy_decomp)
  then show ?thesis by auto
qed

lemma length_tidy:
  assumes "ds \<noteq> []" "hd ds \<noteq> CHR ''.''"
  shows "length (tidy ds) \<le> length ds"
proof -
  obtain r x k l where d: "ds = r @ x" "r = replicate k (CHR ''0'') @ l"
    "tidy ds = (if l = [] \<or> has_prefix ''.'' l then ''0'' @ l else l)" by (rule tidy_decomp)
  have "l = [] \<or> \<not> has_prefix ''.'' l \<or> 0 < k"
  proof (rule ccontr)
    assume "\<not> ?thesis"
    with d have "has_prefix ''.'' ds" by (auto simp: has_prefix_conv)
    with assms show False by (auto simp: has_prefix_conv)
  qed
  with d assms(1) show ?thesis by (cases "l = []") (auto simp: Suc_le_eq)
qed

lemma number_val_signed:
  assumes "list_all (\<lambda>c. is_digit c \<or> c = CHR ''.'') t" and "sign = [] \<or> sign = ''-''"
  shows "number_val (sign @ t) = (if sign = [] then 1 else - 1) * decimal_val t"
proof -
  have t: "\<forall>c \<in> set t. \<not> is_exp_char c \<and> c \<noteq> CHR ''-''"
  proof
    fix c assume "c \<in> set t"
    with assms(1) have "is_digit c \<or> c = CHR ''.''" by (auto simp: list_all_iff)
    then show "\<not> is_exp_char c \<and> c \<noteq> CHR ''-''"
      using digit_not_special by (auto simp: is_exp_char_def)
  qed
  then have "strip_minus t = t \<and> \<not> has_prefix ''-'' t"
    by (cases t) (simp_all add: strip_minus_def has_prefix_def)
  then have "strip_minus (sign @ t) = t" "has_prefix ''-'' (sign @ t) \<longleftrightarrow> sign \<noteq> []"
    using assms(2) by (elim disjE; simp add: strip_minus_def has_prefix_def)+
  moreover have "takeWhile (\<lambda>c. \<not> is_exp_char c) t = t" and d: "dropWhile (\<lambda>c. \<not> is_exp_char c) t = []"
    using t by (simp_all add: takeWhile_eq_all_conv dropWhile_eq_Nil_conv)
  moreover have "exponent_val (dropWhile (\<lambda>c. \<not> is_exp_char c) t) = 0"
    unfolding d exponent_val_def by simp
  ultimately show ?thesis by (simp del: takeWhile_eq_all_conv dropWhile_eq_Nil_conv add: number_val_def)
qed

lemma split_point_val:
  assumes "split_point m = (point, ds)"
    and "m = ip @ (if fp = None then [] else CHR ''.'' # the fp)"
    and "list_all is_digit (ip @ (if fp = None then [] else the fp))"
  shows "list_all is_digit ds"
    and "decimal_val m = of_nat (digits_val ds) * 10 powi (int point - int (length ds))"
proof -
  have nd: "CHR ''.'' \<notin> set ip"
    using assms(3) digit_not_special by (auto simp: list_all_iff)
  have "list_all is_digit ds \<and>
    decimal_val m = of_nat (digits_val ds) * 10 powi (int point - int (length ds))"
  proof (cases fp)
    case None
    have "index_of ''.'' ip = None"
    proof (cases "index_of ''.'' ip")
      case (Some i)
      from index_of_Some [OF this] have "take 1 (drop i ip) = ''.''" by simp
      then have "CHR ''.'' \<in> set ip" by (metis in_set_dropD in_set_takeD list.set_intros(1))
      with nd show ?thesis by simp
    qed simp
    with None assms nd show ?thesis by (auto simp: split_point_def decimal_plain)
  next
    case (Some f)
    have "\<not> has_prefix ''.'' (drop j (ip @ ''.'' @ f))" if "j < length ip" for j
    proof -
      from that have "drop j (ip @ ''.'' @ f) = ip ! j # drop (Suc j) (ip @ ''.'' @ f)"
        by (simp add: Cons_nth_drop_Suc [symmetric])
      moreover have "ip ! j \<noteq> CHR ''.''" using nd that by (metis nth_mem)
      ultimately show ?thesis by (simp add: has_prefix_def)
    qed
    then have ix: "index_of ''.'' (ip @ ''.'' @ f) = Some (length ip)" by (rule index_of_append)
    have m: "m = ip @ ''.'' @ f" using assms(2) Some by simp
    have "point = length ip" "ds = ip @ f"
      using assms(1) unfolding m split_point_def by (simp_all only: ix) simp_all
    moreover have "decimal_val m = of_nat (digits_val (ip @ f)) * 10 powi (- int (length f))"
      using m nd by (simp add: decimal_point powi_neg_nat)
    ultimately show ?thesis using assms(3) Some by simp
  qed
  then show "list_all is_digit ds"
    and "decimal_val m = of_nat (digits_val ds) * 10 powi (int point - int (length ds))" by simp_all
qed

lemma place_point_length:
  assumes "list_all is_digit ds" "length ds \<le> 4096" "p \<le> 4096" "int (length ds) - p \<le> 4096"
  shows "place_point ds p \<noteq> [] \<and> hd (place_point ds p) \<noteq> CHR ''.'' \<and> length (place_point ds p) \<le> 4098"
proof -
  have hd: "hd ds \<noteq> CHR ''.''" if "ds \<noteq> []"
    using assms(1) that by (cases ds) (auto simp: is_digit_def)
  consider "p \<le> 0" | "0 < p" "int (length ds) \<le> p" | "0 < p" "p < int (length ds)" by linarith
  then show ?thesis
  proof cases
    case 1
    with assms show ?thesis by (simp add: place_point_def)
  next
    case 2
    then have "place_point ds p = ds @ replicate (nat p - length ds) (CHR ''0'')"
      by (simp add: place_point_def)
    with 2 assms hd show ?thesis by (cases "ds = []") simp_all
  next
    case 3
    then have "place_point ds p = take (nat p) ds @ ''.'' @ drop (nat p) ds" "take (nat p) ds \<noteq> []"
      by (auto simp: place_point_def)
    moreover from this 3 hd have "hd (take (nat p) ds) \<noteq> CHR ''.''" by (simp add: hd_take)
    ultimately show ?thesis using 3 assms by simp
  qed
qed

lemma format_number_cases:
  assumes "format_number s = Inr t"
  obtains e m point ds sign where "valid_number s" "sign = (if has_prefix ''-'' s then ''-'' else [])"
    "split_exponent (strip_minus s) = Some (e, m)" "split_point m = (point, ds)"
    "length ds \<le> 4096" "int point + e \<le> 4096" "int (length ds) - (int point + e) \<le> 4096"
    "t = sign @ tidy (place_point ds (int point + e))"
proof -
  have strip: "(if has_prefix ''-'' s then drop 1 s else s) = strip_minus s"
    by (cases s) (simp_all add: has_prefix_def strip_minus_def)
  from assms have v: "valid_number s" by (auto simp: format_number_def split: if_splits)
  moreover from assms obtain e m where "split_exponent (strip_minus s) = Some (e, m)"
    by (auto simp: format_number_def Let_def strip split: if_splits option.splits)
  moreover obtain point ds where "split_point m = (point, ds)" by (cases "split_point m")
  ultimately show thesis
    using assms that by (auto simp: format_number_def Let_def strip split: if_splits)
qed

text \<open>
  C37. Numbers keep their value: when a number token is formatted, the text denotes exactly the
  same decimal value, has no exponent, and its length is bounded whatever the token was (a
  short token with a huge exponent is refused, not expanded).
\<close>

theorem format_number_exact:
  assumes "format_number s = Inr t"
  shows "number_val t = number_val s \<and> \<not> list_ex is_exp_char t \<and> length t \<le> 4099"
proof -
  from format_number_cases [OF assms] obtain e m point ds sign where f: "valid_number s"
    "sign = (if has_prefix ''-'' s then ''-'' else [])"
    "split_exponent (strip_minus s) = Some (e, m)" "split_point m = (point, ds)"
    "length ds \<le> 4096" "int point + e \<le> 4096" "int (length ds) - (int point + e) \<le> 4096"
    "t = sign @ tidy (place_point ds (int point + e))" .
  let ?p = "place_point ds (int point + e)"
  from mantissa_shape [OF f(1)] obtain ip fp where m: 
    "takeWhile (\<lambda>c. \<not> is_exp_char c) (strip_minus s) = ip @ (if fp = None then [] else CHR ''.'' # the fp)"
    "list_all is_digit (ip @ (if fp = None then [] else the fp))" "ip \<noteq> []" .
  note sp = split_exponent_Some [OF f(3)]
  note ds = split_point_val [OF f(4) trans [OF sp(1) m(1)] m(2)]
  have dig: "list_all (\<lambda>c. is_digit c \<or> c = CHR ''.'') (tidy ?p)"
    using set_tidy [of ?p] set_place_point [of ds "int point + e"] ds(1)
    by (fastforce simp: list_all_iff is_digit_def)
  have "decimal_val (tidy ?p) = of_nat (digits_val ds) * 10 powi (int point + e - int (length ds))"
    by (simp only: tidy_val [OF place_point_shape [OF ds(1)]] place_point_val [OF ds(1)])
  also have "\<dots> = decimal_val m * 10 powi e"
    by (simp add: ds(2) power_int_add [symmetric] algebra_simps)
  finally have "number_val t = number_val s"
    using number_val_signed [OF dig, of sign] f(2,8)
    by (simp add: number_val_def [of s] sp(1,2) [symmetric])
  moreover have "\<not> list_ex is_exp_char t"
    using dig f(2,8) digit_not_special
    by (auto simp: list_ex_iff list_all_iff is_exp_char_def split: if_splits)
  moreover have "length t \<le> 4099"
  proof -
    have "length (tidy ?p) \<le> 4098"
      using length_tidy [of ?p] place_point_length [OF ds(1) f(5-7)] by simp
    with f(2,8) show ?thesis by simp
  qed
  ultimately show ?thesis by blast
qed

theorem format_number_exact_witness:
  "format_number ''-012.50e-3'' = Inl InvalidNumber \<and> format_number ''1e9999'' = Inl ExpansionTooLong \<and>
   format_number ''-12.50e-3'' = Inr ''-0.0125'' \<and> number_val ''-0.0125'' = number_val ''-12.50e-3''"
proof -
  have "format_number ''-12.50e-3'' = Inr ''-0.0125''" by code_simp
  moreover from format_number_exact [OF this]
  have "number_val ''-0.0125'' = number_val ''-12.50e-3''" by blast
  moreover have "format_number ''-012.50e-3'' = Inl InvalidNumber"
    "format_number ''1e9999'' = Inl ExpansionTooLong" by code_simp+
  ultimately show ?thesis by blast
qed

subsection \<open>Scopes\<close>

text \<open>The only entry of the scopes a reference may read: the one of its owner.\<close>

definition owner_entry :: "var_values \<Rightarrow> reference \<Rightarrow> json option" where
  "owner_entry v r =
     (if ref_scope r = ScopeRuntime \<and> ref_namespace r = ''project'' then
        (if v_project_id v = [] then None else Some (JStr (v_project_id v)))
      else map_of (scope_root v r) (ref_key r))"

lemma lookup_entry:
  "lookup word_tbl v r = (if expression word_tbl r = None then Inl ()
     else Inr (case owner_entry v r of None \<Rightarrow> None | Some w \<Rightarrow> walk w (ref_path r)))"
  by (simp add: lookup_def owner_entry_def split: option.split)

lemma render_loop_cong:
  assumes "\<And>p r. p \<in> set ps \<Longrightarrow> part_ref p = Some r \<Longrightarrow> f r = g r"
  shows "render_loop format (Some f) missing escape ps out =
    render_loop format (Some g) missing escape ps out"
  using assms
proof (induction ps arbitrary: out)
  case (Cons p ps)
  have "\<And>p r. p \<in> set ps \<Longrightarrow> part_ref p = Some r \<Longrightarrow> f r = g r"
    using Cons.prems by (metis list.set_intros(2))
  then have IH: "\<And>out. render_loop format (Some f) missing escape ps out =
      render_loop format (Some g) missing escape ps out" by (rule Cons.IH)
  show ?case
  proof (cases "part_ref p")
    case None
    with IH show ?thesis by simp
  next
    case (Some r)
    with Cons.prems [of p r] IH show ?thesis by (auto split: sum.split option.split)
  qed
qed simp

text \<open>
  Scopes never leak: the text a template is substituted to depends, for each reference in
  it, on nothing but the entry of the scope that owns the reference. In particular a bare name
  never reads a project variable or another integration's, and \<open>project.id\<close> never reads a
  project variable named \<open>id\<close>.
\<close>

theorem substitute_reads_owner_only:
  assumes "parse_v1 word_tbl src = Inr ps"
    and "\<And>p r. p \<in> set ps \<Longrightarrow> part_ref p = Some r \<Longrightarrow> owner_entry v r = owner_entry v' r"
  shows "substitute_func word_tbl show_float show_fixed v src escape =
    substitute_func word_tbl show_float show_fixed v' src escape"
proof -
  have "render_loop (format_value show_float show_fixed) (Some (lookup word_tbl v)) missing_empty escape ps [] =
    render_loop (format_value show_float show_fixed) (Some (lookup word_tbl v')) missing_empty escape ps []"
    by (rule render_loop_cong) (use assms(2) in \<open>simp add: lookup_entry\<close>)
  then show ?thesis by (simp add: substitute_func_def assms(1) render_def)
qed

theorem substitute_reads_owner_only_witness:
  "substitute_func (\<lambda>_. False) (\<lambda>_. []) (\<lambda>_. [])
     \<lparr>v_subject = [(''id'', JStr ''a'')], v_project = [(''id'', JStr ''b'')], v_integrations = [],
      v_project_id = ''P'', v_context = [], v_integration_state = []\<rparr> ''{{id}}{{project.id}}'' None =
   substitute_func (\<lambda>_. False) (\<lambda>_. []) (\<lambda>_. [])
     \<lparr>v_subject = [(''id'', JStr ''a'')], v_project = [(''id'', JNull)],
      v_integrations = [(''project'', [(''id'', JStr ''c'')])],
      v_project_id = ''P'', v_context = [], v_integration_state = []\<rparr> ''{{id}}{{project.id}}'' None"
proof -
  let ?r1 = "\<lparr>ref_scope = ScopeSubject, ref_namespace = [], ref_key = ''id'', ref_path = []\<rparr>"
  let ?r2 = "\<lparr>ref_scope = ScopeRuntime, ref_namespace = ''project'', ref_key = ''id'', ref_path = []\<rparr>"
  have "parse_reference_v1 (\<lambda>_. False) ''id'' = Some ?r1"
    "parse_reference_v1 (\<lambda>_. False) ''project.id'' = Some ?r2"
    by (simp_all add: parse_reference_v1_def trim_space_def is_space_rune_def valid_segment_def
      is_word_rune_def)
  then have "parse_v1 (\<lambda>_. False) ''{{id}}{{project.id}}'' = Inr [ref_part ?r1 0 6, ref_part ?r2 6 20]"
    by (simp add: parse_v1_def parse_loop.simps has_prefix_def eval_nat_numeral)
  then show ?thesis
    by (rule substitute_reads_owner_only)
      (auto simp: ref_part_def owner_entry_def scope_root_def)
qed

end
