(* ===== verification/Outbox.thy ===== *)
theory Outbox
  imports GoStrings "HOL-Library.Word"
begin

unbundle bit_operations_syntax

text \<open>
  \<open>src/outbox/outbox.go\<close>: the vocabulary of the transactional outbox.

  \<open>perror\<close> is the tree of a Go \<open>error\<close>: \<open>Opaque\<close> is an error that wraps nothing, \<open>Sentinel\<close>
  a package-level error variable (by its text), \<open>Wrapped\<close>
  is \<open>fmt.Errorf("...: %w", err)\<close>, \<open>Joined\<close> is \<open>errors.Join\<close>, the others are the classes of
  the package with the error they carry; the \<open>Nil\<close> constructors are typed nil pointers, which
  \<open>errors.As\<close> matches like any other. \<open>as_error\<close> is \<open>errors.As\<close>.
\<close>

type_synonym bytes = string

record event =
  ev_id :: string
  ev_bucket :: int
  ev_created :: time
  ev_key :: string
  ev_payload :: bytes
  ev_topic :: string

subsection \<open>Classes of publish errors\<close>

datatype perror =
    Opaque string
  | Sentinel string
  | Wrapped string perror
  | Joined "perror list"
  | PermanentErr "perror option"
  | TransientErr "perror option" duration
  | DeadLetteredErr string "perror option"
  | NilPermanent
  | NilTransient
  | NilDeadLettered

datatype publish_class =
  NoClass | ClassUnknown | ClassTransient | ClassPermanent | ClassDeadLettered

definition permanent :: "perror option \<Rightarrow> perror option" where
  "permanent err = (case err of None \<Rightarrow> None | Some e \<Rightarrow> Some (PermanentErr (Some e)))"

definition transient :: "perror option \<Rightarrow> duration \<Rightarrow> perror option" where
  "transient err retry_after =
     (case err of None \<Rightarrow> None | Some e \<Rightarrow> Some (TransientErr (Some e) retry_after))"

fun error_text :: "perror \<Rightarrow> string" where
  "error_text (Opaque s) = s"
| "error_text (Sentinel s) = s"
| "error_text (Wrapped s e) = s @ '': '' @ error_text e"
| "error_text (Joined es) = join [CHR 0x0A] (map error_text es)"
| "error_text (PermanentErr e) =
     (case e of None \<Rightarrow> ''permanent publish error'' | Some x \<Rightarrow> error_text x)"
| "error_text (TransientErr e d) =
     (case e of None \<Rightarrow> ''transient publish error'' | Some x \<Rightarrow> error_text x)"
| "error_text (DeadLetteredErr i e) =
     (case e of None \<Rightarrow> ''outbox event '' @ i @ '' moved to dead letters''
      | Some x \<Rightarrow> ''outbox event '' @ i @ '' moved to dead letters: '' @ error_text x)"
| "error_text NilPermanent = ''permanent publish error''"
| "error_text NilTransient = ''transient publish error''"
| "error_text NilDeadLettered = ''outbox event moved to dead letters''"

text \<open>The errors an error wraps: its method \<open>Unwrap\<close>.\<close>

fun unwrap :: "perror \<Rightarrow> perror list" where
  "unwrap (Wrapped s e) = [e]"
| "unwrap (Joined es) = es"
| "unwrap (PermanentErr (Some e)) = [e]"
| "unwrap (TransientErr (Some e) d) = [e]"
| "unwrap (DeadLetteredErr i (Some e)) = [e]"
| "unwrap _ = []"

fun first_some :: "'a option list \<Rightarrow> 'a option" where
  "first_some [] = None"
| "first_some (Some a # xs) = Some a"
| "first_some (None # xs) = first_some xs"

lemma size_unwrap: "e' \<in> set (unwrap e) \<Longrightarrow> size e' < size e"
  by (cases e rule: unwrap.cases) (auto simp: less_Suc_eq_le intro: size_list_estimation' [OF _ order_refl])

function as_error :: "(perror \<Rightarrow> bool) \<Rightarrow> perror \<Rightarrow> perror option" where
  "as_error P e = (if P e then Some e else first_some (map (as_error P) (unwrap e)))"
  by pat_completeness auto
termination
  by (relation "measure (size \<circ> snd)") (auto simp: size_unwrap)

declare as_error.simps [simp del]

fun is_dead_lettered :: "perror \<Rightarrow> bool" where
  "is_dead_lettered (DeadLetteredErr i e) = True"
| "is_dead_lettered NilDeadLettered = True"
| "is_dead_lettered _ = False"

fun is_permanent :: "perror \<Rightarrow> bool" where
  "is_permanent (PermanentErr e) = True"
| "is_permanent NilPermanent = True"
| "is_permanent _ = False"

fun is_transient :: "perror \<Rightarrow> bool" where
  "is_transient (TransientErr e d) = True"
| "is_transient NilTransient = True"
| "is_transient _ = False"

definition classify_publish_error :: "perror option \<Rightarrow> publish_class" where
  "classify_publish_error err = (case err of None \<Rightarrow> NoClass
   | Some e \<Rightarrow>
      if as_error is_dead_lettered e \<noteq> None then ClassDeadLettered
      else if as_error is_permanent e \<noteq> None then ClassPermanent
      else if as_error is_transient e \<noteq> None then ClassTransient
      else ClassUnknown)"

definition publish_retry_after :: "perror option \<Rightarrow> duration" where
  "publish_retry_after err = (case err of None \<Rightarrow> 0
   | Some e \<Rightarrow>
      (case as_error is_transient e of
         Some (TransientErr _ d) \<Rightarrow> if d \<le> 0 then 0 else d
       | _ \<Rightarrow> 0))"

definition is_terminal_publish_error :: "perror option \<Rightarrow> bool" where
  "is_terminal_publish_error err \<longleftrightarrow> classify_publish_error err = ClassDeadLettered"

subsection \<open>Buckets\<close>

definition default_bucket_count :: int where
  "default_bucket_count = 16"

definition fnv_step :: "32 word \<Rightarrow> char \<Rightarrow> 32 word" where
  "fnv_step h c = (h XOR word_of_nat (byte c)) * 16777619"

definition fnv32a :: "string \<Rightarrow> 32 word" where
  "fnv32a s = foldl fnv_step 2166136261 s"

text \<open>\<open>None\<close> is the panic of a division by zero: \<open>uint32(count)\<close> drops the high bits of \<open>count\<close>.\<close>

definition bucket_of :: "string \<Rightarrow> int \<Rightarrow> int option" where
  "bucket_of partition_key count =
     (let count = (if count \<le> 0 then default_bucket_count else count);
          m = (word_of_int count :: 32 word)
      in if m = 0 then None else Some (uint (fnv32a partition_key mod m)))"

subsection \<open>Dead letters\<close>

record dead_letter_ref =
  dr_bucket :: int
  dr_created :: time
  dr_id :: string

record dead_letter =
  dl_event :: event
  dl_attempts :: int
  dl_last_error :: string
  dl_failed_at :: time

definition dead_letter_to_ref :: "dead_letter \<Rightarrow> dead_letter_ref" where
  "dead_letter_to_ref d = \<lparr>dr_bucket = ev_bucket (dl_event d), dr_created = ev_created (dl_event d),
     dr_id = ev_id (dl_event d)\<rparr>"

record list_options =
  lo_after :: "dead_letter_ref option"
  lo_limit :: int

record dead_letter_page =
  pg_items :: "dead_letter list"
  pg_next :: "dead_letter_ref option"

datatype replay_state = ReplayRequeued | ReplayAlreadyPending

record outbox_stats =
  os_pending_count :: nat
  os_pending_oldest :: "time option"
  os_dead_count :: nat
  os_dead_oldest :: "time option"

subsection \<open>Facts about errors\<close>

inductive reaches :: "perror \<Rightarrow> perror \<Rightarrow> bool" where
  here: "reaches e e"
| deeper: "e' \<in> set (unwrap e) \<Longrightarrow> reaches e' x \<Longrightarrow> reaches e x"

lemma first_some_single [simp]: "first_some [x] = x"
  by (cases x) simp_all

lemma first_some_None: "first_some xs = None \<longleftrightarrow> (\<forall>x \<in> set xs. x = None)"
  by (induction xs rule: first_some.induct) auto

lemma first_some_Some: "first_some xs = Some a \<Longrightarrow> Some a \<in> set xs"
  by (induction xs rule: first_some.induct) auto

lemma as_error_Some: "as_error P e = Some x \<Longrightarrow> P x \<and> reaches e x"
proof (induction P e rule: as_error.induct)
  case (1 P e)
  show ?case
  proof (cases "P e")
    case True
    with 1 show ?thesis by (auto simp: as_error.simps [of P e] intro: reaches.intros)
  next
    case False
    with 1 have "first_some (map (as_error P) (unwrap e)) = Some x"
      by (simp add: as_error.simps [of P e])
    then obtain e' where "e' \<in> set (unwrap e)" "as_error P e' = Some x"
      using first_some_Some by fastforce
    with 1 False show ?thesis by (auto intro: reaches.intros)
  qed
qed

lemma as_error_None: "as_error P e = None \<longleftrightarrow> (\<forall>x. reaches e x \<longrightarrow> \<not> P x)"
proof
  have "reaches e x \<Longrightarrow> as_error P e = None \<Longrightarrow> \<not> P x" for x
    by (induction rule: reaches.induct)
      (auto simp: as_error.simps [of P] first_some_None split: if_splits)
  then show "as_error P e = None \<Longrightarrow> \<forall>x. reaches e x \<longrightarrow> \<not> P x" by blast
  show "\<forall>x. reaches e x \<longrightarrow> \<not> P x \<Longrightarrow> as_error P e = None"
    using as_error_Some [of P e] by (cases "as_error P e") auto
qed

text \<open>
  The class of an error is decided by the marked errors in its whole chain of wrappers, and
  by nothing else: a confirmed dead letter wins over a permanent mark, which wins over a
  transient one, and an error with no mark is unknown. No wrapping can lose a class.
\<close>

theorem class_of_wrapped_error:
  "classify_publish_error (Some e) =
     (if \<exists>x. reaches e x \<and> is_dead_lettered x then ClassDeadLettered
      else if \<exists>x. reaches e x \<and> is_permanent x then ClassPermanent
      else if \<exists>x. reaches e x \<and> is_transient x then ClassTransient
      else ClassUnknown)"
  by (simp add: classify_publish_error_def as_error_None)

lemma classify_Wrapped [simp]:
  "classify_publish_error (Some (Wrapped s e)) = classify_publish_error (Some e)"
  by (simp add: classify_publish_error_def as_error.simps [of _ "Wrapped s e"])

subsection \<open>Facts about buckets\<close>

lemma fnv_prime_inverse: "(16777619 :: 32 word) * 899433627 = 1"
  by simp

lemma fnv_step_inject: "fnv_step h c = fnv_step g d \<longleftrightarrow>
    h XOR word_of_nat (byte c) = g XOR word_of_nat (byte d)"
proof
  assume "fnv_step h c = fnv_step g d"
  then have "fnv_step h c * 899433627 = fnv_step g d * 899433627" by (rule arg_cong)
  then show "h XOR word_of_nat (byte c) = g XOR word_of_nat (byte d)"
    by (simp only: fnv_step_def mult.assoc fnv_prime_inverse mult_1_right)
qed (simp add: fnv_step_def)

lemma xor_cancel: "h XOR a = g XOR a \<longleftrightarrow> h = (g :: 'a::len word)"
  by (metis xor.assoc xor.right_neutral xor_self_eq)

lemma byte_word_inject: "(word_of_nat (byte c) :: 32 word) = word_of_nat (byte d) \<longleftrightarrow> c = d"
proof
  have b: "byte x < 256" for x :: char by (cases x) (simp add: of_char_def horner_sum_simps)
  assume "(word_of_nat (byte c) :: 32 word) = word_of_nat (byte d)"
  then have "unat (word_of_nat (byte c) :: 32 word) = unat (word_of_nat (byte d) :: 32 word)" by simp
  then have "byte c = byte d"
    using b [of c] b [of d] by (simp add: unat_of_nat take_bit_eq_mod)
  then show "c = d" by (simp add: byte_inject)
qed simp

lemma fnv_foldl_inject: "foldl fnv_step h s = foldl fnv_step g s \<longleftrightarrow> h = g"
  by (induction s arbitrary: h g) (simp_all add: fnv_step_inject xor_cancel)

text \<open>
  The bucket of a key is in range, and the hash behind it separates neighbouring keys: two
  keys of the same length that differ in exactly one byte never have the same 32-bit hash, so
  the sequence numbers and identifiers services use as keys are spread.
\<close>

theorem bucket_in_range:
  assumes "0 < count" and "count < 2 ^ 32"
  shows "\<exists>b. bucket_of k count = Some b \<and> 0 \<le> b \<and> b < count \<and>
    (c \<noteq> d \<longrightarrow> fnv32a (s @ c # t) \<noteq> fnv32a (s @ d # t))"
proof -
  let ?m = "word_of_int count :: 32 word"
  have m: "uint ?m = count" using assms by (simp add: uint_word_of_int)
  with assms(1) have "?m \<noteq> 0" by force
  moreover have "uint (fnv32a k mod ?m) < count" 
    using m assms(1) by (metis pos_mod_bound uint_mod)
  moreover have "fnv32a (s @ c # t) \<noteq> fnv32a (s @ d # t)" if "c \<noteq> d"
  proof
    assume "fnv32a (s @ c # t) = fnv32a (s @ d # t)"
    then have "fnv_step (foldl fnv_step 2166136261 s) c = fnv_step (foldl fnv_step 2166136261 s) d"
      by (simp add: fnv32a_def fnv_foldl_inject)
    then have "(word_of_nat (byte c) :: 32 word) = word_of_nat (byte d)"
      unfolding fnv_step_inject by (metis xor.commute xor_cancel)
    with that show False by (simp add: byte_word_inject)
  qed
  ultimately show ?thesis using assms(1) by (simp add: bucket_of_def Let_def)
qed

theorem bucket_in_range_witness:
  "bucket_of ''subject-1'' 16 = Some 5 \<and> bucket_of ''subject-2'' 16 = Some 12 \<and>
   bucket_of ''a'' 0 = Some 12 \<and>
   (\<exists>b. bucket_of ''subject-1'' 16 = Some b \<and> 0 \<le> b \<and> b < 16 \<and>
     fnv32a (''subject-'' @ ''1'') \<noteq> fnv32a (''subject-'' @ ''2''))"
  using bucket_in_range [of 16 "''subject-1''" "CHR ''1''" "CHR ''2''" "''subject-''" "[]"]
  by (simp add: bucket_of_def fnv32a_def fnv_step_def default_bucket_count_def)

lemma bucket_of_panics: "bucket_of k (2 ^ 32) = None"
  by (simp add: bucket_of_def)

lemma bucket_of_default: "count \<le> 0 \<Longrightarrow> bucket_of k count = bucket_of k default_bucket_count"
  by (simp add: bucket_of_def default_bucket_count_def)

lemma bucket_of_Some: "bucket_of k count = Some b \<Longrightarrow> 0 \<le> b"
  by (auto simp: bucket_of_def Let_def split: if_splits)

end
