(* ===== verification/Table.thy ===== *)
theory Table
  imports Prelude
begin

text \<open>
  Tables of the database: rows addressed by a primary key and read in its order.

  A table is an association list kept sorted by key (\<open>t_inv\<close>). \<open>t_get\<close> is a point read,
  \<open>t_put\<close> an UPSERT, \<open>t_del\<close> a DELETE by key, the list itself a scan \<open>ORDER BY\<close> the key, and
  \<open>t_after\<close> the range \<open>WHERE key > after\<close>. The locale \<open>ordered_table\<close> is the contract the
  clients rely on; \<open>tbl\<close> is its interpretation on these operations.
\<close>

type_synonym ('k, 'v) table = "('k \<times> 'v) list"

definition t_inv :: "('k::linorder, 'v) table \<Rightarrow> bool" where
  "t_inv t \<longleftrightarrow> sorted_wrt (<) (map fst t)"

definition t_get :: "('k, 'v) table \<Rightarrow> 'k \<Rightarrow> 'v option" where
  "t_get t k = map_of t k"

fun t_put :: "('k::linorder, 'v) table \<Rightarrow> 'k \<Rightarrow> 'v \<Rightarrow> ('k, 'v) table" where
  "t_put [] k v = [(k, v)]"
| "t_put ((k', v') # t) k v =
     (if k < k' then (k, v) # (k', v') # t
      else if k = k' then (k, v) # t
      else (k', v') # t_put t k v)"

definition t_del :: "('k, 'v) table \<Rightarrow> 'k \<Rightarrow> ('k, 'v) table" where
  "t_del t k = filter (\<lambda>r. fst r \<noteq> k) t"

definition t_after :: "('k::linorder, 'v) table \<Rightarrow> 'k option \<Rightarrow> ('k, 'v) table" where
  "t_after t a = (case a of None \<Rightarrow> t | Some k \<Rightarrow> filter (\<lambda>r. k < fst r) t)"

subsection \<open>The contract\<close>

locale ordered_table =
  fixes get :: "'t \<Rightarrow> 'k::linorder \<Rightarrow> 'v option"
    and put :: "'t \<Rightarrow> 'k \<Rightarrow> 'v \<Rightarrow> 't"
    and del :: "'t \<Rightarrow> 'k \<Rightarrow> 't"
    and rows :: "'t \<Rightarrow> ('k \<times> 'v) list"
    and inv :: "'t \<Rightarrow> bool"
  assumes inv_put: "inv t \<Longrightarrow> inv (put t k v)"
    and inv_del: "inv t \<Longrightarrow> inv (del t k)"
    and get_put: "inv t \<Longrightarrow> get (put t k v) = (get t)(k \<mapsto> v)"
    and get_del: "inv t \<Longrightarrow> get (del t k) = (get t)(k := None)"
    and rows_sorted: "inv t \<Longrightarrow> sorted_wrt (<) (map fst (rows t))"
    and rows_get: "inv t \<Longrightarrow> map_of (rows t) = get t"
begin

lemma rows_distinct: "inv t \<Longrightarrow> distinct (map fst (rows t))"
  using rows_sorted strict_sorted_iff by blast

lemma rows_ext:
  assumes "inv s" "inv t" "get s = get t"
  shows "rows s = rows t"
proof -
  have "map_of (rows s) = map_of (rows t)" using assms by (simp add: rows_get)
  then have "set (rows s) = set (rows t)"
    by (rule map_of_inject_set [OF rows_distinct [OF assms(1)] rows_distinct [OF assms(2)], THEN iffD1])
  moreover have "sorted (map fst (rows s))" "sorted (map fst (rows t))"
    using assms rows_sorted strict_sorted_iff by blast+
  moreover have "distinct (map fst (rows s))" "distinct (map fst (rows t))"
    using assms rows_distinct by blast+
  ultimately show ?thesis
    by (intro map_sorted_distinct_set_unique [where f = fst]) (simp_all add: distinct_map)
qed

lemma mem_rows: "inv t \<Longrightarrow> (k, v) \<in> set (rows t) \<longleftrightarrow> get t k = Some v"
  using rows_get [of t] rows_distinct [of t] by (metis map_of_eq_Some_iff)

lemma restore_rows:
  assumes "inv t" "get t k = Some v"
  shows "rows (put (del t k) k v) = rows t"
  by (rule rows_ext) (use assms in \<open>simp_all add: inv_put inv_del get_put get_del fun_upd_idem\<close>)

lemma del_put_rows:
  assumes "inv t" "get t k = None"
  shows "rows (del (put t k v) k) = rows t"
  by (rule rows_ext) (use assms in \<open>simp_all add: inv_put inv_del get_put get_del fun_upd_idem\<close>)

lemma put_put_rows:
  assumes "inv t"
  shows "rows (put (put t k v) k w) = rows (put t k w)"
  by (rule rows_ext) (use assms in \<open>simp_all add: inv_put get_put\<close>)

end

subsection \<open>The tables meet the contract\<close>

lemma t_put_set: "t_inv t \<Longrightarrow> set (t_put t k v) = insert (k, v) {r \<in> set t. fst r \<noteq> k}"
proof (induction t k v rule: t_put.induct)
  case (2 k' v' t k v)
  have inv: "t_inv t" "\<And>r. r \<in> set t \<Longrightarrow> k' < fst r" using "2.prems" by (auto simp: t_inv_def)
  consider "k < k'" | "k = k'" | "k' < k" by (rule linorder_cases)
  then show ?case
  proof cases
    case 1
    with inv(2) have "\<And>r. r \<in> set t \<Longrightarrow> fst r \<noteq> k" by (metis less_asym)
    with 1 show ?thesis by auto
  next
    case 2
    with inv(2) have "\<And>r. r \<in> set t \<Longrightarrow> fst r \<noteq> k" by (metis less_irrefl)
    with 2 show ?thesis by auto
  next
    case 3
    with "2.IH" inv(1) have "set (t_put t k v) = insert (k, v) {r \<in> set t. fst r \<noteq> k}" by auto
    with 3 show ?thesis by auto
  qed
qed simp

lemma t_inv_put: "t_inv t \<Longrightarrow> t_inv (t_put t k v)"
proof (induction t k v rule: t_put.induct)
  case (2 k' v' t k v)
  have inv: "t_inv t" "\<And>r. r \<in> set t \<Longrightarrow> k' < fst r" using "2.prems" by (auto simp: t_inv_def)
  consider "k < k'" | "k = k'" | "k' < k" by (rule linorder_cases)
  then show ?case
  proof cases
    case 1
    with inv(2) have "\<And>r. r \<in> set t \<Longrightarrow> k < fst r" by (metis less_trans)
    with 1 "2.prems" show ?thesis by (auto simp: t_inv_def)
  next
    case 2
    with inv show ?thesis by (auto simp: t_inv_def)
  next
    case 3
    with "2.IH" inv have "t_inv (t_put t k v)" by auto
    with 3 inv show ?thesis using t_put_set [OF inv(1), of k v] by (auto simp: t_inv_def)
  qed
qed (simp add: t_inv_def)

lemma t_inv_del: "t_inv t \<Longrightarrow> t_inv (t_del t k)"
  by (auto simp: t_inv_def t_del_def sorted_wrt_map intro: sorted_wrt_filter)

lemma t_get_put: "t_get (t_put t k v) = (t_get t)(k \<mapsto> v)"
  by (induction t k v rule: t_put.induct) (auto simp: t_get_def fun_eq_iff)

lemma t_get_del: "t_get (t_del t k) = (t_get t)(k := None)"
  by (induction t) (auto simp: t_get_def t_del_def fun_eq_iff)

interpretation tbl: ordered_table t_get t_put t_del "\<lambda>t. t" t_inv
  by unfold_locales
    (simp_all add: t_inv_put t_inv_del t_get_put t_get_del, simp_all add: t_inv_def t_get_def fun_eq_iff)

lemmas table_simps = t_get_put t_get_del t_inv_put t_inv_del

subsection \<open>Keyset pages\<close>

lemma t_after_next:
  assumes "t_inv t" "t_after t a = xs @ (k, v) # ys"
  shows "t_after t (Some k) = ys"
proof -
  have inv: "t_inv (t_after t a)"
    using assms(1) by (auto simp: t_after_def t_inv_def sorted_wrt_map sorted_wrt_filter split: option.split)
  have "t_after t (Some k) = t_after (t_after t a) (Some k)"
  proof (cases a)
    case (Some b)
    have "(k, v) \<in> set (t_after t a)" using assms(2) by simp
    with Some have "b < k" by (simp add: t_after_def)
    then show ?thesis using Some by (auto simp: t_after_def intro: filter_cong less_trans)
  qed (simp add: t_after_def)
  also have "\<dots> = ys"
    using inv unfolding assms(2) by (auto simp: t_after_def t_inv_def sorted_wrt_append filter_id_conv
      filter_empty_conv dest: less_asym)
  finally show ?thesis .
qed

lemma t_after_get: "t_inv t \<Longrightarrow> (k, v) \<in> set (t_after t a) \<Longrightarrow> t_get t k = Some v"
  using tbl.mem_rows [of t] by (auto simp: t_after_def split: option.splits)

end
