(* ===== verification/OutboxStore.thy ===== *)
theory OutboxStore
  imports Outbox Table "HOL-Library.Product_Lexorder"
begin

text \<open>
  \<open>src/ydb/outbox.go\<close>: the outbox store on YDB.

  The database is the record \<open>db\<close> of the three tables of the schema, each sorted by its
  primary key. A uuid is its rank in the order of the primary key; parsing and printing it
  (\<open>github.com/google/uuid\<close>) are the fields of \<open>uuid_ops\<close>, with the law \<open>uuid_ok\<close>.

  A \<open>DoTx\<close> or a query is one serializable step (\<open>do_tx\<close>). What the database and the rest of
  the world do is an argument \<open>env\<close>: before the \<open>n\<close>-th call of a run, other instances change
  the database (\<open>e_others\<close>), the clock reads \<open>e_now\<close>, and the call may fail before or after its
  commit (\<open>e_fault\<close>). \<open>PublishBucket\<close> makes many calls; its \<open>run\<close> carries the database, the
  number of calls made, and the log of what was sent and committed, for the theorems to speak
  about.
\<close>

subsection \<open>Schema\<close>

record uuid_ops =
  uo_parse :: "string \<Rightarrow> nat option"
  uo_string :: "nat \<Rightarrow> string"

definition uuid_ok :: "uuid_ops \<Rightarrow> bool" where
  "uuid_ok U \<longleftrightarrow> (\<forall>u. uo_parse U (uo_string U u) = Some u)"

type_synonym key = "nat \<times> time \<times> nat" \<comment> \<open>bucket, created\_at, id\<close>

record pending_row =
  pr_key :: string
  pr_topic :: "string option"
  pr_payload :: bytes
  pr_attempts :: int
  pr_last_error :: "string option"

record dead_row =
  de_key :: string
  de_topic :: "string option"
  de_payload :: bytes
  de_attempts :: int
  de_last_error :: "string option"
  de_failed_at :: time

record lease_row =
  le_by :: string
  le_until :: time

record db =
  pending :: "(key, pending_row) table"
  dead :: "(key, dead_row) table"
  leases :: "(nat, lease_row) table"

definition db_inv :: "db \<Rightarrow> bool" where
  "db_inv d \<longleftrightarrow> t_inv (pending d) \<and> t_inv (dead d) \<and> t_inv (leases d)"

record store_cfg =
  sc_prefix :: string
  sc_table :: string
  sc_bucket_count :: int
  sc_max_attempts :: int

record outbox_store =
  st_table :: string
  st_leases :: string
  st_dead :: string
  st_bucket_count :: int
  st_max_attempts :: int

definition new_outbox_store :: "store_cfg \<Rightarrow> outbox_store" where
  "new_outbox_store cfg =
     (let table = (if sc_table cfg = [] then ''platform_outbox'' else sc_table cfg)
      in \<lparr>st_table = table, st_leases = table @ ''_leases'', st_dead = table @ ''_dead'',
          st_bucket_count = (if sc_bucket_count cfg \<le> 0 then default_bucket_count else sc_bucket_count cfg),
          st_max_attempts = (if sc_max_attempts cfg \<le> 0 then 10 else sc_max_attempts cfg)\<rparr>)"

definition u8 :: "int \<Rightarrow> nat" where \<comment> \<open>Go: \<open>uint8(b)\<close>\<close>
  "u8 b = nat (b mod 256)"

definition int32_wrap :: "int \<Rightarrow> int" where
  "int32_wrap x = (x + 2 ^ 31) mod 2 ^ 32 - 2 ^ 31"

definition optional_text :: "string \<Rightarrow> string option" where
  "optional_text s = (if s = [] then None else Some s)"

definition text_or_empty :: "string option \<Rightarrow> string" where
  "text_or_empty t = (case t of None \<Rightarrow> [] | Some s \<Rightarrow> s)"

definition to_valid_utf8 :: "string \<Rightarrow> string" where
  "to_valid_utf8 s = concat (map (\<lambda>k. if fst k = 0xFFFD \<and> length (snd k) = 1 then [] else snd k) (chunks s))"

subsection \<open>Transactions\<close>

datatype fault = Committed | Refused string | Ambiguous string

definition do_tx :: "fault \<Rightarrow> (db \<Rightarrow> (perror, 'a \<times> db) go_result) \<Rightarrow> db \<Rightarrow> (perror, 'a) go_result \<times> db" where
  "do_tx f body d = (case body d of
     Inl e \<Rightarrow> (Inl e, d)
   | Inr (a, d') \<Rightarrow>
      (case f of Committed \<Rightarrow> (Inr a, d') | Refused e \<Rightarrow> (Inl (Opaque e), d)
       | Ambiguous e \<Rightarrow> (Inl (Opaque e), d')))"

definition lease_lost :: perror where
  "lease_lost = Sentinel ''ydb: outbox bucket lease lost''"

definition wrapR :: "string \<Rightarrow> (perror, 'a) go_result \<Rightarrow> (perror, 'a) go_result" where
  "wrapR msg r = (case r of Inl e \<Rightarrow> Inl (Wrapped msg e) | Inr a \<Rightarrow> Inr a)"

subsection \<open>Enqueue\<close>

definition enqueue_event :: "uuid_ops \<Rightarrow> outbox_store \<Rightarrow> nat \<Rightarrow> time \<Rightarrow> event \<Rightarrow> (perror, event \<times> nat) go_result" where
  "enqueue_event U st fresh now ev =
     (if ev_key ev = [] then Inl (Opaque ''ydb: outbox event needs a partition key'')
      else case (if ev_id ev \<noteq> [] then uo_parse U (ev_id ev) else Some fresh) of
        None \<Rightarrow> Inl (Wrapped ''ydb: outbox event id'' (Opaque ''invalid UUID''))
      | Some u \<Rightarrow>
          (case bucket_of (ev_key ev) (st_bucket_count st) of
             None \<Rightarrow> Inl (Opaque ''panic: integer divide by zero'')
           | Some b \<Rightarrow> Inr (ev\<lparr>ev_id := uo_string U u, ev_bucket := b,
                 ev_created := (if is_zero_time (ev_created ev) then truncate_us now
                                else truncate_us (ev_created ev)),
                 ev_payload := (if ev_payload ev = [] then ''{}'' else ev_payload ev)\<rparr>, u)))"

definition event_key :: "event \<Rightarrow> nat \<Rightarrow> key" where
  "event_key ev u = (u8 (ev_bucket ev), ev_created ev, u)"

definition enqueue_tx :: "uuid_ops \<Rightarrow> outbox_store \<Rightarrow> nat \<Rightarrow> time \<Rightarrow> event \<Rightarrow> db \<Rightarrow>
    (perror, event \<times> db) go_result" where
  "enqueue_tx U st fresh now ev d =
     bindR (enqueue_event U st fresh now ev) (\<lambda>(ev, u).
       if t_get (pending d) (event_key ev u) \<noteq> None
       then Inl (Wrapped ''ydb: enqueue outbox event'' (Opaque ''PRECONDITION_FAILED''))
       else Inr (ev, d\<lparr>pending := t_put (pending d) (event_key ev u)
         \<lparr>pr_key = ev_key ev, pr_topic = optional_text (ev_topic ev), pr_payload = ev_payload ev,
          pr_attempts = 0, pr_last_error = None\<rparr>\<rparr>))"

subsection \<open>Leases\<close>

fun claim_loop :: "(nat \<Rightarrow> lease_row option) \<Rightarrow> string \<Rightarrow> time \<Rightarrow> time \<Rightarrow> int list \<Rightarrow>
    (nat, lease_row) table \<Rightarrow> int list \<Rightarrow> int list \<times> (nat, lease_row) table" where
  "claim_loop held owner stamp until [] tbl owned = (owned, tbl)"
| "claim_loop held owner stamp until (b # bs) tbl owned =
     (case held (u8 b) of
        Some h \<Rightarrow>
          if le_by h \<noteq> owner \<and> stamp < le_until h
          then claim_loop held owner stamp until bs tbl owned
          else claim_loop held owner stamp until bs
                 (t_put tbl (u8 b) \<lparr>le_by = owner, le_until = until\<rparr>) (owned @ [b])
      | None \<Rightarrow> claim_loop held owner stamp until bs
                 (t_put tbl (u8 b) \<lparr>le_by = owner, le_until = until\<rparr>) (owned @ [b]))"

definition claim_body :: "outbox_store \<Rightarrow> string \<Rightarrow> duration \<Rightarrow> time \<Rightarrow> db \<Rightarrow> (perror, int list \<times> db) go_result" where
  "claim_body st owner lease now d =
     (let stamp = truncate_us now;
          r = claim_loop (t_get (leases d)) owner stamp (truncate_us (stamp + lease))
                [0..st_bucket_count st - 1] (leases d) []
      in Inr (fst r, d\<lparr>leases := snd r\<rparr>))"

definition claim_buckets :: "outbox_store \<Rightarrow> string \<Rightarrow> duration \<Rightarrow> time \<Rightarrow> fault \<Rightarrow> db \<Rightarrow>
    (perror, int list) go_result \<times> db" where
  "claim_buckets st owner lease now f d =
     (let r = do_tx f (claim_body st owner lease now) d
      in (wrapR ''ydb: claim outbox buckets'' (fst r), snd r))"

definition lease_held :: "db \<Rightarrow> int \<Rightarrow> string \<Rightarrow> time \<Rightarrow> bool" where
  "lease_held d bucket owner now = (case t_get (leases d) (u8 bucket) of None \<Rightarrow> False
   | Some h \<Rightarrow> le_by h = owner \<and> truncate_us now < le_until h)"

subsection \<open>Publishing a bucket\<close>

definition scan_event :: "uuid_ops \<Rightarrow> key \<times> pending_row \<Rightarrow> event" where
  "scan_event U r = (case r of ((b, c, u), w) \<Rightarrow>
     \<lparr>ev_id = uo_string U u, ev_bucket = int b, ev_created = c, ev_key = pr_key w,
      ev_payload = pr_payload w, ev_topic = text_or_empty (pr_topic w)\<rparr>)"

definition leased_bucket_events :: "uuid_ops \<Rightarrow> int \<Rightarrow> string \<Rightarrow> nat \<Rightarrow> time \<Rightarrow> db \<Rightarrow>
    (perror, event list \<times> db) go_result" where
  "leased_bucket_events U bucket owner limit now d =
     (if \<not> lease_held d bucket owner now then Inr ([], d)
      else Inr (map (scan_event U)
             (take limit (filter (\<lambda>r. fst (fst r) = u8 bucket) (pending d))), d))"

definition lease_held_body :: "int \<Rightarrow> string \<Rightarrow> time \<Rightarrow> db \<Rightarrow> (perror, bool \<times> db) go_result" where
  "lease_held_body bucket owner now d = Inr (lease_held d bucket owner now, d)"

definition delete_event_body :: "event \<Rightarrow> nat \<Rightarrow> string \<Rightarrow> time \<Rightarrow> db \<Rightarrow> (perror, unit \<times> db) go_result" where
  "delete_event_body ev u owner now d =
     (if \<not> lease_held d (ev_bucket ev) owner now then Inl lease_lost
      else Inr ((), d\<lparr>pending := t_del (pending d) (event_key ev u)\<rparr>))"

definition record_failure_body ::
  "outbox_store \<Rightarrow> event \<Rightarrow> nat \<Rightarrow> string \<Rightarrow> perror \<Rightarrow> time \<Rightarrow> db \<Rightarrow> (perror, bool \<times> db) go_result" where
  "record_failure_body st ev u owner perr now d =
     (if \<not> lease_held d (ev_bucket ev) owner now then Inl lease_lost
      else (case t_get (pending d) (event_key ev u) of
        None \<Rightarrow> Inr (False, d)
      | Some w \<Rightarrow>
          let class = classify_publish_error (Some perr);
              last_error = to_valid_utf8 (error_text perr)
          in if class = ClassTransient then
               Inr (False, d\<lparr>pending := t_put (pending d) (event_key ev u)
                 (w\<lparr>pr_last_error := Some last_error\<rparr>)\<rparr>)
             else
               let attempts = int32_wrap (pr_attempts w + 1)
               in if class \<noteq> ClassPermanent \<and> attempts < st_max_attempts st then
                    Inr (False, d\<lparr>pending := t_put (pending d) (event_key ev u)
                      (w\<lparr>pr_attempts := attempts, pr_last_error := Some last_error\<rparr>)\<rparr>)
                  else
                    Inr (True, d\<lparr>dead := t_put (dead d) (event_key ev u)
                        \<lparr>de_key = pr_key w, de_topic = pr_topic w, de_payload = pr_payload w,
                         de_attempts = attempts, de_last_error = Some last_error,
                         de_failed_at = truncate_us now\<rparr>,
                      pending := t_del (pending d) (event_key ev u)\<rparr>)))"

record env =
  e_others :: "nat \<Rightarrow> db \<Rightarrow> db"
  e_now :: "nat \<Rightarrow> time"
  e_fault :: "nat \<Rightarrow> fault"

datatype act = Sent event "perror option" | Step time db db

record run =
  r_db :: db
  r_calls :: nat
  r_log :: "act list"

definition call_db :: "env \<Rightarrow> (time \<Rightarrow> db \<Rightarrow> (perror, 'a \<times> db) go_result) \<Rightarrow> run \<Rightarrow> (perror, 'a) go_result \<times> run" where
  "call_db E body s =
     (let n = r_calls s; d = e_others E n (r_db s); r = do_tx (e_fault E n) (body (e_now E n)) d
      in (fst r, \<lparr>r_db = snd r, r_calls = n + 1, r_log = r_log s @ [Step (e_now E n) d (snd r)]\<rparr>))"

definition log_sent :: "event \<Rightarrow> perror option \<Rightarrow> run \<Rightarrow> run" where
  "log_sent ev res s = s\<lparr>r_log := r_log s @ [Sent ev res]\<rparr>"

definition parse_event_id :: "uuid_ops \<Rightarrow> event \<Rightarrow> (perror, nat) go_result" where
  "parse_event_id U ev = (case uo_parse U (ev_id ev) of
     None \<Rightarrow> Inl (Wrapped ''ydb: outbox event id'' (Opaque ''invalid UUID'')) | Some u \<Rightarrow> Inr u)"

definition delete_event :: "uuid_ops \<Rightarrow> env \<Rightarrow> event \<Rightarrow> string \<Rightarrow> run \<Rightarrow> (perror, unit) go_result \<times> run" where
  "delete_event U E ev owner s = (case parse_event_id U ev of
     Inl e \<Rightarrow> (Inl e, s)
   | Inr u \<Rightarrow>
      (let r = call_db E (delete_event_body ev u owner) s
       in (wrapR (''ydb: delete outbox event '' @ ev_id ev) (fst r), snd r)))"

definition record_publish_failure :: "uuid_ops \<Rightarrow> outbox_store \<Rightarrow> env \<Rightarrow> event \<Rightarrow> string \<Rightarrow> perror \<Rightarrow> run \<Rightarrow>
    (perror, bool) go_result \<times> run" where
  "record_publish_failure U st E ev owner perr s = (case parse_event_id U ev of
     Inl e \<Rightarrow> (Inl e, s)
   | Inr u \<Rightarrow>
      (let r = call_db E (record_failure_body st ev u owner perr) s
       in (wrapR (''ydb: record outbox failure for '' @ ev_id ev) (fst r), snd r)))"

definition is_lease_lost :: "perror \<Rightarrow> bool" where
  "is_lease_lost e \<longleftrightarrow> as_error (\<lambda>x. x = lease_lost) e \<noteq> None"

text \<open>The two branches of the loop of \<open>PublishBucket\<close> that leave it after a publish.\<close>

definition lost_or :: "perror \<Rightarrow> perror" where
  "lost_or e = (if is_lease_lost e then TransientErr (Some e) 0 else e)"

definition after_failure :: "uuid_ops \<Rightarrow> outbox_store \<Rightarrow> env \<Rightarrow> event \<Rightarrow> string \<Rightarrow> perror \<Rightarrow> run \<Rightarrow> perror \<times> run" where
  "after_failure U st E ev owner perr s =
     (let r = record_publish_failure U st E ev owner perr s
      in (case fst r of
            Inl e \<Rightarrow> (lost_or e, snd r)
          | Inr dead_lettered \<Rightarrow>
              (Wrapped (''ydb: publish outbox event '' @ ev_id ev)
                 (if dead_lettered then DeadLetteredErr (ev_id ev) (Some perr) else perr), snd r)))"

fun publish_loop :: "uuid_ops \<Rightarrow> outbox_store \<Rightarrow> env \<Rightarrow> string \<Rightarrow> (nat \<Rightarrow> event \<Rightarrow> perror option) \<Rightarrow>
    event list \<Rightarrow> nat \<Rightarrow> run \<Rightarrow> (nat \<times> perror option) \<times> run" where
  "publish_loop U st E owner publish [] published s = ((published, None), s)"
| "publish_loop U st E owner publish (ev # evs) published s =
     (case call_db E (lease_held_body (ev_bucket ev) owner) s of
        (Inl e, s) \<Rightarrow> ((published, Some (Wrapped ''ydb: check outbox bucket lease'' e)), s)
      | (Inr held, s) \<Rightarrow>
          if \<not> held then ((published, Some (TransientErr (Some (Wrapped ''lease lost'' lease_lost)) 0)), s)
          else (case publish (r_calls s) ev of
            Some perr \<Rightarrow>
              (case after_failure U st E ev owner perr (log_sent ev (Some perr) s) of
                 (e, s) \<Rightarrow> ((published, Some e), s))
          | None \<Rightarrow>
              (case delete_event U E ev owner (log_sent ev None s) of
                 (Inl e, s) \<Rightarrow> ((published, Some (lost_or e)), s)
               | (Inr _, s) \<Rightarrow> publish_loop U st E owner publish evs (published + 1) s)))"

definition publish_bucket :: "uuid_ops \<Rightarrow> outbox_store \<Rightarrow> env \<Rightarrow> int \<Rightarrow> string \<Rightarrow> int \<Rightarrow>
    (nat \<Rightarrow> event \<Rightarrow> perror option) \<Rightarrow> run \<Rightarrow> (nat \<times> perror option) \<times> run" where
  "publish_bucket U st E bucket owner limit publish s =
     (let limit = (if limit \<le> 0 then 100 else nat limit)
      in (case call_db E (leased_bucket_events U bucket owner limit) s of
            (Inl e, s) \<Rightarrow> ((0, Some (Wrapped ''ydb: read outbox bucket'' e)), s)
          | (Inr evs, s) \<Rightarrow> publish_loop U st E owner publish evs 0 s))"

subsection \<open>Dead letters\<close>

datatype replay_error =
    RefInvalid string
  | NotFound dead_letter_ref
  | ReplayConflict dead_letter_ref
  | StoreFailed perror

definition validate_ref :: "uuid_ops \<Rightarrow> outbox_store \<Rightarrow> dead_letter_ref \<Rightarrow> (replay_error, key) go_result" where
  "validate_ref U st ref =
     guardR (dr_bucket ref < 0 \<or> st_bucket_count st \<le> dr_bucket ref) (RefInvalid ''bucket'')
    (guardR (is_zero_time (dr_created ref)) (RefInvalid ''created_at'')
    (case uo_parse U (dr_id ref) of None \<Rightarrow> Inl (RefInvalid ''id'')
     | Some u \<Rightarrow> Inr (u8 (dr_bucket ref), truncate_us (dr_created ref), u)))"

definition scan_dead_letter :: "uuid_ops \<Rightarrow> key \<times> dead_row \<Rightarrow> dead_letter" where
  "scan_dead_letter U r = (case r of ((b, c, u), w) \<Rightarrow>
     \<lparr>dl_event = \<lparr>ev_id = uo_string U u, ev_bucket = int b, ev_created = c, ev_key = de_key w,
        ev_payload = de_payload w, ev_topic = text_or_empty (de_topic w)\<rparr>,
      dl_attempts = de_attempts w, dl_last_error = text_or_empty (de_last_error w),
      dl_failed_at = de_failed_at w\<rparr>)"

definition page_size :: "int \<Rightarrow> nat" where
  "page_size limit =
     (let limit = (if limit \<le> 0 then 100 else limit) in nat (if 1000 < limit then 1000 else limit))"

definition list_dead_letters :: "uuid_ops \<Rightarrow> outbox_store \<Rightarrow> list_options \<Rightarrow> fault \<Rightarrow> db \<Rightarrow>
    (replay_error, dead_letter_page) go_result" where
  "list_dead_letters U st opts f d =
     (let limit = page_size (lo_limit opts)
      in bindR (case lo_after opts of None \<Rightarrow> Inr None
                | Some ref \<Rightarrow> bindR (validate_ref U st ref) (\<lambda>k. Inr (Some k))) (\<lambda>after.
         case f of
           Refused e \<Rightarrow> Inl (StoreFailed (Wrapped ''ydb: list outbox dead letters'' (Opaque e)))
         | Ambiguous e \<Rightarrow> Inl (StoreFailed (Wrapped ''ydb: list outbox dead letters'' (Opaque e)))
         | Committed \<Rightarrow>
            let items = map (scan_dead_letter U) (take (limit + 1) (t_after (dead d) after))
            in if limit < length items
               then Inr \<lparr>pg_items = take limit items,
                      pg_next = Some (dead_letter_to_ref (last (take limit items)))\<rparr>
               else Inr \<lparr>pg_items = items, pg_next = None\<rparr>))"

definition get_dead_letter :: "uuid_ops \<Rightarrow> outbox_store \<Rightarrow> dead_letter_ref \<Rightarrow> fault \<Rightarrow> db \<Rightarrow>
    (replay_error, dead_letter) go_result" where
  "get_dead_letter U st ref f d =
     bindR (validate_ref U st ref) (\<lambda>k.
       case f of
         Refused e \<Rightarrow> Inl (StoreFailed (Wrapped (''ydb: get outbox dead letter '' @ dr_id ref) (Opaque e)))
       | Ambiguous e \<Rightarrow> Inl (StoreFailed (Wrapped (''ydb: get outbox dead letter '' @ dr_id ref) (Opaque e)))
       | Committed \<Rightarrow>
          (case t_get (dead d) k of None \<Rightarrow> Inl (NotFound ref)
           | Some w \<Rightarrow> Inr (scan_dead_letter U (k, w))))"

definition replay_body :: "uuid_ops \<Rightarrow> dead_letter_ref \<Rightarrow> key \<Rightarrow> db \<Rightarrow> (replay_error, replay_state \<times> db) go_result" where
  "replay_body U ref k d =
     (let is_pending = (t_get (pending d) k \<noteq> None)
      in (case t_get (dead d) k of
            None \<Rightarrow> if is_pending then Inr (ReplayAlreadyPending, d) else Inl (NotFound ref)
          | Some w \<Rightarrow>
              let letter = dl_event (scan_dead_letter U (k, w))
              in if is_pending then Inl (ReplayConflict ref)
                 else Inr (ReplayRequeued,
                   d\<lparr>pending := t_put (pending d)
                       (u8 (ev_bucket letter), ev_created letter, snd (snd k))
                       \<lparr>pr_key = ev_key letter, pr_topic = optional_text (ev_topic letter),
                        pr_payload = ev_payload letter, pr_attempts = 0, pr_last_error = None\<rparr>,
                     dead := t_del (dead d) k\<rparr>)))"

definition replay_dead_letter :: "uuid_ops \<Rightarrow> outbox_store \<Rightarrow> dead_letter_ref \<Rightarrow> fault \<Rightarrow> db \<Rightarrow>
    (replay_error, replay_state) go_result \<times> db" where
  "replay_dead_letter U st ref f d = (case validate_ref U st ref of
     Inl e \<Rightarrow> (Inl e, d)
   | Inr k \<Rightarrow>
      (case replay_body U ref k d of
         Inl e \<Rightarrow> (Inl e, d)
       | Inr (state, d') \<Rightarrow>
          (let msg = ''ydb: replay outbox dead letter '' @ dr_id ref in
          (case f of Committed \<Rightarrow> (Inr state, d')
           | Refused e \<Rightarrow> (Inl (StoreFailed (Wrapped msg (Opaque e))), d)
           | Ambiguous e \<Rightarrow> (Inl (StoreFailed (Wrapped msg (Opaque e))), d')))))"

definition table_oldest :: "('r \<Rightarrow> time) \<Rightarrow> 'r list \<Rightarrow> time option" where
  "table_oldest col rs = (if rs = [] then None else Some (Min (col ` set rs)))"

definition store_stats :: "db \<Rightarrow> outbox_stats" where
  "store_stats d = \<lparr>os_pending_count = length (pending d),
     os_pending_oldest = table_oldest (\<lambda>r. fst (snd (fst r))) (pending d),
     os_dead_count = length (dead d),
     os_dead_oldest = table_oldest (\<lambda>r. de_failed_at (snd r)) (dead d)\<rparr>"

subsection \<open>Enqueue and read back\<close>

lemma u8_small [simp]: "0 \<le> b \<Longrightarrow> b < 256 \<Longrightarrow> u8 b = nat b"
  by (simp add: u8_def)

lemma u8_inject: "0 \<le> b \<Longrightarrow> b < 256 \<Longrightarrow> 0 \<le> c \<Longrightarrow> c < 256 \<Longrightarrow> u8 b = u8 c \<longleftrightarrow> b = c"
  by (simp add: nat_eq_iff)

lemma bucket_of_bound:
  assumes "bucket_of k n = Some b" "0 < n" "n < 2 ^ 32"
  shows "0 \<le> b \<and> b < n"
proof -
  have "word_of_int n \<noteq> (0 :: 32 word)" "uint (word_of_int n :: 32 word) = n"
    using assms(2,3) by (simp_all add: uint_word_of_int word_of_int_eq_0_iff zdvd_not_zless)
  then show ?thesis
    using assms by (auto simp: bucket_of_def uint_mod)
qed

lemma text_optional [simp]: "text_or_empty (optional_text s) = s"
  by (simp add: text_or_empty_def optional_text_def)

text \<open>
  What \<open>EnqueueTx\<close> returns is what the relay reads back: the stored row scans to the very
  event that was returned (normalised identifier, derived bucket, microsecond timestamp, default
  payload), and its identifier and bucket address that row. No other row changes.
\<close>

theorem enqueue_reads_back:
  assumes "uuid_ok U" and "0 < st_bucket_count st" and "st_bucket_count st \<le> 256"
    and "enqueue_tx U st fresh now ev d = Inr (ev', d')"
  shows "\<exists>u w. parse_event_id U ev' = Inr u \<and>
    t_get (pending d) (event_key ev' u) = None \<and>
    t_get (pending d') = (t_get (pending d))(event_key ev' u \<mapsto> w) \<and>
    scan_event U (event_key ev' u, w) = ev' \<and> pr_attempts w = 0 \<and>
    Some (ev_bucket ev') = bucket_of (ev_key ev) (st_bucket_count st) \<and> ev_key ev' = ev_key ev \<and>
    dead d' = dead d \<and> leases d' = leases d"
proof -
  from assms(4) obtain u where e: "enqueue_event U st fresh now ev = Inr (ev', u)"
    and n: "t_get (pending d) (event_key ev' u) = None"
    and d': "d' = d\<lparr>pending := t_put (pending d) (event_key ev' u)
         \<lparr>pr_key = ev_key ev', pr_topic = optional_text (ev_topic ev'), pr_payload = ev_payload ev',
          pr_attempts = 0, pr_last_error = None\<rparr>\<rparr>"
    by (auto simp: enqueue_tx_def split: if_splits)
  from e obtain b where b: "bucket_of (ev_key ev) (st_bucket_count st) = Some b"
    and ev': "ev_id ev' = uo_string U u" "ev_bucket ev' = b" "ev_key ev' = ev_key ev"
    by (auto simp: enqueue_event_def split: if_splits option.splits)
  from bucket_of_bound [OF b assms(2)] assms(3) have "0 \<le> b" "b < 256" by auto
  with ev' have "scan_event U (event_key ev' u, \<lparr>pr_key = ev_key ev', pr_topic = optional_text (ev_topic ev'),
      pr_payload = ev_payload ev', pr_attempts = 0, pr_last_error = None\<rparr>) = ev'"
    by (simp add: scan_event_def event_key_def)
  moreover have "parse_event_id U ev' = Inr u"
    using assms(1) ev'(1) by (simp add: parse_event_id_def uuid_ok_def)
  ultimately show ?thesis using n d' b ev'(2,3) by (auto simp: table_simps)
qed

subsection \<open>Leases\<close>

definition lease_free :: "db \<Rightarrow> string \<Rightarrow> time \<Rightarrow> int \<Rightarrow> bool" where
  "lease_free d owner stamp b = (case t_get (leases d) (u8 b) of None \<Rightarrow> True
     | Some h \<Rightarrow> le_by h = owner \<or> le_until h \<le> stamp)"

lemma claim_loop_owned:
  "fst (claim_loop held owner stamp until bs tbl owned) =
   owned @ filter (\<lambda>b. case held (u8 b) of None \<Rightarrow> True
     | Some h \<Rightarrow> le_by h = owner \<or> le_until h \<le> stamp) bs"
  by (induction held owner stamp until bs tbl owned rule: claim_loop.induct)
    (auto split: option.split)

lemma claim_loop_table:
  assumes "t_inv tbl"
  shows "t_inv (snd (claim_loop held owner stamp until bs tbl owned)) \<and>
   t_get (snd (claim_loop held owner stamp until bs tbl owned)) k =
   (if k \<in> u8 ` set (filter (\<lambda>b. case held (u8 b) of None \<Rightarrow> True
     | Some h \<Rightarrow> le_by h = owner \<or> le_until h \<le> stamp) bs)
    then Some \<lparr>le_by = owner, le_until = until\<rparr> else t_get tbl k)"
  using assms
  by (induction held owner stamp until bs tbl owned rule: claim_loop.induct)
    (auto simp: table_simps split: option.splits)

lemma claim_Inr:
  assumes "claim_buckets st owner lease now f d = (Inr owned, d')" and "db_inv d"
  shows "owned = filter (lease_free d owner (truncate_us now)) [0..st_bucket_count st - 1]"
    and "pending d' = pending d" and "dead d' = dead d" and "db_inv d'"
    and "t_get (leases d') k = (if k \<in> u8 ` set owned
       then Some \<lparr>le_by = owner, le_until = truncate_us (truncate_us now + lease)\<rparr>
       else t_get (leases d) k)"
proof -
  from assms(1) have d: "fst (claim_loop (t_get (leases d)) owner (truncate_us now)
      (truncate_us (truncate_us now + lease)) [0..st_bucket_count st - 1] (leases d) []) = owned"
    "d' = d\<lparr>leases := snd (claim_loop (t_get (leases d)) owner (truncate_us now)
      (truncate_us (truncate_us now + lease)) [0..st_bucket_count st - 1] (leases d) [])\<rparr>"
    by (auto simp: claim_buckets_def do_tx_def claim_body_def wrapR_def Let_def split: fault.splits sum.splits)
  from d(1) show o': "owned = filter (lease_free d owner (truncate_us now)) [0..st_bucket_count st - 1]"
    unfolding claim_loop_owned lease_free_def by simp
  from d(2) show "pending d' = pending d" "dead d' = dead d" by simp_all
  from assms(2) have "t_inv (leases d)" by (simp add: db_inv_def)
  note tbl = claim_loop_table [OF this, of "t_get (leases d)" owner "truncate_us now"
    "truncate_us (truncate_us now + lease)" "[0..st_bucket_count st - 1]" "[]"]
  from tbl assms(2) show "db_inv d'" by (simp add: db_inv_def d(2))
  have "lease_free d owner (truncate_us now) = (\<lambda>b. case t_get (leases d) (u8 b) of None \<Rightarrow> True
     | Some h \<Rightarrow> le_by h = owner \<or> le_until h \<le> truncate_us now)"
    by (simp add: lease_free_def fun_eq_iff)
  with tbl [of k] show "t_get (leases d') k = (if k \<in> u8 ` set owned
       then Some \<lparr>le_by = owner, le_until = truncate_us (truncate_us now + lease)\<rparr>
       else t_get (leases d) k)"
    by (simp add: d(2) o')
qed

lemma claim_Inl:
  assumes "claim_buckets st owner lease now f d = (Inl e, d')"
  shows "d' = d \<or> (\<exists>owned. claim_buckets st owner lease now Committed d = (Inr owned, d'))"
  using assms by (auto simp: claim_buckets_def do_tx_def claim_body_def wrapR_def Let_def
    split: fault.splits)

text \<open>
  A claim takes exactly what it may: the buckets returned are, in order, those whose lease
  row is missing, expired, or already the owner's; their rows now name the owner until the lease
  has elapsed, and no other row of any table changes.
\<close>

theorem claim_takes_exactly_free:
  assumes "claim_buckets st owner lease now f d = (Inr owned, d')" and "db_inv d"
  shows "owned = filter (lease_free d owner (truncate_us now)) [0..st_bucket_count st - 1] \<and>
    t_get (leases d') = (\<lambda>k. if k \<in> u8 ` set owned
       then Some \<lparr>le_by = owner, le_until = truncate_us (truncate_us now + lease)\<rparr>
       else t_get (leases d) k) \<and>
    pending d' = pending d \<and> dead d' = dead d \<and> db_inv d'"
  using claim_Inr [OF assms] by (auto simp: fun_eq_iff)

text \<open>
  Histories of claims. \<open>H\<close> is what each owner believes after its last successful claim: which
  buckets it holds and until when. Every owner uses its own lease length. A claim may fail, also
  after its transaction has committed; other transactions leave the lease table alone.
\<close>

inductive claims :: "outbox_store \<Rightarrow> (string \<Rightarrow> duration) \<Rightarrow> db \<Rightarrow> (string \<Rightarrow> int \<Rightarrow> time option) \<Rightarrow> time \<Rightarrow> bool"
  for st L where
  start: "db_inv d \<Longrightarrow> claims st L d (\<lambda>_ _. None) t"
| claimed: "claims st L d H t \<Longrightarrow> t \<le> now \<Longrightarrow>
    claim_buckets st owner (L owner) now f d = (Inr owned, d') \<Longrightarrow>
    claims st L d' (H(owner := (\<lambda>b. if b \<in> set owned
       then Some (truncate_us (truncate_us now + L owner)) else None))) now"
| failed: "claims st L d H t \<Longrightarrow> t \<le> now \<Longrightarrow>
    claim_buckets st owner (L owner) now f d = (Inl e, d') \<Longrightarrow> claims st L d' H now"
| other: "claims st L d H t \<Longrightarrow> t \<le> now \<Longrightarrow> db_inv d' \<Longrightarrow> leases d' = leases d \<Longrightarrow> claims st L d' H now"

inductive_cases claims_cases: "claims st L d H t"

definition belief_ok :: "(string \<Rightarrow> duration) \<Rightarrow> db \<Rightarrow> (string \<Rightarrow> int \<Rightarrow> time option) \<Rightarrow> time \<Rightarrow> bool" where
  "belief_ok L d H t \<longleftrightarrow> db_inv d \<and> (\<forall>ow b u. H ow b = Some u \<longrightarrow>
     u \<le> truncate_us (truncate_us t + L ow) \<and>
     (u \<le> t \<or> (\<exists>h. t_get (leases d) (u8 b) = Some h \<and> le_by h = ow \<and> u \<le> le_until h)))"

lemma until_mono: "s \<le> t \<Longrightarrow> truncate_us (truncate_us s + l) \<le> truncate_us (truncate_us t + l)"
  by (simp add: truncate_us_mono)

lemma belief_later:
  assumes "belief_ok L d H t" "t \<le> now" "db_inv d'" "leases d' = leases d"
  shows "belief_ok L d' H now"
  using assms until_mono [OF assms(2)] unfolding belief_ok_def by (metis order_trans)

lemma belief_claim:
  assumes ok: "belief_ok L d H t" and now: "t \<le> now"
    and c: "claim_buckets st owner (L owner) now f d = (Inr owned, d')"
  shows "belief_ok L d' H now"
proof -
  have inv: "db_inv d" using ok by (simp add: belief_ok_def)
  note c = claim_Inr [OF c inv]
  have "u \<le> truncate_us (truncate_us now + L ow) \<and>
     (u \<le> now \<or> (\<exists>h. t_get (leases d') (u8 b) = Some h \<and> le_by h = ow \<and> u \<le> le_until h))"
    if H: "H ow b = Some u" for ow b u
  proof
    show u: "u \<le> truncate_us (truncate_us now + L ow)"
      using ok H until_mono [OF now] unfolding belief_ok_def by (metis order_trans)
    consider "u \<le> t" | h where "t_get (leases d) (u8 b) = Some h" "le_by h = ow" "u \<le> le_until h"
      using ok H unfolding belief_ok_def by blast
    then show "u \<le> now \<or> (\<exists>h. t_get (leases d') (u8 b) = Some h \<and> le_by h = ow \<and> u \<le> le_until h)"
    proof cases
      case 2
      show ?thesis
      proof (cases "u8 b \<in> u8 ` set owned")
        case True
        then obtain b' where b': "b' \<in> set owned" "u8 b' = u8 b" by force
        then have "lease_free d owner (truncate_us now) b'" using c(1) by simp
        with 2 b' have "owner = ow \<or> u \<le> truncate_us now" by (auto simp: lease_free_def)
        moreover have "t_get (leases d') (u8 b) =
            Some \<lparr>le_by = owner, le_until = truncate_us (truncate_us now + L owner)\<rparr>"
          using c(5) [of "u8 b"] True by simp
        ultimately show ?thesis using u truncate_us_le [of now] by auto
      qed (use 2 c(5) [of "u8 b"] in auto)
    qed (use now in auto)
  qed
  with c(4) show ?thesis by (simp add: belief_ok_def)
qed

lemma claims_belief: "claims st L d H t \<Longrightarrow> belief_ok L d H t"
proof (induction rule: claims.induct)
  case (claimed d H t now owner f owned d')
  have inv: "db_inv d" using claimed.IH by (simp add: belief_ok_def)
  from belief_claim [OF claimed.IH claimed.hyps(2,3)] have "belief_ok L d' H now" .
  then show ?case using claim_Inr(5) [OF claimed.hyps(3) inv]
    by (auto simp: belief_ok_def)
next
  case (failed d H t now owner f e d')
  from claim_Inl [OF failed.hyps(3)] show ?case
  proof
    assume "d' = d"
    moreover have "db_inv d" using failed.IH by (simp add: belief_ok_def)
    ultimately show ?thesis using belief_later [OF failed.IH failed.hyps(2), of d] by simp
  next
    assume "\<exists>owned. claim_buckets st owner (L owner) now Committed d = (Inr owned, d')"
    with belief_claim [OF failed.IH failed.hyps(2)] show ?thesis by blast
  qed
next
  case (other d H t now d')
  then show ?case by (auto intro: belief_later)
qed (simp add: belief_ok_def)

text \<open>
  C2. Mutual exclusion of the lease protocol: however owners claim, renew, fail and come back,
  at no time do two of them believe to hold the same bucket; and an owner that believes so is
  the one the database names, so its publishing is not refused.
\<close>

theorem claims_exclude:
  assumes "claims st L d H t" and "t \<le> now" and "H ow b = Some u" and "now < u"
  shows "lease_held d b ow now \<and> (\<forall>o' u'. H o' b = Some u' \<and> now < u' \<longrightarrow> o' = ow)"
proof -
  note B = claims_belief [OF assms(1)]
  have row: "\<exists>h. t_get (leases d) (u8 b) = Some h \<and> le_by h = x \<and> v \<le> le_until h"
    if "H x b = Some v" "now < v" for x v
    using B that assms(2) unfolding belief_ok_def by (meson leD order.trans)
  from row [OF assms(3,4)] obtain h where h: "t_get (leases d) (u8 b) = Some h" "le_by h = ow"
    "u \<le> le_until h" by blast
  moreover have "truncate_us now < le_until h" using h(3) assms(4) truncate_us_le [of now] by simp
  moreover have "o' = ow" if "H o' b = Some u'" "now < u'" for o' u'
    using row [OF that] h by auto
  ultimately show ?thesis by (auto simp: lease_held_def)
qed

subsection \<open>The log of a run\<close>

fun chained :: "(act option \<Rightarrow> act \<Rightarrow> bool) \<Rightarrow> act option \<Rightarrow> act list \<Rightarrow> bool" where
  "chained R prev [] = True"
| "chained R prev (a # as) = (R prev a \<and> chained R (Some a) as)"

definition last_act :: "act option \<Rightarrow> act list \<Rightarrow> act option" where
  "last_act prev as = (if as = [] then prev else Some (last as))"

lemma last_act_simps [simp]:
  "last_act prev [] = prev"
  "last_act prev (a # as) = last_act (Some a) as"
  "last_act prev (as @ [a]) = Some a"
  by (simp_all add: last_act_def)

lemma chained_append [simp]:
  "chained R prev (as @ bs) \<longleftrightarrow> chained R prev as \<and> chained R (last_act prev as) bs"
  by (induction R prev as rule: chained.induct) auto

text \<open>
  The protocol of one instance, as a relation between an act and the one before it: an event is
  sent only right after a check that found the lease valid, and a transaction changes the
  database only right after a send, with the lease valid in that very transaction, by what
  the result of the send allows.
\<close>

definition protocol :: "uuid_ops \<Rightarrow> outbox_store \<Rightarrow> string \<Rightarrow> act option \<Rightarrow> act \<Rightarrow> bool" where
  "protocol U st owner prev a = (case a of
     Sent ev res \<Rightarrow> \<exists>t d. prev = Some (Step t d d) \<and> lease_held d (ev_bucket ev) owner t
   | Step t d d' \<Rightarrow> d' = d \<or>
      (\<exists>ev res u. prev = Some (Sent ev res) \<and> parse_event_id U ev = Inr u \<and>
         lease_held d (ev_bucket ev) owner t \<and>
         (case res of
            None \<Rightarrow> d' = d\<lparr>pending := t_del (pending d) (event_key ev u)\<rparr>
          | Some perr \<Rightarrow> \<exists>b. record_failure_body st ev u owner perr t d = Inr (b, d'))))"

fun sends :: "act list \<Rightarrow> (event \<times> perror option) list" where
  "sends [] = []"
| "sends (Sent ev res # as) = (ev, res) # sends as"
| "sends (Step t d d' # as) = sends as"

lemma sends_append [simp]: "sends (as @ bs) = sends as @ sends bs"
  by (induction as rule: sends.induct) auto

lemma call_db_log:
  assumes "call_db E body s = (res, s')"
  obtains d d' where "r_log s' = r_log s @ [Step (e_now E (r_calls s)) d d']"
    "d = e_others E (r_calls s) (r_db s)" "r_db s' = d'"
    "d' = d \<or> (\<exists>a. body (e_now E (r_calls s)) d = Inr (a, d'))"
    "\<And>a. res = Inr a \<Longrightarrow> body (e_now E (r_calls s)) d = Inr (a, d')"
proof -
  let ?d = "e_others E (r_calls s) (r_db s)"
  let ?r = "do_tx (e_fault E (r_calls s)) (body (e_now E (r_calls s))) ?d"
  have s': "r_log s' = r_log s @ [Step (e_now E (r_calls s)) ?d (snd ?r)]" "res = fst ?r"
    "r_db s' = snd ?r"
    using assms by (auto simp: call_db_def Let_def)
  have "snd ?r = ?d \<or> (\<exists>a. body (e_now E (r_calls s)) ?d = Inr (a, snd ?r))"
    "\<And>a. fst ?r = Inr a \<Longrightarrow> body (e_now E (r_calls s)) ?d = Inr (a, snd ?r)"
    by (auto simp: do_tx_def split: sum.splits fault.splits)
  with s' that show thesis by blast
qed

definition one_step :: "uuid_ops \<Rightarrow> outbox_store \<Rightarrow> string \<Rightarrow> act option \<Rightarrow> run \<Rightarrow> run \<Rightarrow> bool" where
  "one_step U st owner prev s s' \<longleftrightarrow>
     (\<exists>as. r_log s' = r_log s @ as \<and> chained (protocol U st owner) prev as \<and> sends as = [])"

lemma delete_event_log:
  assumes "delete_event U E ev owner s = (res, s')"
  shows "one_step U st owner (Some (Sent ev None)) s s'"
proof (cases "parse_event_id U ev")
  case (Inl e)
  with assms show ?thesis by (simp add: delete_event_def one_step_def)
next
  case (Inr u)
  with assms obtain r where r: "call_db E (delete_event_body ev u owner) s = (r, s')"
    by (auto simp: delete_event_def Let_def prod_eq_iff)
  from call_db_log [OF r] obtain d d' where "r_log s' = r_log s @ [Step (e_now E (r_calls s)) d d']"
    "d' = d \<or> (\<exists>a. delete_event_body ev u owner (e_now E (r_calls s)) d = Inr (a, d'))" by metis
  with Inr show ?thesis
    by (auto simp: one_step_def protocol_def delete_event_body_def split: if_splits)
qed

lemma record_failure_log:
  assumes "record_publish_failure U st E ev owner perr s = (res, s')"
  shows "one_step U st owner (Some (Sent ev (Some perr))) s s'"
proof (cases "parse_event_id U ev")
  case (Inl e)
  with assms show ?thesis by (simp add: record_publish_failure_def one_step_def)
next
  case (Inr u)
  with assms obtain r where r: "call_db E (record_failure_body st ev u owner perr) s = (r, s')"
    by (auto simp: record_publish_failure_def Let_def prod_eq_iff)
  from call_db_log [OF r] obtain d d' where log: "r_log s' = r_log s @ [Step (e_now E (r_calls s)) d d']"
    "d' = d \<or> (\<exists>a. record_failure_body st ev u owner perr (e_now E (r_calls s)) d = Inr (a, d'))" by metis
  have "lease_held d (ev_bucket ev) owner t"
    if "record_failure_body st ev u owner perr t d = Inr (a, d')" for t a
    using that by (auto simp: record_failure_body_def split: if_splits)
  with log Inr show ?thesis by (auto simp: one_step_def protocol_def)
qed

definition loop_log :: "uuid_ops \<Rightarrow> outbox_store \<Rightarrow> string \<Rightarrow> act option \<Rightarrow> event list \<Rightarrow> nat \<Rightarrow> perror option \<Rightarrow>
    run \<Rightarrow> run \<Rightarrow> bool" where
  "loop_log U st owner prev evs k err s s' \<longleftrightarrow>
     (\<exists>as rest. r_log s' = r_log s @ as \<and> chained (protocol U st owner) prev as \<and> k \<le> length evs \<and>
        sends as = map (\<lambda>e. (e, None)) (take k evs) @ rest \<and>
        (rest = [] \<or> (\<exists>res. rest = [(evs ! k, res)] \<and> k < length evs \<and> err \<noteq> None)) \<and>
        (err = None \<longrightarrow> k = length evs))"

lemma read_log:
  assumes "call_db E body s = (res, s1)" and body: "\<And>t d. body t d = Inr (f t d, d)"
  shows "\<exists>t d. r_log s1 = r_log s @ [Step t d d] \<and> (\<forall>x. res = Inr x \<longrightarrow> x = f t d)"
proof (rule call_db_log [OF assms(1)])
  fix d d'
  let ?t = "e_now E (r_calls s)"
  assume log: "r_log s1 = r_log s @ [Step ?t d d']"
    and "d' = d \<or> (\<exists>a. body ?t d = Inr (a, d'))"
    and res: "\<And>a. res = Inr a \<Longrightarrow> body ?t d = Inr (a, d')"
  then have "d' = d" by (auto simp: body)
  moreover have "\<forall>x. res = Inr x \<longrightarrow> x = f ?t d"
  proof (intro allI impI)
    fix x assume "res = Inr x"
    from res [OF this] show "x = f ?t d" by (auto simp: body)
  qed
  ultimately show ?thesis using log by blast
qed

lemma check_log:
  assumes "call_db E (lease_held_body b owner) s = (res, s1)"
  shows "\<exists>t d. r_log s1 = r_log s @ [Step t d d] \<and> (\<forall>h. res = Inr h \<longrightarrow> h = lease_held d b owner t)"
  by (rule read_log [OF assms]) (simp add: lease_held_body_def)

lemma publish_loop_log:
  "publish_loop U st E owner publish evs n s = ((m, err), s') \<Longrightarrow>
   n \<le> m \<and> loop_log U st owner prev evs (m - n) err s s'"
proof (induction evs arbitrary: n s prev)
  case Nil
  then show ?case by (auto simp: loop_log_def)
next
  case (Cons ev evs)
  obtain held s1 where call: "call_db E (lease_held_body (ev_bucket ev) owner) s = (held, s1)"
    by (cases "call_db E (lease_held_body (ev_bucket ev) owner) s")
  from check_log [OF call] obtain t d where s1: "r_log s1 = r_log s @ [Step t d d]"
    "\<forall>h. held = Inr h \<longrightarrow> h = lease_held d (ev_bucket ev) owner t" by blast
  have p1: "protocol U st owner prev (Step t d d)" by (simp add: protocol_def)
  show ?case
  proof (cases "held = Inr True")
    case False
    then have "m = n \<and> err \<noteq> None \<and> s' = s1"
      using Cons.prems call by (cases held) (auto split: if_splits)
    with s1 p1 show ?thesis
      by (auto simp: loop_log_def intro!: exI [of _ "[Step t d d]"])
  next
    case True
    with s1 have valid: "lease_held d (ev_bucket ev) owner t" by blast
    let ?res = "publish (r_calls s1) ev"
    let ?s2 = "log_sent ev ?res s1"
    have p2: "protocol U st owner (Some (Step t d d)) (Sent ev ?res)"
      using valid by (simp add: protocol_def)
    have log2: "r_log ?s2 = r_log s @ [Step t d d, Sent ev ?res]" by (simp add: log_sent_def s1)
    have stop: "n \<le> n \<and> loop_log U st owner prev (ev # evs) (n - n) (Some e) s s'"
      if "one_step U st owner (Some (Sent ev ?res)) ?s2 s'" for e
    proof -
      from that obtain as where "r_log s' = r_log ?s2 @ as"
        "chained (protocol U st owner) (Some (Sent ev ?res)) as" "sends as = []"
        by (auto simp: one_step_def)
      with p1 p2 show ?thesis
        unfolding loop_log_def log2
        by (intro conjI exI [of _ "[Step t d d, Sent ev ?res] @ as"] exI [of _ "[(ev, ?res)]"]) simp_all
    qed
    show ?thesis
    proof (cases ?res)
      case (Some perr)
      obtain e where r: "after_failure U st E ev owner perr ?s2 = (e, s')" "m = n" "err = Some e"
        using Cons.prems call True Some by (auto split: prod.splits)
      then obtain x where "record_publish_failure U st E ev owner perr ?s2 = (x, s')"
        by (auto simp: after_failure_def Let_def prod_eq_iff split: sum.splits)
      from record_failure_log [OF this] Some have "one_step U st owner (Some (Sent ev ?res)) ?s2 s'" by simp
      with stop r show ?thesis by simp
    next
      case None
      obtain x s3 where del: "delete_event U E ev owner ?s2 = (x, s3)" by (cases "delete_event U E ev owner ?s2")
      from delete_event_log [OF this] None
      have one: "one_step U st owner (Some (Sent ev ?res)) ?s2 s3" by simp
      show ?thesis
      proof (cases x)
        case (Inl e)
        then have "m = n" "err = Some (lost_or e)" "s' = s3"
          using Cons.prems call True None del by auto
        with stop one show ?thesis by simp
      next
        case (Inr z)
        then have loop: "publish_loop U st E owner publish evs (n + 1) s3 = ((m, err), s')"
          using Cons.prems call True None del by auto
        from one obtain as where as: "r_log s3 = r_log ?s2 @ as"
          "chained (protocol U st owner) (Some (Sent ev ?res)) as" "sends as = []"
          by (auto simp: one_step_def)
        from Cons.IH [OF loop, of "last_act (Some (Sent ev ?res)) as"]
        have m: "n + 1 \<le> m" and "loop_log U st owner (last_act (Some (Sent ev ?res)) as) evs (m - (n + 1)) err s3 s'"
          by auto
        then obtain bs rest where bs: "r_log s' = r_log s3 @ bs"
          "chained (protocol U st owner) (last_act (Some (Sent ev ?res)) as) bs" "m - (n + 1) \<le> length evs"
          "sends bs = map (\<lambda>e. (e, None)) (take (m - (n + 1)) evs) @ rest"
          "rest = [] \<or> (\<exists>res. rest = [(evs ! (m - (n + 1)), res)] \<and> m - (n + 1) < length evs \<and> err \<noteq> None)"
          "err = None \<longrightarrow> m - (n + 1) = length evs"
          unfolding loop_log_def by blast
        from m have k: "m - n = Suc (m - (n + 1))" by simp
        have "r_log s' = r_log s @ ([Step t d d, Sent ev ?res] @ as @ bs)" using log2 as(1) bs(1) by simp
        moreover have "chained (protocol U st owner) prev ([Step t d d, Sent ev ?res] @ as @ bs)"
          using p1 p2 as(2) bs(2) by simp
        moreover have "sends ([Step t d d, Sent ev ?res] @ as @ bs) =
            map (\<lambda>e. (e, None)) (take (m - n) (ev # evs)) @ rest"
          using as(3) bs(4) None k by simp
        moreover have "rest = [] \<or> (\<exists>res. rest = [((ev # evs) ! (m - n), res)] \<and> m - n < length (ev # evs) \<and> err \<noteq> None)"
          using bs(5) k by simp
        moreover have "m - n \<le> length (ev # evs)" "err = None \<longrightarrow> m - n = length (ev # evs)" using bs(3,6) k by simp_all
        ultimately show ?thesis using m unfolding loop_log_def by (metis add_leE)
      qed
    qed
  qed
qed

text \<open>The rows \<open>PublishBucket\<close> reads: the oldest of the bucket, if the lease is the owner's.\<close>

definition batch :: "uuid_ops \<Rightarrow> int \<Rightarrow> string \<Rightarrow> int \<Rightarrow> time \<Rightarrow> db \<Rightarrow> event list" where
  "batch U bucket owner limit t d = (if lease_held d bucket owner t
     then map (scan_event U) (take (if limit \<le> 0 then 100 else nat limit)
            (filter (\<lambda>r. fst (fst r) = u8 bucket) (pending d))) else [])"

lemma leased_events_batch:
  "leased_bucket_events U bucket owner (if limit \<le> 0 then 100 else nat limit) t d =
   Inr (batch U bucket owner limit t d, d)"
  by (simp add: leased_bucket_events_def batch_def)

lemma publish_bucket_log:
  assumes "publish_bucket U st E bucket owner limit publish s = ((m, err), s')"
  obtains t d acts rest where "r_log s' = r_log s @ Step t d d # acts"
    "chained (protocol U st owner) None (Step t d d # acts)"
    "m \<le> length (batch U bucket owner limit t d)"
    "sends acts = map (\<lambda>e. (e, None)) (take m (batch U bucket owner limit t d)) @ rest"
    "rest = [] \<or> (\<exists>res. rest = [(batch U bucket owner limit t d ! m, res)] \<and>
       m < length (batch U bucket owner limit t d) \<and> err \<noteq> None)"
    "err = None \<longrightarrow> m = length (batch U bucket owner limit t d)"
proof -
  let ?l = "if limit \<le> 0 then 100 else nat limit"
  obtain x s1 where call: "call_db E (leased_bucket_events U bucket owner ?l) s = (x, s1)"
    by (cases "call_db E (leased_bucket_events U bucket owner ?l) s")
  have "\<exists>t d. r_log s1 = r_log s @ [Step t d d] \<and> (\<forall>evs. x = Inr evs \<longrightarrow> evs = batch U bucket owner limit t d)"
    by (rule read_log [OF call]) (rule leased_events_batch)
  then obtain t d where s1: "r_log s1 = r_log s @ [Step t d d]"
    "\<And>evs. x = Inr evs \<Longrightarrow> evs = batch U bucket owner limit t d" by blast
  have p: "protocol U st owner None (Step t d d)" by (simp add: protocol_def)
  show thesis
  proof (cases x)
    case (Inl e)
    with assms call have "m = 0" "err \<noteq> None" "s' = s1" by (auto simp: publish_bucket_def Let_def)
    with s1 p show thesis by (intro that [of t d "[]" "[]"]) auto
  next
    case (Inr evs)
    with assms call have "publish_loop U st E owner publish evs 0 s1 = ((m, err), s')"
      by (simp add: publish_bucket_def Let_def)
    from publish_loop_log [OF this, of "Some (Step t d d)"] obtain as rest where
      "r_log s' = r_log s1 @ as" "chained (protocol U st owner) (Some (Step t d d)) as" "m \<le> length evs"
      "sends as = map (\<lambda>e. (e, None)) (take m evs) @ rest"
      "rest = [] \<or> (\<exists>res. rest = [(evs ! m, res)] \<and> m < length evs \<and> err \<noteq> None)"
      "err = None \<longrightarrow> m = length evs" by (auto simp: loop_log_def)
    with s1 p Inr show thesis by (intro that [of t d as rest]) simp_all
  qed
qed

text \<open>
  C12. A bucket is published in key order and publishing stops at the first failure: the events
  sent are, in order, the first \<open>m\<close> of the batch (the oldest rows of the bucket at the moment of
  the read, nothing if the lease was not the owner's), all accepted, and at most the very next
  one, whose failure is reported; \<open>m\<close> is the number returned, and without an error the whole
  batch was sent.
\<close>

theorem publish_bucket_in_order:
  assumes "publish_bucket U st E bucket owner limit publish s = ((m, err), s')"
  shows "\<exists>t d acts rest. r_log s' = r_log s @ Step t d d # acts \<and>
    sends acts = map (\<lambda>e. (e, None)) (take m (batch U bucket owner limit t d)) @ rest \<and>
    m \<le> length (batch U bucket owner limit t d) \<and>
    (rest = [] \<or> (\<exists>res. rest = [(batch U bucket owner limit t d ! m, res)] \<and>
       m < length (batch U bucket owner limit t d) \<and> err \<noteq> None)) \<and>
    (err = None \<longrightarrow> m = length (batch U bucket owner limit t d))"
  by (rule publish_bucket_log [OF assms]) blast

lemma record_failure_removed:
  assumes "record_failure_body st ev u owner perr t d = Inr (b, d')"
    and "t_get (pending d) k = Some w" and "t_get (pending d') k = None"
  shows "k = event_key ev u \<and> classify_publish_error (Some perr) \<noteq> ClassTransient \<and>
    (\<exists>dw. t_get (dead d') k = Some dw \<and> de_key dw = pr_key w \<and> de_topic dw = pr_topic w \<and>
       de_payload dw = pr_payload w)"
proof -
  let ?k = "event_key ev u"
  from assms(1) have held: "lease_held d (ev_bucket ev) owner t"
    by (auto simp: record_failure_body_def split: if_splits)
  show ?thesis
  proof (cases "t_get (pending d) ?k")
    case None
    with assms held show ?thesis by (simp add: record_failure_body_def)
  next
    case (Some v)
    consider (keep) v' where "d' = d\<lparr>pending := t_put (pending d) ?k v'\<rparr>"
      | (park) dw where "classify_publish_error (Some perr) \<noteq> ClassTransient"
        "d' = d\<lparr>dead := t_put (dead d) ?k dw, pending := t_del (pending d) ?k\<rparr>"
        "de_key dw = pr_key v" "de_topic dw = pr_topic v" "de_payload dw = pr_payload v"
      using assms(1) held Some unfolding record_failure_body_def Let_def
      by (simp split: if_splits) fastforce+
    then show ?thesis
    proof cases
      case keep
      with assms(2,3) show ?thesis by (simp add: table_simps split: if_splits)
    next
      case park
      with assms(2,3) Some show ?thesis by (auto simp: table_simps split: if_splits)
    qed
  qed
qed

text \<open>
  C13. No event is lost: whenever a transaction of \<open>PublishBucket\<close> removes a pending row, the
  owner held the lease in that transaction and the act just before it was sending this very
  row's event, and either the publisher had accepted it, or the row is now in the dead-letter
  table with its content and the failure was not a transient one.
\<close>

theorem publish_bucket_loses_nothing:
  assumes "publish_bucket U st E bucket owner limit publish s = (res, s')"
    and "r_log s' = r_log s @ xs @ Step t d d' # ys"
    and "t_get (pending d) k = Some w" and "t_get (pending d') k = None"
  shows "\<exists>ev u sent. xs \<noteq> [] \<and> last xs = Sent ev sent \<and> parse_event_id U ev = Inr u \<and> event_key ev u = k \<and>
    lease_held d (ev_bucket ev) owner t \<and>
    (case sent of None \<Rightarrow> True
     | Some perr \<Rightarrow> classify_publish_error (Some perr) \<noteq> ClassTransient \<and>
        (\<exists>dw. t_get (dead d') k = Some dw \<and> de_key dw = pr_key w \<and> de_topic dw = pr_topic w \<and>
           de_payload dw = pr_payload w))"
proof -
  obtain m err where "res = (m, err)" by (cases res)
  with assms(1) have "publish_bucket U st E bucket owner limit publish s = ((m, err), s')" by simp
  from publish_bucket_log [OF this] obtain as where "r_log s' = r_log s @ as"
    "chained (protocol U st owner) None as" by metis
  with assms(2) have "protocol U st owner (last_act None xs) (Step t d d')" by simp
  moreover from assms(3,4) have "d' \<noteq> d" by auto
  ultimately obtain ev sent u where p: "last_act None xs = Some (Sent ev sent)" "parse_event_id U ev = Inr u"
    "lease_held d (ev_bucket ev) owner t"
    "case sent of None \<Rightarrow> d' = d\<lparr>pending := t_del (pending d) (event_key ev u)\<rparr>
     | Some perr \<Rightarrow> \<exists>b. record_failure_body st ev u owner perr t d = Inr (b, d')"
    by (auto simp: protocol_def)
  from p(1) have xs: "xs \<noteq> []" "last xs = Sent ev sent" by (auto simp: last_act_def split: if_splits)
  show ?thesis
  proof (cases sent)
    case None
    with p(4) assms(3,4) have "event_key ev u = k" by (auto simp: table_simps split: if_splits)
    with None xs p show ?thesis by auto
  next
    case (Some perr)
    with p(4) obtain b where "record_failure_body st ev u owner perr t d = Inr (b, d')" by auto
    from record_failure_removed [OF this assms(3,4)] Some xs p show ?thesis by auto
  qed
qed

subsection \<open>The attempt budget\<close>

fun fail_all :: "outbox_store \<Rightarrow> event \<Rightarrow> nat \<Rightarrow> string \<Rightarrow> (perror \<times> time) list \<Rightarrow> db \<Rightarrow> db option" where
  "fail_all st ev u owner [] d = Some d"
| "fail_all st ev u owner ((perr, t) # es) d =
     (case record_failure_body st ev u owner perr t d of
        Inl e \<Rightarrow> None | Inr (b, d') \<Rightarrow> fail_all st ev u owner es d')"

definition charged :: "(perror \<times> time) list \<Rightarrow> int" where
  "charged es = int (length (filter (\<lambda>e. classify_publish_error (Some (fst e)) \<noteq> ClassTransient) es))"

definition same_content :: "pending_row \<Rightarrow> dead_row \<Rightarrow> bool" where
  "same_content w dw \<longleftrightarrow> de_key dw = pr_key w \<and> de_topic dw = pr_topic w \<and> de_payload dw = pr_payload w"

lemma int32_wrap_id: "- (2 ^ 31) \<le> x \<Longrightarrow> x < 2 ^ 31 \<Longrightarrow> int32_wrap x = x"
  by (simp add: int32_wrap_def)

lemma fail_gone:
  "fail_all st ev u owner es d = Some d' \<Longrightarrow> t_get (pending d) (event_key ev u) = None \<Longrightarrow> d' = d"
proof (induction es arbitrary: d)
  case (Cons e es)
  obtain perr t where "e = (perr, t)" by (cases e)
  with Cons show ?case by (auto simp: record_failure_body_def split: if_splits)
qed simp

definition parked :: "pending_row \<Rightarrow> perror \<Rightarrow> time \<Rightarrow> dead_row" where
  "parked w perr t = \<lparr>de_key = pr_key w, de_topic = pr_topic w, de_payload = pr_payload w,
     de_attempts = pr_attempts w + 1, de_last_error = Some (to_valid_utf8 (error_text perr)),
     de_failed_at = truncate_us t\<rparr>"

lemma same_content_parked [simp]: "same_content w (parked w perr t)"
  by (simp add: same_content_def parked_def)

lemma same_content_upd [simp]:
  "same_content (w\<lparr>pr_last_error := m\<rparr>) dw = same_content w dw"
  "same_content (w\<lparr>pr_attempts := a\<rparr>) dw = same_content w dw"
  by (simp_all add: same_content_def)

lemma record_failure_cases:
  assumes "record_failure_body st ev u owner perr t d = Inr (b, d')"
    and "t_get (pending d) (event_key ev u) = Some w"
    and "0 \<le> pr_attempts w" "pr_attempts w < st_max_attempts st" "st_max_attempts st < 2 ^ 31"
  shows "case classify_publish_error (Some perr) of
      ClassTransient \<Rightarrow> d' = d\<lparr>pending := t_put (pending d) (event_key ev u)
             (w\<lparr>pr_last_error := Some (to_valid_utf8 (error_text perr))\<rparr>)\<rparr>
    | c \<Rightarrow> if c \<noteq> ClassPermanent \<and> pr_attempts w + 1 < st_max_attempts st
        then d' = d\<lparr>pending := t_put (pending d) (event_key ev u)
               (w\<lparr>pr_attempts := pr_attempts w + 1, pr_last_error := Some (to_valid_utf8 (error_text perr))\<rparr>)\<rparr>
        else d' = d\<lparr>dead := t_put (dead d) (event_key ev u) (parked w perr t),
               pending := t_del (pending d) (event_key ev u)\<rparr>"
proof -
  have wrap: "int32_wrap (pr_attempts w + 1) = pr_attempts w + 1"
    using assms(3-5) by (intro int32_wrap_id) auto
  have held: "lease_held d (ev_bucket ev) owner t"
    using assms(1) by (auto simp: record_failure_body_def split: if_splits)
  note r = assms(1) [unfolded record_failure_body_def Let_def]
  show ?thesis
    using r by (cases "classify_publish_error (Some perr)")
      (simp_all add: held assms(2) wrap parked_def split: if_splits)
qed

lemma attempt_budget_aux:
  assumes "fail_all st ev u owner es d = Some d'" and "t_get (pending d) (event_key ev u) = Some w"
    and "0 \<le> pr_attempts w" "pr_attempts w < st_max_attempts st" "st_max_attempts st < 2 ^ 31"
  shows "if (\<exists>e \<in> set es. classify_publish_error (Some (fst e)) = ClassPermanent) \<or>
       st_max_attempts st \<le> pr_attempts w + charged es
     then t_get (pending d') (event_key ev u) = None \<and>
       (\<exists>dw. t_get (dead d') (event_key ev u) = Some dw \<and> same_content w dw)
     else \<exists>w'. t_get (pending d') (event_key ev u) = Some w' \<and>
       pr_attempts w' = pr_attempts w + charged es \<and> pr_key w' = pr_key w \<and>
       pr_topic w' = pr_topic w \<and> pr_payload w' = pr_payload w"
  using assms
proof (induction es arbitrary: d w)
  case Nil
  then show ?case by (simp add: charged_def)
next
  case (Cons e es)
  let ?k = "event_key ev u"
  obtain perr t where e: "e = (perr, t)" by (cases e)
  from Cons.prems(1) e obtain b d1 where r: "record_failure_body st ev u owner perr t d = Inr (b, d1)"
    and f: "fail_all st ev u owner es d1 = Some d'" by (auto split: sum.splits)
  note c = record_failure_cases [OF r Cons.prems(2-5)]
  consider (transient) m where "classify_publish_error (Some perr) = ClassTransient"
      "t_get (pending d1) ?k = Some (w\<lparr>pr_last_error := m\<rparr>)"
    | (retry) m where "classify_publish_error (Some perr) \<noteq> ClassTransient"
      "classify_publish_error (Some perr) \<noteq> ClassPermanent" "pr_attempts w + 1 < st_max_attempts st"
      "t_get (pending d1) ?k = Some (w\<lparr>pr_attempts := pr_attempts w + 1, pr_last_error := m\<rparr>)"
    | (park) dw where "classify_publish_error (Some perr) \<noteq> ClassTransient"
      "classify_publish_error (Some perr) = ClassPermanent \<or> st_max_attempts st \<le> pr_attempts w + 1"
      "t_get (pending d1) ?k = None" "t_get (dead d1) ?k = Some dw" "same_content w dw"
    using c by (cases "classify_publish_error (Some perr)") (auto simp: table_simps split: if_splits)
  then show ?case
  proof cases
    case transient
    with Cons.IH [OF f transient(2)] Cons.prems(3-5) e show ?thesis
      by (auto simp: charged_def split: if_splits)
  next
    case retry
    with Cons.IH [OF f retry(4)] Cons.prems(3-5) e show ?thesis
      by (auto simp: charged_def algebra_simps split: if_splits)
  next
    case park
    with fail_gone [OF f] have "d' = d1" by simp
    moreover have "st_max_attempts st \<le> pr_attempts w + charged (e # es)"
      if "st_max_attempts st \<le> pr_attempts w + 1"
      using that park(1) e by (simp add: charged_def)
    ultimately show ?thesis using park e by auto
  qed
qed

text \<open>
  The attempt budget: after any sequence of recorded failures the row is in the dead-letter
  table, with its content, exactly when one failure was permanent or the unclassified ones have
  used the budget; otherwise it is still pending with its content and exactly that many attempts
  charged. Transient failures never charge it.
\<close>

theorem attempt_budget:
  assumes "fail_all st ev u owner es d = Some d'" and "t_get (pending d) (event_key ev u) = Some w"
    and "0 \<le> pr_attempts w" "pr_attempts w < st_max_attempts st" "st_max_attempts st < 2 ^ 31"
  shows "if (\<exists>e \<in> set es. classify_publish_error (Some (fst e)) = ClassPermanent) \<or>
       st_max_attempts st \<le> pr_attempts w + charged es
     then t_get (pending d') (event_key ev u) = None \<and>
       (\<exists>dw. t_get (dead d') (event_key ev u) = Some dw \<and> same_content w dw)
     else \<exists>w'. t_get (pending d') (event_key ev u) = Some w' \<and>
       pr_attempts w' = pr_attempts w + charged es \<and> pr_key w' = pr_key w \<and>
       pr_topic w' = pr_topic w \<and> pr_payload w' = pr_payload w"
  by (rule attempt_budget_aux [OF assms])

subsection \<open>Replay\<close>

lemma validate_ref_bucket: "validate_ref U st ref = Inr k \<Longrightarrow> fst k < 256"
  by (auto simp: validate_ref_def u8_def guardR_def nat_less_iff split: if_splits option.splits)

lemma replay_requeued:
  assumes "validate_ref U st ref = Inr k" and "replay_body U ref k d = Inr (ReplayRequeued, d')"
  obtains w where "t_get (dead d) k = Some w" "t_get (pending d) k = None"
    "d' = d\<lparr>pending := t_put (pending d) k \<lparr>pr_key = de_key w,
       pr_topic = optional_text (text_or_empty (de_topic w)), pr_payload = de_payload w,
       pr_attempts = 0, pr_last_error = None\<rparr>, dead := t_del (dead d) k\<rparr>"
proof -
  obtain b c u where k: "k = (b, c, u)" by (cases k) auto
  with validate_ref_bucket [OF assms(1)] have "u8 (int b) = b" by simp
  with assms(2) that show thesis
    by (auto simp: replay_body_def scan_dead_letter_def Let_def k split: option.splits if_splits)
qed

text \<open>
  C26. Replay moves a dead letter back exactly once: a successful replay finds the row only in
  the dead-letter table and restores it to pending with its content and no attempts charged;
  repeating it changes nothing and says so; once the row has been delivered, repeating it finds
  nothing and recreates nothing.
\<close>

theorem replay_exactly_once:
  assumes "replay_dead_letter U st ref f d = (Inr ReplayRequeued, d')"
    and "validate_ref U st ref = Inr k"
  shows "\<exists>w. t_get (dead d) k = Some w \<and> t_get (pending d) k = None \<and>
    t_get (dead d') = (t_get (dead d))(k := None) \<and>
    t_get (pending d') = (t_get (pending d))(k \<mapsto> \<lparr>pr_key = de_key w,
       pr_topic = optional_text (text_or_empty (de_topic w)), pr_payload = de_payload w,
       pr_attempts = 0, pr_last_error = None\<rparr>) \<and>
    replay_dead_letter U st ref Committed d' = (Inr ReplayAlreadyPending, d') \<and>
    (let sent = d'\<lparr>pending := t_del (pending d') k\<rparr>
     in replay_dead_letter U st ref Committed sent = (Inl (NotFound ref), sent))"
proof -
  from assms have "replay_body U ref k d = Inr (ReplayRequeued, d')"
    by (auto simp: replay_dead_letter_def Let_def split: sum.splits fault.splits)
  from replay_requeued [OF assms(2) this] obtain w where w: "t_get (dead d) k = Some w"
    "t_get (pending d) k = None"
    "d' = d\<lparr>pending := t_put (pending d) k \<lparr>pr_key = de_key w,
       pr_topic = optional_text (text_or_empty (de_topic w)), pr_payload = de_payload w,
       pr_attempts = 0, pr_last_error = None\<rparr>, dead := t_del (dead d) k\<rparr>" .
  have "replay_dead_letter U st ref Committed d' = (Inr ReplayAlreadyPending, d')"
    by (simp add: replay_dead_letter_def assms(2) replay_body_def Let_def w(3) table_simps)
  moreover have "replay_dead_letter U st ref Committed (d'\<lparr>pending := t_del (pending d') k\<rparr>) =
      (Inl (NotFound ref), d'\<lparr>pending := t_del (pending d') k\<rparr>)"
    by (simp add: replay_dead_letter_def assms(2) replay_body_def Let_def w(3) table_simps)
  ultimately show ?thesis using w by (auto simp: table_simps Let_def)
qed

lemma replay_keys:
  assumes "replay_dead_letter U st ref f d = (r, d')"
  shows "dom (t_get (pending d')) \<union> dom (t_get (dead d')) = dom (t_get (pending d)) \<union> dom (t_get (dead d))"
proof (cases "d' = d")
  case False
  with assms obtain k where k: "validate_ref U st ref = Inr k" "replay_body U ref k d = Inr (ReplayRequeued, d')"
    by (auto simp: replay_dead_letter_def replay_body_def Let_def split: sum.splits fault.splits
      option.splits if_splits)
  from replay_requeued [OF this] obtain w v where "t_get (dead d) k = Some w"
    "d' = d\<lparr>pending := t_put (pending d) k v, dead := t_del (dead d) k\<rparr>" by metis
  then show ?thesis by (auto simp: table_simps)
qed simp

subsection \<open>Paging through the dead letters\<close>

text \<open>An operator that follows \<open>Next\<close> until there is none; \<open>None\<close> is running out of fuel.\<close>

fun all_pages :: "uuid_ops \<Rightarrow> outbox_store \<Rightarrow> int \<Rightarrow> db \<Rightarrow> nat \<Rightarrow> dead_letter_ref option \<Rightarrow>
    (replay_error, dead_letter list) go_result option" where
  "all_pages U st limit d 0 after = None"
| "all_pages U st limit d (Suc n) after =
     (case list_dead_letters U st \<lparr>lo_after = after, lo_limit = limit\<rparr> Committed d of
        Inl e \<Rightarrow> Some (Inl e)
      | Inr p \<Rightarrow>
          (case pg_next p of
             None \<Rightarrow> Some (Inr (pg_items p))
           | Some r \<Rightarrow> map_option (\<lambda>x. bindR x (\<lambda>ys. Inr (pg_items p @ ys))) (all_pages U st limit d n (Some r))))"

definition addressable :: "outbox_store \<Rightarrow> key \<Rightarrow> bool" where
  "addressable st k \<longleftrightarrow> (case k of (b, c, u) \<Rightarrow>
     int b < st_bucket_count st \<and> b < 256 \<and> c \<noteq> zero_time \<and> truncate_us c = c)"

lemma validate_own_ref:
  assumes "uuid_ok U" and "addressable st k"
  shows "validate_ref U st (dead_letter_to_ref (scan_dead_letter U (k, w))) = Inr k"
  using assms by (cases k) (auto simp: validate_ref_def dead_letter_to_ref_def scan_dead_letter_def
    addressable_def is_zero_time_def uuid_ok_def)

definition after_key :: "uuid_ops \<Rightarrow> outbox_store \<Rightarrow> dead_letter_ref option \<Rightarrow> (replay_error, key option) go_result" where
  "after_key U st after = (case after of None \<Rightarrow> Inr None
     | Some ref \<Rightarrow> bindR (validate_ref U st ref) (\<lambda>k. Inr (Some k)))"

lemma list_dead_letters_page:
  assumes "after_key U st after = Inr a"
  shows "list_dead_letters U st \<lparr>lo_after = after, lo_limit = limit\<rparr> Committed d =
    (let T = t_after (dead d) a; n = page_size limit in
     if n < length T
     then Inr \<lparr>pg_items = map (scan_dead_letter U) (take n T),
            pg_next = Some (dead_letter_to_ref (scan_dead_letter U (T ! (n - 1))))\<rparr>
     else Inr \<lparr>pg_items = map (scan_dead_letter U) T, pg_next = None\<rparr>)"
proof -
  let ?T = "t_after (dead d) a" and ?n = "page_size limit"
  have n: "0 < ?n" by (simp add: page_size_def Let_def)
  have last: "last (map (scan_dead_letter U) (take ?n ?T)) = scan_dead_letter U (?T ! (?n - 1))"
    if "?n < length ?T"
  proof -
    have "take ?n ?T \<noteq> []" using n that by auto
    then have "last (take ?n ?T) = ?T ! (?n - 1)" using n that by (simp add: last_conv_nth)
    with \<open>take ?n ?T \<noteq> []\<close> show ?thesis by (simp add: last_map)
  qed
  have take: "take ?n (take (?n + 1) ?T) = take ?n ?T" by (simp add: min_def)
  show ?thesis
    using assms last take unfolding list_dead_letters_def after_key_def Let_def
    by (simp add: take_map)
qed

lemma all_pages_aux:
  assumes inv: "t_inv (dead d)" and U: "uuid_ok U"
    and ok: "\<And>k w. t_get (dead d) k = Some w \<Longrightarrow> addressable st k"
  shows "after_key U st after = Inr a \<Longrightarrow> length (t_after (dead d) a) < n \<Longrightarrow>
    all_pages U st limit d n after = Some (Inr (map (scan_dead_letter U) (t_after (dead d) a)))"
proof (induction n arbitrary: after a)
  case (Suc n)
  let ?T = "t_after (dead d) a" and ?s = "page_size limit"
  note page = list_dead_letters_page [OF Suc.prems(1), of limit d, unfolded Let_def]
  show ?case
  proof (cases "?s < length ?T")
    case False
    with page show ?thesis by simp
  next
    case True
    have s: "0 < ?s" by (simp add: page_size_def Let_def)
    obtain k w where r: "?T ! (?s - 1) = (k, w)" by (cases "?T ! (?s - 1)")
    have T: "?T = take (?s - 1) ?T @ (k, w) # drop ?s ?T"
      using id_take_nth_drop [of "?s - 1" ?T] True s r by simp
    then have "(k, w) \<in> set ?T" by (metis in_set_conv_decomp)
    with ok t_after_get [OF inv] have "addressable st k" by blast
    then have "after_key U st (Some (dead_letter_to_ref (scan_dead_letter U (k, w)))) = Inr (Some k)"
      using validate_own_ref [OF U] by (simp add: after_key_def)
    moreover from t_after_next [OF inv T] have rest: "t_after (dead d) (Some k) = drop ?s ?T" .
    moreover have "length (drop ?s ?T) < n" using Suc.prems(2) s True by simp
    ultimately have "all_pages U st limit d n (Some (dead_letter_to_ref (scan_dead_letter U (k, w)))) =
        Some (Inr (map (scan_dead_letter U) (drop ?s ?T)))"
      using Suc.IH [of "Some (dead_letter_to_ref (scan_dead_letter U (k, w)))" "Some k"] by simp
    with page True r show ?thesis
      by (simp add: map_append [symmetric] del: map_append)
  qed
qed simp

text \<open>
  C16. Paging is complete: following \<open>Next\<close> from the first page, with any page size, terminates
  without an error and lists every dead letter exactly once, in primary-key order.
\<close>

theorem paging_lists_everything:
  assumes "t_inv (dead d)" and "uuid_ok U"
    and "\<And>k w. t_get (dead d) k = Some w \<Longrightarrow> addressable st k"
  shows "all_pages U st limit d (length (dead d) + 1) None = Some (Inr (map (scan_dead_letter U) (dead d)))"
proof -
  have "after_key U st None = Inr None" by (simp add: after_key_def)
  moreover have "t_after (dead d) None = dead d" by (simp add: t_after_def)
  ultimately show ?thesis
    using all_pages_aux [OF assms(1,2), where after = None and a = None and n = "length (dead d) + 1"] assms(3)
    by (simp del: all_pages.simps)
qed

subsection \<open>Examples\<close>

text \<open>Decimal identifiers meet the law of the uuid functions.\<close>

definition decimal_ids :: uuid_ops where
  "decimal_ids = \<lparr>uo_parse = (\<lambda>s. if s \<noteq> [] \<and> list_all is_digit s then Some (digits_val s) else None),
     uo_string = itoa\<rparr>"

lemma decimal_ids_ok: "uuid_ok decimal_ids"
  by (simp add: uuid_ok_def decimal_ids_def itoa_digits)

definition one_row :: "string \<Rightarrow> pending_row" where
  "one_row k = \<lparr>pr_key = k, pr_topic = None, pr_payload = ''{}'', pr_attempts = 0, pr_last_error = None\<rparr>"

definition two_row_db :: db where
  "two_row_db = \<lparr>pending = [((5, 1000, 7), one_row ''subject-1''), ((5, 2000, 3), one_row ''subject-1'')],
     dead = [], leases = [(5, \<lparr>le_by = ''a'', le_until = 9000\<rparr>)]\<rparr>"

definition store16 :: outbox_store where
  "store16 = new_outbox_store \<lparr>sc_prefix = [], sc_table = [], sc_bucket_count = 0, sc_max_attempts = 2\<rparr>"

definition quiet_env :: env where
  "quiet_env = \<lparr>e_others = (\<lambda>n d. d), e_now = (\<lambda>n. 0), e_fault = (\<lambda>n. Committed)\<rparr>"

text \<open>A run that publishes one event and parks the next one, whose publisher refuses it for good.\<close>

definition ex_ev :: "time \<Rightarrow> string \<Rightarrow> event" where
  "ex_ev c i = \<lparr>ev_id = i, ev_bucket = 5, ev_created = c, ev_key = ''subject-1'', ev_payload = ''{}'', ev_topic = []\<rparr>"

definition ex_publisher :: "nat \<Rightarrow> event \<Rightarrow> perror option" where
  "ex_publisher n ev = (if ev_created ev = 1000 then None else Some (PermanentErr None))"

definition start_run :: "db \<Rightarrow> run" where
  "start_run d = \<lparr>r_db = d, r_calls = 0, r_log = []\<rparr>"

definition one_row_db :: db where
  "one_row_db = two_row_db\<lparr>pending := [((5, 2000, 3), one_row ''subject-1'')]\<rparr>"

definition parked_db :: db where
  "parked_db = two_row_db\<lparr>pending := [],
     dead := [((5, 2000, 3), parked (one_row ''subject-1'') (PermanentErr None) 0)]\<rparr>"

lemma call_quiet:
  "call_db quiet_env body s = (case body 0 (r_db s) of
     Inl e \<Rightarrow> (Inl e, \<lparr>r_db = r_db s, r_calls = r_calls s + 1, r_log = r_log s @ [Step 0 (r_db s) (r_db s)]\<rparr>)
   | Inr (a, d') \<Rightarrow> (Inr a, \<lparr>r_db = d', r_calls = r_calls s + 1, r_log = r_log s @ [Step 0 (r_db s) d']\<rparr>))"
  by (simp add: call_db_def quiet_env_def do_tx_def Let_def split: sum.split)

lemma ex_lease: "lease_held two_row_db 5 ''a'' 0" "lease_held one_row_db 5 ''a'' 0"
  by (simp_all add: lease_held_def one_row_db_def two_row_db_def t_get_def u8_def truncate_us_def
    zero_time_def microsecond_def)

lemma ex_ids: "parse_event_id decimal_ids (ex_ev c ''7'') = Inr 7" "parse_event_id decimal_ids (ex_ev c ''3'') = Inr 3"
  by (simp_all add: parse_event_id_def ex_ev_def decimal_ids_def is_digit_def digits_val_def digit_val_def)

lemma ex_digits: "digit_char 7 = CHR ''7''" "digit_char 3 = CHR ''3''"
  by (simp_all add: digit_char_def char_of_def bit_0)

lemma ex_batch: "leased_bucket_events decimal_ids 5 ''a'' 100 0 two_row_db =
    Inr ([ex_ev 1000 ''7'', ex_ev 2000 ''3''], two_row_db)"
  by (simp add: leased_bucket_events_def ex_lease)
    (simp add: two_row_db_def u8_def scan_event_def decimal_ids_def itoa.simps ex_digits one_row_def
      ex_ev_def text_or_empty_def)

lemma ex_fields [simp]: "ev_bucket (ex_ev c i) = 5" "ev_created (ex_ev c i) = c" "ev_id (ex_ev c i) = i"
  by (simp_all add: ex_ev_def)

lemma ex_delete: "delete_event_body (ex_ev 1000 ''7'') 7 ''a'' 0 two_row_db = Inr ((), one_row_db)"
  by (simp add: delete_event_body_def ex_lease)
    (simp add: one_row_db_def two_row_db_def t_del_def event_key_def u8_def)

lemma ex_park: "record_failure_body store16 (ex_ev 2000 ''3'') 3 ''a'' (PermanentErr None) 0 one_row_db =
    Inr (True, parked_db)"
proof -
  have "classify_publish_error (Some (PermanentErr None)) = ClassPermanent"
    by (simp add: classify_publish_error_def as_error.simps)
  moreover have "t_get (pending one_row_db) (event_key (ex_ev 2000 ''3'') 3) = Some (one_row ''subject-1'')"
    by (simp add: one_row_db_def event_key_def u8_def t_get_def)
  ultimately show ?thesis
    by (simp add: record_failure_body_def ex_lease int32_wrap_def)
      (simp add: parked_db_def one_row_db_def two_row_db_def event_key_def u8_def t_del_def parked_def one_row_def)
qed

definition ex_prefix :: "act list" where
  "ex_prefix = [Step 0 two_row_db two_row_db, Step 0 two_row_db two_row_db,
     Sent (ex_ev 1000 ''7'') None, Step 0 two_row_db one_row_db, Step 0 one_row_db one_row_db,
     Sent (ex_ev 2000 ''3'') (Some (PermanentErr None))]"

definition ex_after :: run where
  "ex_after = \<lparr>r_db = parked_db, r_calls = 0 + 1 + 1 + 1 + 1 + 1,
     r_log = ex_prefix @ [Step 0 one_row_db parked_db]\<rparr>"

lemma ex_run:
  "publish_bucket decimal_ids store16 quiet_env 5 ''a'' 0 ex_publisher (start_run two_row_db) =
   ((1, Some (Wrapped (''ydb: publish outbox event '' @ ''3'') (DeadLetteredErr ''3'' (Some (PermanentErr None))))),
    ex_after)"
  by (simp add: publish_bucket_def start_run_def call_quiet ex_batch lease_held_body_def ex_lease
    ex_publisher_def log_sent_def delete_event_def ex_ids ex_delete after_failure_def
    record_publish_failure_def ex_park wrapR_def ex_after_def ex_prefix_def)

theorem enqueue_reads_back_witness:
  "\<exists>ev' d' u w. enqueue_tx decimal_ids store16 42 1234567
      \<lparr>ev_id = [], ev_bucket = 3, ev_created = zero_time, ev_key = ''subject-1'', ev_payload = [], ev_topic = []\<rparr>
      two_row_db = Inr (ev', d') \<and>
    parse_event_id decimal_ids ev' = Inr u \<and> t_get (pending d') (event_key ev' u) = Some w \<and>
    scan_event decimal_ids (event_key ev' u, w) = ev' \<and> ev_bucket ev' = 5"
proof -
  let ?ev = "\<lparr>ev_id = [], ev_bucket = 3, ev_created = zero_time, ev_key = ''subject-1'', ev_payload = [], ev_topic = []\<rparr>"
  have b: "bucket_of ''subject-1'' 16 = Some 5"
    by (simp add: bucket_of_def fnv32a_def fnv_step_def default_bucket_count_def)
  have st: "st_bucket_count store16 = 16"
    by (simp add: store16_def new_outbox_store_def default_bucket_count_def)
  obtain ev' d' where e: "enqueue_tx decimal_ids store16 42 1234567 ?ev two_row_db = Inr (ev', d')"
    by (simp add: enqueue_tx_def enqueue_event_def st b event_key_def two_row_db_def t_get_def
      is_zero_time_def u8_def)
  from enqueue_reads_back [OF decimal_ids_ok _ _ e] st b e show ?thesis by fastforce
qed

lemma two_row_inv: "db_inv two_row_db"
  by (simp add: db_inv_def two_row_db_def t_inv_def)

lemma store16_fields [simp]: "st_bucket_count store16 = 16" "st_max_attempts store16 = 2"
  by (simp_all add: store16_def new_outbox_store_def default_bucket_count_def)

lemma ex_claim: "claim_buckets store16 ''b'' 1000 0 Committed two_row_db =
  (Inr (filter (lease_free two_row_db ''b'' 0) [0..15]), snd (claim_buckets store16 ''b'' 1000 0 Committed two_row_db))"
proof -
  obtain r d' where c: "claim_buckets store16 ''b'' 1000 0 Committed two_row_db = (r, d')"
    by (cases "claim_buckets store16 ''b'' 1000 0 Committed two_row_db")
  then obtain owned where "r = Inr owned"
    by (auto simp: claim_buckets_def do_tx_def claim_body_def wrapR_def Let_def)
  with claim_Inr(1) [OF c [unfolded this] two_row_inv] c show ?thesis
    by (simp add: truncate_us_def zero_time_def microsecond_def)
qed

theorem claim_takes_exactly_free_witness:
  "\<exists>owned d'. claim_buckets store16 ''b'' 1000 0 Committed two_row_db = (Inr owned, d') \<and>
     owned = [0, 1, 2, 3, 4, 6, 7, 8, 9, 10, 11, 12, 13, 14, 15] \<and>
     t_get (leases d') 5 = t_get (leases two_row_db) 5"
proof -
  let ?o = "filter (lease_free two_row_db ''b'' 0) [0..15]"
  have o: "?o = [0, 1, 2, 3, 4, 6, 7, 8, 9, 10, 11, 12, 13, 14, 15]"
    by (simp add: upto.simps lease_free_def two_row_db_def t_get_def u8_def)
  moreover have "5 \<notin> u8 ` set ?o" unfolding o by (simp add: u8_def)
  ultimately show ?thesis
    using claim_takes_exactly_free [OF ex_claim two_row_inv] ex_claim by fastforce
qed

theorem claims_exclude_witness:
  "\<exists>d H. claims store16 (\<lambda>_. 1000) d H 0 \<and> H ''b'' 6 = Some 1000 \<and> lease_held d 6 ''b'' 500 \<and>
     (\<forall>o' u'. H o' 6 = Some u' \<and> 500 < u' \<longrightarrow> o' = ''b'')"
proof -
  define H :: "string \<Rightarrow> int \<Rightarrow> time option" where "H = (\<lambda>_ _. None)(''b'' :=
    \<lambda>b. if b \<in> set (filter (lease_free two_row_db ''b'' 0) [0..15])
         then Some (truncate_us (truncate_us 0 + 1000)) else None)"
  define d where "d = snd (claim_buckets store16 ''b'' 1000 0 Committed two_row_db)"
  have "claims store16 (\<lambda>_. 1000) two_row_db (\<lambda>_ _. None) 0"
    by (rule claims.start) (rule two_row_inv)
  from claims.claimed [OF this order_refl ex_claim]
  have c: "claims store16 (\<lambda>_. 1000) d H 0" unfolding d_def H_def .
  have "lease_free two_row_db ''b'' 0 6" by (simp add: lease_free_def two_row_db_def t_get_def)
  moreover have "truncate_us (truncate_us 0 + 1000) = 1000"
    by (simp add: truncate_us_def zero_time_def microsecond_def)
  ultimately have H: "H ''b'' 6 = Some 1000" unfolding H_def by simp
  have "lease_held d 6 ''b'' 500 \<and> (\<forall>o' u'. H o' 6 = Some u' \<and> 500 < u' \<longrightarrow> o' = ''b'')"
    by (rule claims_exclude [OF c _ H]) simp_all
  with c H show ?thesis by blast
qed

theorem publish_bucket_in_order_witness:
  "publish_bucket decimal_ids store16 quiet_env 5 ''a'' 0 ex_publisher (start_run two_row_db) =
     ((1, Some (Wrapped (''ydb: publish outbox event '' @ ''3'') (DeadLetteredErr ''3'' (Some (PermanentErr None))))),
      ex_after) \<and>
   (\<exists>t d acts rest. r_log ex_after = r_log (start_run two_row_db) @ Step t d d # acts \<and>
      sends acts = map (\<lambda>e. (e, None)) (take 1 (batch decimal_ids 5 ''a'' 0 t d)) @ rest)"
  using publish_bucket_in_order [OF ex_run] ex_run by blast

theorem publish_bucket_loses_nothing_witness:
  "t_get (pending one_row_db) (5, 2000, 3) \<noteq> None \<and> t_get (pending parked_db) (5, 2000, 3) = None \<and>
   (\<exists>ev u sent. last ex_prefix = Sent ev sent \<and> parse_event_id decimal_ids ev = Inr u \<and>
      event_key ev u = (5, 2000, 3) \<and> lease_held one_row_db (ev_bucket ev) ''a'' 0)"
proof -
  have w: "t_get (pending one_row_db) (5, 2000, 3) = Some (one_row ''subject-1'')"
    "t_get (pending parked_db) (5, 2000, 3) = None"
    by (simp_all add: one_row_db_def parked_db_def t_get_def)
  have "r_log ex_after = r_log (start_run two_row_db) @ ex_prefix @ Step 0 one_row_db parked_db # []"
    by (simp add: ex_after_def start_run_def)
  from publish_bucket_loses_nothing [OF ex_run this w] w show ?thesis by blast
qed

theorem attempt_budget_witness:
  "\<exists>d'. fail_all store16 (ex_ev 2000 ''3'') 3 ''a'' [(PermanentErr None, 0)] one_row_db = Some d' \<and>
     t_get (pending d') (5, 2000, 3) = None \<and>
     (\<exists>dw. t_get (dead d') (5, 2000, 3) = Some dw \<and> same_content (one_row ''subject-1'') dw)"
proof -
  have k: "event_key (ex_ev 2000 ''3'') 3 = (5, 2000, 3)" by (simp add: event_key_def u8_def)
  have f: "fail_all store16 (ex_ev 2000 ''3'') 3 ''a'' [(PermanentErr None, 0)] one_row_db = Some parked_db"
    by (simp add: ex_park)
  have c: "classify_publish_error (Some (PermanentErr None)) = ClassPermanent"
    by (simp add: classify_publish_error_def as_error.simps)
  have w: "t_get (pending one_row_db) (event_key (ex_ev 2000 ''3'') 3) = Some (one_row ''subject-1'')"
    by (simp add: k one_row_db_def t_get_def)
  from attempt_budget [OF f w] show ?thesis using f c by (simp add: k one_row_def)
qed

theorem replay_exactly_once_witness:
  "\<exists>d'. replay_dead_letter decimal_ids store16 \<lparr>dr_bucket = 5, dr_created = 2000, dr_id = ''3''\<rparr> Committed parked_db =
      (Inr ReplayRequeued, d') \<and>
    replay_dead_letter decimal_ids store16 \<lparr>dr_bucket = 5, dr_created = 2000, dr_id = ''3''\<rparr> Committed d' =
      (Inr ReplayAlreadyPending, d')"
proof -
  let ?ref = "\<lparr>dr_bucket = 5, dr_created = 2000, dr_id = ''3''\<rparr>"
  have v: "validate_ref decimal_ids store16 ?ref = Inr (5, 2000, 3)"
    by (simp add: validate_ref_def is_zero_time_def zero_time_def truncate_us_def microsecond_def
      decimal_ids_def is_digit_def digits_val_def digit_val_def u8_def)
  then obtain d' where r: "replay_dead_letter decimal_ids store16 ?ref Committed parked_db = (Inr ReplayRequeued, d')"
    by (auto simp: replay_dead_letter_def replay_body_def parked_db_def t_get_def Let_def)
  from replay_exactly_once [OF r v] r show ?thesis by blast
qed

theorem paging_lists_everything_witness:
  "all_pages decimal_ids store16 1 parked_db 2 None = Some (Inr (map (scan_dead_letter decimal_ids) (dead parked_db)))"
proof -
  have "addressable store16 k" if "t_get (dead parked_db) k = Some w" for k w
    using that by (auto simp: parked_db_def t_get_def addressable_def zero_time_def truncate_us_def
      microsecond_def split: if_splits)
  moreover have "t_inv (dead parked_db)" "length (dead parked_db) = 1" by (simp_all add: parked_db_def t_inv_def)
  ultimately show ?thesis
    using paging_lists_everything [OF _ decimal_ids_ok, of parked_db store16 1]
    by (simp del: all_pages.simps add: numeral_2_eq_2)
qed

subsection \<open>More buckets than a byte can name\<close>

text \<open>
  \<open>NewOutboxStore\<close> accepts any bucket count, but the bucket column is a byte: with more than 256
  buckets the event that \<open>EnqueueTx\<close> returns can name another bucket than the row it wrote.
\<close>

lemma wide_bucket_mismatch:
  "\<exists>ev' d'. enqueue_tx decimal_ids (new_outbox_store \<lparr>sc_prefix = [], sc_table = [],
        sc_bucket_count = 512, sc_max_attempts = 0\<rparr>)
      1 0 (ex_ev 5 []) \<lparr>pending = [], dead = [], leases = []\<rparr> = Inr (ev', d') \<and>
    ev_bucket ev' = 341 \<and> map (\<lambda>r. ev_bucket (scan_event decimal_ids r)) (pending d') = [85]"
proof -
  have "bucket_of ''subject-1'' 512 = Some 341"
    by (simp add: bucket_of_def fnv32a_def fnv_step_def)
  then show ?thesis
    by (simp add: enqueue_tx_def enqueue_event_def new_outbox_store_def ex_ev_def is_zero_time_def
      zero_time_def event_key_def u8_def scan_event_def t_get_def)
qed

end
