(* ===== verification/Relay.thy ===== *)
theory Relay
  imports OutboxStore
begin

text \<open>
  \<open>src/outbox/relay.go\<close>: the relay that drives an outbox store.

  The record \<open>relay\<close> has the configuration and the state the mutex protects. A context is a
  number; \<open>rl_cancelled\<close> lists the cancelled ones and \<open>rl_next_ctx\<close> is the next fresh one. The
  lease timer is the pair of the epoch it was armed with and the instant it is due; its callback
  is \<open>lease_expired\<close>, which may run late, also after \<open>Stop\<close>. The random source of the jitter and
  the clock are arguments. The store is an argument \<open>pub\<close> of \<open>drain_bucket\<close>: one call of
  \<open>PublishBucket\<close> on the state of the world.
\<close>

subsection \<open>Configuration\<close>

record relay_cfg =
  rc_interval :: duration
  rc_batch :: int
  rc_ttl :: duration
  rc_owner :: string

record relay_opts =
  ro_min :: duration
  ro_max :: duration
  ro_observer :: bool
  ro_queue :: int

datatype relay_option =
    NilOption
  | WithRetryBackoff duration duration
  | WithObserver bool
  | WithObserverQueue int

datatype observation =
    ObservePublish int string duration publish_class bool
  | ObserveBackoff int duration int publish_class

record observer =
  ob_cap :: nat
  ob_queue :: "observation list"
  ob_done :: bool
  ob_dropped :: nat
  ob_panics :: nat

record bucket_retry =
  br_consecutive :: int
  br_until :: time

record relay =
  rl_interval :: duration
  rl_batch :: int
  rl_ttl :: duration
  rl_owner :: string
  rl_observer :: "observer option"
  rl_min :: duration
  rl_max :: duration
  rl_owned :: "int list"
  rl_last_empty :: time
  rl_retries :: "int \<Rightarrow> bucket_retry option"
  rl_until :: time
  rl_ctx :: "nat option"
  rl_timer :: "(nat \<times> time) option"
  rl_epoch :: nat
  rl_next_ctx :: nat
  rl_cancelled :: "nat list"

definition apply_option :: "relay_option \<Rightarrow> relay_opts \<Rightarrow> relay_opts" where
  "apply_option op opts = (case op of
     NilOption \<Rightarrow> opts
   | WithRetryBackoff mn mx \<Rightarrow> opts\<lparr>ro_min := mn, ro_max := mx\<rparr>
   | WithObserver on \<Rightarrow> opts\<lparr>ro_observer := on\<rparr>
   | WithObserverQueue len \<Rightarrow> opts\<lparr>ro_queue := len\<rparr>)"

definition positive_or :: "int \<Rightarrow> int \<Rightarrow> int" where
  "positive_or x d = (if x \<le> 0 then d else x)"

definition new_async_observer :: "nat \<Rightarrow> observer" where
  "new_async_observer len = \<lparr>ob_cap = len, ob_queue = [], ob_done = False, ob_dropped = 0, ob_panics = 0\<rparr>"

definition new_relay_with_options :: "string \<Rightarrow> relay_cfg \<Rightarrow> relay_option list \<Rightarrow> relay" where
  "new_relay_with_options random_owner cfg options =
     (let opts = foldl (\<lambda>o' op. apply_option op o')
            \<lparr>ro_min = 500 * millisecond, ro_max = 30 * second, ro_observer = False, ro_queue = 256\<rparr> options;
          mn = positive_or (ro_min opts) (500 * millisecond);
          mx = positive_or (ro_max opts) (30 * second);
          mx = (if mx < mn then mn else mx)
      in \<lparr>rl_interval = positive_or (rc_interval cfg) (200 * millisecond),
          rl_batch = positive_or (rc_batch cfg) 100,
          rl_ttl = positive_or (rc_ttl cfg) (30 * second),
          rl_owner = (if rc_owner cfg = [] then random_owner else rc_owner cfg),
          rl_observer = (if ro_observer opts then Some (new_async_observer (nat (positive_or (ro_queue opts) 256))) else None),
          rl_min = mn, rl_max = mx,
          rl_owned = [], rl_last_empty = zero_time, rl_retries = (\<lambda>_. None), rl_until = zero_time,
          rl_ctx = None, rl_timer = None, rl_epoch = 0, rl_next_ctx = 0, rl_cancelled = []\<rparr>)"

definition new_relay :: "string \<Rightarrow> relay_cfg \<Rightarrow> relay" where
  "new_relay random_owner cfg = new_relay_with_options random_owner cfg []"

subsection \<open>Observations\<close>

definition observer_enqueue :: "observation \<Rightarrow> observer \<Rightarrow> observer" where
  "observer_enqueue ev ob =
     (if ob_done ob then ob
      else if length (ob_queue ob) < ob_cap ob then ob\<lparr>ob_queue := ob_queue ob @ [ev]\<rparr>
      else ob\<lparr>ob_dropped := ob_dropped ob + 1\<rparr>)"

text \<open>One turn of the worker: the oldest observation, if any, whose callback may panic.\<close>

definition observer_deliver :: "(observation \<Rightarrow> bool) \<Rightarrow> observer \<Rightarrow> observation option \<times> observer" where
  "observer_deliver panics ob = (case ob_queue ob of
     [] \<Rightarrow> (None, ob)
   | ev # evs \<Rightarrow> (Some ev, ob\<lparr>ob_queue := evs,
       ob_panics := ob_panics ob + (if panics ev then 1 else 0)\<rparr>))"

definition observer_close :: "observer \<Rightarrow> observer" where
  "observer_close ob = ob\<lparr>ob_done := True\<rparr>"

definition observe :: "observation \<Rightarrow> relay \<Rightarrow> relay" where
  "observe ev r = (case rl_observer r of None \<Rightarrow> r
     | Some ob \<Rightarrow> r\<lparr>rl_observer := Some (observer_enqueue ev ob)\<rparr>)"

subsection \<open>The lease\<close>

definition renew_interval :: "relay \<Rightarrow> duration" where
  "renew_interval r = (if godiv (rl_ttl r) 3 \<le> 0 then rl_ttl r else godiv (rl_ttl r) 3)"

definition cancel_lease :: "relay \<Rightarrow> relay" where
  "cancel_lease r = r\<lparr>rl_timer := None,
     rl_cancelled := (case rl_ctx r of None \<Rightarrow> rl_cancelled r | Some c \<Rightarrow> c # rl_cancelled r),
     rl_ctx := None, rl_until := zero_time\<rparr>"

definition renew_lease :: "time \<Rightarrow> time \<Rightarrow> relay \<Rightarrow> relay" where
  "renew_lease until now r =
     (let fresh = (case rl_ctx r of None \<Rightarrow> True | Some c \<Rightarrow> c \<in> set (rl_cancelled r));
          r = (if fresh then r\<lparr>rl_ctx := Some (rl_next_ctx r), rl_next_ctx := rl_next_ctx r + 1\<rparr> else r);
          epoch = (rl_epoch r + 1) mod 2 ^ 64;
          delay = (if until - now < 0 then 0 else until - now)
      in r\<lparr>rl_until := until, rl_epoch := epoch, rl_timer := Some (epoch, now + delay)\<rparr>)"

definition lease_expired :: "nat \<Rightarrow> relay \<Rightarrow> relay" where
  "lease_expired epoch r =
     (if epoch \<noteq> rl_epoch r then r else cancel_lease (r\<lparr>rl_owned := []\<rparr>))"

definition claim_result :: "time \<Rightarrow> (perror, int list) go_result \<Rightarrow> time \<Rightarrow> relay \<Rightarrow> relay" where
  "claim_result started res now r = (case res of
     Inl e \<Rightarrow> r
   | Inr owned \<Rightarrow>
      (let r = (if owned \<noteq> rl_owned r then cancel_lease r else r);
           r = r\<lparr>rl_owned := owned\<rparr>
       in if owned = [] then cancel_lease r
          else renew_lease (started + rl_ttl r) now r))"

definition stop_lease :: "relay \<Rightarrow> relay" where
  "stop_lease r = cancel_lease (r\<lparr>rl_owned := []\<rparr>)"

definition bucket_lease :: "int \<Rightarrow> time \<Rightarrow> relay \<Rightarrow> nat option" where
  "bucket_lease bucket now r =
     (if rl_ctx r = None \<or> \<not> now < rl_until r \<or> bucket \<notin> set (rl_owned r) then None else rl_ctx r)"

subsection \<open>Retries\<close>

definition bucket_backing_off :: "int \<Rightarrow> time \<Rightarrow> relay \<Rightarrow> bool" where
  "bucket_backing_off bucket now r = (case rl_retries r bucket of None \<Rightarrow> False
     | Some b \<Rightarrow> now < br_until b)"

function backoff_loop :: "int \<Rightarrow> int \<Rightarrow> duration \<Rightarrow> duration \<Rightarrow> duration" where
  "backoff_loop i n cap mx =
     (if i < n \<and> cap < mx then
        (if godiv mx 2 < cap then mx else backoff_loop (i + 1) n (wrap64 (cap * 2)) mx)
      else cap)"
  by pat_completeness auto
termination
  by (relation "measure (\<lambda>(i, n, cap, mx). nat (n - i))") auto

declare backoff_loop.simps [simp del]

definition backoff_cap :: "relay \<Rightarrow> int \<Rightarrow> duration" where
  "backoff_cap r n =
     (let cap = backoff_loop 1 n (rl_min r) (rl_max r) in if rl_max r < cap then rl_max r else cap)"

text \<open>\<open>rnd n\<close> is \<open>math/rand/v2.Int64N(n)\<close>.\<close>

definition full_jitter :: "(int \<Rightarrow> int) \<Rightarrow> duration \<Rightarrow> duration" where
  "full_jitter rnd cap =
     (if cap \<le> 0 then 0 else if cap = 2 ^ 63 - 1 then rnd cap else rnd (wrap64 (cap + 1)))"

definition defer_bucket :: "(duration \<Rightarrow> duration) \<Rightarrow> int \<Rightarrow> perror \<Rightarrow> time \<Rightarrow> relay \<Rightarrow> (duration \<times> int) \<times> relay" where
  "defer_bucket jitter bucket err now r =
     (let n = (case rl_retries r bucket of None \<Rightarrow> 0 | Some b \<Rightarrow> br_consecutive b) + 1;
          hinted = publish_retry_after (Some err);
          delay = (if 0 < hinted then hinted else jitter (backoff_cap r n))
      in ((delay, n), r\<lparr>rl_retries := (rl_retries r)
            (bucket \<mapsto> \<lparr>br_consecutive = n, br_until = now + delay\<rparr>)\<rparr>))"

definition clear_bucket_retry :: "int \<Rightarrow> relay \<Rightarrow> relay" where
  "clear_bucket_retry bucket r = r\<lparr>rl_retries := (rl_retries r)(bucket := None)\<rparr>"

subsection \<open>Draining\<close>

text \<open>\<open>publish\<close>: the callback given to the store; \<open>res\<close> is what the publisher returned.\<close>

definition relay_publish :: "event \<Rightarrow> time \<Rightarrow> time \<Rightarrow> perror option \<Rightarrow> relay \<Rightarrow> perror option \<times> relay" where
  "relay_publish ev started finished res r = (case res of
     Some e \<Rightarrow> (Some e, observe (ObservePublish (ev_bucket ev) (ev_topic ev) (finished - started)
                   (classify_publish_error (Some e)) False) r)
   | None \<Rightarrow> (None, observe (ObservePublish (ev_bucket ev) (ev_topic ev) (finished - started) NoClass True) r))"

text \<open>
  The loop of \<open>drainBucket\<close>. \<open>pub\<close> is one call of \<open>PublishBucket\<close>, \<open>cancelled\<close> tells whether the
  publish context has been cancelled, both of the state of the world; \<open>None\<close> is running out of
  fuel, i.e. more rounds than \<open>fuel\<close>.
\<close>

fun drain_loop :: "('w \<Rightarrow> (nat \<times> perror option) \<times> 'w) \<Rightarrow> ('w \<Rightarrow> bool) \<Rightarrow> ('w \<Rightarrow> time) \<Rightarrow>
    (duration \<Rightarrow> duration) \<Rightarrow> int \<Rightarrow> nat \<Rightarrow> nat \<Rightarrow> relay \<Rightarrow> 'w \<Rightarrow> (nat \<times> relay \<times> 'w) option" where
  "drain_loop pub cancelled clock jitter bucket 0 published r w = None"
| "drain_loop pub cancelled clock jitter bucket (Suc fuel) published r w =
     (case pub w of ((n, res), w) \<Rightarrow>
       (case res of
          Some err \<Rightarrow>
            if cancelled w then Some (published + n, r, w)
            else if is_terminal_publish_error (Some err)
            then Some (published + n, clear_bucket_retry bucket r, w)
            else (case defer_bucket jitter bucket err (clock w) r of ((delay, consecutive), r) \<Rightarrow>
              Some (published + n,
                observe (ObserveBackoff bucket delay consecutive (classify_publish_error (Some err))) r, w))
        | None \<Rightarrow>
            (let r = clear_bucket_retry bucket r
             in if int n < rl_batch r then Some (published + n, r, w)
                else drain_loop pub cancelled clock jitter bucket fuel (published + n) r w)))"

definition drain_bucket :: "('w \<Rightarrow> (nat \<times> perror option) \<times> 'w) \<Rightarrow> ('w \<Rightarrow> bool) \<Rightarrow> ('w \<Rightarrow> time) \<Rightarrow>
    (duration \<Rightarrow> duration) \<Rightarrow> nat \<Rightarrow> int \<Rightarrow> relay \<Rightarrow> 'w \<Rightarrow> (nat \<times> relay \<times> 'w) option" where
  "drain_bucket pub cancelled clock jitter fuel bucket r w =
     (if bucket_lease bucket (clock w) r = None then Some (0, r, w)
      else if bucket_backing_off bucket (clock w) r then Some (0, r, w)
      else drain_loop pub cancelled clock jitter bucket fuel 0 r w)"

definition quiet_tick :: "time \<Rightarrow> relay \<Rightarrow> bool \<times> relay" where
  "quiet_tick now r =
     (if \<not> is_zero_time (rl_last_empty r) \<and> now - rl_last_empty r < 30 * second then (False, r)
      else (True, r\<lparr>rl_last_empty := now\<rparr>))"

text \<open>
  \<open>drain\<close>: the goroutines of the buckets are independent (each uses its own entry of the retries
  and its own rows); they are run here one after the other, in the order \<open>order\<close> of the owned
  buckets. The second component says which of the two records was logged.
\<close>

fun drain_all :: "(int \<Rightarrow> 'w \<Rightarrow> (nat \<times> perror option) \<times> 'w) \<Rightarrow> ('w \<Rightarrow> bool) \<Rightarrow> ('w \<Rightarrow> time) \<Rightarrow>
    (duration \<Rightarrow> duration) \<Rightarrow> nat \<Rightarrow> int list \<Rightarrow> nat \<Rightarrow> relay \<Rightarrow> 'w \<Rightarrow> (nat \<times> relay \<times> 'w) option" where
  "drain_all pub cancelled clock jitter fuel [] acc r w = Some (acc, r, w)"
| "drain_all pub cancelled clock jitter fuel (b # bs) acc r w =
     (case drain_bucket (pub b) cancelled clock jitter fuel b r w of None \<Rightarrow> None
      | Some (n, r, w) \<Rightarrow> drain_all pub cancelled clock jitter fuel bs (acc + n) r w)"

definition drain :: "(int \<Rightarrow> 'w \<Rightarrow> (nat \<times> perror option) \<times> 'w) \<Rightarrow> ('w \<Rightarrow> bool) \<Rightarrow> ('w \<Rightarrow> time) \<Rightarrow>
    (duration \<Rightarrow> duration) \<Rightarrow> (int list \<Rightarrow> int list) \<Rightarrow> nat \<Rightarrow> relay \<Rightarrow> 'w \<Rightarrow> ((nat \<times> bool) \<times> relay \<times> 'w) option" where
  "drain pub cancelled clock jitter order fuel r w =
     (if rl_owned r = [] \<or> rl_ctx r = None \<or> \<not> clock w < rl_until r then Some ((0, False), r, w)
      else (case drain_all pub cancelled clock jitter fuel (order (rl_owned r)) 0 r w of None \<Rightarrow> None
        | Some (acc, r, w) \<Rightarrow>
            if 0 < acc then Some ((acc, False), r, w)
            else (case quiet_tick (clock w) r of (quiet, r) \<Rightarrow> Some ((acc, quiet), r, w))))"

definition hex_encode :: "nat list \<Rightarrow> string" where
  "hex_encode bs = concat (map (\<lambda>b. map (\<lambda>d. if d < 10 then char_of (48 + d) else char_of (87 + d))
      [b div 16, b mod 16]) bs)"

definition random_owner :: "nat list option \<Rightarrow> time \<Rightarrow> string" where
  "random_owner bytes now = (case bytes of
     None \<Rightarrow> ''relay-'' @ (if now < 0 then CHR ''-'' # itoa (nat (- now)) else itoa (nat now))
   | Some bs \<Rightarrow> hex_encode bs)"

subsection \<open>Backoff\<close>

lemma wrap64_double: "0 \<le> c \<Longrightarrow> c \<le> m div 2 \<Longrightarrow> int64 m \<Longrightarrow> wrap64 (c * 2) = c * 2"
  by (intro wrap64_id) (auto simp: int64_def)

lemma backoff_loop_value:
  assumes "0 < cap" "cap \<le> mx" "int64 mx" "i \<le> n"
  shows "backoff_loop i n cap mx = min mx (cap * 2 ^ nat (n - i))"
  using assms
proof (induction i n cap mx rule: backoff_loop.induct)
  case (1 i n cap mx)
  show ?case
  proof (cases "i < n \<and> cap < mx")
    case False
    have "cap \<le> cap * 2 ^ nat (n - i)" using "1.prems"(1) by simp
    with False "1.prems" show ?thesis by (auto simp: backoff_loop.simps [of i n cap mx])
  next
    case True
    have e: "nat (n - i) = Suc (nat (n - (i + 1)))" using True by arith
    show ?thesis
    proof (cases "godiv mx 2 < cap")
      case h: True
      then have "mx < cap * 2" using "1.prems" by simp
      also have "cap * 2 \<le> cap * 2 ^ nat (n - i)" using "1.prems"(1) by (simp add: e)
      finally show ?thesis using True h by (simp add: backoff_loop.simps [of i n cap mx])
    next
      case h: False
      with "1.prems" have c: "cap \<le> mx div 2" by simp
      with "1.prems" have w: "wrap64 (cap * 2) = cap * 2" by (intro wrap64_double) auto
      have "backoff_loop i n cap mx = backoff_loop (i + 1) n (cap * 2) mx"
        using True h w by (simp add: backoff_loop.simps [of i n cap mx])
      also have "\<dots> = min mx (cap * 2 * 2 ^ nat (n - (i + 1)))"
        using "1.IH" [OF True h] True c "1.prems" by (simp add: w)
      finally show ?thesis by (simp add: e)
    qed
  qed
qed

lemma full_jitter_bounds:
  assumes "\<And>n. 0 < n \<Longrightarrow> 0 \<le> rnd n \<and> rnd n < n" and "0 < c" "c < 2 ^ 63"
  shows "0 \<le> full_jitter rnd c \<and> full_jitter rnd c \<le> c"
proof (cases "c = 2 ^ 63 - 1")
  case True
  with assms(1) [OF assms(2)] show ?thesis by (simp add: full_jitter_def)
next
  case False
  with assms have "wrap64 (c + 1) = c + 1" by (intro wrap64_id) (auto simp: int64_def)
  with assms(1) [of "c + 1"] assms(2) False show ?thesis by (simp add: full_jitter_def)
qed

text \<open>
  Retry delays: after \<open>n\<close> consecutive failures of a bucket the local delay is between zero
  and \<open>min(max, min * 2^(n-1))\<close>, computed without ever overflowing the 64-bit duration, for any
  configuration; a hint of the dependency takes precedence; and the bucket is then skipped until
  exactly that delay has passed, while other buckets are not affected.
\<close>

theorem backoff_bounds:
  assumes "0 < rl_min r" "rl_min r \<le> rl_max r" "int64 (rl_max r)"
    and "\<And>n. 0 < n \<Longrightarrow> 0 \<le> rnd n \<and> rnd n < n"
    and "(case rl_retries r b of None \<Rightarrow> 0 | Some x \<Rightarrow> br_consecutive x) = int k"
    and "defer_bucket (full_jitter rnd) b err now r = ((delay, n), r')"
  shows "n = int k + 1 \<and>
    (if 0 < publish_retry_after (Some err) then delay = publish_retry_after (Some err)
     else 0 \<le> delay \<and> delay \<le> min (rl_max r) (rl_min r * 2 ^ k)) \<and>
    (\<forall>t. bucket_backing_off b t r' \<longleftrightarrow> t < now + delay) \<and>
    (\<forall>b' t. b' \<noteq> b \<longrightarrow> bucket_backing_off b' t r' = bucket_backing_off b' t r)"
proof -
  let ?cap = "min (rl_max r) (rl_min r * 2 ^ k)"
  have cap: "backoff_cap r (int k + 1) = ?cap"
    using backoff_loop_value [OF assms(1-3), of 1 "int k + 1"] by (simp add: backoff_cap_def Let_def)
  have pos: "0 < ?cap" "?cap < 2 ^ 63" using assms(1-3) by (auto simp: int64_def min_def)
  note jitter = full_jitter_bounds [OF assms(4) pos]
  from assms(5,6) have d: "n = int k + 1"
    "delay = (if 0 < publish_retry_after (Some err) then publish_retry_after (Some err) else full_jitter rnd ?cap)"
    "rl_retries r' = (rl_retries r)(b \<mapsto> \<lparr>br_consecutive = n, br_until = now + delay\<rparr>)"
    by (auto simp: defer_bucket_def Let_def cap)
  with jitter show ?thesis by (auto simp: bucket_backing_off_def)
qed

subsection \<open>The lease of a relay\<close>

record lease_world =
  lw_relay :: relay
  lw_armed :: "(nat \<times> time) list"
  lw_now :: time

definition arm :: "relay \<Rightarrow> relay \<Rightarrow> (nat \<times> time) list \<Rightarrow> (nat \<times> time) list" where
  "arm r r' armed = (if rl_epoch r' = rl_epoch r then armed
     else case rl_timer r' of None \<Rightarrow> armed | Some t \<Rightarrow> t # armed)"

text \<open>
  What happens to the lease of one relay: claims return (their \<open>started\<close> is an earlier reading of
  the clock), a timer that was ever armed and is due runs its callback, even if it had been
  stopped, the relay stops, time passes.
\<close>

inductive lease_step :: "lease_world \<Rightarrow> lease_world \<Rightarrow> bool" where
  claim: "started \<le> now \<Longrightarrow> lw_now w \<le> now \<Longrightarrow> r' = claim_result started res now (lw_relay w) \<Longrightarrow>
    lease_step w \<lparr>lw_relay = r', lw_armed = arm (lw_relay w) r' (lw_armed w), lw_now = now\<rparr>"
| fire: "(e, due) \<in> set (lw_armed w) \<Longrightarrow> due \<le> now \<Longrightarrow> lw_now w \<le> now \<Longrightarrow>
    lease_step w (w\<lparr>lw_relay := lease_expired e (lw_relay w), lw_now := now\<rparr>)"
| stop: "lease_step w (w\<lparr>lw_relay := stop_lease (lw_relay w)\<rparr>)"
| tick: "lw_now w \<le> now \<Longrightarrow> lease_step w (w\<lparr>lw_now := now\<rparr>)"

inductive_cases lease_stepE: "lease_step w w'"

definition lease_start :: "relay \<Rightarrow> time \<Rightarrow> lease_world" where
  "lease_start r t = \<lparr>lw_relay = r, lw_armed = [], lw_now = t\<rparr>"

definition idle :: "relay \<Rightarrow> bool" where
  "idle r \<longleftrightarrow> rl_ctx r = None \<and> rl_owned r = [] \<and> rl_timer r = None \<and> rl_cancelled r = [] \<and> rl_epoch r = 0"

definition ctx_ok :: "relay \<Rightarrow> bool" where
  "ctx_ok r \<longleftrightarrow> (\<forall>c. rl_ctx r = Some c \<longrightarrow> c \<notin> set (rl_cancelled r) \<and> c < rl_next_ctx r) \<and>
     (\<forall>c \<in> set (rl_cancelled r). c < rl_next_ctx r)"

lemma ctx_ok_cancel: "ctx_ok r \<Longrightarrow> ctx_ok (cancel_lease r)"
  by (auto simp: ctx_ok_def cancel_lease_def split: option.splits)

lemma ctx_ok_owned [simp]: "ctx_ok (r\<lparr>rl_owned := x\<rparr>) = ctx_ok r"
  by (simp add: ctx_ok_def)

lemma ctx_ok_renew: "ctx_ok r \<Longrightarrow> ctx_ok (renew_lease u now r)"
  by (auto simp: ctx_ok_def renew_lease_def Let_def split: option.splits dest: less_SucI)

lemma ctx_ok_claim: "ctx_ok r \<Longrightarrow> ctx_ok (claim_result started res now r)"
  by (auto simp: claim_result_def Let_def ctx_ok_cancel ctx_ok_renew split: sum.split)

lemma ctx_ok_step: "lease_step w w' \<Longrightarrow> ctx_ok (lw_relay w) \<Longrightarrow> ctx_ok (lw_relay w')"
  by (induction rule: lease_step.induct)
    (simp_all add: ctx_ok_claim lease_expired_def stop_lease_def ctx_ok_cancel)

text \<open>What survives of a lease that was handed out: it is current, for the same buckets, or cancelled.\<close>

definition survives :: "nat \<Rightarrow> int list \<Rightarrow> relay \<Rightarrow> bool" where
  "survives c owned r \<longleftrightarrow> c \<in> set (rl_cancelled r) \<or> (rl_ctx r = Some c \<and> rl_owned r = owned)"

lemma cancel_cancels: "survives c owned r \<Longrightarrow> c \<in> set (rl_cancelled (cancel_lease (r\<lparr>rl_owned := x\<rparr>)))"
  "survives c owned r \<Longrightarrow> c \<in> set (rl_cancelled (cancel_lease r))"
  by (auto simp: survives_def cancel_lease_def split: option.splits)

lemma cancelled_mono [simp]:
  "c \<in> set (rl_cancelled r) \<Longrightarrow> c \<in> set (rl_cancelled (cancel_lease r))"
  "rl_cancelled (renew_lease u now r) = rl_cancelled r"
  by (auto simp: cancel_lease_def renew_lease_def Let_def split: option.splits)

lemma survives_claim:
  assumes "ctx_ok r" "survives c owned r"
  shows "survives c owned (claim_result started res now r)"
proof (cases res)
  case (Inr new)
  show ?thesis
  proof (cases "new = rl_owned r \<and> new \<noteq> []")
    case True
    then have r: "r\<lparr>rl_owned := new\<rparr> = r" by simp
    have "claim_result started res now r = renew_lease (started + rl_ttl r) now r"
      using True Inr r unfolding claim_result_def Let_def by auto
    moreover have "survives c owned (renew_lease u now r)" for u
      using assms by (cases "rl_ctx r") (auto simp: survives_def renew_lease_def ctx_ok_def Let_def)
    ultimately show ?thesis by simp
  next
    case False
    have "c \<in> set (rl_cancelled (claim_result started res now r))"
      using False Inr cancel_cancels [OF assms(2)] by (auto simp: claim_result_def Let_def)
    then show ?thesis by (simp add: survives_def)
  qed
qed (use assms in \<open>simp add: claim_result_def\<close>)

lemma survives_step:
  "lease_step w w' \<Longrightarrow> ctx_ok (lw_relay w) \<Longrightarrow> survives c owned (lw_relay w) \<Longrightarrow> survives c owned (lw_relay w')"
  by (induction rule: lease_step.induct)
    (simp_all add: survives_claim lease_expired_def stop_lease_def, simp_all add: survives_def cancel_cancels)

text \<open>
  C3. Fencing: a context handed out for a bucket stays uncancelled only while the relay owns
  exactly the same set of buckets under the same lease. So a publish that is still allowed to
  run is for a bucket that was not lost in the meantime, whatever claims, timers and stops
  happened.
\<close>

theorem context_fences_bucket:
  assumes "lease_step\<^sup>*\<^sup>* (lease_start r0 t0) w" and "idle r0"
    and "bucket_lease b now (lw_relay w) = Some c"
    and "lease_step\<^sup>*\<^sup>* w w'" and "c \<notin> set (rl_cancelled (lw_relay w'))"
  shows "rl_ctx (lw_relay w') = Some c \<and> b \<in> set (rl_owned (lw_relay w')) \<and>
    rl_owned (lw_relay w') = rl_owned (lw_relay w)"
proof -
  have "ctx_ok (lw_relay (lease_start r0 t0))" using assms(2) by (simp add: lease_start_def idle_def ctx_ok_def)
  with assms(1) have ok: "ctx_ok (lw_relay w)"
    by (induction rule: rtranclp_induct) (auto intro: ctx_ok_step)
  have b: "rl_ctx (lw_relay w) = Some c" "b \<in> set (rl_owned (lw_relay w))"
    using assms(3) by (auto simp: bucket_lease_def split: if_splits)
  from assms(4) ok have "ctx_ok (lw_relay w') \<and> survives c (rl_owned (lw_relay w)) (lw_relay w')"
  proof (induction rule: rtranclp_induct)
    case base
    with b show ?case by (simp add: survives_def)
  next
    case (step y z)
    then show ?case by (auto intro: ctx_ok_step survives_step)
  qed
  with assms(5) b show ?thesis by (auto simp: survives_def)
qed

definition timers_ok :: "relay \<Rightarrow> (nat \<times> time) list \<Rightarrow> bool" where
  "timers_ok r armed \<longleftrightarrow> (length armed < 2 ^ 64 \<longrightarrow>
     rl_epoch r = length armed \<and>
     (\<forall>e due. (e, due) \<in> set armed \<longrightarrow> e \<le> length armed \<and>
        (e = length armed \<longrightarrow> rl_ctx r \<noteq> None \<longrightarrow> rl_until r \<le> due)))"

lemma cancel_fields [simp]:
  "rl_epoch (cancel_lease r) = rl_epoch r" "rl_ctx (cancel_lease r) = None"
  "rl_epoch (stop_lease r) = rl_epoch r" "rl_ctx (stop_lease r) = None"
  "rl_epoch (lease_expired e r) = rl_epoch r"
  by (simp_all add: cancel_lease_def stop_lease_def lease_expired_def)

lemma timers_ok_cancel:
  "timers_ok r armed \<Longrightarrow> rl_epoch r' = rl_epoch r \<Longrightarrow> rl_ctx r' = None \<Longrightarrow> timers_ok r' armed"
  by (simp add: timers_ok_def)

lemma mod_succ_neq: "1 < m \<Longrightarrow> (n + 1) mod m \<noteq> (n :: nat)"
proof
  assume m: "1 < m" and e: "(n + 1) mod m = n"
  then have "n < m" by (metis mod_less_divisor less_trans zero_less_one)
  show False
  proof (cases "n + 1 < m")
    case True
    with e show False by simp
  next
    case False
    with \<open>n < m\<close> have "n + 1 = m" by simp
    with e m show False by simp
  qed
qed

lemma timers_ok_renew:
  assumes "timers_ok r0 armed" and "rl_epoch r = rl_epoch r0"
  shows "timers_ok (renew_lease u now r) (arm r0 (renew_lease u now r) armed)"
proof -
  let ?r = "renew_lease u now r"
  define e where "e = (rl_epoch r0 + 1) mod 2 ^ 64"
  define due where "due = now + (if u - now < 0 then 0 else u - now)"
  have r: "rl_epoch ?r = e" "rl_timer ?r = Some (e, due)" "rl_until ?r = u"
    using assms(2) by (simp_all add: renew_lease_def Let_def e_def due_def)
  have due: "u \<le> due" by (simp add: due_def)
  have "e \<noteq> rl_epoch r0" using mod_succ_neq [of "2 ^ 64" "rl_epoch r0"] by (simp add: e_def)
  then have arm: "arm r0 ?r armed = (e, due) # armed" by (simp add: arm_def r)
  show ?thesis
  proof (cases "length armed < 2 ^ 64 - 1")
    case True
    with assms(1) have a: "rl_epoch r0 = length armed"
      "\<And>e due. (e, due) \<in> set armed \<Longrightarrow> e \<le> length armed" by (auto simp: timers_ok_def)
    with True have "e = length armed + 1" by (simp add: e_def)
    with a r due show ?thesis by (auto simp: timers_ok_def arm dest: a(2))
  qed (simp add: timers_ok_def arm)
qed

lemma timers_ok_claim:
  assumes "timers_ok r armed"
  shows "timers_ok (claim_result started res now r) (arm r (claim_result started res now r) armed)"
proof (cases res)
  case (Inl e)
  with assms show ?thesis by (simp add: claim_result_def arm_def)
next
  case (Inr owned)
  let ?r1 = "(if owned \<noteq> rl_owned r then cancel_lease r else r)\<lparr>rl_owned := owned\<rparr>"
  have e: "rl_epoch ?r1 = rl_epoch r" by simp
  have c: "claim_result started res now r =
      (if owned = [] then cancel_lease ?r1 else renew_lease (started + rl_ttl ?r1) now ?r1)"
    by (simp add: claim_result_def Inr Let_def)
  show ?thesis
  proof (cases "owned = []")
    case True
    with timers_ok_cancel [OF assms, of "cancel_lease ?r1"] e show ?thesis by (simp add: c arm_def)
  next
    case False
    with timers_ok_renew [OF assms e] show ?thesis by (simp only: c if_False)
  qed
qed

lemma timers_ok_step:
  "lease_step w w' \<Longrightarrow> timers_ok (lw_relay w) (lw_armed w) \<Longrightarrow> timers_ok (lw_relay w') (lw_armed w')"
proof (induction rule: lease_step.induct)
  case (claim started now w r' res)
  then show ?case using timers_ok_claim by simp
next
  case (fire e due w now)
  then show ?case by (auto simp: lease_expired_def intro: timers_ok_cancel)
next
  case (stop w)
  then show ?case by (auto intro: timers_ok_cancel)
qed simp

text \<open>
  C35. A stale timer is harmless: as long as the lease is valid, no timer that was ever armed,
  even one that had fired but was still waiting for the lock when it was stopped and the lease
  renewed, can clear it. (The epoch is a 64-bit counter; the bound is 2^64 renewals.)
\<close>

theorem stale_timer_harmless:
  assumes "lease_step\<^sup>*\<^sup>* (lease_start r0 t0) w" and "idle r0" and "length (lw_armed w) < 2 ^ 64"
    and "(e, due) \<in> set (lw_armed w)" and "due \<le> now"
    and "bucket_lease b now (lw_relay w) = Some c"
  shows "lease_expired e (lw_relay w) = lw_relay w"
proof -
  have "timers_ok (lw_relay (lease_start r0 t0)) (lw_armed (lease_start r0 t0))"
    using assms(2) by (simp add: lease_start_def idle_def timers_ok_def)
  with assms(1) have "timers_ok (lw_relay w) (lw_armed w)" by (induction rule: rtranclp_induct) (auto intro: timers_ok_step)
  moreover have "rl_ctx (lw_relay w) \<noteq> None" "now < rl_until (lw_relay w)"
    using assms(6) by (auto simp: bucket_lease_def split: if_splits)
  ultimately have "e \<noteq> rl_epoch (lw_relay w)"
    using assms(3-5) by (fastforce simp: timers_ok_def)
  then show ?thesis by (simp add: lease_expired_def)
qed

text \<open>
  The local deadline of a claim against the row in the database: the relay stops at most a
  microsecond after the row expires (the row is rounded down to the database's resolution).
\<close>

lemma local_deadline_close:
  assumes "started \<le> stamp" and "ttl mod microsecond = 0"
  shows "started + ttl < truncate_us (truncate_us stamp + ttl) + microsecond"
proof -
  obtain k where k: "ttl = microsecond * k" using assms(2) by (metis dvdE mod_eq_0_iff_dvd)
  have "truncate_us (truncate_us stamp + ttl) = truncate_us stamp + ttl"
    by (simp add: truncate_us_alt k microsecond_def)
  moreover have "stamp < truncate_us stamp + microsecond"
    unfolding truncate_us_def microsecond_def using pos_mod_bound [of 1000 "stamp - zero_time"] by simp
  ultimately show ?thesis using assms(1) by simp
qed

subsection \<open>Draining a backlog\<close>

text \<open>
  The contract a relay relies on to empty a bucket: in a healthy world one call publishes the
  oldest \<open>lim\<close> events of the backlog, reports how many, and stays healthy. The YDB store meets
  it (\<open>ydb\<close> below).
\<close>

locale bucket_store =
  fixes pub :: "'w \<Rightarrow> (nat \<times> perror option) \<times> 'w"
    and backlog :: "'w \<Rightarrow> event list"
    and sent :: "'w \<Rightarrow> event list"
    and healthy :: "'w \<Rightarrow> bool"
    and lim :: nat
  assumes lim_pos: "healthy w \<Longrightarrow> 0 < lim"
    and pub_batch: "healthy w \<Longrightarrow> \<exists>w'. pub w = ((min lim (length (backlog w)), None), w') \<and> healthy w' \<and>
      backlog w' = drop lim (backlog w) \<and> sent w' = sent w @ take lim (backlog w)"
begin

lemma drain_loop_all:
  assumes "healthy w" and "rl_batch r = int lim" and "length (backlog w) < fuel"
  shows "\<exists>w'. drain_loop pub cancelled clock jitter b fuel p r w =
      Some (p + length (backlog w), clear_bucket_retry b r, w') \<and>
    healthy w' \<and> backlog w' = [] \<and> sent w' = sent w @ backlog w"
  using assms
proof (induction fuel arbitrary: p r w)
  case (Suc fuel)
  from lim_pos [OF Suc.prems(1)] have lim: "0 < lim" .
  from pub_batch [OF Suc.prems(1)] obtain w1 where w1:
    "pub w = ((min lim (length (backlog w)), None), w1)" "healthy w1"
    "backlog w1 = drop lim (backlog w)" "sent w1 = sent w @ take lim (backlog w)" by blast
  have batch: "rl_batch (clear_bucket_retry b r) = int lim"
    using Suc.prems(2) by (simp add: clear_bucket_retry_def)
  show ?case
  proof (cases "length (backlog w) < lim")
    case True
    with w1 batch show ?thesis by simp
  next
    case False
    have "length (backlog w1) < fuel" using w1(3) Suc.prems(3) lim False by simp
    from Suc.IH [OF w1(2) batch this, of "p + lim"] obtain w2 where w2:
      "drain_loop pub cancelled clock jitter b fuel (p + lim) (clear_bucket_retry b r) w1 =
        Some (p + lim + length (backlog w1), clear_bucket_retry b (clear_bucket_retry b r), w2)"
      "healthy w2" "backlog w2 = []" "sent w2 = sent w1 @ backlog w1" by blast
    have "clear_bucket_retry b (clear_bucket_retry b r) = clear_bucket_retry b r"
      by (simp add: clear_bucket_retry_def)
    moreover have "lim + length (backlog w1) = length (backlog w)" using w1(3) False by simp
    ultimately show ?thesis using w1 w2 batch False by (simp add: min_def Let_def)
  qed
qed simp

lemma drain_bucket_all:
  assumes "healthy w" and "rl_batch r = int lim" and "length (backlog w) < fuel"
    and "bucket_lease b (clock w) r \<noteq> None" and "\<not> bucket_backing_off b (clock w) r"
  shows "\<exists>w'. drain_bucket pub cancelled clock jitter fuel b r w =
      Some (length (backlog w), clear_bucket_retry b r, w') \<and>
    healthy w' \<and> backlog w' = [] \<and> sent w' = sent w @ backlog w"
  using drain_loop_all [OF assms(1-3), where p = 0] assms(4,5) by (auto simp: drain_bucket_def)

end

subsection \<open>The YDB store meets the contract\<close>

definition bucket_rows :: "int \<Rightarrow> db \<Rightarrow> (key \<times> pending_row) list" where
  "bucket_rows bucket d = filter (\<lambda>r. fst (fst r) = u8 bucket) (pending d)"

definition calm :: "env \<Rightarrow> int \<Rightarrow> string \<Rightarrow> run \<Rightarrow> bool" where
  "calm E bucket owner s \<longleftrightarrow>
     (\<forall>n d. e_others E n d = d) \<and> (\<forall>n. e_fault E n = Committed) \<and> t_inv (pending (r_db s)) \<and>
     (\<forall>n. lease_held (r_db s) bucket owner (e_now E n))"

lemma call_db_calm:
  assumes "calm E bucket owner s" and "body (e_now E (r_calls s)) (r_db s) = Inr (a, d')"
  shows "call_db E body s = (Inr a, \<lparr>r_db = d', r_calls = r_calls s + 1,
    r_log = r_log s @ [Step (e_now E (r_calls s)) (r_db s) d']\<rparr>)"
  using assms by (simp add: call_db_def calm_def do_tx_def Let_def)

lemma calm_upd:
  "calm E bucket owner s \<Longrightarrow> t_inv (pending d) \<Longrightarrow> leases d = leases (r_db s) \<Longrightarrow> r_db s' = d \<Longrightarrow> calm E bucket owner s'"
  by (simp add: calm_def lease_held_def)

lemma u8_bound: "u8 b < 256"
  by (simp add: u8_def nat_less_iff)

lemma scan_fields:
  assumes "uuid_ok U" and "fst (fst r) = u8 bucket"
  shows "lease_held d (ev_bucket (scan_event U r)) owner t = lease_held d bucket owner t"
    and "parse_event_id U (scan_event U r) = Inr (snd (snd (fst r)))"
    and "event_key (scan_event U r) (snd (snd (fst r))) = fst r"
proof -
  obtain b c u w where r: "r = ((b, c, u), w)" by (cases r) auto
  with assms(2) u8_bound [of bucket] have "u8 (int b) = b" "b = u8 bucket" by simp_all
  then show "lease_held d (ev_bucket (scan_event U r)) owner t = lease_held d bucket owner t"
    "parse_event_id U (scan_event U r) = Inr (snd (snd (fst r)))"
    "event_key (scan_event U r) (snd (snd (fst r))) = fst r"
    using assms(1) by (simp_all add: r scan_event_def lease_held_def parse_event_id_def uuid_ok_def event_key_def)
qed

lemma bucket_rows_del:
  assumes "t_inv (pending d)" and "bucket_rows bucket d = r # rows"
  shows "bucket_rows bucket (d\<lparr>pending := t_del (pending d) (fst r)\<rparr>) = rows"
proof -
  have "distinct (map fst (bucket_rows bucket d))"
    using tbl.rows_distinct [OF assms(1)] by (simp add: bucket_rows_def distinct_map_filter)
  then have "fst r \<notin> fst ` set rows" by (simp add: assms(2))
  then have "\<forall>x \<in> set rows. fst x \<noteq> fst r" by (metis image_eqI)
  moreover have "bucket_rows bucket (d\<lparr>pending := t_del (pending d) (fst r)\<rparr>) =
      filter (\<lambda>x. fst x \<noteq> fst r) (bucket_rows bucket d)"
    by (simp add: bucket_rows_def t_del_def conj_commute)
  ultimately show ?thesis by (simp add: assms(2) filter_id_conv)
qed

definition accepts_all :: "(nat \<Rightarrow> event \<Rightarrow> perror option) \<Rightarrow> bool" where
  "accepts_all publish \<longleftrightarrow> (\<forall>n ev. publish n ev = None)"

lemma publish_loop_calm:
  assumes "uuid_ok U" and "calm E bucket owner s" and "accepts_all publish"
    and "bucket_rows bucket (r_db s) = rows @ rest"
  shows "\<exists>s'. publish_loop U st E owner publish (map (scan_event U) rows) n s = ((n + length rows, None), s') \<and>
    calm E bucket owner s' \<and> bucket_rows bucket (r_db s') = rest \<and>
    map fst (sends (r_log s')) = map fst (sends (r_log s)) @ map (scan_event U) rows"
  using assms(2,4)
proof (induction rows arbitrary: n s)
  case (Cons r rows)
  have "r \<in> set (bucket_rows bucket (r_db s))" using Cons.prems(2) by simp
  then have b: "fst (fst r) = u8 bucket" by (simp add: bucket_rows_def)
  note sf = scan_fields [OF assms(1) b]
  have held: "lease_held (r_db s) bucket owner (e_now E m)" for m using Cons.prems(1) by (simp add: calm_def)
  let ?ev = "scan_event U r"
  let ?d = "(r_db s)\<lparr>pending := t_del (pending (r_db s)) (fst r)\<rparr>"
  define s1 where "s1 = \<lparr>r_db = r_db s, r_calls = r_calls s + 1,
     r_log = r_log s @ [Step (e_now E (r_calls s)) (r_db s) (r_db s)]\<rparr>"
  have c1: "call_db E (lease_held_body (ev_bucket ?ev) owner) s = (Inr True, s1)"
    unfolding s1_def by (rule call_db_calm [OF Cons.prems(1)]) (simp add: lease_held_body_def sf held)
  define s2 where "s2 = log_sent ?ev None s1"
  have calm2: "calm E bucket owner s2"
    using Cons.prems(1) by (simp add: s2_def log_sent_def s1_def calm_def)
  define s3 where "s3 = \<lparr>r_db = ?d, r_calls = r_calls s2 + 1,
     r_log = r_log s2 @ [Step (e_now E (r_calls s2)) (r_db s2) ?d]\<rparr>"
  have c2: "call_db E (delete_event_body ?ev (snd (snd (fst r))) owner) s2 = (Inr (), s3)"
    unfolding s3_def
    by (rule call_db_calm [OF calm2]) (simp add: delete_event_body_def sf held s2_def s1_def log_sent_def)
  have deleted: "delete_event U E ?ev owner s2 = (Inr (), s3)"
    by (simp add: delete_event_def sf c2 wrapR_def)
  have inv: "t_inv (pending (r_db s))" using Cons.prems(1) by (simp add: calm_def)
  have calm3: "calm E bucket owner s3"
    by (rule calm_upd [OF Cons.prems(1), of ?d]) (simp_all add: s3_def t_inv_del inv)
  have "bucket_rows bucket (r_db s3) = rows @ rest"
    using bucket_rows_del [OF inv, of bucket r "rows @ rest"] Cons.prems(2) by (simp add: s3_def)
  from Cons.IH [OF calm3 this, of "n + 1"] obtain s' where
    "publish_loop U st E owner publish (map (scan_event U) rows) (n + 1) s3 = ((n + 1 + length rows, None), s')"
    "calm E bucket owner s'" "bucket_rows bucket (r_db s') = rest"
    "map fst (sends (r_log s')) = map fst (sends (r_log s3)) @ map (scan_event U) rows" by blast
  moreover have "publish_loop U st E owner publish (map (scan_event U) (r # rows)) n s =
      publish_loop U st E owner publish (map (scan_event U) rows) (n + 1) s3"
    by (simp add: c1 assms(3) [unfolded accepts_all_def] s2_def [symmetric] deleted)
  moreover have "map fst (sends (r_log s3)) = map fst (sends (r_log s)) @ [?ev]"
    by (simp add: s3_def s2_def log_sent_def s1_def)
  ultimately show ?case by auto
qed simp

lemma ydb_batch:
  assumes "uuid_ok U \<and> accepts_all publish \<and> 0 < lim \<and> calm E bucket owner s"
  shows "\<exists>s'. publish_bucket U st E bucket owner (int lim) publish s =
      ((min lim (length (map (scan_event U) (bucket_rows bucket (r_db s)))), None), s') \<and>
    (uuid_ok U \<and> accepts_all publish \<and> 0 < lim \<and> calm E bucket owner s') \<and>
    map (scan_event U) (bucket_rows bucket (r_db s')) = drop lim (map (scan_event U) (bucket_rows bucket (r_db s))) \<and>
    map fst (sends (r_log s')) = map fst (sends (r_log s)) @ take lim (map (scan_event U) (bucket_rows bucket (r_db s)))"
proof -
  let ?rows = "bucket_rows bucket (r_db s)"
  from assms have U: "uuid_ok U" and acc: "accepts_all publish" and lim: "0 < lim"
    and calm: "calm E bucket owner s" by auto
  define s1 where "s1 = \<lparr>r_db = r_db s, r_calls = r_calls s + 1,
     r_log = r_log s @ [Step (e_now E (r_calls s)) (r_db s) (r_db s)]\<rparr>"
  have c: "call_db E (leased_bucket_events U bucket owner lim) s = (Inr (map (scan_event U) (take lim ?rows)), s1)"
    unfolding s1_def
  proof (rule call_db_calm [OF calm])
    have "lease_held (r_db s) bucket owner (e_now E (r_calls s))" using calm unfolding calm_def by blast
    then show "leased_bucket_events U bucket owner lim (e_now E (r_calls s)) (r_db s) =
        Inr (map (scan_event U) (take lim ?rows), r_db s)"
      by (simp add: leased_bucket_events_def bucket_rows_def)
  qed
  have "calm E bucket owner s1" using calm by (simp add: s1_def calm_def)
  moreover have "bucket_rows bucket (r_db s1) = take lim ?rows @ drop lim ?rows" by (simp add: s1_def)
  note publish_loop_calm [OF U calculation acc this, of st 0]
  then obtain s' where s':
    "publish_loop U st E owner publish (map (scan_event U) (take lim ?rows)) 0 s1 = ((0 + length (take lim ?rows), None), s')"
    "calm E bucket owner s'" "bucket_rows bucket (r_db s') = drop lim ?rows"
    "map fst (sends (r_log s')) = map fst (sends (r_log s1)) @ map (scan_event U) (take lim ?rows)" by blast
  have "publish_bucket U st E bucket owner (int lim) publish s =
      ((min lim (length (map (scan_event U) ?rows)), None), s')"
    using lim c s'(1) by (simp add: publish_bucket_def min.commute)
  moreover have "map fst (sends (r_log s1)) = map fst (sends (r_log s))" by (simp add: s1_def)
  ultimately show ?thesis
    using U lim acc s' by (simp add: take_map drop_map)
qed

interpretation ydb: bucket_store "publish_bucket U st E bucket owner (int lim) publish"
    "\<lambda>s. map (scan_event U) (bucket_rows bucket (r_db s))" "\<lambda>s. map fst (sends (r_log s))"
    "\<lambda>s. uuid_ok U \<and> accepts_all publish \<and> 0 < lim \<and> calm E bucket owner s" lim
  for U st E bucket owner publish lim
  by unfold_locales (simp, rule ydb_batch)


subsection \<open>Examples\<close>

definition ex_relay :: relay where
  "ex_relay = new_relay ''me'' \<lparr>rc_interval = 0, rc_batch = 0, rc_ttl = 9 * second, rc_owner = ''a''\<rparr>"

lemma ex_relay_fields [simp]:
  "rl_min ex_relay = 500000000" "rl_max ex_relay = 30000000000" "rl_retries ex_relay = (\<lambda>_. None)"
  "rl_ctx ex_relay = None" "rl_owned ex_relay = []" "rl_timer ex_relay = None" "rl_cancelled ex_relay = []"
  "rl_epoch ex_relay = 0" "rl_next_ctx ex_relay = 0" "rl_ttl ex_relay = 9000000000" "rl_batch ex_relay = 100"
  by (simp_all add: ex_relay_def new_relay_def new_relay_with_options_def Let_def positive_or_def
    millisecond_def second_def)

theorem backoff_bounds_witness:
  "\<exists>delay n r'. defer_bucket (full_jitter (\<lambda>n. n div 2)) 3 (Opaque ''down'') 0 ex_relay = ((delay, n), r') \<and>
     n = 1 \<and> 0 \<le> delay \<and> delay \<le> min 30000000000 (500000000 * 2 ^ 0) \<and>
     (\<forall>t. bucket_backing_off 3 t r' \<longleftrightarrow> t < 0 + delay)"
proof -
  obtain delay n r' where d: "defer_bucket (full_jitter (\<lambda>n. n div 2)) 3 (Opaque ''down'') 0 ex_relay = ((delay, n), r')"
    by (metis surj_pair)
  have "publish_retry_after (Some (Opaque ''down'')) = 0"
    by (simp add: publish_retry_after_def as_error.simps)
  with backoff_bounds [OF _ _ _ _ _ d, of 0] d show ?thesis
    by (simp add: int64_def)
qed

definition ex_leased :: relay where
  "ex_leased = claim_result 0 (Inr [5]) 0 ex_relay"

lemma ex_leased_fields [simp]:
  "rl_ctx ex_leased = Some 0" "rl_owned ex_leased = [5]" "rl_epoch ex_leased = 1" "rl_until ex_leased = 9000000000"
  "rl_timer ex_leased = Some (1, 9000000000)" "rl_cancelled ex_leased = []" "rl_ttl ex_leased = 9000000000"
  "rl_batch ex_leased = 100" "rl_retries ex_leased = (\<lambda>_. None)" "rl_next_ctx ex_leased = 1"
  by (simp_all add: ex_leased_def claim_result_def renew_lease_def cancel_lease_def Let_def)

definition ex_renewed :: relay where
  "ex_renewed = claim_result 1000 (Inr [5]) 2000 ex_leased"

lemma ex_renewed_fields [simp]:
  "rl_ctx ex_renewed = Some 0" "rl_owned ex_renewed = [5]" "rl_epoch ex_renewed = 2"
  "rl_until ex_renewed = 9000001000" "rl_timer ex_renewed = Some (2, 9000001000)" "rl_cancelled ex_renewed = []"
  by (simp_all add: ex_renewed_def claim_result_def renew_lease_def Let_def)

lemma ex_idle: "idle ex_relay" by (simp add: idle_def)

lemma ex_steps:
  "lease_step (lease_start ex_relay 0) \<lparr>lw_relay = ex_leased, lw_armed = [(1, 9000000000)], lw_now = 0\<rparr>"
  "lease_step \<lparr>lw_relay = ex_leased, lw_armed = [(1, 9000000000)], lw_now = 0\<rparr>
     \<lparr>lw_relay = ex_renewed, lw_armed = [(2, 9000001000), (1, 9000000000)], lw_now = 2000\<rparr>"
  using lease_step.claim [of 0 0 "lease_start ex_relay 0" ex_leased "Inr [5]"]
    lease_step.claim [of 1000 2000 "\<lparr>lw_relay = ex_leased, lw_armed = [(1, 9000000000)], lw_now = 0\<rparr>" ex_renewed "Inr [5]"]
  by (simp_all add: ex_leased_def [symmetric] ex_renewed_def [symmetric] lease_start_def arm_def)

lemma ex_runs:
  "lease_step\<^sup>*\<^sup>* (lease_start ex_relay 0) \<lparr>lw_relay = ex_leased, lw_armed = [(1, 9000000000)], lw_now = 0\<rparr>"
  "lease_step\<^sup>*\<^sup>* \<lparr>lw_relay = ex_leased, lw_armed = [(1, 9000000000)], lw_now = 0\<rparr>
     \<lparr>lw_relay = ex_renewed, lw_armed = [(2, 9000001000), (1, 9000000000)], lw_now = 2000\<rparr>"
  by (rule r_into_rtranclp, rule ex_steps)+

theorem context_fences_bucket_witness:
  "bucket_lease 5 100 ex_leased = Some 0 \<and> rl_ctx ex_renewed = Some 0 \<and> 5 \<in> set (rl_owned ex_renewed)"
proof -
  have l: "bucket_lease 5 100 ex_leased = Some 0" by (simp add: bucket_lease_def)
  from context_fences_bucket [OF ex_runs(1) ex_idle _ ex_runs(2), of 5 100 0] l
  show ?thesis by simp
qed

theorem stale_timer_harmless_witness:
  "bucket_lease 5 9000000500 ex_renewed = Some 0 \<and> lease_expired 1 ex_renewed = ex_renewed \<and>
   lease_expired 2 ex_renewed \<noteq> ex_renewed"
proof -
  have l: "bucket_lease 5 9000000500 ex_renewed = Some 0" by (simp add: bucket_lease_def)
  have "lease_expired 1 ex_renewed = ex_renewed"
    using stale_timer_harmless [OF rtranclp_trans [OF ex_runs] ex_idle, of 1 9000000000 9000000500 5 0] l by simp
  moreover have "rl_ctx (lease_expired 2 ex_renewed) = None" by (simp add: lease_expired_def)
  ultimately show ?thesis using l by (metis ex_renewed_fields(1) option.distinct(1))
qed


end
