(* ===== verification/ReadCache.thy ===== *)
theory ReadCache
  imports Json
begin

text \<open>
  \<open>src/readcache/cache.go\<close>: the distributed read-through cache on Redis.

  \<open>redis\<close> maps a key to its value and expiry; the Lua scripts are the functions \<open>\<dots>_script\<close>,
  each atomic. \<open>cache_env\<close> is what the rest of the world does during one call: before the
  \<open>n\<close>-th Redis operation others change the database, the clock is read, the operation may fail.
  The JSON envelope and the codec of the cached values (\<open>encoding/json\<close>), the digest
  (\<open>crypto/sha256\<close>, in hexadecimal) and the random bytes are arguments.
\<close>

subsection \<open>Redis\<close>

type_synonym redis = "string \<Rightarrow> (string \<times> time) option"

definition r_get :: "redis \<Rightarrow> time \<Rightarrow> string \<Rightarrow> string option" where
  "r_get r now k = (case r k of None \<Rightarrow> None | Some (v, e) \<Rightarrow> if now < e then Some v else None)"

definition r_set :: "redis \<Rightarrow> time \<Rightarrow> string \<Rightarrow> string \<Rightarrow> int \<Rightarrow> redis" where
  "r_set r now k v px = r(k \<mapsto> (v, now + px * millisecond))"

definition r_del :: "redis \<Rightarrow> string \<Rightarrow> redis" where
  "r_del r k = r(k := None)"

definition acquire_script :: "string \<Rightarrow> string \<Rightarrow> string \<Rightarrow> int \<Rightarrow> time \<Rightarrow> redis \<Rightarrow> (nat \<times> string) \<times> redis" where
  "acquire_script vk lk token px now r = (case r_get r now vk of
     Some v \<Rightarrow> ((1, v), r)
   | None \<Rightarrow> (case r_get r now lk of
        None \<Rightarrow> ((2, []), r_set r now lk token px)
      | Some _ \<Rightarrow> ((0, []), r)))"

definition publish_script :: "string \<Rightarrow> string \<Rightarrow> string \<Rightarrow> string \<Rightarrow> int \<Rightarrow> time \<Rightarrow> redis \<Rightarrow> nat \<times> redis" where
  "publish_script vk lk token body px now r =
     (if r_get r now lk \<noteq> Some token then (0, r)
      else (1, r_del (if 0 < px then r_set r now vk body px else r) lk))"

definition release_script :: "string \<Rightarrow> string \<Rightarrow> time \<Rightarrow> redis \<Rightarrow> nat \<times> redis" where
  "release_script k v now r = (if r_get r now k = Some v then (1, r_del r k) else (0, r))"

definition discard_script :: "string \<Rightarrow> string \<Rightarrow> time \<Rightarrow> redis \<Rightarrow> nat \<times> redis" where
  "discard_script k v now r = (if r_get r now k = Some v then (1, r_del r k) else (0, r))"

definition renew_script :: "string \<Rightarrow> string \<Rightarrow> int \<Rightarrow> time \<Rightarrow> redis \<Rightarrow> nat \<times> redis" where
  "renew_script k v px now r = (if r_get r now k = Some v then (1, r_set r now k v px) else (0, r))"

fun generations_script :: "string list \<Rightarrow> string \<Rightarrow> int \<Rightarrow> nat \<Rightarrow> time \<Rightarrow> redis \<Rightarrow> string list \<times> redis" where
  "generations_script [] fresh px i now r = ([], r)"
| "generations_script (k # ks) fresh px i now r =
     (let v = (case r_get r now k of None \<Rightarrow> fresh @ '':'' @ itoa i | Some v \<Rightarrow> v);
          rest = generations_script ks fresh px (i + 1) now (r_set r now k v px)
      in (v # fst rest, snd rest))"

fun invalidate_tags_script :: "string list \<Rightarrow> string \<Rightarrow> int \<Rightarrow> nat \<Rightarrow> time \<Rightarrow> redis \<Rightarrow> redis" where
  "invalidate_tags_script [] fresh px i now r = r"
| "invalidate_tags_script (k # ks) fresh px i now r =
     invalidate_tags_script ks fresh px (i + 1) now (r_set r now k (fresh @ '':'' @ itoa i) px)"

subsection \<open>Configuration\<close>

record cache_cfg =
  cc_url :: string
  cc_namespace :: string
  cc_lease :: duration
  cc_op_timeout :: duration
  cc_load_timeout :: duration

record cache =
  ca_client :: bool
  ca_namespace :: string
  ca_lease :: duration
  ca_op_timeout :: duration
  ca_load_timeout :: duration
  ca_unavailable_until :: time
  ca_hits :: nat
  ca_misses :: nat
  ca_loads :: nat
  ca_waits :: nat
  ca_failures :: nat
  ca_invalidations :: nat

datatype cache_error = BadNamespace | NegativeDuration | LeaseTooShort | BadUrl

definition default_duration :: "duration \<Rightarrow> duration \<Rightarrow> duration" where
  "default_duration x d = (if x = 0 then d else x)"

text \<open>\<open>New\<close>; \<open>url_ok\<close> is \<open>redis.ParseURL\<close>. An empty URL gives the nil cache.\<close>

definition new_cache :: "(string \<Rightarrow> bool) \<Rightarrow> cache_cfg \<Rightarrow> (cache_error, cache option) go_result" where
  "new_cache url_ok cfg =
     (let ns = (if cc_namespace cfg = [] then ''aheron:stand'' else cc_namespace cfg);
          lease = default_duration (cc_lease cfg) (5 * second);
          op = default_duration (cc_op_timeout cfg) (500 * millisecond);
          ld = default_duration (cc_load_timeout cfg) (30 * second)
      in guardR (128 < length ns \<or> list_ex (\<lambda>c. c \<in> {CHR 0x0D, CHR 0x0A, CHR ''{'', CHR ''}''}) ns) BadNamespace
        (guardR (cc_lease cfg < 0 \<or> cc_op_timeout cfg < 0 \<or> cc_load_timeout cfg < 0) NegativeDuration
        (guardR (lease < 30 * millisecond) LeaseTooShort
        (if cc_url cfg = [] then Inr None
         else guardR (\<not> url_ok (cc_url cfg)) BadUrl
           (Inr (Some \<lparr>ca_client = True, ca_namespace = ns @ '':readcache:v1:'', ca_lease = lease,
              ca_op_timeout = op, ca_load_timeout = ld, ca_unavailable_until = 0,
              ca_hits = 0, ca_misses = 0, ca_loads = 0, ca_waits = 0, ca_failures = 0,
              ca_invalidations = 0\<rparr>))))))"

definition cache_keys :: "(string \<Rightarrow> string) \<Rightarrow> cache \<Rightarrow> string \<Rightarrow> string \<times> string" where
  "cache_keys sha c key =
     (let base = ca_namespace c @ ''{'' @ sha key @ ''}'' in (base @ '':value'', base @ '':lock''))"

definition cache_available :: "time \<Rightarrow> cache \<Rightarrow> bool" where
  "cache_available now c \<longleftrightarrow> ca_client c \<and> ca_unavailable_until c \<le> now"

text \<open>\<open>failed\<close>: the second component tells whether the failure was logged.\<close>

definition cache_failed :: "time \<Rightarrow> cache \<Rightarrow> cache \<times> bool" where
  "cache_failed now c = (c\<lparr>ca_failures := ca_failures c + 1, ca_unavailable_until := now + second\<rparr>,
     ca_unavailable_until c \<le> now)"

subsection \<open>Filling\<close>

record payload =
  pl_value :: string
  pl_until :: time

record codec =
  cd_enc :: "payload \<Rightarrow> string"
  cd_dec :: "string \<Rightarrow> payload option"

definition codec_ok :: "codec \<Rightarrow> bool" where
  "codec_ok C \<longleftrightarrow> (\<forall>p. cd_dec C (cd_enc C p) = Some p \<and> cd_enc C p \<noteq> [])"

datatype fill_data = Data string | Uncacheable

definition max_ttl :: duration where "max_ttl = 24 * 3600 * second"
definition max_value_bytes :: nat where "max_value_bytes = 4 * 1024 * 1024"

text \<open>\<open>rnd\<close> is one random byte.\<close>

definition cache_until :: "nat \<Rightarrow> time \<Rightarrow> time \<Rightarrow> time" where
  "cache_until rnd deadline now =
     (let ttl = (if max_ttl < deadline - now then max_ttl else deadline - now);
          ttl = (if millisecond < ttl then ttl - int rnd * godiv ttl 2560 else ttl)
      in now + ttl)"

text \<open>\<open>wrapped\<close>: the loader of \<open>get\<close> after the source has answered with \<open>value\<close>.\<close>

definition wrap_value :: "codec \<Rightarrow> ('v \<Rightarrow> string option) \<Rightarrow> ('v \<Rightarrow> time) \<Rightarrow> nat \<Rightarrow> time \<Rightarrow> 'v \<Rightarrow> fill_data" where
  "wrap_value C marshal_value expires_at rnd now value = (case marshal_value value of
     None \<Rightarrow> Uncacheable
   | Some body \<Rightarrow> Data (cd_enc C \<lparr>pl_value = body, pl_until = cache_until rnd (expires_at value) now\<rparr>))"

definition unix_epoch_payload :: payload where
  "unix_epoch_payload = \<lparr>pl_value = [], pl_until = 0\<rparr>"

definition fill_px :: "codec \<Rightarrow> fill_data \<Rightarrow> time \<Rightarrow> int" where
  "fill_px C d now =
     (let bytes = (case d of Data s \<Rightarrow> s | Uncacheable \<Rightarrow> []);
          p = (case cd_dec C bytes of None \<Rightarrow> unix_epoch_payload | Some p \<Rightarrow> p)
      in if max_value_bytes < length bytes \<or> bytes = [] then 0
         else godiv (pl_until p - now) millisecond)"

datatype 'e read_error = ContextDone | LeaseLost | LoadFailed 'e

record 'e cache_env =
  ce_others :: "nat \<Rightarrow> redis \<Rightarrow> redis"
  ce_now :: "nat \<Rightarrow> time"
  ce_fault :: "nat \<Rightarrow> bool"
  ce_done :: "nat \<Rightarrow> bool"
  ce_load :: "nat \<Rightarrow> ('e, fill_data) go_result"
  ce_renewals :: "nat \<Rightarrow> time list"

text \<open>The renewals of the goroutine of \<open>fill\<close>: until one fails.\<close>

fun renewals :: "string \<Rightarrow> string \<Rightarrow> int \<Rightarrow> time list \<Rightarrow> redis \<Rightarrow> redis" where
  "renewals lk token px [] r = r"
| "renewals lk token px (t # ts) r =
     (case renew_script lk token px t r of (ok, r) \<Rightarrow> if ok = 0 then r else renewals lk token px ts r)"

definition cache_fill :: "codec \<Rightarrow> 'e cache_env \<Rightarrow> string \<Rightarrow> string \<Rightarrow> string \<Rightarrow> nat \<Rightarrow> cache \<Rightarrow> redis \<Rightarrow>
    ('e read_error, fill_data) go_result \<times> cache \<times> redis" where
  "cache_fill C E vk lk token n c r =
     (let r = renewals lk token (godiv (ca_lease c) millisecond) (ce_renewals E n) r;
          r = ce_others E n r; now = ce_now E n
      in (case ce_load E n of
            Inl e \<Rightarrow> (Inl (LoadFailed e), c, if ce_fault E n then r else snd (release_script lk token now r))
          | Inr d \<Rightarrow>
              if ce_fault E n then (Inr d, fst (cache_failed now c), r)
              else (case publish_script vk lk token (case d of Data s \<Rightarrow> s | Uncacheable \<Rightarrow> []) (fill_px C d now) now r of
                (ok, r) \<Rightarrow> (if ok = 0 then Inl LeaseLost else Inr d, c, r))))"

text \<open>A fallback to the source that bypasses the cache.\<close>

definition load_source :: "'e cache_env \<Rightarrow> nat \<Rightarrow> ('e read_error, fill_data) go_result" where
  "load_source E n = (case ce_load E n of Inl e \<Rightarrow> Inl (LoadFailed e) | Inr d \<Rightarrow> Inr d)"

fun read_loop :: "codec \<Rightarrow> 'e cache_env \<Rightarrow> string \<Rightarrow> string \<Rightarrow> string \<Rightarrow> nat \<Rightarrow> nat \<Rightarrow> cache \<Rightarrow> redis \<Rightarrow>
    (('e read_error, fill_data) go_result \<times> cache \<times> redis) option" where
  "read_loop C E vk lk token 0 n c r = None"
| "read_loop C E vk lk token (Suc fuel) n c r =
     (if ce_done E n then Some (Inl ContextDone, c, r)
      else if ce_fault E n then Some (load_source E n, fst (cache_failed (ce_now E n) c), ce_others E n r)
      else (case acquire_script vk lk token (godiv (ca_lease c) millisecond) (ce_now E n) (ce_others E n r) of
        ((k, body), r) \<Rightarrow>
          if k = 1 then
            (case cd_dec C body of
               Some p \<Rightarrow>
                 if ce_now E n < pl_until p \<and> pl_value p \<noteq> []
                 then Some (Inr (Data body), c\<lparr>ca_hits := ca_hits c + 1\<rparr>, r)
                 else if ce_fault E (n + 1)
                 then Some (load_source E (n + 1), fst (cache_failed (ce_now E (n + 1)) c), ce_others E (n + 1) r)
                 else read_loop C E vk lk token fuel (n + 2) c
                   (snd (discard_script vk body (ce_now E (n + 1)) (ce_others E (n + 1) r)))
             | None \<Rightarrow>
                 if ce_fault E (n + 1)
                 then Some (load_source E (n + 1), fst (cache_failed (ce_now E (n + 1)) c), ce_others E (n + 1) r)
                 else read_loop C E vk lk token fuel (n + 2) c
                   (snd (discard_script vk body (ce_now E (n + 1)) (ce_others E (n + 1) r))))
          else if k = 2 then
            (case cache_fill C E vk lk token (n + 1) (c\<lparr>ca_misses := ca_misses c + 1\<rparr>) r of (res, c, r) \<Rightarrow>
              if res = Inl LeaseLost then read_loop C E vk lk token fuel (n + 2) c r
              else Some (res, c, r))
          else read_loop C E vk lk token fuel (n + 1) (c\<lparr>ca_waits := ca_waits c + 1\<rparr>) r))"

definition cache_read :: "(string \<Rightarrow> string) \<Rightarrow> codec \<Rightarrow> 'e cache_env \<Rightarrow> string \<Rightarrow> nat \<Rightarrow> string \<Rightarrow> cache \<Rightarrow> redis \<Rightarrow>
    (('e read_error, fill_data) go_result \<times> cache \<times> redis) option" where
  "cache_read sha C E token fuel key c r =
     (if \<not> cache_available (ce_now E 0) c then Some (load_source E 0, c, r)
      else (case cache_keys sha c key of (vk, lk) \<Rightarrow> read_loop C E vk lk token fuel 0 c r))"

subsection \<open>Invalidation\<close>

fun cache_invalidate :: "(string \<Rightarrow> string) \<Rightarrow> (nat \<Rightarrow> bool) \<Rightarrow> time \<Rightarrow> nat \<Rightarrow> string list \<Rightarrow> cache \<Rightarrow> redis \<Rightarrow>
    bool \<times> cache \<times> redis" where \<comment> \<open>the first component: it succeeded\<close>
  "cache_invalidate sha fault now n [] c r = (True, c, r)"
| "cache_invalidate sha fault now n (key # ks) c r =
     (if \<not> ca_client c then (True, c, r)
      else if fault n then (False, fst (cache_failed now c), r)
      else (case cache_keys sha c key of (vk, lk) \<Rightarrow>
        cache_invalidate sha fault now (n + 1) ks (c\<lparr>ca_invalidations := ca_invalidations c + 1\<rparr>)
          (r_del (r_del r vk) lk)))"

fun insert_string :: "string \<Rightarrow> string list \<Rightarrow> string list" where
  "insert_string s [] = [s]"
| "insert_string s (t # ts) = (if str_less t s then t # insert_string s ts else s # t # ts)"

definition sort_strings :: "string list \<Rightarrow> string list" where
  "sort_strings ss = foldr insert_string ss []"

definition tag_keys :: "(string \<Rightarrow> string) \<Rightarrow> cache \<Rightarrow> string list \<Rightarrow> string list" where
  "tag_keys sha c tags = map (\<lambda>t. ca_namespace c @ ''tag:'' @ sha t) (remdups_adj (sort_strings tags))"

definition tag_px :: int where "tag_px = 25 * 3600 * 1000"

definition cache_generation :: "(string \<Rightarrow> string) \<Rightarrow> (string list \<Rightarrow> string) \<Rightarrow> string \<Rightarrow> string list \<Rightarrow> time \<Rightarrow> bool \<Rightarrow>
    cache \<Rightarrow> redis \<Rightarrow> string option \<times> cache \<times> redis" where
  "cache_generation sha encode_strings fresh keys now fault c r =
     (if fault then (None, fst (cache_failed now c), r)
      else (case generations_script keys fresh tag_px 1 now r of (vs, r) \<Rightarrow> (Some (sha (encode_strings vs)), c, r)))"

definition cache_invalidate_tags :: "(string \<Rightarrow> string) \<Rightarrow> string \<Rightarrow> string list \<Rightarrow> time \<Rightarrow> bool \<Rightarrow> cache \<Rightarrow> redis \<Rightarrow>
    bool \<times> cache \<times> redis" where
  "cache_invalidate_tags sha fresh tags now fault c r =
     (if \<not> ca_client c \<or> tags = [] then (True, c, r)
      else if fault then (False, fst (cache_failed now c), r)
      else (True, c\<lparr>ca_invalidations := ca_invalidations c + 1\<rparr>,
            invalidate_tags_script (tag_keys sha c tags) fresh tag_px 1 now r))"

text \<open>
  The loop of \<open>GetTagged\<close>: \<open>generation n\<close> is the result of the \<open>n\<close>-th call of \<open>generation\<close>,
  \<open>cached n key\<close> of a \<open>Get\<close> with the full ttl and \<open>direct n\<close> of the \<open>Get\<close> with a zero ttl.
\<close>

fun get_tagged_loop :: "(nat \<Rightarrow> string option) \<Rightarrow> (nat \<Rightarrow> string \<Rightarrow> ('e, 'v) go_result) \<Rightarrow> (nat \<Rightarrow> ('e, 'v) go_result) \<Rightarrow>
    (nat \<Rightarrow> 'e option) \<Rightarrow> string \<Rightarrow> nat \<Rightarrow> nat \<Rightarrow> ('e, 'v) go_result option" where
  "get_tagged_loop generation cached direct ctx_err key 0 n = None"
| "get_tagged_loop generation cached direct ctx_err key (Suc fuel) n =
     (case generation n of None \<Rightarrow> Some (direct n)
      | Some before \<Rightarrow>
          (case cached (n + 1) (key @ '':tags:'' @ before) of
             Inl e \<Rightarrow> Some (Inl e)
           | Inr v \<Rightarrow>
               (case generation (n + 2) of None \<Rightarrow> Some (direct (n + 2))
                | Some after \<Rightarrow>
                    if before = after then Some (Inr v)
                    else (case ctx_err (n + 2) of Some e \<Rightarrow> Some (Inl e)
                      | None \<Rightarrow> get_tagged_loop generation cached direct ctx_err key fuel (n + 3)))))"

text \<open>
  The loop of \<open>get\<close>: at most two rounds of the shared read. \<open>decode\<close> reads the value of an
  envelope into the caller's type, \<open>load_direct\<close> calls the source without the cache.
\<close>

fun get_loop :: "codec \<Rightarrow> (string \<Rightarrow> 'v option) \<Rightarrow> (nat \<Rightarrow> ('e, fill_data) go_result) \<Rightarrow> (nat \<Rightarrow> ('e, 'v) go_result) \<Rightarrow>
    nat \<Rightarrow> nat \<Rightarrow> ('e, 'v) go_result \<times> nat" where \<comment> \<open>the second component: invalidations\<close>
  "get_loop C decode shared load_direct 0 attempts = (load_direct attempts, 0)"
| "get_loop C decode shared load_direct (Suc rounds) attempts =
     (case shared attempts of
        Inl e \<Rightarrow> (Inl e, 0)
      | Inr Uncacheable \<Rightarrow> (load_direct attempts, 0)
      | Inr (Data s) \<Rightarrow>
          (case (case cd_dec C s of None \<Rightarrow> None | Some p \<Rightarrow> decode (pl_value p)) of
             Some v \<Rightarrow> (Inr v, 0)
           | None \<Rightarrow>
               if 0 < attempts then (load_direct attempts, 1)
               else (case get_loop C decode shared load_direct rounds (attempts + 1) of (res, k) \<Rightarrow> (res, k + 1))))"

text \<open>\<open>ctx_err\<close>: the error of a context that is done on entry; \<open>cached\<close>: the cache is not nil.\<close>

definition cache_get :: "'e option \<Rightarrow> bool \<Rightarrow> codec \<Rightarrow> (string \<Rightarrow> 'v option) \<Rightarrow> (nat \<Rightarrow> ('e, fill_data) go_result) \<Rightarrow>
    (nat \<Rightarrow> ('e, 'v) go_result) \<Rightarrow> ('e, 'v) go_result \<times> nat" where
  "cache_get ctx_err cached C decode shared load_direct = (case ctx_err of
     Some e \<Rightarrow> (Inl e, 0)
   | None \<Rightarrow> if \<not> cached then (load_direct 0, 0) else get_loop C decode shared load_direct 2 0)"

subsection \<open>Deadlines\<close>

text \<open>
  The freshness budget: whatever the random byte, an entry never lives past the deadline of
  its caller nor past 24 hours, a future deadline is never turned into a past one, and the
  jitter takes away less than a tenth (and one 2560th) of the time.
\<close>

theorem cache_until_bounds:
  assumes "rnd < 256"
  shows "cache_until rnd deadline now \<le> deadline \<and> cache_until rnd deadline now \<le> now + max_ttl \<and>
    (now \<le> deadline \<longrightarrow>
      9 * min max_ttl (deadline - now) \<le> 10 * (cache_until rnd deadline now - now))"
proof -
  define ttl where "ttl = (if max_ttl < deadline - now then max_ttl else deadline - now)"
  have ttl: "ttl \<le> deadline - now" "ttl \<le> max_ttl" "ttl = min max_ttl (deadline - now)"
    by (auto simp: ttl_def)
  show ?thesis
  proof (cases "millisecond < ttl")
    case True
    define q where "q = ttl div 2560"
    have q: "godiv ttl 2560 = q" "0 \<le> q" "2560 * q \<le> ttl"
      using True by (simp_all add: q_def millisecond_def)
    define x where "x = int rnd * q"
    have j: "0 \<le> x" "x \<le> 256 * q" using q assms by (auto simp: x_def intro: mult_right_mono)
    have u: "cache_until rnd deadline now = now + (ttl - x)"
      using True q(1) unfolding x_def ttl_def by (simp only: cache_until_def Let_def if_True)
    have "10 * x \<le> ttl" using j(2) q(3) by presburger
    then have "9 * ttl \<le> 10 * (ttl - x)" by presburger
    then have "9 * min max_ttl (deadline - now) \<le> 10 * (cache_until rnd deadline now - now)"
      unfolding u ttl(3) by simp
    moreover have "cache_until rnd deadline now \<le> deadline" "cache_until rnd deadline now \<le> now + max_ttl"
      using u j(1) ttl(1,2) by simp_all
    ultimately show ?thesis by blast
  next
    case False
    then have "cache_until rnd deadline now = now + ttl"
      unfolding ttl_def by (simp only: cache_until_def Let_def if_False)
    with ttl show ?thesis by (auto simp: max_ttl_def second_def)
  qed
qed

theorem cache_until_bounds_witness:
  "cache_until 255 (10 * second) 0 = 9003906250 \<and> cache_until 255 (10 * second) 0 \<le> 10 * second \<and>
   9 * min max_ttl (10 * second - 0) \<le> 10 * (cache_until 255 (10 * second) 0 - 0)"
proof -
  have "cache_until 255 (10 * second) 0 = 9003906250"
    by (simp add: cache_until_def max_ttl_def second_def millisecond_def)
  with cache_until_bounds [of 255 "10 * second" 0] show ?thesis by (simp add: second_def)
qed

subsection \<open>Fills against invalidations\<close>

datatype fill_state = Idle | Holding | Loaded nat

text \<open>
  One cached key and everything that may happen to it. \<open>fw_source\<close> counts the commits to the
  source, \<open>content v\<close> is the value a load reads after the \<open>v\<close>-th; \<open>fw_inval\<close> is the commit count
  at the last completed invalidation; \<open>fw_fills t\<close> is how far the caller with the nonce \<open>t\<close> is.
\<close>

record fill_world =
  fw_redis :: redis
  fw_now :: time
  fw_source :: nat
  fw_inval :: nat
  fw_fills :: "string \<Rightarrow> fill_state"

inductive fill_step :: "string \<Rightarrow> string \<Rightarrow> codec \<Rightarrow> (nat \<Rightarrow> string) \<Rightarrow> fill_world \<Rightarrow> fill_world \<Rightarrow> bool"
  for vk lk C content where
  commit: "fill_step vk lk C content w (w\<lparr>fw_source := fw_source w + 1\<rparr>)"
| invalidate: "fill_step vk lk C content w
    (w\<lparr>fw_redis := r_del (r_del (fw_redis w) vk) lk, fw_inval := fw_source w\<rparr>)"
| acquire: "fw_fills w t = Idle \<Longrightarrow>
    acquire_script vk lk t px (fw_now w) (fw_redis w) = ((2, s), r') \<Longrightarrow>
    fill_step vk lk C content w (w\<lparr>fw_redis := r', fw_fills := (fw_fills w)(t := Holding)\<rparr>)"
| load: "fw_fills w t = Holding \<Longrightarrow>
    fill_step vk lk C content w (w\<lparr>fw_fills := (fw_fills w)(t := Loaded (fw_source w))\<rparr>)"
| publish: "fw_fills w t = Loaded v \<Longrightarrow>
    publish_script vk lk t (cd_enc C \<lparr>pl_value = content v, pl_until = u\<rparr>) px (fw_now w) (fw_redis w) = (ok, r') \<Longrightarrow>
    fill_step vk lk C content w (w\<lparr>fw_redis := r', fw_fills := (fw_fills w)(t := Idle)\<rparr>)"
| give_up: "r' = fw_redis w \<or> r' = snd (release_script lk t (fw_now w) (fw_redis w)) \<Longrightarrow>
    fill_step vk lk C content w (w\<lparr>fw_redis := r', fw_fills := (fw_fills w)(t := Idle)\<rparr>)"
| renew: "fill_step vk lk C content w (w\<lparr>fw_redis := snd (renew_script lk t px (fw_now w) (fw_redis w))\<rparr>)"
| discard: "fill_step vk lk C content w (w\<lparr>fw_redis := snd (discard_script vk b (fw_now w) (fw_redis w))\<rparr>)"
| evict: "fill_step vk lk C content w (w\<lparr>fw_redis := r_del (fw_redis w) k\<rparr>)"
| elsewhere: "r' vk = fw_redis w vk \<Longrightarrow> r' lk = fw_redis w lk \<Longrightarrow> fw_now w \<le> now \<Longrightarrow>
    fill_step vk lk C content w (w\<lparr>fw_redis := r', fw_now := now\<rparr>)"

definition fresh_body :: "codec \<Rightarrow> (nat \<Rightarrow> string) \<Rightarrow> fill_world \<Rightarrow> string \<Rightarrow> bool" where
  "fresh_body C content w b \<longleftrightarrow>
     (\<exists>v u. fw_inval w \<le> v \<and> v \<le> fw_source w \<and> b = cd_enc C \<lparr>pl_value = content v, pl_until = u\<rparr>)"

definition fill_inv :: "string \<Rightarrow> string \<Rightarrow> codec \<Rightarrow> (nat \<Rightarrow> string) \<Rightarrow> fill_world \<Rightarrow> bool" where
  "fill_inv vk lk C content w \<longleftrightarrow> fw_inval w \<le> fw_source w \<and>
     (\<forall>b e. fw_redis w vk = Some (b, e) \<longrightarrow> fresh_body C content w b) \<and>
     (\<forall>t v. fw_fills w t = Loaded v \<longrightarrow> v \<le> fw_source w \<and>
        (\<forall>e. fw_redis w lk = Some (t, e) \<longrightarrow> fw_inval w \<le> v))"

lemmas redis_defs = r_get_def r_set_def r_del_def

lemma r_get_Some: "r_get r now k = Some v \<Longrightarrow> \<exists>e. r k = Some (v, e)"
  by (auto simp: r_get_def split: option.splits if_splits)

lemma acquire_two:
  assumes "acquire_script vk lk t px now r = ((2, s), r')"
  shows "r' = r_set r now lk t px"
  using assms by (auto simp: acquire_script_def split: option.splits)

lemma fill_inv_shrink:
  assumes "fill_inv vk lk C content w"
    and "\<And>x. r' vk = Some x \<Longrightarrow> fw_redis w vk = Some x" and "\<And>x. r' lk = Some x \<Longrightarrow> fw_redis w lk = Some x"
    and "\<And>t v. f t = Loaded v \<Longrightarrow> fw_fills w t = Loaded v"
  shows "fill_inv vk lk C content (w\<lparr>fw_redis := r', fw_fills := f\<rparr>)"
  using assms by (simp add: fill_inv_def fresh_body_def) blast

lemma fill_inv_step:
  assumes "fill_step vk lk C content w w'" and "vk \<noteq> lk" and "fill_inv vk lk C content w"
  shows "fill_inv vk lk C content w'"
  using assms(1,3)
proof (induction rule: fill_step.induct)
  case (commit w)
  then show ?case by (fastforce simp: fill_inv_def fresh_body_def)
next
  case (invalidate w)
  with assms(2) show ?case by (auto simp: fill_inv_def redis_defs)
next
  case (acquire w t px s r')
  note r' = acquire_two [OF acquire.hyps(2)]
  with acquire.prems assms(2) show ?case by (auto simp: fill_inv_def fresh_body_def r_set_def)
next
  case (load w t)
  then show ?case by (auto simp: fill_inv_def fresh_body_def)
next
  case (publish w t v u px ok r')
  show ?case
  proof (cases "r_get (fw_redis w) (fw_now w) lk = Some t")
    case False
    with publish have "r' = fw_redis w" by (simp add: publish_script_def)
    with publish show ?thesis by (auto simp: fill_inv_def fresh_body_def)
  next
    case True
    with r_get_Some publish.prems publish.hyps(1) have v: "fw_inval w \<le> v" "v \<le> fw_source w"
      by (auto simp: fill_inv_def)
    from True publish have r': "r' = r_del (if 0 < px then r_set (fw_redis w) (fw_now w) vk
        (cd_enc C \<lparr>pl_value = content v, pl_until = u\<rparr>) px else fw_redis w) lk"
      by (simp add: publish_script_def)
    with v publish.prems assms(2) show ?thesis
      by (auto simp: fill_inv_def fresh_body_def redis_defs)
  qed
next
  case (give_up r' w t)
  then have "\<And>x. r' vk = Some x \<Longrightarrow> fw_redis w vk = Some x" "\<And>x. r' lk = Some x \<Longrightarrow> fw_redis w lk = Some x"
    using assms(2) by (elim disjE; simp add: release_script_def r_del_def split: if_splits)+
  with give_up.prems show ?case by (rule fill_inv_shrink) (auto split: if_splits)
next
  case (renew w t px)
  let ?r = "snd (renew_script lk t px (fw_now w) (fw_redis w))"
  have "?r vk = fw_redis w vk" "\<And>x e. ?r lk = Some (x, e) \<Longrightarrow> \<exists>e'. fw_redis w lk = Some (x, e')"
    using assms(2) r_get_Some by (auto simp: renew_script_def r_set_def split: if_splits)
  with renew show ?case by (fastforce simp: fill_inv_def fresh_body_def)
next
  case (discard w b)
  then show ?case using assms(2) by (auto simp: fill_inv_def fresh_body_def discard_script_def redis_defs)
next
  case (evict w k)
  then show ?case by (auto simp: fill_inv_def fresh_body_def redis_defs)
next
  case (elsewhere r' w now)
  then show ?case by (auto simp: fill_inv_def fresh_body_def)
qed


definition plain_codec :: codec where
  "plain_codec = \<lparr>cd_enc = pl_value, cd_dec = (\<lambda>s. Some \<lparr>pl_value = s, pl_until = 0\<rparr>)\<rparr>"

definition ex_fill :: "redis \<Rightarrow> (string \<Rightarrow> fill_state) \<Rightarrow> fill_world" where
  "ex_fill r f = \<lparr>fw_redis = r, fw_now = 0, fw_source = 3, fw_inval = 2, fw_fills = f\<rparr>"


subsection \<open>Tags\<close>

lemma generations_spec:
  assumes "generations_script ks fresh px i now r = (vs, r')" and "distinct ks"
  shows "length vs = length ks \<and>
    (\<forall>j < length ks. vs ! j = (case r_get r now (ks ! j) of None \<Rightarrow> fresh @ '':'' @ itoa (i + j) | Some v \<Rightarrow> v) \<and>
       (\<exists>e. r' (ks ! j) = Some (vs ! j, e))) \<and> (\<forall>k. k \<notin> set ks \<longrightarrow> r' k = r k)"
  using assms
proof (induction ks fresh px i now r arbitrary: vs r' rule: generations_script.induct)
  case (2 k ks fresh px i now r)
  let ?v = "case r_get r now k of None \<Rightarrow> fresh @ '':'' @ itoa i | Some v \<Rightarrow> v"
  let ?r = "r_set r now k ?v px"
  obtain ws where ws: "generations_script ks fresh px (i + 1) now ?r = (ws, r')" "vs = ?v # ws"
    using "2.prems"(1) by (auto simp: Let_def prod_eq_iff)
  have d: "distinct ks" "k \<notin> set ks" using "2.prems"(2) by simp_all
  note IH = "2.IH" [OF refl ws(1) d(1)]
  have same: "r_get ?r now (ks ! j) = r_get r now (ks ! j)" if "j < length ks" for j
    using that d(2) by (auto simp: r_get_def r_set_def)
  have hd: "r' k = ?r k" using IH d(2) by blast
  show ?case
  proof (intro conjI allI impI)
    fix j assume j: "j < length (k # ks)"
    show "vs ! j = (case r_get r now ((k # ks) ! j) of None \<Rightarrow> fresh @ '':'' @ itoa (i + j) | Some v \<Rightarrow> v)"
      using j IH same ws(2) by (cases j) (simp_all split: option.split)
    show "\<exists>e. r' ((k # ks) ! j) = Some (vs ! j, e)"
      using j IH hd ws(2) by (cases j) (auto simp: r_set_def)
  next
    fix k' assume "k' \<notin> set (k # ks)"
    then show "r' k' = r k'" using IH by (auto simp: r_set_def)
  qed (use IH ws(2) in auto)
qed simp

lemma invalidate_tags_spec:
  "\<exists>n. k \<in> set ts \<longrightarrow> (\<exists>e. invalidate_tags_script ts fresh px i now r k = Some (fresh @ '':'' @ itoa n, e))"
  and invalidate_tags_other: "k \<notin> set ts \<Longrightarrow> invalidate_tags_script ts fresh px i now r k = r k"
proof (induction ts fresh px i now r rule: invalidate_tags_script.induct)
  case (2 t ts fresh px i now r)
  {
    case 1
    show ?case
    proof (cases "k \<in> set ts")
      case True
      with "2.IH"(1) show ?thesis by auto
    next
      case False
      from "2.IH"(2) [OF this] have e: "invalidate_tags_script (t # ts) fresh px i now r k =
          r_set r now t (fresh @ '':'' @ itoa i) px k" by simp
      show ?thesis
        by (rule exI [of _ i]) (use False in \<open>simp only: e, simp add: r_set_def\<close>)
    qed
  next
    case 2
    then have "k \<notin> set ts" "k \<noteq> t" by simp_all
    from "2.IH"(2) [OF this(1)] this(2) show ?case by (simp only: invalidate_tags_script.simps) (simp add: r_set_def)
  }
qed auto

text \<open>
  One key with its tag keys \<open>ks\<close>. \<open>tg_used\<close> are the nonces drawn so far, \<open>tg_seen g\<close> the commit
  count when the generation vector \<open>g\<close> was first returned to a caller, \<open>tg_store g\<close> the commit
  count of the value cached under \<open>g\<close> (whoever filled it had read \<open>g\<close> before loading).
\<close>

record tag_world =
  tg_redis :: redis
  tg_now :: time
  tg_source :: nat
  tg_inval :: nat
  tg_used :: "string set"
  tg_seen :: "string list \<Rightarrow> nat option"
  tg_store :: "string list \<Rightarrow> nat option"

definition new_nonce :: "string \<Rightarrow> tag_world \<Rightarrow> bool" where
  "new_nonce n w \<longleftrightarrow> n \<notin> tg_used w \<and> CHR '':'' \<notin> set n"

inductive tag_step :: "string list \<Rightarrow> tag_world \<Rightarrow> tag_world \<Rightarrow> bool" for ks where
  commit: "tag_step ks w (w\<lparr>tg_source := tg_source w + 1\<rparr>)"
| invalidate: "new_nonce fresh w \<Longrightarrow> set ts \<inter> set ks \<noteq> {} \<Longrightarrow>
    tag_step ks w (w\<lparr>tg_redis := invalidate_tags_script ts fresh px 1 (tg_now w) (tg_redis w),
      tg_used := insert fresh (tg_used w), tg_inval := tg_source w\<rparr>)"
| generation: "new_nonce fresh w \<Longrightarrow> generations_script ks fresh px 1 (tg_now w) (tg_redis w) = (g, r') \<Longrightarrow>
    tag_step ks w (w\<lparr>tg_redis := r', tg_used := insert fresh (tg_used w),
      tg_seen := (if tg_seen w g = None then (tg_seen w)(g \<mapsto> tg_source w) else tg_seen w)\<rparr>)"
| load: "tg_seen w g \<noteq> None \<Longrightarrow> tag_step ks w (w\<lparr>tg_store := (tg_store w)(g \<mapsto> tg_source w)\<rparr>)"
| drop: "tag_step ks w (w\<lparr>tg_store := (tg_store w)(g := None)\<rparr>)"
| evict: "tag_step ks w (w\<lparr>tg_redis := r_del (tg_redis w) k\<rparr>)"
| elsewhere: "(\<And>k. k \<in> set ks \<Longrightarrow> r' k = tg_redis w k) \<Longrightarrow> tg_now w \<le> now \<Longrightarrow>
    tag_step ks w (w\<lparr>tg_redis := r', tg_now := now\<rparr>)"

definition live :: "string list \<Rightarrow> redis \<Rightarrow> string list \<Rightarrow> bool" where
  "live ks r g \<longleftrightarrow> length g = length ks \<and> (\<forall>j < length ks. \<exists>e. r (ks ! j) = Some (g ! j, e))"

definition drawn :: "string set \<Rightarrow> string \<Rightarrow> bool" where
  "drawn U v \<longleftrightarrow> (\<exists>n i. n \<in> U \<and> CHR '':'' \<notin> set n \<and> v = n @ '':'' @ itoa i)"

definition tag_inv :: "string list \<Rightarrow> tag_world \<Rightarrow> bool" where
  "tag_inv ks w \<longleftrightarrow> tg_inval w \<le> tg_source w \<and>
     (\<forall>g b. tg_seen w g = Some b \<longrightarrow> b \<le> tg_source w \<and> (\<forall>v \<in> set g. drawn (tg_used w) v)) \<and>
     (\<forall>g v. tg_store w g = Some v \<longrightarrow> v \<le> tg_source w \<and> (\<exists>b. tg_seen w g = Some b \<and> b \<le> v)) \<and>
     (\<forall>k \<in> set ks. \<forall>v e. tg_redis w k = Some (v, e) \<longrightarrow> drawn (tg_used w) v) \<and>
     (\<forall>g b. live ks (tg_redis w) g \<longrightarrow> tg_seen w g = Some b \<longrightarrow> tg_inval w \<le> b)"

lemma tag_invD:
  assumes "tag_inv ks w"
  shows "tg_inval w \<le> tg_source w"
    and "tg_seen w g = Some b \<Longrightarrow> b \<le> tg_source w"
    and "tg_seen w g = Some b \<Longrightarrow> x \<in> set g \<Longrightarrow> drawn (tg_used w) x"
    and "tg_store w g = Some v \<Longrightarrow> v \<le> tg_source w \<and> (\<exists>b. tg_seen w g = Some b \<and> b \<le> v)"
    and "k \<in> set ks \<Longrightarrow> tg_redis w k = Some (x, e) \<Longrightarrow> drawn (tg_used w) x"
    and "live ks (tg_redis w) g \<Longrightarrow> tg_seen w g = Some b \<Longrightarrow> tg_inval w \<le> b"
  using assms unfolding tag_inv_def by blast+

lemma fresh_not_drawn: "new_nonce n w \<Longrightarrow> \<not> drawn (tg_used w) (n @ '':'' @ itoa i)"
proof
  assume n: "new_nonce n w" and "drawn (tg_used w) (n @ '':'' @ itoa i)"
  then obtain m j where m: "m \<in> tg_used w" "CHR '':'' \<notin> set m" "n @ CHR '':'' # itoa i = m @ CHR '':'' # itoa j"
    by (auto simp: drawn_def)
  have "takeWhile (\<lambda>c. c \<noteq> CHR '':'') (x @ CHR '':'' # y) = x" if "CHR '':'' \<notin> set x" for x y
    using that by (induction x) auto
  with m n have "n = m" by (metis new_nonce_def)
  with m n show False by (simp add: new_nonce_def)
qed

lemma live_unique: "live ks r g \<Longrightarrow> live ks r h \<Longrightarrow> g = h"
  unfolding live_def by (rule nth_equalityI) (simp, metis option.inject prod.inject)

lemma generation_live:
  assumes "generations_script ks fresh px 1 now r = (g, r')" and "distinct ks"
  shows "live ks r' g" and "j < length ks \<Longrightarrow> g ! j = fresh @ '':'' @ itoa (1 + j) \<or> (\<exists>e. r (ks ! j) = Some (g ! j, e))"
proof -
  note G = generations_spec [OF assms]
  show "live ks r' g" using G unfolding live_def by blast
  show "g ! j = fresh @ '':'' @ itoa (1 + j) \<or> (\<exists>e. r (ks ! j) = Some (g ! j, e))" if "j < length ks"
  proof (cases "r_get r now (ks ! j)")
    case None
    with G that show ?thesis by simp
  next
    case (Some v)
    with r_get_Some [OF Some] G that show ?thesis by auto
  qed
qed

lemma generation_seen:
  assumes inv: "tag_inv ks w" and n: "new_nonce fresh w" and d: "distinct ks"
    and g: "generations_script ks fresh px 1 (tg_now w) (tg_redis w) = (g, r')" and s: "tg_seen w g = Some b"
  shows "tg_inval w \<le> b"
proof -
  have len: "length g = length ks" using generations_spec [OF g d] by blast
  have "\<exists>e. tg_redis w (ks ! j) = Some (g ! j, e)" if j: "j < length ks" for j
  proof -
    have "drawn (tg_used w) (g ! j)" using inv s j len by (simp add: tag_inv_def)
    with fresh_not_drawn [OF n] have "g ! j \<noteq> fresh @ '':'' @ itoa (1 + j)" by metis
    with generation_live(2) [OF g d j] show ?thesis by blast
  qed
  with len have "live ks (tg_redis w) g" by (simp add: live_def)
  with inv s show ?thesis by (simp add: tag_inv_def)
qed

lemma tag_inv_shrink:
  assumes inv: "tag_inv ks w" and r: "\<And>k x. k \<in> set ks \<Longrightarrow> r' k = Some x \<Longrightarrow> tg_redis w k = Some x"
  shows "tag_inv ks (w\<lparr>tg_redis := r', tg_now := now\<rparr>)"
proof -
  have "live ks r' g \<Longrightarrow> live ks (tg_redis w) g" for g using r unfolding live_def by (metis nth_mem)
  then have "\<forall>g. live ks r' g \<longrightarrow> (\<forall>b. tg_seen w g = Some b \<longrightarrow> tg_inval w \<le> b)"
    using tag_invD(6) [OF inv] by blast
  moreover have "drawn (tg_used w) x" if "k \<in> set ks" "r' k = Some (x, e)" for k x e
    using tag_invD(5) [OF inv that(1) r [OF that]] .
  ultimately show ?thesis using inv unfolding tag_inv_def by simp
qed

lemma tag_inv_step:
  assumes "tag_step ks w w'" and d: "distinct ks" and "tag_inv ks w"
  shows "tag_inv ks w'"
  using assms(1,3)
proof (induction rule: tag_step.induct)
  case (commit w)
  then show ?case by (fastforce simp: tag_inv_def drawn_def)
next
  case (invalidate fresh w ts px)
  let ?r = "invalidate_tags_script ts fresh px 1 (tg_now w) (tg_redis w)"
  let ?w = "w\<lparr>tg_redis := ?r, tg_used := insert fresh (tg_used w), tg_inval := tg_source w\<rparr>"
  have mono: "drawn (tg_used w) v \<Longrightarrow> drawn (insert fresh (tg_used w)) v" for v by (auto simp: drawn_def)
  have new: "drawn (insert fresh (tg_used w)) (fresh @ '':'' @ itoa i)" for i
    using invalidate.hyps(1) by (auto simp: drawn_def new_nonce_def)
  have val: "drawn (insert fresh (tg_used w)) v" if "k \<in> set ks" "?r k = Some (v, e)" for k v e
  proof (cases "k \<in> set ts")
    case True
    with invalidate_tags_spec [of k ts fresh px 1 "tg_now w" "tg_redis w"] that(2) new show ?thesis by auto
  next
    case False
    with that invalidate_tags_other have "tg_redis w k = Some (v, e)" by metis
    with invalidate.prems that(1) mono show ?thesis by (auto simp: tag_inv_def)
  qed
  have dead: "\<not> live ks ?r g" if "tg_seen w g = Some b" for g b
  proof
    assume l: "live ks ?r g"
    obtain k where k: "k \<in> set ts" "k \<in> set ks" using invalidate.hyps(2) by auto
    then obtain j where j: "j < length ks" "ks ! j = k" by (auto simp: in_set_conv_nth)
    with l obtain e where "?r k = Some (g ! j, e)" by (auto simp: live_def)
    with invalidate_tags_spec [of k ts fresh px 1 "tg_now w" "tg_redis w"] k obtain n where
      "g ! j = fresh @ '':'' @ itoa n" by auto
    moreover have "g ! j \<in> set g" using l j by (simp add: live_def)
    ultimately show False
      using tag_invD(3) [OF invalidate.prems that] fresh_not_drawn [OF invalidate.hyps(1)] by metis
  qed
  have "b \<le> tg_source w \<and> (\<forall>v \<in> set h. drawn (insert fresh (tg_used w)) v)" if "tg_seen w h = Some b" for h b
    using that mono tag_invD(2,3) [OF invalidate.prems] by blast
  moreover have "v \<le> tg_source w \<and> (\<exists>b. tg_seen w h = Some b \<and> b \<le> v)" if "tg_store w h = Some v" for h v
    using tag_invD(4) [OF invalidate.prems that] .
  ultimately show ?case using val dead unfolding tag_inv_def by simp blast
next
  case (generation fresh w px g r')
  let ?w = "w\<lparr>tg_redis := r', tg_used := insert fresh (tg_used w),
      tg_seen := (if tg_seen w g = None then (tg_seen w)(g \<mapsto> tg_source w) else tg_seen w)\<rparr>"
  note G = generations_spec [OF generation.hyps(2) d]
  note L = generation_live [OF generation.hyps(2) d]
  have mono: "drawn (tg_used w) v \<Longrightarrow> drawn (insert fresh (tg_used w)) v" for v by (auto simp: drawn_def)
  have new: "drawn (insert fresh (tg_used w)) (fresh @ '':'' @ itoa i)" for i
    using generation.hyps(1) by (auto simp: drawn_def new_nonce_def)
  have gj: "drawn (insert fresh (tg_used w)) (g ! j)" if j: "j < length ks" for j
    using L(2) [OF j] new mono tag_invD(5) [OF generation.prems nth_mem [OF j]] by metis
  have val: "drawn (insert fresh (tg_used w)) v" if "k \<in> set ks" "r' k = Some (v, e)" for k v e
  proof -
    from that(1) obtain j where j: "j < length ks" "ks ! j = k" by (auto simp: in_set_conv_nth)
    with G that(2) have "v = g ! j" by auto
    with gj [OF j(1)] show ?thesis by simp
  qed
  have gset: "\<forall>v \<in> set g. drawn (insert fresh (tg_used w)) v" using gj G by (auto simp: in_set_conv_nth)
  have birth: "tg_inval w \<le> b" if "live ks r' h" "tg_seen ?w h = Some b" for h b
  proof -
    have "h = g" using live_unique [OF that(1) L(1)] .
    with that(2) generation_seen [OF generation.prems generation.hyps(1) d generation.hyps(2)] generation.prems
    show ?thesis by (auto simp: tag_inv_def split: if_splits)
  qed
  have seen: "b \<le> tg_source w \<and> (\<forall>v \<in> set h. drawn (insert fresh (tg_used w)) v)" if "tg_seen ?w h = Some b" for h b
    using that gset mono generation.prems by (auto simp: tag_inv_def split: if_splits)
  have store: "v \<le> tg_source w \<and> (\<exists>b. tg_seen ?w h = Some b \<and> b \<le> v)" if "tg_store w h = Some v" for h v
    using that generation.prems by (fastforce simp: tag_inv_def)
  have "tg_inval w \<le> tg_source w" using generation.prems by (simp add: tag_inv_def)
  with val birth seen store show ?case unfolding tag_inv_def by simp
next
  case (load w g)
  then show ?case by (auto simp: tag_inv_def drawn_def)
next
  case (drop w g)
  then show ?case by (auto simp: tag_inv_def drawn_def)
next
  case (evict w k)
  have "tag_inv ks (w\<lparr>tg_redis := r_del (tg_redis w) k, tg_now := tg_now w\<rparr>)"
    by (rule tag_inv_shrink [OF evict]) (simp add: r_del_def split: if_splits)
  then show ?case by simp
next
  case (elsewhere r' w now)
  show ?case by (rule tag_inv_shrink [OF elsewhere.prems]) (simp add: elsewhere.hyps(1))
qed


definition tag_start :: tag_world where
  "tag_start = \<lparr>tg_redis = (\<lambda>_. None), tg_now = 0, tg_source = 1, tg_inval = 1, tg_used = {},
     tg_seen = (\<lambda>_. None), tg_store = (\<lambda>_. None)\<rparr>"


lemma get_tagged_cases:
  assumes "get_tagged_loop generation cached direct ctx_err key fuel n = Some (Inr v)"
  shows "(\<exists>m. direct m = Inr v) \<or>
    (\<exists>m g. generation m = Some g \<and> generation (m + 2) = Some g \<and> cached (m + 1) (key @ '':tags:'' @ g) = Inr v)"
  using assms
  by (induction generation cached direct ctx_err key fuel n rule: get_tagged_loop.induct)
    (auto split: option.splits sum.splits if_splits)

end
