(* ===== verification/JsonText.thy ===== *)
theory JsonText
  imports Json
begin

text \<open>
  Reading JSON text, as \<open>encoding/json\<close> does: \<open>parse_json\<close> is the value of a whole text (syntax
  errors are \<open>None\<close>), numbers kept as tokens and the members of an object in the order of the text,
  duplicates included. \<open>write_json\<close> writes a value the way \<open>json.Marshal\<close> writes a struct, members
  in the order given.

  \<open>json_field\<close> is what \<open>json.Unmarshal\<close> stores in one field of a struct: every member whose name
  matches, exactly or up to case, is decoded in order, so that the last one counts; \<open>null\<close> leaves
  the field alone.
\<close>

subsection \<open>Strings\<close>

definition ws_char :: "char \<Rightarrow> bool" where
  "ws_char c \<longleftrightarrow> c \<in> {CHR 0x20, CHR 0x09, CHR 0x0D, CHR 0x0A}"

definition skip_ws :: "string \<Rightarrow> string" where
  "skip_ws s = dropWhile ws_char s"

definition encode_rune :: "nat \<Rightarrow> string" where
  "encode_rune r =
     (let r = (if 0x10FFFF < r \<or> (0xD800 \<le> r \<and> r < 0xE000) then 0xFFFD else r) in
      if r < 0x80 then [char_of r]
      else if r < 0x800 then [char_of (0xC0 + r div 64), char_of (0x80 + r mod 64)]
      else if r < 0x10000 then
        [char_of (0xE0 + r div 4096), char_of (0x80 + (r div 64) mod 64), char_of (0x80 + r mod 64)]
      else [char_of (0xF0 + r div 262144), char_of (0x80 + (r div 4096) mod 64),
        char_of (0x80 + (r div 64) mod 64), char_of (0x80 + r mod 64)])"

definition hex_val :: "char \<Rightarrow> nat option" where
  "hex_val c = (if is_digit c then Some (digit_val c)
     else if 97 \<le> byte c \<and> byte c \<le> 102 then Some (byte c - 87)
     else if 65 \<le> byte c \<and> byte c \<le> 70 then Some (byte c - 55) else None)"

fun hex4 :: "string \<Rightarrow> (nat \<times> string) option" where
  "hex4 (a # b # c # d # s) = (case (hex_val a, hex_val b, hex_val c, hex_val d) of
     (Some a, Some b, Some c, Some d) \<Rightarrow> Some (4096 * a + 256 * b + 16 * c + d, s)
   | _ \<Rightarrow> None)"
| "hex4 _ = None"

definition high_surrogate :: "nat \<Rightarrow> bool" where
  "high_surrogate r \<longleftrightarrow> 0xD800 \<le> r \<and> r < 0xDC00"

definition low_surrogate :: "nat \<Rightarrow> bool" where
  "low_surrogate r \<longleftrightarrow> 0xDC00 \<le> r \<and> r < 0xE000"

text \<open>After \<open>\u\<close>: the rune of one escape or of a surrogate pair.\<close>

definition unescape_u :: "string \<Rightarrow> (string \<times> string) option" where
  "unescape_u s = (case hex4 s of None \<Rightarrow> None | Some (r, s') \<Rightarrow>
     (case s' of c # d # t \<Rightarrow>
        if high_surrogate r \<and> c = CHR 0x5C \<and> d = CHR ''u'' then
          (case hex4 t of None \<Rightarrow> None | Some (r2, t') \<Rightarrow>
             if low_surrogate r2 then Some (encode_rune ((r - 0xD800) * 1024 + (r2 - 0xDC00) + 0x10000), t')
             else Some (encode_rune r, s'))
        else Some (encode_rune r, s')
      | _ \<Rightarrow> Some (encode_rune r, s')))"

definition simple_escape :: "char \<Rightarrow> char option" where
  "simple_escape c = (if c = CHR 0x22 \<or> c = CHR 0x5C \<or> c = CHR ''/'' then Some c
     else if c = CHR ''b'' then Some (CHR 0x08) else if c = CHR ''f'' then Some (CHR 0x0C)
     else if c = CHR ''n'' then Some (CHR 0x0A) else if c = CHR ''r'' then Some (CHR 0x0D)
     else if c = CHR ''t'' then Some (CHR 0x09) else None)"

text \<open>After the opening quote, one rune or escape at a time; \<open>fuel\<close> is the length of the text.\<close>

fun parse_string :: "nat \<Rightarrow> string \<Rightarrow> (string \<times> string) option" where
  "parse_string 0 s = None"
| "parse_string (Suc n) s = (case s of [] \<Rightarrow> None
   | c # r \<Rightarrow>
      if c = CHR 0x22 then Some ([], r)
      else if c = CHR 0x5C then
        (case r of [] \<Rightarrow> None
         | e # r' \<Rightarrow>
            if e = CHR ''u'' then
              (case unescape_u r' of None \<Rightarrow> None
               | Some (u, t) \<Rightarrow> (case parse_string n t of None \<Rightarrow> None | Some (v, t') \<Rightarrow> Some (u @ v, t')))
            else (case simple_escape e of None \<Rightarrow> None
               | Some x \<Rightarrow> (case parse_string n r' of None \<Rightarrow> None | Some (v, t') \<Rightarrow> Some (x # v, t'))))
      else if byte c < 0x20 then None
      else (case decode_rune s of (u, w) \<Rightarrow>
        (case parse_string n (drop w s) of None \<Rightarrow> None
         | Some (v, t') \<Rightarrow> Some ((if u = 0xFFFD then encode_rune 0xFFFD else take w s) @ v, t'))))"

subsection \<open>Values\<close>

definition number_char :: "char \<Rightarrow> bool" where
  "number_char c \<longleftrightarrow> is_digit c \<or> c \<in> {CHR ''-'', CHR ''+'', CHR ''.'', CHR ''e'', CHR ''E''}"

definition parse_number :: "string \<Rightarrow> (json \<times> string) option" where
  "parse_number s = (let t = takeWhile number_char s in
     if valid_number t then Some (JNum t, dropWhile number_char s) else None)"

definition literal :: "string \<Rightarrow> json \<Rightarrow> string \<Rightarrow> (json \<times> string) option" where
  "literal w v s = (if has_prefix w s then Some (v, drop (length w) s) else None)"

definition max_depth :: nat where "max_depth = 10000"

text \<open>
  \<open>d\<close> is the nesting depth, limited as in \<open>encoding/json\<close>; \<open>fuel\<close> bounds the recursion, twice the
  length of the text is enough. \<open>parse_elems\<close> reads the rest of an array after a bracket or a
  comma, \<open>parse_members\<close> the rest of an object.
\<close>

fun parse_value :: "nat \<Rightarrow> nat \<Rightarrow> string \<Rightarrow> (json \<times> string) option"
  and parse_elems :: "nat \<Rightarrow> nat \<Rightarrow> string \<Rightarrow> (json list \<times> string) option"
  and parse_members :: "nat \<Rightarrow> nat \<Rightarrow> string \<Rightarrow> ((string \<times> json) list \<times> string) option" where
  "parse_value 0 d s = None"
| "parse_value (Suc n) d s = (case skip_ws s of [] \<Rightarrow> None
   | c # r \<Rightarrow>
      if c = CHR 0x22 then (case parse_string (length r) r of None \<Rightarrow> None | Some (v, t) \<Rightarrow> Some (JStr v, t))
      else if c = CHR ''['' then
        (if max_depth \<le> d then None
         else (case skip_ws r of [] \<Rightarrow> None
           | x # t \<Rightarrow> if x = CHR '']'' then Some (JArr [], t)
              else (case parse_elems n (d + 1) r of None \<Rightarrow> None | Some (vs, t) \<Rightarrow> Some (JArr vs, t))))
      else if c = CHR ''{'' then
        (if max_depth \<le> d then None
         else (case skip_ws r of [] \<Rightarrow> None
           | x # t \<Rightarrow> if x = CHR ''}'' then Some (JObj [], t)
              else (case parse_members n (d + 1) r of None \<Rightarrow> None | Some (ms, t) \<Rightarrow> Some (JObj ms, t))))
      else if c = CHR ''t'' then literal ''true'' (JBool True) (c # r)
      else if c = CHR ''f'' then literal ''false'' (JBool False) (c # r)
      else if c = CHR ''n'' then literal ''null'' JNull (c # r)
      else parse_number (c # r))"
| "parse_elems 0 d s = None"
| "parse_elems (Suc n) d s = (case parse_value n d s of None \<Rightarrow> None
   | Some (v, t) \<Rightarrow> (case skip_ws t of [] \<Rightarrow> None
      | c # t' \<Rightarrow>
         if c = CHR '']'' then Some ([v], t')
         else if c = CHR '','' then (case parse_elems n d t' of None \<Rightarrow> None | Some (vs, u) \<Rightarrow> Some (v # vs, u))
         else None))"
| "parse_members 0 d s = None"
| "parse_members (Suc n) d s = (case skip_ws s of [] \<Rightarrow> None
   | q # r \<Rightarrow> if q \<noteq> CHR 0x22 then None
      else (case parse_string (length r) r of None \<Rightarrow> None
       | Some (k, t) \<Rightarrow> (case skip_ws t of [] \<Rightarrow> None
          | c # t' \<Rightarrow> if c \<noteq> CHR '':'' then None
             else (case parse_value n d t' of None \<Rightarrow> None
              | Some (v, u) \<Rightarrow> (case skip_ws u of [] \<Rightarrow> None
                 | e # u' \<Rightarrow>
                    if e = CHR ''}'' then Some ([(k, v)], u')
                    else if e = CHR '','' then
                      (case parse_members n d u' of None \<Rightarrow> None | Some (ms, w) \<Rightarrow> Some ((k, v) # ms, w))
                    else None)))))"

definition parse_json :: "string \<Rightarrow> json option" where
  "parse_json s = (case parse_value (2 * length s + 2) 0 s of None \<Rightarrow> None
     | Some (v, t) \<Rightarrow> if skip_ws t = [] then Some v else None)"

subsection \<open>Fields of a struct\<close>

definition lower_char :: "char \<Rightarrow> char" where
  "lower_char c = (if 65 \<le> byte c \<and> byte c \<le> 90 then char_of (byte c + 32) else c)"

text \<open>Two runes beyond ASCII fold to a letter: the Kelvin sign and the long s.\<close>

definition fold_key :: "string \<Rightarrow> string" where
  "fold_key s = concat (map (\<lambda>(r, b). if r = 0x212A then ''k'' else if r = 0x17F then ''s'' else map lower_char b) (chunks s))"

fun json_field :: "string \<Rightarrow> (json \<Rightarrow> 'a option) \<Rightarrow> 'a \<Rightarrow> (string \<times> json) list \<Rightarrow> 'a option" where
  "json_field name dec a [] = Some a"
| "json_field name dec a ((k, v) # ms) =
     (if fold_key k \<noteq> fold_key name \<or> v = JNull then json_field name dec a ms
      else (case dec v of None \<Rightarrow> None | Some b \<Rightarrow> json_field name dec b ms))"

definition dec_string :: "json \<Rightarrow> string option" where
  "dec_string v = (case v of JStr s \<Rightarrow> Some s | _ \<Rightarrow> None)"

definition dec_bool :: "json \<Rightarrow> bool option" where
  "dec_bool v = (case v of JBool b \<Rightarrow> Some b | _ \<Rightarrow> None)"

definition dec_int :: "json \<Rightarrow> int option" where
  "dec_int v = (case v of JNum s \<Rightarrow> atoi s | _ \<Rightarrow> None)"

text \<open>A \<open>[]string\<close>; \<open>null\<close> inside stays the empty string.\<close>

definition dec_strings :: "json \<Rightarrow> string list option" where
  "dec_strings v = (case v of
     JArr vs \<Rightarrow> sequence_opt (map (\<lambda>v. if v = JNull then Some [] else dec_string v) vs)
   | _ \<Rightarrow> None)"

subsection \<open>Writing\<close>

fun write_json :: "json \<Rightarrow> string" where
  "write_json JNull = ''null''"
| "write_json (JBool b) = (if b then ''true'' else ''false'')"
| "write_json (JNum s) = s"
| "write_json (JFloat bits) = []"
| "write_json (JStr s) = quote_string s"
| "write_json (JArr vs) = ''['' @ join '','' (map write_json vs) @ '']''"
| "write_json (JObj ms) = ''{'' @ join '','' (map (\<lambda>m. quote_string (fst m) @ '':'' @ write_json (snd m)) ms) @ ''}''"

subsection \<open>What is written is read back\<close>

text \<open>A string that needs no escape: printable ASCII without quotes, backslashes and the HTML characters.\<close>

definition plain_char :: "char \<Rightarrow> bool" where
  "plain_char c \<longleftrightarrow> 0x20 \<le> byte c \<and> byte c < 0x7F \<and> c \<notin> {CHR 0x22, CHR 0x5C, CHR ''<'', CHR ''>'', CHR ''&''}"

definition plain :: "string \<Rightarrow> bool" where
  "plain s \<longleftrightarrow> list_all plain_char s"

lemma plain_simps [simp]:
  "plain []" "plain (c # s) \<longleftrightarrow> plain_char c \<and> plain s" "plain (s @ t) \<longleftrightarrow> plain s \<and> plain t"
  by (simp_all add: plain_def)

lemma char_eq_byte: "c = CHR 0x22 \<longleftrightarrow> byte c = 0x22" "c = CHR 0x5C \<longleftrightarrow> byte c = 0x5C"
  "c = CHR ''<'' \<longleftrightarrow> byte c = 0x3C" "c = CHR ''>'' \<longleftrightarrow> byte c = 0x3E" "c = CHR ''&'' \<longleftrightarrow> byte c = 0x26"
  using byte_inject [of c "CHR 0x22"] byte_inject [of c "CHR 0x5C"] byte_inject [of c "CHR ''<''"]
    byte_inject [of c "CHR ''>''"] byte_inject [of c "CHR ''&''"] by simp_all

lemma escape_plain: "plain_char c \<Longrightarrow> escape_chunk (byte c, [c]) = [c]"
  by (simp add: plain_char_def escape_chunk_def char_eq_byte Let_def)

lemma quote_plain: "plain s \<Longrightarrow> quote_string s = CHR 0x22 # s @ [CHR 0x22]"
proof -
  assume "plain s"
  then have "concat (map escape_chunk (chunks s)) = s"
    by (induction s) (simp_all add: escape_plain plain_char_def [THEN iffD1, THEN conjunct2, THEN conjunct1, THEN less_trans])
  then show ?thesis by (simp add: quote_string_def)
qed

lemma parse_string_plain:
  "plain s \<Longrightarrow> length s < n \<Longrightarrow> parse_string n (s @ CHR 0x22 # t) = Some (s, t)"
proof (induction s arbitrary: n)
  case Nil
  then show ?case by (cases n) auto
next
  case (Cons c s)
  from Cons.prems(2) obtain m where n: "n = Suc m" "length s < m" by (cases n) auto
  from Cons.prems(1) have c: "c \<noteq> CHR 0x22" "c \<noteq> CHR 0x5C" "\<not> byte c < 0x20" "byte c < 0x80" "byte c \<noteq> 0xFFFD"
    by (auto simp: plain_char_def)
  from c Cons.IH [OF _ n(2)] Cons.prems(1) show ?case by (simp add: n(1))
qed

declare parse_string.simps [simp del]

fun plain_json :: "json \<Rightarrow> bool" where
  "plain_json (JNum s) \<longleftrightarrow> valid_number s \<and> list_all number_char s"
| "plain_json (JStr s) \<longleftrightarrow> plain s"
| "plain_json (JArr vs) \<longleftrightarrow> list_all plain_json vs"
| "plain_json (JObj ms) \<longleftrightarrow> list_all (\<lambda>m. plain (fst m) \<and> plain_json (snd m)) ms"
| "plain_json (JFloat _) \<longleftrightarrow> False"
| "plain_json _ \<longleftrightarrow> True"

text \<open>The same with another condition on the strings.\<close>

fun json_over :: "(string \<Rightarrow> bool) \<Rightarrow> json \<Rightarrow> bool" where
  "json_over ok (JNum s) \<longleftrightarrow> valid_number s \<and> list_all number_char s"
| "json_over ok (JStr s) \<longleftrightarrow> ok s"
| "json_over ok (JArr vs) \<longleftrightarrow> list_all (json_over ok) vs"
| "json_over ok (JObj ms) \<longleftrightarrow> list_all (\<lambda>m. ok (fst m) \<and> json_over ok (snd m)) ms"
| "json_over ok (JFloat _) \<longleftrightarrow> False"
| "json_over ok _ \<longleftrightarrow> True"

lemma plain_json_over: "plain_json v \<longleftrightarrow> json_over plain v"
  by (induction v) (auto simp: list_all_iff snds.simps)

fun json_depth :: "json \<Rightarrow> nat" where
  "json_depth (JArr vs) = Suc (foldr max (map json_depth vs) 0)"
| "json_depth (JObj ms) = Suc (foldr max (map (\<lambda>m. json_depth (snd m)) ms) 0)"
| "json_depth _ = 0"

fun json_fuel :: "json \<Rightarrow> nat" where
  "json_fuel (JArr vs) = Suc (foldr (\<lambda>v k. Suc (max (json_fuel v) k)) vs 0)"
| "json_fuel (JObj ms) = Suc (foldr (\<lambda>m k. Suc (max (json_fuel (snd m)) k)) ms 0)"
| "json_fuel _ = 1"

definition stops :: "string \<Rightarrow> bool" where
  "stops t \<longleftrightarrow> (case t of [] \<Rightarrow> True | c # _ \<Rightarrow> \<not> number_char c)"

lemma skip_ws_id: "s \<noteq> [] \<Longrightarrow> \<not> ws_char (hd s) \<Longrightarrow> skip_ws s = s"
  by (cases s) (simp_all add: skip_ws_def)

lemma number_head: "number_char c \<Longrightarrow>
   \<not> ws_char c \<and> c \<noteq> CHR 0x22 \<and> c \<noteq> CHR ''['' \<and> c \<noteq> CHR ''{'' \<and> c \<noteq> CHR ''t'' \<and> c \<noteq> CHR ''f'' \<and> c \<noteq> CHR ''n''"
  by (auto simp: number_char_def ws_char_def is_digit_def)

lemma parse_number_stops:
  "valid_number s \<Longrightarrow> list_all number_char s \<Longrightarrow> stops t \<Longrightarrow> parse_number (s @ t) = Some (JNum s, t)"
proof -
  assume s: "valid_number s" "list_all number_char s" "stops t"
  have "takeWhile number_char (s @ t) = s \<and> dropWhile number_char (s @ t) = t"
    using s(2,3) by (induction s) (auto simp: stops_def split: list.splits)
  with s(1) show ?thesis by (simp add: parse_number_def)
qed

lemma valid_number_nonempty: "valid_number s \<Longrightarrow> s \<noteq> []"
  by (auto simp: valid_number_def strip_minus_def)

lemma parse_number_value:
  assumes "valid_number s" "list_all number_char s" "stops t"
  shows "parse_value (Suc n) d (s @ t) = Some (JNum s, t)"
proof -
  from valid_number_nonempty [OF assms(1)] obtain c r where s: "s = c # r" by (cases s) auto
  with assms(2) have "number_char c" by simp
  note number_head [OF this]
  moreover from this have "skip_ws (c # r @ t) = c # r @ t" by (simp add: skip_ws_id)
  ultimately show ?thesis using parse_number_stops [OF assms] by (simp add: s)
qed

definition reads :: "json \<Rightarrow> bool" where
  "reads v \<longleftrightarrow> (\<forall>n d t. json_depth v + d \<le> max_depth \<longrightarrow> json_fuel v \<le> n \<longrightarrow> stops t \<longrightarrow>
     parse_value n d (write_json v @ t) = Some (v, t))"

lemma readsD: "reads v \<Longrightarrow> json_depth v + d \<le> max_depth \<Longrightarrow> json_fuel v \<le> n \<Longrightarrow> stops t \<Longrightarrow>
    parse_value n d (write_json v @ t) = Some (v, t)"
  by (simp add: reads_def)

lemma stops_simps [simp]: "stops []" "stops (CHR '']'' # t)" "stops (CHR ''}'' # t)" "stops (CHR '','' # t)"
  by (simp_all add: stops_def number_char_def is_digit_def)

lemma skip_ws_simps [simp]:
  "skip_ws (CHR '']'' # t) = CHR '']'' # t" "skip_ws (CHR ''}'' # t) = CHR ''}'' # t" "skip_ws (CHR '','' # t) = CHR '','' # t"
  "skip_ws (CHR '':'' # t) = CHR '':'' # t" "skip_ws (CHR 0x22 # t) = CHR 0x22 # t" "skip_ws (CHR ''['' # t) = CHR ''['' # t"
  "skip_ws (CHR ''{'' # t) = CHR ''{'' # t" "skip_ws (CHR ''t'' # t) = CHR ''t'' # t" "skip_ws (CHR ''f'' # t) = CHR ''f'' # t"
  "skip_ws (CHR ''n'' # t) = CHR ''n'' # t" "skip_ws [] = []"
  by (simp_all add: skip_ws_def ws_char_def)

lemma foldr_max_le: "x \<in> set xs \<Longrightarrow> f x \<le> foldr max (map f xs) (0 :: nat)"
  by (induction xs) auto

text \<open>Strings that \<open>quote_string\<close> writes and \<open>parse_string\<close> reads back.\<close>

locale readable_text =
  fixes ok :: "string \<Rightarrow> bool"
  assumes reads_quote: "ok s \<Longrightarrow> \<exists>r. quote_string s @ t = CHR 0x22 # r \<and> parse_string (length r) r = Some (s, t)"
begin

lemma written_head:
  assumes "json_over ok v"
  obtains c r where "write_json v = c # r" "\<not> ws_char c" "c \<noteq> CHR '']''"
proof -
  have "\<exists>c r. write_json v = c # r \<and> \<not> ws_char c \<and> c \<noteq> CHR '']''"
  proof (cases v)
    case (JNum s)
    then obtain c r where s: "s = c # r" using assms valid_number_nonempty by (cases s) auto
    with assms JNum have "number_char c" by simp
    moreover from this have "c \<noteq> CHR '']''" by (auto simp: number_char_def is_digit_def)
    ultimately show ?thesis using number_head JNum s by simp
  next
    case (JStr s)
    then show ?thesis by (simp add: ws_char_def quote_string_def)
  qed (use assms in \<open>simp_all add: ws_char_def\<close>)
  with that show thesis by blast
qed

lemma reads_elems:
  "list_all reads vs \<Longrightarrow> vs \<noteq> [] \<Longrightarrow> \<forall>v \<in> set vs. json_depth v + d \<le> max_depth \<Longrightarrow>
   foldr (\<lambda>v k. Suc (max (json_fuel v) k)) vs 0 \<le> n \<Longrightarrow>
   parse_elems n d (join '','' (map write_json vs) @ CHR '']'' # t) = Some (vs, t)"
proof (induction vs arbitrary: n)
  case (Cons v vs)
  from Cons.prems(4) obtain m where n: "n = Suc m" "json_fuel v \<le> m" "foldr (\<lambda>v k. Suc (max (json_fuel v) k)) vs 0 \<le> m"
    by (cases n) auto
  from Cons.prems have r: "reads v" "json_depth v + d \<le> max_depth" by simp_all
  show ?case
  proof (cases "vs = []")
    case True
    with readsD [OF r n(2), of "CHR '']'' # t"] show ?thesis by (simp add: n(1))
  next
    case False
    with Cons.IH [of m] Cons.prems n(3)
    have "parse_elems m d (join '','' (map write_json vs) @ CHR '']'' # t) = Some (vs, t)" by simp
    with False readsD [OF r n(2), of "CHR '','' # join '','' (map write_json vs) @ CHR '']'' # t"]
    show ?thesis by (simp add: n(1) join_Cons)
  qed
qed simp

lemma reads_members:
  "list_all (\<lambda>m. ok (fst m) \<and> reads (snd m)) ms \<Longrightarrow> ms \<noteq> [] \<Longrightarrow> \<forall>m \<in> set ms. json_depth (snd m) + d \<le> max_depth \<Longrightarrow>
   foldr (\<lambda>m k. Suc (max (json_fuel (snd m)) k)) ms 0 \<le> n \<Longrightarrow>
   parse_members n d (join '','' (map (\<lambda>m. quote_string (fst m) @ '':'' @ write_json (snd m)) ms) @ CHR ''}'' # t) = Some (ms, t)"
proof (induction ms arbitrary: n)
  case (Cons m ms)
  obtain k v where m: "m = (k, v)" by (cases m)
  let ?rest = "join '','' (map (\<lambda>m. quote_string (fst m) @ '':'' @ write_json (snd m)) ms) @ CHR ''}'' # t"
  from Cons.prems(4) obtain i where n: "n = Suc i" "json_fuel v \<le> i" "foldr (\<lambda>m k. Suc (max (json_fuel (snd m)) k)) ms 0 \<le> i"
    by (cases n) (auto simp: m)
  from Cons.prems have r: "reads v" "json_depth v + d \<le> max_depth" and k: "ok k" by (simp_all add: m)
  show ?case
  proof (cases "ms = []")
    case True
    from reads_quote [OF k, of "CHR '':'' # write_json v @ CHR ''}'' # t"] readsD [OF r n(2), of "CHR ''}'' # t"] True
    show ?thesis by (auto simp: n(1) m)
  next
    case False
    with Cons.IH [of i] Cons.prems n(3)
    have "parse_members i d ?rest = Some (ms, t)" by simp
    with False readsD [OF r n(2), of "CHR '','' # ?rest"] reads_quote [OF k, of "CHR '':'' # write_json v @ CHR '','' # ?rest"]
    show ?thesis by (auto simp: n(1) m join_Cons)
  qed
qed simp

lemma reads_written: "json_over ok v \<Longrightarrow> reads v"
proof (induction v)
  case JNull
  have "parse_value n d (write_json JNull @ t) = Some (JNull, t)" if "1 \<le> n" for n d t
    using that by (cases n) (simp_all add: literal_def has_prefix_def)
  then show ?case by (simp add: reads_def)
next
  case (JArr vs)
  then have vs: "list_all reads vs" by (simp add: list_all_iff)
  show ?case
  proof (unfold reads_def, intro allI impI)
    fix n d t
    assume d: "json_depth (JArr vs) + d \<le> max_depth" and n: "json_fuel (JArr vs) \<le> n"
    from n obtain i where i: "n = Suc i" "foldr (\<lambda>v k. Suc (max (json_fuel v) k)) vs 0 \<le> i" by (cases n) auto
    have depth: "\<forall>v \<in> set vs. json_depth v + (d + 1) \<le> max_depth"
      using d foldr_max_le [of _ vs json_depth] by fastforce
    show "parse_value n d (write_json (JArr vs) @ t) = Some (JArr vs, t)"
    proof (cases vs)
      case Nil
      with d show ?thesis by (simp add: i(1))
    next
      case (Cons v vs')
      from JArr.prems Cons obtain c r where h: "write_json v = c # r" "\<not> ws_char c" "c \<noteq> CHR '']''"
        by (auto elim: written_head)
      have sk: "skip_ws (c # u) = c # u" for u using h(2) by (simp add: skip_ws_id)
      obtain u where u: "join '','' (map write_json vs) @ CHR '']'' # t = c # u"
        using h(1) Cons by (cases vs') auto
      have "parse_elems i (d + 1) (c # u) = Some (vs, t)"
        using reads_elems [OF vs _ depth i(2), of t] Cons unfolding u by simp
      then show ?thesis using d h(3) by (simp add: i(1) u sk)
    qed
  qed
next
  case (JObj ms)
  then have ms: "list_all (\<lambda>m. ok (fst m) \<and> reads (snd m)) ms" by (fastforce simp: list_all_iff)
  show ?case
  proof (unfold reads_def, intro allI impI)
    fix n d t
    assume d: "json_depth (JObj ms) + d \<le> max_depth" and n: "json_fuel (JObj ms) \<le> n"
    from n obtain i where i: "n = Suc i" "foldr (\<lambda>m k. Suc (max (json_fuel (snd m)) k)) ms 0 \<le> i" by (cases n) auto
    have depth: "\<forall>m \<in> set ms. json_depth (snd m) + (d + 1) \<le> max_depth"
      using d foldr_max_le [of _ ms "\<lambda>m. json_depth (snd m)"] by fastforce
    show "parse_value n d (write_json (JObj ms) @ t) = Some (JObj ms, t)"
    proof (cases ms)
      case Nil
      with d show ?thesis by (simp add: i(1))
    next
      case (Cons m ms')
      let ?body = "join '','' (map (\<lambda>m. quote_string (fst m) @ '':'' @ write_json (snd m)) ms) @ CHR ''}'' # t"
      from ms Cons obtain u where u: "?body = CHR 0x22 # u"
        by (cases ms') (auto simp: quote_string_def)
      have "parse_members i (d + 1) (CHR 0x22 # u) = Some (ms, t)"
        using reads_members [OF ms _ depth i(2), of t] Cons unfolding u by simp
      then show ?thesis using d u by (simp add: i(1))
    qed
  qed
next
  case (JNum s)
  then have "parse_value n d (s @ t) = Some (JNum s, t)" if "1 \<le> n" "stops t" for n d t
    using that parse_number_value [of s t] by (cases n) auto
  then show ?case by (simp add: reads_def)
next
  case (JStr s)
  then have k: "ok s" by simp
  have "parse_value n d (write_json (JStr s) @ t) = Some (JStr s, t)" if "1 \<le> n" for n d t
    using that reads_quote [OF k, of t] by (cases n) auto
  then show ?case by (simp add: reads_def)
next
  case (JBool b)
  have "parse_value n d (write_json (JBool b) @ t) = Some (JBool b, t)" if "1 \<le> n" for n d t
    using that by (cases n) (simp_all add: literal_def has_prefix_def)
  then show ?case by (simp add: reads_def)
qed simp

lemma written_nonempty: "json_over ok v \<Longrightarrow> 0 < length (write_json v)"
  by (erule written_head) simp

lemma written_fuel: "json_over ok v \<Longrightarrow> json_fuel v \<le> 2 * length (write_json v)"
proof (induction v)
  case (JArr vs)
  have "foldr (\<lambda>v k. Suc (max (json_fuel v) k)) vs 0 \<le> 2 * length (join '','' (map write_json vs)) + 2"
    if "list_all (json_over ok) vs" "\<forall>v \<in> set vs. json_fuel v \<le> 2 * length (write_json v)" for vs
    using that
  proof (induction vs)
    case (Cons v vs)
    with written_nonempty [of v] show ?case by (cases vs) auto
  qed simp
  with JArr show ?case by (fastforce simp: list_all_iff)
next
  case (JObj ms)
  have "foldr (\<lambda>m k. Suc (max (json_fuel (snd m)) k)) ms 0
      \<le> 2 * length (join '','' (map (\<lambda>m. quote_string (fst m) @ '':'' @ write_json (snd m)) ms)) + 2"
    if "\<forall>m \<in> set ms. json_fuel (snd m) \<le> 2 * length (write_json (snd m))" for ms :: "(string \<times> json) list"
    using that
  proof (induction ms)
    case (Cons m ms)
    then show ?case by (cases ms) auto
  qed simp
  with JObj show ?case by (fastforce simp: list_all_iff)
next
  case (JNum s)
  with valid_number_nonempty [of s] show ?case by (cases s) auto
qed (auto simp: quote_string_def)

lemma parse_written:
  assumes "json_over ok v" "json_depth v \<le> max_depth"
  shows "parse_json (write_json v) = Some v"
proof -
  have "parse_value (2 * length (write_json v) + 2) 0 (write_json v @ []) = Some (v, [])"
    by (rule readsD [OF reads_written]) (use assms written_fuel [OF assms(1)] in simp_all)
  then show ?thesis by (simp add: parse_json_def)
qed

end

text \<open>Plain strings are read back.\<close>

interpretation plain_text: readable_text plain
proof
  fix s t assume k: "plain s"
  show "\<exists>r. quote_string s @ t = CHR 0x22 # r \<and> parse_string (length r) r = Some (s, t)"
    using parse_string_plain [OF k, of "length (s @ CHR 0x22 # t)" t] by (simp add: quote_plain [OF k])
qed

lemma write_head:
  assumes "plain_json v"
  obtains c r where "write_json v = c # r" "\<not> ws_char c" "c \<noteq> CHR '']''"
  using plain_text.written_head assms unfolding plain_json_over by blast

lemmas parse_write = plain_text.reads_written [folded plain_json_over]
lemmas write_nonempty = plain_text.written_nonempty [folded plain_json_over]
lemmas fuel_length = plain_text.written_fuel [folded plain_json_over]
lemmas parse_json_write = plain_text.parse_written [folded plain_json_over]

end
