(* ===== verification/Codec.thy ===== *)
theory Codec
  imports JsonText "HOL-Library.AList"
begin

text \<open>
  Encodings the tokens and signatures are written in: base64 (standard with padding, and the raw
  URL alphabet), lowercase hexadecimal, canonical UUIDs, printable identifiers. Bytes are HOL
  characters, a \<open>[]byte\<close> is a \<^typ>\<open>string\<close>.

  \<open>b64_decode\<close> follows \<open>encoding/base64\<close>: line breaks are skipped, the padded alphabet needs its
  padding and nothing after it, the raw one has none, \<open>strict\<close> rejects non-zero trailing bits.
\<close>

subsection \<open>Base64\<close>

definition b64_char :: "bool \<Rightarrow> nat \<Rightarrow> char" where
  "b64_char url v = char_of (if v < 26 then 65 + v else if v < 52 then 71 + v else if v < 62 then v - 4
     else if v = 62 then (if url then 45 else 43) else (if url then 95 else 47))"

definition b64_val :: "bool \<Rightarrow> char \<Rightarrow> nat option" where
  "b64_val url c = (let b = byte c in
     if 65 \<le> b \<and> b \<le> 90 then Some (b - 65) else if 97 \<le> b \<and> b \<le> 122 then Some (b - 71)
     else if 48 \<le> b \<and> b \<le> 57 then Some (b + 4)
     else if b = (if url then 45 else 43) then Some 62
     else if b = (if url then 95 else 47) then Some 63 else None)"

fun b64_encode :: "bool \<Rightarrow> string \<Rightarrow> string" where
  "b64_encode url [] = []"
| "b64_encode url [a] =
     [b64_char url (byte a div 4), b64_char url (byte a mod 4 * 16)] @ (if url then [] else ''=='')"
| "b64_encode url [a, b] =
     [b64_char url (byte a div 4), b64_char url (byte a mod 4 * 16 + byte b div 16), b64_char url (byte b mod 16 * 4)] @
     (if url then [] else ''='')"
| "b64_encode url (a # b # c # s) =
     b64_char url (byte a div 4) # b64_char url (byte a mod 4 * 16 + byte b div 16) #
     b64_char url (byte b mod 16 * 4 + byte c div 64) # b64_char url (byte c mod 64) # b64_encode url s"

fun b64_quanta :: "bool \<Rightarrow> bool \<Rightarrow> string \<Rightarrow> string option" where
  "b64_quanta strict url [] = Some []"
| "b64_quanta strict url [w] = None"
| "b64_quanta strict url [w, x] = (if \<not> url then None else
     (case (b64_val url w, b64_val url x) of
        (Some w, Some x) \<Rightarrow> if strict \<and> x mod 16 \<noteq> 0 then None else Some [char_of (w * 4 + x div 16)]
      | _ \<Rightarrow> None))"
| "b64_quanta strict url [w, x, y] = (if \<not> url then None else
     (case (b64_val url w, b64_val url x, b64_val url y) of
        (Some w, Some x, Some y) \<Rightarrow> if strict \<and> y mod 4 \<noteq> 0 then None
          else Some [char_of (w * 4 + x div 16), char_of (x mod 16 * 16 + y div 4)]
      | _ \<Rightarrow> None))"
| "b64_quanta strict url (w # x # y # z # s) =
     (if \<not> url \<and> z = CHR ''='' \<and> s = [] then
        (if y = CHR ''='' then
          (case (b64_val url w, b64_val url x) of
             (Some w, Some x) \<Rightarrow> if strict \<and> x mod 16 \<noteq> 0 then None else Some [char_of (w * 4 + x div 16)]
           | _ \<Rightarrow> None)
         else (case (b64_val url w, b64_val url x, b64_val url y) of
             (Some w, Some x, Some y) \<Rightarrow> if strict \<and> y mod 4 \<noteq> 0 then None
               else Some [char_of (w * 4 + x div 16), char_of (x mod 16 * 16 + y div 4)]
           | _ \<Rightarrow> None))
      else (case (b64_val url w, b64_val url x, b64_val url y, b64_val url z) of
          (Some w, Some x, Some y, Some z) \<Rightarrow>
            map_option (\<lambda>t. char_of (w * 4 + x div 16) # char_of (x mod 16 * 16 + y div 4) # char_of (y mod 4 * 64 + z) # t)
              (b64_quanta strict url s)
        | _ \<Rightarrow> None))"

definition b64_decode :: "bool \<Rightarrow> bool \<Rightarrow> string \<Rightarrow> string option" where
  "b64_decode strict url s = b64_quanta strict url (filter (\<lambda>c. c \<noteq> CHR 0x0D \<and> c \<noteq> CHR 0x0A) s)"

abbreviation "b64url \<equiv> b64_encode True"
abbreviation "b64url_decode \<equiv> b64_decode False True"
abbreviation "b64std \<equiv> b64_encode False"
abbreviation "b64std_decode \<equiv> b64_decode False False"

lemma b64_val_char [simp]: "v < 64 \<Longrightarrow> b64_val url (b64_char url v) = Some v"
  by (simp add: b64_char_def b64_val_def Let_def) presburger

lemma byte_b64_char: "v < 64 \<Longrightarrow> byte (b64_char url v) = (if v < 26 then 65 + v else if v < 52 then 71 + v
     else if v < 62 then v - 4 else if v = 62 then (if url then 45 else 43) else (if url then 95 else 47))"
  by (simp add: b64_char_def)

lemma b64_char_not [simp]:
  assumes "v < 64"
  shows "b64_char url v \<noteq> CHR ''=''" "b64_char url v \<noteq> CHR 0x0D" "b64_char url v \<noteq> CHR 0x0A" "b64_char url v \<noteq> CHR ''.''"
proof -
  have "byte (b64_char url v) \<notin> {61, 13, 10, 46}"
    using assms by (simp add: byte_b64_char) presburger
  then show "b64_char url v \<noteq> CHR ''=''" "b64_char url v \<noteq> CHR 0x0D" "b64_char url v \<noteq> CHR 0x0A" "b64_char url v \<noteq> CHR ''.''"
    by auto
qed

lemma join_bits:
  fixes x y :: nat
  shows "y < 16 \<Longrightarrow> (x * 16 + y) div 16 = x" "y < 16 \<Longrightarrow> (x * 16 + y) mod 16 = y"
    "y < 4 \<Longrightarrow> (x * 4 + y) div 4 = x" "y < 4 \<Longrightarrow> (x * 4 + y) mod 4 = y"
  by simp_all

lemma byte_parts:
  "byte a div 4 < 64" "byte a div 16 < 16" "byte a div 64 < 4" "byte a mod 4 < 4" "byte a mod 16 < 16" "byte a mod 64 < 64"
  using nat_of_char_less_256 [of a] by (simp_all add: less_mult_imp_div_less)

lemma sextets:
  "byte a div 4 < 64" "byte a mod 4 * 16 < 64" "byte a mod 4 * 16 + byte b div 16 < 64"
  "byte b mod 16 * 4 < 64" "byte b mod 16 * 4 + byte c div 64 < 64" "byte c mod 64 < 64"
  using byte_parts(1-6) [of a] byte_parts(1-6) [of b] byte_parts(1-6) [of c] by linarith+

lemma octets:
  "char_of (byte a div 4 * 4 + (byte a mod 4 * 16 + byte b div 16) div 16) = a"
  "char_of ((byte a mod 4 * 16 + byte b div 16) mod 16 * 16 + (byte b mod 16 * 4 + byte c div 64) div 4) = b"
  "char_of ((byte b mod 16 * 4 + byte c div 64) mod 4 * 64 + byte c mod 64) = c"
  by (simp_all only: join_bits byte_parts div_mult_mod_eq char_of_char)

lemma octets_end:
  "char_of (byte a div 4 * 4 + byte a mod 4 * 16 div 16) = a" "byte a mod 4 * 16 mod 16 = 0"
  "char_of ((byte a mod 4 * 16 + byte b div 16) mod 16 * 16 + byte b mod 16 * 4 div 4) = b" "byte b mod 16 * 4 mod 4 = 0"
proof -
  have "byte a mod 4 * 16 div 16 = byte a mod 4" "byte b mod 16 * 4 div 4 = byte b mod 16" by simp_all
  then show "char_of (byte a div 4 * 4 + byte a mod 4 * 16 div 16) = a"
    "char_of ((byte a mod 4 * 16 + byte b div 16) mod 16 * 16 + byte b mod 16 * 4 div 4) = b"
    by (simp_all only: join_bits byte_parts div_mult_mod_eq char_of_char)
qed simp_all

lemma b64_quantum_end:
  assumes "w < 64" "x < 64" "y < 64" "y mod 4 = 0"
  shows "b64_quanta strict url ([b64_char url w, b64_char url x, b64_char url y] @ (if url then [] else ''='')) =
    Some [char_of (w * 4 + x div 16), char_of (x mod 16 * 16 + y div 4)]"
  using assms by (simp del: char_of_quasi_inj)

lemma b64_quantum:
  assumes "w < 64" "x < 64" "y < 64" "z < 64"
  shows "b64_quanta strict url (b64_char url w # b64_char url x # b64_char url y # b64_char url z # s) =
    map_option (\<lambda>t. char_of (w * 4 + x div 16) # char_of (x mod 16 * 16 + y div 4) # char_of (y mod 4 * 64 + z) # t)
      (b64_quanta strict url s)"
  using assms by (simp del: char_of_quasi_inj)

lemma b64_quanta_encode: "b64_quanta strict url (b64_encode url s) = Some s"
proof (induction url s rule: b64_encode.induct)
  case (4 url a b c s)
  then show ?case
    by (simp only: b64_encode.simps b64_quantum [OF sextets(1) sextets(3) sextets(5) sextets(6)] octets option.simps)
next
  case (2 url a)
  show ?case by (simp add: sextets octets_end del: mult_div_mod_eq) 
next
  case (3 url a b)
  show ?case
    by (simp only: b64_encode.simps b64_quantum_end [OF sextets(1) sextets(3) sextets(4) octets_end(4)] octets octets_end)
qed simp

lemma b64_encode_chars: "x \<in> set (b64_encode url s) \<Longrightarrow> x = CHR ''='' \<and> \<not> url \<or> (\<exists>v < 64. x = b64_char url v)"
proof (induction url s rule: b64_encode.induct)
  case (4 url a b c s)
  then consider "x \<in> set (b64_encode url s)" | "x = b64_char url (byte a div 4)" |
    "x = b64_char url (byte a mod 4 * 16 + byte b div 16)" | "x = b64_char url (byte b mod 16 * 4 + byte c div 64)" |
    "x = b64_char url (byte c mod 64)" by auto
  then show ?case by cases (use 4 sextets in blast)+
next
  case (3 url a b)
  then consider "x = CHR ''='' \<and> \<not> url" | "x = b64_char url (byte a div 4)" |
    "x = b64_char url (byte a mod 4 * 16 + byte b div 16)" | "x = b64_char url (byte b mod 16 * 4)" by (auto split: if_splits)
  then show ?case by cases (use sextets in blast)+
next
  case (2 url a)
  then consider "x = CHR ''='' \<and> \<not> url" | "x = b64_char url (byte a div 4)" | "x = b64_char url (byte a mod 4 * 16)"
    by (auto split: if_splits)
  then show ?case by cases (use sextets in blast)+
qed simp

lemma b64_decode_encode [simp]: "b64_decode strict url (b64_encode url s) = Some s"
proof -
  have "c \<noteq> CHR 0x0D \<and> c \<noteq> CHR 0x0A" if "c \<in> set (b64_encode url s)" for c
    using b64_encode_chars [OF that] b64_char_not by auto
  then have "filter (\<lambda>c. c \<noteq> CHR 0x0D \<and> c \<noteq> CHR 0x0A) (b64_encode url s) = b64_encode url s"
    by (simp add: filter_id_conv)
  then show ?thesis by (simp add: b64_decode_def b64_quanta_encode)
qed

lemma b64url_no_dot: "CHR ''.'' \<notin> set (b64url s)"
  using b64_encode_chars [of "CHR ''.''" True s] b64_char_not(4) by metis

lemma split_on_three:
  "c \<notin> set p \<Longrightarrow> c \<notin> set q \<Longrightarrow> c \<notin> set r \<Longrightarrow> split_on c (p @ c # q @ c # r) = [p, q, r]"
  by (simp add: split_on_append)

subsection \<open>Hexadecimal, identifiers, UTF-8\<close>

definition hex_string :: "string \<Rightarrow> string" where
  "hex_string s = concat (map (\<lambda>c. [hex_digit (byte c div 16), hex_digit (byte c mod 16)]) s)"

fun hex_decode :: "string \<Rightarrow> string option" where
  "hex_decode [] = Some []"
| "hex_decode [_] = None"
| "hex_decode (a # b # s) = (case (hex_val a, hex_val b) of
     (Some x, Some y) \<Rightarrow> map_option (\<lambda>t. char_of (16 * x + y) # t) (hex_decode s)
   | _ \<Rightarrow> None)"

definition valid_utf8 :: "string \<Rightarrow> bool" where
  "valid_utf8 s \<longleftrightarrow> list_all (\<lambda>(r, b). \<not> (r = 0xFFFD \<and> length b = 1)) (chunks s)"

text \<open>\<open>strings.ToLower\<close> on ASCII (a string with other characters is only compared with itself).\<close>

definition ascii_lower :: "string \<Rightarrow> string" where
  "ascii_lower s = map lower_char s"

definition lower_hex_char :: "char \<Rightarrow> bool" where
  "lower_hex_char c \<longleftrightarrow> is_digit c \<or> (97 \<le> byte c \<and> byte c \<le> 102)"

definition zero_uuid :: string where
  "zero_uuid = ''00000000-0000-0000-0000-000000000000''"

text \<open>The loop over the bytes of \<open>canonicalUUID\<close> and \<open>mcpUUID\<close>, from position \<open>i\<close>.\<close>

fun uuid_chars :: "nat \<Rightarrow> string \<Rightarrow> bool" where
  "uuid_chars i [] = True"
| "uuid_chars i (c # s) = ((if i \<in> {8, 13, 18, 23} then c = CHR ''-'' else lower_hex_char c) \<and> uuid_chars (i + 1) s)"

text \<open>The regular expression of the lifecycle messages: groups of 8, 4, 4, 4 and 12 digits.\<close>

definition uuid_regexp :: "string \<Rightarrow> bool" where
  "uuid_regexp s \<longleftrightarrow> (let gs = split_on (CHR ''-'') s in
     map length gs = [8, 4, 4, 4, 12] \<and> list_all (list_all lower_hex_char) gs)"

lemma uuid_chars_append: "uuid_chars i (p @ s) \<longleftrightarrow> uuid_chars i p \<and> uuid_chars (i + length p) s"
  by (induction p arbitrary: i) auto

lemma uuid_chars_hex:
  "\<forall>j. i \<le> j \<longrightarrow> j < i + length p \<longrightarrow> j \<notin> {8, 13, 18, 23} \<Longrightarrow> uuid_chars i p \<longleftrightarrow> list_all lower_hex_char p"
proof (induction p arbitrary: i)
  case (Cons c p)
  from Cons.prems have "uuid_chars (Suc i) p \<longleftrightarrow> list_all lower_hex_char p" by (intro Cons.IH) auto
  moreover from Cons.prems [rule_format, of i] have "i \<notin> {8, 13, 18, 23}" by simp
  ultimately show ?case by simp
qed simp

lemma uuid_groups:
  assumes "length a = 8" "length b = 4" "length c = 4" "length d = 4" "length e = 12"
  shows "uuid_chars 0 (a @ w # b @ x # c @ y # d @ z # e) \<longleftrightarrow> {w, x, y, z} = {CHR ''-''} \<and> list_all (list_all lower_hex_char) [a, b, c, d, e]"
proof -
  have "uuid_chars 0 a = list_all lower_hex_char a" "uuid_chars 9 b = list_all lower_hex_char b"
    "uuid_chars 14 c = list_all lower_hex_char c" "uuid_chars 19 d = list_all lower_hex_char d"
    "uuid_chars 24 e = list_all lower_hex_char e"
    using assms by (auto intro!: uuid_chars_hex)
  then show ?thesis using assms by (auto simp: uuid_chars_append)
qed

lemma split_length: "length s = m + Suc n \<Longrightarrow> \<exists>a c b. s = a @ c # b \<and> length a = m \<and> length b = n"
  by (rule exI [of _ "take m s"], rule exI [of _ "s ! m"], rule exI [of _ "drop (Suc m) s"]) (simp add: id_take_nth_drop)

lemma hex_no_dash: "list_all lower_hex_char s \<Longrightarrow> CHR ''-'' \<notin> set s"
  by (auto simp: list_all_iff lower_hex_char_def is_digit_def)

lemma uuid_regexp_chars: "uuid_regexp s \<longleftrightarrow> length s = 36 \<and> uuid_chars 0 s"
proof
  assume r: "uuid_regexp s"
  then have "length (split_on (CHR ''-'') s) = 5" by (auto simp: uuid_regexp_def Let_def dest: arg_cong [of _ _ length])
  then obtain a b c d e where g: "split_on (CHR ''-'') s = [a, b, c, d, e]"
    by (auto simp: numeral_eq_Suc length_Suc_conv)
  with r have l: "length a = 8" "length b = 4" "length c = 4" "length d = 4" "length e = 12"
    "list_all (list_all lower_hex_char) [a, b, c, d, e]" by (simp_all add: uuid_regexp_def)
  have "s = join ''-'' (split_on (CHR ''-'') s)" by simp
  then have s: "s = a @ CHR ''-'' # b @ CHR ''-'' # c @ CHR ''-'' # d @ CHR ''-'' # e" by (simp add: g)
  show "length s = 36 \<and> uuid_chars 0 s" unfolding s using l by (simp add: uuid_groups)
next
  assume s: "length s = 36 \<and> uuid_chars 0 s"
  then obtain a w t where 1: "s = a @ w # t" "length a = 8" "length t = 27" using split_length [of s 8 27] by auto
  then obtain b x u where 2: "t = b @ x # u" "length b = 4" "length u = 22" using split_length [of t 4 22] by auto
  then obtain c y v where 3: "u = c @ y # v" "length c = 4" "length v = 17" using split_length [of u 4 17] by auto
  then obtain d z e where 4: "v = d @ z # e" "length d = 4" "length e = 12" using split_length [of v 4 12] by auto
  from s have "{w, x, y, z} = {CHR ''-''} \<and> list_all (list_all lower_hex_char) [a, b, c, d, e]"
    unfolding 1(1) 2(1) 3(1) 4(1) by (simp only: uuid_groups [OF 1(2) 2(2) 3(2) 4(2,3)])
  then have h: "w = CHR ''-''" "x = CHR ''-''" "y = CHR ''-''" "z = CHR ''-''" "list_all lower_hex_char a" "list_all lower_hex_char b"
    "list_all lower_hex_char c" "list_all lower_hex_char d" "list_all lower_hex_char e" by auto
  then have "split_on (CHR ''-'') s = [a, b, c, d, e]"
    by (simp add: 1(1) 2(1) 3(1) 4(1) split_on_append hex_no_dash)
  with h 1 2 3 4 show "uuid_regexp s" by (simp add: uuid_regexp_def)
qed

definition ascii_identifier :: "string \<Rightarrow> nat \<Rightarrow> bool" where
  "ascii_identifier s n \<longleftrightarrow> s \<noteq> [] \<and> length s \<le> n \<and> list_all (\<lambda>(r, _). 33 \<le> r \<and> r \<le> 126) (chunks s)"

lemma hex_digit_val [simp]: "d < 16 \<Longrightarrow> hex_val (hex_digit d) = Some d"
  by (auto simp: hex_digit_def hex_val_def is_digit_def digit_val_def)

lemma set_update_sub: "set (AList.update k v xs) \<subseteq> insert (k, v) (set xs)"
  by (induction xs) auto

end
