(* ===== verification/Sign.thy ===== *)
theory Sign
  imports Codec
begin

text \<open>
  \<open>src/internal/sign\<close>: the Ed25519 request signatures of both directions, their timestamps, and
  the key set fetched from the JWKS endpoint.

  The cipher itself (\<open>crypto/ed25519\<close>) is an argument \<open>E\<close>; \<open>ed_ok\<close> states what it documents.
  \<open>fetch\<close> is the answer of the HTTP client to the request of \<open>refresh\<close>.
\<close>

record ed25519 =
  ed_public :: "string \<Rightarrow> string"
  ed_sign :: "string \<Rightarrow> string \<Rightarrow> string"
  ed_verify :: "string \<Rightarrow> string \<Rightarrow> string \<Rightarrow> bool"

definition ed_ok :: "ed25519 \<Rightarrow> bool" where
  "ed_ok E \<longleftrightarrow> (\<forall>k m. length (ed_public E k) = 32 \<and> length (ed_sign E k m) = 64 \<and>
     ed_verify E (ed_public E k) m (ed_sign E k m))"

datatype sign_error = InvalidSignature | StaleTimestamp | Malformed | FetchFailed

subsection \<open>Signatures\<close>

definition signing_input :: "string \<Rightarrow> string \<Rightarrow> string" where
  "signing_input timestamp body = timestamp @ ''.'' @ body"

definition domain_input :: "string \<Rightarrow> string \<Rightarrow> string \<Rightarrow> string" where
  "domain_input domain timestamp body = domain @ ''.'' @ timestamp @ ''.'' @ body"

definition sign_body :: "ed25519 \<Rightarrow> string \<Rightarrow> string \<Rightarrow> string \<Rightarrow> string" where
  "sign_body E priv timestamp body = b64std (ed_sign E priv (signing_input timestamp body))"

definition sign_domain :: "ed25519 \<Rightarrow> string \<Rightarrow> string \<Rightarrow> string \<Rightarrow> string \<Rightarrow> string" where
  "sign_domain E priv domain timestamp body = b64std (ed_sign E priv (domain_input domain timestamp body))"

text \<open>\<open>None\<close> is the nil error.\<close>

definition verify_input :: "ed25519 \<Rightarrow> string \<Rightarrow> string \<Rightarrow> string \<Rightarrow> sign_error option" where
  "verify_input E pub input signature =
     (if length pub \<noteq> 32 then Some Malformed
      else (case b64std_decode signature of
          None \<Rightarrow> Some Malformed
        | Some sig \<Rightarrow>
            if length sig \<noteq> 64 then Some Malformed
            else if \<not> ed_verify E pub input sig then Some InvalidSignature
            else None))"

definition verify_body :: "ed25519 \<Rightarrow> string \<Rightarrow> string \<Rightarrow> string \<Rightarrow> string \<Rightarrow> sign_error option" where
  "verify_body E pub timestamp body signature = verify_input E pub (signing_input timestamp body) signature"

definition verify_domain :: "ed25519 \<Rightarrow> string \<Rightarrow> string \<Rightarrow> string \<Rightarrow> string \<Rightarrow> string \<Rightarrow> sign_error option" where
  "verify_domain E pub domain timestamp body signature =
     verify_input E pub (domain_input domain timestamp body) signature"

lemma verify_input_sign:
  "ed_ok E \<Longrightarrow> verify_input E (ed_public E k) m (b64std (ed_sign E k m)) = None"
  by (simp add: verify_input_def ed_ok_def)

subsection \<open>Timestamps\<close>

definition format_int :: "int \<Rightarrow> string" where
  "format_int n = (if n < 0 then CHR ''-'' # itoa (nat (- n)) else itoa (nat n))"

definition unix_seconds :: "time \<Rightarrow> int" where
  "unix_seconds t = t div second"

definition format_timestamp :: "time \<Rightarrow> string" where
  "format_timestamp t = format_int (unix_seconds t)"

text \<open>
  \<open>time.Unix(secs, 0)\<close>: Go keeps the seconds since the year 1 in an \<open>int64\<close>, so a huge \<open>secs\<close> wraps
  around. \<open>Time.Sub\<close> saturates at the bounds of an \<open>int64\<close> of nanoseconds.
\<close>

definition unix_time :: "int \<Rightarrow> time" where
  "unix_time secs = (wrap64 (secs + 62135596800) - 62135596800) * second"

definition time_sub :: "time \<Rightarrow> time \<Rightarrow> duration" where
  "time_sub t u = (if t - u < - (2 ^ 63) then - (2 ^ 63) else if 2 ^ 63 \<le> t - u then 2 ^ 63 - 1 else t - u)"

definition default_window :: duration where "default_window = 300 * second"

definition check_timestamp :: "string \<Rightarrow> duration \<Rightarrow> time \<Rightarrow> sign_error option" where
  "check_timestamp timestamp window now = (case atoi timestamp of
     None \<Rightarrow> Some Malformed
   | Some secs \<Rightarrow>
       let delta = time_sub now (unix_time secs);
           delta = (if delta < 0 then wrap64 (- delta) else delta)
       in if window < delta then Some StaleTimestamp else None)"

lemma atoi_format_int: "int64 n \<Longrightarrow> atoi (format_int n) = Some n"
proof (cases "n < 0")
  case True
  assume n: "int64 n"
  have "atoi (CHR ''-'' # itoa (nat (- n))) = Some n"
    using n True itoa_digits [of "nat (- n)"] by (simp add: atoi_def Let_def)
  with True show ?thesis by (simp add: format_int_def)
next
  case False
  assume "int64 n"
  with False atoi_itoa [of "nat n"] show ?thesis by (simp add: format_int_def)
qed

text \<open>
  C24. Which timestamps pass, for any window a \<open>Duration\<close> can hold short of its maximum: exactly the
  numbers of seconds within the window, and also every one 2^63 nanoseconds (292 years) or more
  ahead, since the saturated distance stays negative when it is negated.
\<close>

theorem check_timestamp_window:
  assumes "0 \<le> window" "window < 2 ^ 63 - 1"
  shows "check_timestamp ts window now = None \<longleftrightarrow>
    (\<exists>secs. atoi ts = Some secs \<and>
       (\<bar>now - unix_time secs\<bar> \<le> window \<or> now - unix_time secs \<le> - (2 ^ 63)))"
proof (cases "atoi ts")
  case (Some secs)
  define d where "d = now - unix_time secs"
  have neg: "wrap64 (- (time_sub now (unix_time secs))) = (if d \<le> - (2 ^ 63) then - (2 ^ 63) else - d)" if "d < 0"
    using that by (auto simp: time_sub_def d_def wrap64_def)
  show ?thesis
  proof (cases "d < 0")
    case True
    then have "time_sub now (unix_time secs) < 0" by (simp add: time_sub_def d_def)
    with neg [OF True] Some assms True show ?thesis
      by (simp add: check_timestamp_def Let_def flip: d_def)
  next
    case False
    then have "\<not> time_sub now (unix_time secs) < 0" by (simp add: time_sub_def d_def)
    with Some assms False show ?thesis
      by (simp add: check_timestamp_def Let_def time_sub_def flip: d_def)
  qed
qed (simp add: check_timestamp_def)

lemma check_timestamp_window_witness:
  "check_timestamp ''99999999999'' default_window (1800000000 * second) = None"
proof -
  have a: "atoi ''99999999999'' = Some 99999999999"
    by (simp add: atoi_def Let_def is_digit_def digits_val_def digit_val_def int64_def)
  then show ?thesis
    using check_timestamp_window [of default_window "''99999999999''" "1800000000 * second"]
    by (simp add: default_window_def second_def unix_time_def int64_def)
qed

lemma atoi_chars:
  assumes "atoi ts = Some n"
  shows "ts \<noteq> []" "CHR ''.'' \<notin> set ts" "is_digit (hd ts) \<or> hd ts \<in> {CHR ''-'', CHR ''+''}"
proof -
  from assms have ne: "ts \<noteq> []" by (auto simp: atoi_def)
  then obtain c r where ts: "ts = c # r" by (cases ts) auto
  have "CHR ''.'' \<notin> set s" if "list_all is_digit s" for s
    using that by (auto simp: list_all_iff is_digit_def)
  with assms show "ts \<noteq> []" "CHR ''.'' \<notin> set ts" "is_digit (hd ts) \<or> hd ts \<in> {CHR ''-'', CHR ''+''}"
    by (auto simp: ts atoi_def Let_def is_digit_def split: if_splits)
qed

lemma append_dot_inject:
  "x \<notin> set a \<Longrightarrow> x \<notin> set b \<Longrightarrow> a @ x # s = b @ x # t \<longleftrightarrow> a = b \<and> s = t"
  by (induction a arbitrary: b) (case_tac b; auto)+

text \<open>
  C40. What a signature covers is unambiguous: two requests with accepted timestamps sign the same
  bytes only when timestamp and body are the same, also under a common domain, and a message of a
  domain that does not begin like a number never has the bytes of a plain request.
\<close>

theorem signed_bytes_unambiguous:
  assumes "atoi ts = Some n" "atoi ts' = Some n'"
    and "domain \<noteq> []" "\<not> is_digit (hd domain)" "hd domain \<notin> {CHR ''-'', CHR ''+''}"
  shows "(signing_input ts b = signing_input ts' b' \<longleftrightarrow> ts = ts' \<and> b = b') \<and>
    (domain_input domain ts b = domain_input domain ts' b' \<longleftrightarrow> ts = ts' \<and> b = b') \<and>
    signing_input ts b \<noteq> domain_input domain ts' b'"
proof -
  have "hd (signing_input ts b) = hd ts" "hd (domain_input domain ts' b') = hd domain"
    using atoi_chars(1) [OF assms(1)] assms(3) by (simp_all add: signing_input_def domain_input_def)
  with atoi_chars(3) [OF assms(1)] assms(4,5) have "signing_input ts b \<noteq> domain_input domain ts' b'" by metis
  with append_dot_inject [OF atoi_chars(2) [OF assms(1)] atoi_chars(2) [OF assms(2)]] show ?thesis
    by (simp add: signing_input_def domain_input_def)
qed

lemma signed_bytes_unambiguous_witness:
  "signing_input ''1800000000'' ''{}'' \<noteq> domain_input ''aheron.installation-lifecycle.v1'' ''1800000000'' ''{}''"
proof -
  have "atoi ''1800000000'' = Some 1800000000"
    by (simp add: atoi_def Let_def is_digit_def digits_val_def digit_val_def int64_def)
  from signed_bytes_unambiguous [OF this this, of "''aheron.installation-lifecycle.v1''" "''{}''" "''{}''"]
  show ?thesis by (simp add: is_digit_def)
qed

subsection \<open>The key set\<close>

record http_reply =
  hr_status :: int
  hr_content_type :: string
  hr_body :: string

record jwk =
  jwk_kty :: string
  jwk_crv :: string
  jwk_x :: string
  jwk_kid :: string

text \<open>\<open>by_kid\<close> is a map: an association list with distinct keys.\<close>

record key_set =
  ks_url :: string
  ks_ttl :: duration
  ks_by_kid :: "(string \<times> string) list"
  ks_fetched_at :: "time option" \<comment> \<open>\<open>None\<close>: the zero time\<close>

definition default_jwks_ttl :: duration where "default_jwks_ttl = 300 * second"
definition max_jwks_body :: nat where "max_jwks_body = 1048576"

definition new_key_set :: "string \<Rightarrow> duration \<Rightarrow> key_set" where
  "new_key_set url ttl = \<lparr>ks_url = url, ks_ttl = (if ttl \<le> 0 then default_jwks_ttl else ttl), ks_by_kid = [], ks_fetched_at = None\<rparr>"

definition dec_jwk :: "json \<Rightarrow> jwk option" where
  "dec_jwk v = (case v of
     JNull \<Rightarrow> Some \<lparr>jwk_kty = [], jwk_crv = [], jwk_x = [], jwk_kid = []\<rparr>
   | JObj ms \<Rightarrow> (case (json_field ''kty'' dec_string [] ms, json_field ''crv'' dec_string [] ms,
        json_field ''x'' dec_string [] ms, json_field ''kid'' dec_string [] ms) of
       (Some kty, Some crv, Some x, Some kid) \<Rightarrow> Some \<lparr>jwk_kty = kty, jwk_crv = crv, jwk_x = x, jwk_kid = kid\<rparr>
     | _ \<Rightarrow> None)
   | _ \<Rightarrow> None)"

definition dec_jwks :: "json \<Rightarrow> jwk list option" where
  "dec_jwks v = (case v of JNull \<Rightarrow> Some []
   | JObj ms \<Rightarrow> json_field ''keys'' (\<lambda>v. case v of JArr vs \<Rightarrow> sequence_opt (map dec_jwk vs) | _ \<Rightarrow> None) [] ms
   | _ \<Rightarrow> None)"

text \<open>The loop of \<open>refresh\<close> over the published keys.\<close>

fun parse_keys :: "jwk list \<Rightarrow> (string \<times> string) list \<Rightarrow> (string \<times> string) list option" where
  "parse_keys [] parsed = Some parsed"
| "parse_keys (k # ks) parsed =
     (if jwk_kty k \<noteq> ''OKP'' \<or> jwk_crv k \<noteq> ''Ed25519'' then parse_keys ks parsed
      else (case b64url_decode (jwk_x k) of
          None \<Rightarrow> None
        | Some key \<Rightarrow> if length key \<noteq> 32 then None
            else parse_keys ks (AList.update (jwk_kid k) key parsed)))"

definition refresh_keys :: "http_reply option \<Rightarrow> (string \<times> string) list option" where
  "refresh_keys reply = (case reply of
     None \<Rightarrow> None
   | Some r \<Rightarrow>
       if hr_status r \<noteq> 200 then None
       else (case parse_json (take max_jwks_body (hr_body r)) of
           None \<Rightarrow> None
         | Some v \<Rightarrow> (case dec_jwks v of None \<Rightarrow> None | Some ks \<Rightarrow> parse_keys ks [])))"

definition refresh :: "http_reply option \<Rightarrow> time \<Rightarrow> key_set \<Rightarrow> bool \<times> key_set" where
  "refresh reply now k = (case refresh_keys reply of
     None \<Rightarrow> (False, k)
   | Some parsed \<Rightarrow> (True, k\<lparr>ks_by_kid := parsed, ks_fetched_at := Some now\<rparr>))"

definition keys_fresh :: "time \<Rightarrow> key_set \<Rightarrow> bool" where
  "keys_fresh now k = (case ks_fetched_at k of None \<Rightarrow> False | Some t \<Rightarrow> now - t < ks_ttl k)"

definition lookup_key :: "string \<Rightarrow> key_set \<Rightarrow> string option" where
  "lookup_key kid k =
     (if kid = [] then (case ks_by_kid k of [(_, key)] \<Rightarrow> Some key | _ \<Rightarrow> None)
      else map_of (ks_by_kid k) kid)"

definition key_of :: "http_reply option \<Rightarrow> time \<Rightarrow> string \<Rightarrow> key_set \<Rightarrow> (sign_error, string) go_result \<times> key_set" where
  "key_of reply now kid k =
     (if lookup_key kid k \<noteq> None \<and> keys_fresh now k then (Inr (the (lookup_key kid k)), k)
      else (case refresh reply now k of (ok, k) \<Rightarrow>
        (case lookup_key kid k of
           Some key \<Rightarrow> (Inr key, k)
         | None \<Rightarrow> (Inl (if ok then Malformed else FetchFailed), k))))"

definition key_set_ok :: "key_set \<Rightarrow> bool" where
  "key_set_ok k \<longleftrightarrow> distinct (map fst (ks_by_kid k)) \<and> list_all (\<lambda>(_, key). length key = 32) (ks_by_kid k)"

lemma list_all_update:
  "list_all P xs \<Longrightarrow> P (k, v) \<Longrightarrow> list_all P (AList.update k v xs)"
  by (induction xs) auto

lemma parse_keys_ok:
  "parse_keys ks parsed = Some res \<Longrightarrow> distinct (map fst parsed) \<Longrightarrow> list_all (\<lambda>(_, key). length key = 32) parsed \<Longrightarrow>
   distinct (map fst res) \<and> list_all (\<lambda>(_, key). length key = 32) res"
  by (induction ks parsed rule: parse_keys.induct)
    (auto simp: list_all_update distinct_update split: if_splits option.splits)

lemma refresh_keys_ok:
  "refresh_keys reply = Some parsed \<Longrightarrow> distinct (map fst parsed) \<and> list_all (\<lambda>(_, key). length key = 32) parsed"
  by (auto simp: refresh_keys_def split: option.splits if_splits dest!: parse_keys_ok)

lemma lookup_key_in: "lookup_key kid k = Some key \<Longrightarrow> key \<in> snd ` set (ks_by_kid k)"
  by (force simp: lookup_key_def split: if_splits list.splits dest: map_of_SomeD)

text \<open>
  C38. The key set holds only well-formed Ed25519 keys, one per id, whatever the endpoint answers,
  so that the keys it hands out never fail for their length; and once the cached keys are older
  than the ttl, a key the endpoint no longer publishes is not handed out after a successful
  refresh.
\<close>

theorem key_of_typed:
  assumes "key_set_ok k" "key_of reply now kid k = (r, k')"
  shows "key_set_ok k' \<and>
    (\<forall>key. r = Inr key \<longrightarrow> length key = 32 \<and> key \<in> snd ` set (ks_by_kid k') \<and>
       (\<forall>parsed. \<not> keys_fresh now k \<longrightarrow> refresh_keys reply = Some parsed \<longrightarrow> key \<in> snd ` set parsed))"
proof -
  have ok: "key_set_ok (snd (refresh reply now k))"
    using assms(1) refresh_keys_ok [of reply] by (auto simp: refresh_def key_set_ok_def split: option.splits)
  have k': "k' = k \<or> k' = snd (refresh reply now k)" and r: "\<And>key. r = Inr key \<Longrightarrow> lookup_key kid k' = Some key"
    using assms(2) by (auto simp: key_of_def split: if_splits option.splits prod.splits)
  have stale: "k' = snd (refresh reply now k)" if "\<not> keys_fresh now k"
    using assms(2) that by (auto simp: key_of_def split: option.splits prod.splits)
  from k' ok assms(1) have ok': "key_set_ok k'" by auto
  show ?thesis
  proof (intro conjI allI impI ok')
    fix key assume "r = Inr key"
    from lookup_key_in [OF r [OF this]] show i: "key \<in> snd ` set (ks_by_kid k')" .
    with ok' show "length key = 32" by (auto simp: key_set_ok_def list_all_iff)
    fix parsed assume "\<not> keys_fresh now k" "refresh_keys reply = Some parsed"
    with i stale show "key \<in> snd ` set parsed" by (simp add: refresh_def)
  qed
qed

lemma key_of_typed_witness:
  "\<exists>k k'. key_of None 0 ''k'' k = (Inr (replicate 32 CHR ''x''), k') \<and> key_set_ok k'"
proof -
  let ?k = "(new_key_set ''u'' 0)\<lparr>ks_by_kid := [(''k'', replicate 32 CHR ''x'')]\<rparr>"
  have "key_of None 0 ''k'' ?k = (Inr (replicate 32 CHR ''x''), ?k)"
    by (simp add: key_of_def lookup_key_def keys_fresh_def new_key_set_def refresh_def refresh_keys_def)
  moreover from key_of_typed [OF _ this] have "key_set_ok ?k" by (simp add: key_set_ok_def)
  ultimately show ?thesis by blast
qed

text \<open>A cipher that accepts everything, for the examples.\<close>

definition any_cipher :: ed25519 where
  "any_cipher = \<lparr>ed_public = (\<lambda>_. replicate 32 CHR ''p''), ed_sign = (\<lambda>_ _. replicate 64 CHR ''s''), ed_verify = (\<lambda>_ _ _. True)\<rparr>"

lemma any_cipher_ok: "ed_ok any_cipher"
  by (simp add: ed_ok_def any_cipher_def)

subsection \<open>Integers and strings in messages\<close>

definition int_json :: "int \<Rightarrow> json" where
  "int_json n = JNum (format_int n)"

lemma itoa_head: "0 < n \<Longrightarrow> hd (itoa n) \<noteq> CHR ''0''"
proof (induction n rule: itoa.induct)
  case (1 n)
  show ?case
  proof (cases "n < 10")
    case True
    then have "byte (digit_char n) = 48 + n" by simp
    with 1 True have "digit_char n \<noteq> CHR ''0''" by (auto simp del: digit_char_props)
    with True show ?thesis by (simp add: itoa.simps [of n])
  next
    case False
    with 1 show ?thesis by (simp add: itoa.simps [of n] hd_append)
  qed
qed

lemma list_all_mono: "list_all P xs \<Longrightarrow> (\<And>x. P x \<Longrightarrow> Q x) \<Longrightarrow> list_all Q xs"
  by (simp add: list_all_iff)

lemma format_int_plain:
  assumes "1 \<le> n"
  shows "valid_number (format_int n)" "list_all number_char (format_int n)"
proof -
  let ?s = "itoa (nat n)"
  have d: "list_all is_digit ?s" by (rule itoa_digits)
  then have tw: "takeWhile is_digit ?s = ?s" "dropWhile is_digit ?s = []"
    by (simp_all add: list_all_iff takeWhile_eq_all_conv dropWhile_eq_Nil_conv)
  have "strip_minus ?s = ?s" using itoa_hd_not_sign(1) [of "nat n"] by (auto simp: strip_minus_def split: list.split)
  with assms itoa_head [of "nat n"] show "valid_number (format_int n)"
    by (simp add: tw valid_number_def Let_def format_int_def valid_frac_exp_def)
  show "list_all number_char (format_int n)"
    using assms list_all_mono [OF d, of number_char] by (simp add: format_int_def number_char_def)
qed

lemma dec_int_json: "int64 n \<Longrightarrow> dec_int (int_json n) = Some n"
  by (simp add: dec_int_def int_json_def atoi_format_int)

lemma dec_strings_json [simp]: "dec_strings (JArr (map JStr ss)) = Some ss"
  by (simp add: dec_strings_def comp_def dec_string_def) (induction ss, simp_all)

lemma int_json_not_null [simp]: "int_json n \<noteq> JNull"
  by (simp add: int_json_def)

lemma dec_string_JStr [simp]: "dec_string (JStr s) = Some s"
  by (simp add: dec_string_def)

lemma uuid_plain: "uuid_chars i s \<Longrightarrow> plain s"
  by (induction s arbitrary: i)
    (auto simp: plain_char_def lower_hex_char_def is_digit_def split: if_splits)

end
