(* ===== verification/Tokens.thy ===== *)
theory Tokens
  imports Sign
begin

text \<open>
  \<open>src/integration/consoletoken.go\<close> and \<open>src/integration/mcptoken.go\<close>: the two kinds of signed JWT an
  integration accepts, the console view-token and the MCP delegation.

  \<open>Panic\<close> stands for the panic of \<open>ed25519.Verify\<close> on a key of the wrong length.
\<close>

subsection \<open>Time\<close>

text \<open>\<open>Time.Add\<close>: the seconds since the year 1 are an \<open>int64\<close>.\<close>

definition time_add :: "time \<Rightarrow> duration \<Rightarrow> time" where
  "time_add t d = (wrap64 ((t + d) div second + 62135596800) - 62135596800) * second + (t + d) mod second"

text \<open>The last member of that name, \<open>null\<close> included: a \<open>json.RawMessage\<close> field.\<close>

fun json_raw :: "string \<Rightarrow> json option \<Rightarrow> (string \<times> json) list \<Rightarrow> json option" where
  "json_raw name a [] = a"
| "json_raw name a ((k, v) # ms) = json_raw name (if fold_key k = fold_key name then Some v else a) ms"

definition trim_prefix :: "string \<Rightarrow> string \<Rightarrow> string" where
  "trim_prefix p s = (if has_prefix p s then drop (length p) s else s)"

subsection \<open>Console view-tokens\<close>

record console_claims =
  cl_project :: string
  cl_integration :: string
  cl_permissions :: "string list"
  cl_expires_at :: time

record console_jwt =
  cj_iss :: string
  cj_aud :: "json option"
  cj_exp :: int
  cj_nbf :: int
  cj_project :: string
  cj_integration :: string
  cj_purpose :: string
  cj_permissions :: "string list"

datatype console_error =
    MalformedToken | BadHeader | UnexpectedAlg string | BadSignatureEncoding | NoKey sign_error | BadSignature
  | BadClaims | UnexpectedIssuer string | UnexpectedPurpose string | AudienceMismatch | IntegrationMismatch
  | MissingProject | MissingExp | TokenExpired | NotYetValid | Panic

record console_verifier =
  cv_keys :: key_set
  cv_integration :: string

definition console_leeway :: duration where "console_leeway = 60 * second"

definition has_permission :: "console_claims \<Rightarrow> string \<Rightarrow> bool" where
  "has_permission c p \<longleftrightarrow> list_ex (\<lambda>g. g = p) (cl_permissions c)"

definition new_console_verifier :: "string \<Rightarrow> string \<Rightarrow> duration \<Rightarrow> console_verifier option" where
  "new_console_verifier jwks_url integration_id ttl =
     (if integration_id = [] then None
      else Some \<lparr>cv_keys = new_key_set (if jwks_url = [] then ''https://aheron.pro/.well-known/aheron-integration-jwks.json'' else jwks_url) ttl,
        cv_integration = integration_id\<rparr>)"

text \<open>\<open>consoleJWTHeader\<close>: algorithm and key id.\<close>

definition dec_header :: "string \<Rightarrow> (string \<times> string) option" where
  "dec_header s = (case parse_json s of
     Some (JObj ms) \<Rightarrow> (case (json_field ''alg'' dec_string [] ms, json_field ''kid'' dec_string [] ms) of
       (Some a, Some k) \<Rightarrow> Some (a, k) | _ \<Rightarrow> None)
   | Some JNull \<Rightarrow> Some ([], [])
   | _ \<Rightarrow> None)"

definition dec_console_claims :: "string \<Rightarrow> console_jwt option" where
  "dec_console_claims s = (case parse_json s of
     Some (JObj ms) \<Rightarrow>
       (case (json_field ''iss'' dec_string [] ms, json_field ''exp'' dec_int 0 ms, json_field ''nbf'' dec_int 0 ms,
          json_field ''projectId'' dec_string [] ms, json_field ''integrationId'' dec_string [] ms,
          json_field ''purpose'' dec_string [] ms, json_field ''permissions'' dec_strings [] ms) of
        (Some iss, Some exp, Some nbf, Some pr, Some itg, Some pu, Some ps) \<Rightarrow>
          Some \<lparr>cj_iss = iss, cj_aud = json_raw ''aud'' None ms, cj_exp = exp, cj_nbf = nbf, cj_project = pr,
            cj_integration = itg, cj_purpose = pu, cj_permissions = ps\<rparr>
      | _ \<Rightarrow> None)
   | Some JNull \<Rightarrow> Some \<lparr>cj_iss = [], cj_aud = None, cj_exp = 0, cj_nbf = 0, cj_project = [],
       cj_integration = [], cj_purpose = [], cj_permissions = []\<rparr>
   | _ \<Rightarrow> None)"

definition console_audience_contains :: "json option \<Rightarrow> string \<Rightarrow> bool" where
  "console_audience_contains raw want = (case raw of
     None \<Rightarrow> False
   | Some JNull \<Rightarrow> want = []
   | Some (JStr s) \<Rightarrow> s = want
   | Some v \<Rightarrow> (case dec_strings v of None \<Rightarrow> False | Some ss \<Rightarrow> list_ex (\<lambda>a. a = want) ss))"

definition check_console_claims :: "string \<Rightarrow> time \<Rightarrow> console_jwt \<Rightarrow> (console_error, console_claims) go_result" where
  "check_console_claims integration_id now c =
     guardR (cj_iss c \<noteq> ''aheron'') (UnexpectedIssuer (cj_iss c))
    (guardR (cj_purpose c \<noteq> ''integration-console'') (UnexpectedPurpose (cj_purpose c))
    (guardR (\<not> console_audience_contains (cj_aud c) integration_id) AudienceMismatch
    (guardR (cj_integration c \<noteq> [] \<and> cj_integration c \<noteq> integration_id) IntegrationMismatch
    (guardR (cj_project c = []) MissingProject
    (guardR (cj_exp c = 0) MissingExp
    (guardR (time_add (unix_time (cj_exp c)) console_leeway < now) TokenExpired
    (guardR (cj_nbf c \<noteq> 0 \<and> time_add now console_leeway < unix_time (cj_nbf c)) NotYetValid
    (Inr \<lparr>cl_project = cj_project c, cl_integration = integration_id, cl_permissions = cj_permissions c,
      cl_expires_at = unix_time (cj_exp c)\<rparr>))))))))"

definition strip_bearer :: "string \<Rightarrow> string" where
  "strip_bearer token = trim_prefix ''bearer '' (trim_prefix ''Bearer '' (trim_space token))"

definition verify_console :: "ed25519 \<Rightarrow> http_reply option \<Rightarrow> time \<Rightarrow> string \<Rightarrow> console_verifier \<Rightarrow>
    (console_error, console_claims) go_result \<times> console_verifier" where
  "verify_console E reply now token v =
     (case split_on (CHR ''.'') (strip_bearer token) of
        [h, c, s] \<Rightarrow>
          (case b64url_decode h of None \<Rightarrow> (Inl BadHeader, v)
           | Some hb \<Rightarrow> (case dec_header hb of None \<Rightarrow> (Inl BadHeader, v)
           | Some (alg, kid) \<Rightarrow>
               if alg \<noteq> ''EdDSA'' then (Inl (UnexpectedAlg alg), v)
               else (case b64url_decode s of None \<Rightarrow> (Inl BadSignatureEncoding, v)
               | Some sig \<Rightarrow> (case key_of reply now kid (cv_keys v) of
                     (Inl e, ks) \<Rightarrow> (Inl (NoKey e), v\<lparr>cv_keys := ks\<rparr>)
                   | (Inr key, ks) \<Rightarrow>
                       (if length key \<noteq> 32 then Inl Panic
                        else if \<not> ed_verify E key (h @ ''.'' @ c) sig then Inl BadSignature
                        else (case b64url_decode c of None \<Rightarrow> Inl BadClaims
                          | Some cb \<Rightarrow> (case dec_console_claims cb of None \<Rightarrow> Inl BadClaims
                            | Some claims \<Rightarrow> check_console_claims (cv_integration v) now claims)),
                        v\<lparr>cv_keys := ks\<rparr>)))))
      | _ \<Rightarrow> (Inl MalformedToken, v))"

subsection \<open>MCP delegations\<close>

record mcp_claims =
  mc_issuer :: string
  mc_audience :: string
  mc_actor :: string
  mc_purpose :: string
  mc_project :: string
  mc_integration :: string
  mc_installation :: string
  mc_access_version :: int
  mc_integration_access_version :: int
  mc_permissions :: "string list"
  mc_issued_at :: int
  mc_expires_at :: int

definition mcp_uuid :: "string \<Rightarrow> bool" where
  "mcp_uuid s \<longleftrightarrow> length s = 36 \<and> s \<noteq> zero_uuid \<and> uuid_chars 0 s"

definition mcp_has_permission :: "mcp_claims \<Rightarrow> string \<Rightarrow> bool" where
  "mcp_has_permission c p \<longleftrightarrow> list_ex (\<lambda>g. g = p) (mc_permissions c)"

definition mcp_max_ttl :: int where "mcp_max_ttl = 300"

definition mcp_valid :: "time \<Rightarrow> mcp_claims \<Rightarrow> bool" where
  "mcp_valid now c \<longleftrightarrow>
     list_all mcp_uuid [mc_actor c, mc_project c, mc_integration c, mc_installation c] \<and>
     \<not> (mc_issuer c \<noteq> ''aheron'' \<or> mc_purpose c \<noteq> ''integration-mcp'' \<or> mc_audience c \<noteq> mc_integration c \<or>
        mc_access_version c < 1 \<or> mc_integration_access_version c < 1 \<or> mc_issued_at c < 1 \<or>
        unix_seconds (now + 30 * second) < mc_issued_at c \<or> mc_expires_at c \<le> unix_seconds now \<or>
        mc_expires_at c \<le> mc_issued_at c \<or> mcp_max_ttl < wrap64 (mc_expires_at c - mc_issued_at c) \<or>
        \<not> mcp_has_permission c ''mcp.read'') \<and>
     list_all (\<lambda>p. p = ''mcp.read'' \<or> p = ''mcp.write'') (mc_permissions c)"

definition mcp_claims_json :: "mcp_claims \<Rightarrow> json" where
  "mcp_claims_json c = JObj [(''iss'', JStr (mc_issuer c)), (''aud'', JStr (mc_audience c)), (''sub'', JStr (mc_actor c)),
     (''purpose'', JStr (mc_purpose c)), (''projectId'', JStr (mc_project c)), (''integrationId'', JStr (mc_integration c)),
     (''installationId'', JStr (mc_installation c)), (''accessVersion'', int_json (mc_access_version c)),
     (''integrationAccessVersion'', int_json (mc_integration_access_version c)),
     (''permissions'', JArr (map JStr (mc_permissions c))), (''iat'', int_json (mc_issued_at c)),
     (''exp'', int_json (mc_expires_at c))]"

definition mcp_header_json :: "string \<Rightarrow> json" where
  "mcp_header_json kid = JObj [(''alg'', JStr ''EdDSA''), (''kid'', JStr kid), (''typ'', JStr ''JWT'')]"

definition sign_mcp_token :: "ed25519 \<Rightarrow> mcp_claims \<Rightarrow> string \<Rightarrow> string \<Rightarrow> time \<Rightarrow> string option" where
  "sign_mcp_token E claims key kid now =
     (if length key \<noteq> 64 \<or> kid = [] \<or> \<not> mcp_valid now claims then None
      else let input = b64url (write_json (mcp_header_json kid)) @ ''.'' @ b64url (write_json (mcp_claims_json claims))
           in Some (input @ ''.'' @ b64url (ed_sign E key input)))"

record mcp_verifier =
  mv_integration :: string
  mv_keys :: key_set

definition new_mcp_verifier :: "string \<Rightarrow> string \<Rightarrow> duration \<Rightarrow> mcp_verifier option" where
  "new_mcp_verifier integration_id jwks_url ttl =
     (if \<not> mcp_uuid integration_id then None
      else Some \<lparr>mv_integration = integration_id,
        mv_keys = new_key_set (if jwks_url = [] then ''https://aheron.pro/.well-known/aheron-integration-jwks.json'' else jwks_url) ttl\<rparr>)"

datatype mcp_error = McpTokenInvalid | McpPanic

definition dec_mcp_header :: "string \<Rightarrow> (string \<times> string \<times> string) option" where
  "dec_mcp_header s = (case parse_json s of
     Some (JObj ms) \<Rightarrow> (case (json_field ''alg'' dec_string [] ms, json_field ''kid'' dec_string [] ms,
         json_field ''typ'' dec_string [] ms) of
       (Some a, Some k, Some t) \<Rightarrow> Some (a, k, t) | _ \<Rightarrow> None)
   | Some JNull \<Rightarrow> Some ([], [], [])
   | _ \<Rightarrow> None)"

definition dec_mcp_claims :: "string \<Rightarrow> mcp_claims option" where
  "dec_mcp_claims s = (case parse_json s of
     Some (JObj ms) \<Rightarrow>
       (case ((json_field ''iss'' dec_string [] ms, json_field ''aud'' dec_string [] ms, json_field ''sub'' dec_string [] ms,
           json_field ''purpose'' dec_string [] ms, json_field ''projectId'' dec_string [] ms,
           json_field ''integrationId'' dec_string [] ms),
          (json_field ''installationId'' dec_string [] ms, json_field ''accessVersion'' dec_int 0 ms,
           json_field ''integrationAccessVersion'' dec_int 0 ms, json_field ''permissions'' dec_strings [] ms,
           json_field ''iat'' dec_int 0 ms, json_field ''exp'' dec_int 0 ms)) of
        ((Some iss, Some aud, Some sub, Some pu, Some pr, Some itg), (Some inst, Some av, Some iav, Some ps, Some iat, Some exp)) \<Rightarrow>
          Some \<lparr>mc_issuer = iss, mc_audience = aud, mc_actor = sub, mc_purpose = pu, mc_project = pr,
            mc_integration = itg, mc_installation = inst, mc_access_version = av, mc_integration_access_version = iav,
            mc_permissions = ps, mc_issued_at = iat, mc_expires_at = exp\<rparr>
      | _ \<Rightarrow> None)
   | Some JNull \<Rightarrow> Some \<lparr>mc_issuer = [], mc_audience = [], mc_actor = [], mc_purpose = [], mc_project = [],
       mc_integration = [], mc_installation = [], mc_access_version = 0, mc_integration_access_version = 0,
       mc_permissions = [], mc_issued_at = 0, mc_expires_at = 0\<rparr>
   | _ \<Rightarrow> None)"

definition verify_mcp :: "ed25519 \<Rightarrow> http_reply option \<Rightarrow> time \<Rightarrow> string \<Rightarrow> mcp_verifier \<Rightarrow>
    (mcp_error, mcp_claims) go_result \<times> mcp_verifier" where
  "verify_mcp E reply now token v =
     (if 8192 < length token then (Inl McpTokenInvalid, v)
      else (case split_on (CHR ''.'') token of
        [h, c, s] \<Rightarrow>
          (case map_option dec_mcp_header (b64url_decode h) of
             Some (Some (alg, kid, typ)) \<Rightarrow>
               if alg \<noteq> ''EdDSA'' \<or> kid = [] \<or> typ \<noteq> ''JWT'' then (Inl McpTokenInvalid, v)
               else (case b64url_decode s of None \<Rightarrow> (Inl McpTokenInvalid, v)
                 | Some sig \<Rightarrow> (case key_of reply now kid (mv_keys v) of
                       (Inl e, ks) \<Rightarrow> (Inl McpTokenInvalid, v\<lparr>mv_keys := ks\<rparr>)
                     | (Inr key, ks) \<Rightarrow>
                         (if length key \<noteq> 32 then Inl McpPanic
                          else if \<not> ed_verify E key (h @ ''.'' @ c) sig then Inl McpTokenInvalid
                          else (case map_option dec_mcp_claims (b64url_decode c) of
                              Some (Some claims) \<Rightarrow>
                                if \<not> mcp_valid now claims \<or> mc_integration claims \<noteq> mv_integration v
                                then Inl McpTokenInvalid else Inr claims
                            | _ \<Rightarrow> Inl McpTokenInvalid),
                          v\<lparr>mv_keys := ks\<rparr>)))
           | _ \<Rightarrow> (Inl McpTokenInvalid, v))
      | _ \<Rightarrow> (Inl McpTokenInvalid, v)))"

subsection \<open>What is signed is accepted\<close>

lemma fold_keys:
  "fold_key ''alg'' = ''alg''" "fold_key ''kid'' = ''kid''" "fold_key ''typ'' = ''typ''" "fold_key ''iss'' = ''iss''"
  "fold_key ''aud'' = ''aud''" "fold_key ''sub'' = ''sub''" "fold_key ''purpose'' = ''purpose''"
  "fold_key ''projectId'' = ''projectid''" "fold_key ''integrationId'' = ''integrationid''"
  "fold_key ''installationId'' = ''installationid''" "fold_key ''accessVersion'' = ''accessversion''"
  "fold_key ''integrationAccessVersion'' = ''integrationaccessversion''" "fold_key ''permissions'' = ''permissions''"
  "fold_key ''iat'' = ''iat''" "fold_key ''exp'' = ''exp''"
  by (simp_all add: fold_key_def lower_char_def char_of_def bit_iff_odd)

definition mcp_typed :: "mcp_claims \<Rightarrow> bool" where
  "mcp_typed c \<longleftrightarrow> int64 (mc_access_version c) \<and> int64 (mc_integration_access_version c) \<and>
     int64 (mc_issued_at c) \<and> int64 (mc_expires_at c)"

lemma parse_mcp_header: "plain kid \<Longrightarrow> dec_mcp_header (write_json (mcp_header_json kid)) = Some (''EdDSA'', kid, ''JWT'')"
proof -
  assume k: "plain kid"
  have "parse_json (write_json (mcp_header_json kid)) = Some (mcp_header_json kid)"
    by (rule parse_json_write) (simp_all add: mcp_header_json_def k plain_char_def max_depth_def)
  then show ?thesis by (simp add: dec_mcp_header_def mcp_header_json_def fold_keys)
qed

lemma parse_mcp_claims:
  assumes "mcp_valid now c" "mcp_typed c"
  shows "dec_mcp_claims (write_json (mcp_claims_json c)) = Some c"
proof -
  have ids: "plain (mc_actor c)" "plain (mc_project c)" "plain (mc_integration c)" "plain (mc_installation c)"
    using assms(1) uuid_plain by (auto simp: mcp_valid_def mcp_uuid_def)
  have "plain p" if "p = ''mcp.read'' \<or> p = ''mcp.write''" for p
    using that by (auto simp: plain_char_def)
  with assms(1) have perms: "list_all plain (mc_permissions c)"
    unfolding mcp_valid_def using list_all_mono [of "\<lambda>p. p = ''mcp.read'' \<or> p = ''mcp.write''" "mc_permissions c" plain] by blast
  have fixed: "mc_issuer c = ''aheron''" "mc_purpose c = ''integration-mcp''" "mc_audience c = mc_integration c"
    and ints: "1 \<le> mc_access_version c" "1 \<le> mc_integration_access_version c" "1 \<le> mc_issued_at c" "1 \<le> mc_expires_at c"
    using assms(1) by (auto simp: mcp_valid_def)
  have "list_all plain_json (map JStr (mc_permissions c))" using perms by (simp add: list_all_iff)
  moreover have "json_depth (mcp_claims_json c) \<le> max_depth"
  proof -
    have "foldr max (map json_depth (map JStr ps)) 0 = 0" for ps by (induction ps) simp_all
    then show ?thesis by (simp add: mcp_claims_json_def int_json_def max_depth_def)
  qed
  ultimately have "parse_json (write_json (mcp_claims_json c)) = Some (mcp_claims_json c)"
    using ids ints fixed
    by (intro parse_json_write) (simp_all add: mcp_claims_json_def int_json_def format_int_plain plain_char_def)
  with assms(2) show ?thesis
    by (simp add: dec_mcp_claims_def mcp_claims_json_def fold_keys dec_int_json mcp_typed_def)
qed

text \<open>The wire form of a delegation, accepted under a key that verifies it.\<close>

lemma verify_mcp_wire:
  fixes kid claims sig
  defines "h \<equiv> b64url (write_json (mcp_header_json kid))"
    and "c \<equiv> b64url (write_json (mcp_claims_json claims))"
    and "s \<equiv> b64url sig"
  assumes "mcp_typed claims" "plain kid" "kid \<noteq> []" "length (h @ ''.'' @ c @ ''.'' @ s) \<le> 8192"
    and "mcp_valid now claims" "mc_integration claims = mv_integration v"
    and "fst (key_of reply now kid (mv_keys v)) = Inr key" "length key = 32" "ed_verify E key (h @ ''.'' @ c) sig"
  shows "fst (verify_mcp E reply now (h @ ''.'' @ c @ ''.'' @ s) v) = Inr claims"
proof -
  have "split_on (CHR ''.'') (h @ CHR ''.'' # c @ CHR ''.'' # s) = [h, c, s]"
    by (rule split_on_three) (simp_all add: h_def c_def s_def b64url_no_dot)
  moreover obtain ks where "key_of reply now kid (mv_keys v) = (Inr key, ks)"
    using assms(10) by (metis prod.collapse)
  moreover have "b64url_decode h = Some (write_json (mcp_header_json kid))"
    "b64url_decode c = Some (write_json (mcp_claims_json claims))" "b64url_decode s = Some sig"
    by (simp_all add: h_def c_def s_def)
  ultimately show ?thesis
    using assms(4-9,11,12) by (simp add: verify_mcp_def parse_mcp_header parse_mcp_claims)
qed

text \<open>
  C22. Delegations round-trip: a token the platform signed is accepted, with exactly the claims
  that were signed, by the verifier of its integration while the claims are valid, provided it is
  within the size limit of the verifier and the key id selects the signer's public key.
\<close>

theorem mcp_token_roundtrip:
  assumes "sign_mcp_token E claims key kid now = Some token"
    and "ed_ok E" "mcp_typed claims" "plain kid" "length token \<le> 8192"
    and "mcp_valid now' claims" "mc_integration claims = mv_integration v"
    and "fst (key_of reply now' kid (mv_keys v)) = Inr (ed_public E key)"
  shows "fst (verify_mcp E reply now' token v) = Inr claims"
proof -
  from assms(1) have "kid \<noteq> []" and tok: "token = b64url (write_json (mcp_header_json kid)) @ ''.'' @
      b64url (write_json (mcp_claims_json claims)) @ ''.'' @ b64url (ed_sign E key
        (b64url (write_json (mcp_header_json kid)) @ ''.'' @ b64url (write_json (mcp_claims_json claims))))"
    by (auto simp: sign_mcp_token_def Let_def split: if_splits)
  moreover have "length (ed_public E key) = 32" "ed_verify E (ed_public E key) m (ed_sign E key m)" for m
    using assms(2) by (simp_all add: ed_ok_def)
  ultimately show ?thesis using assms(3-8) unfolding tok by (intro verify_mcp_wire) simp_all
qed

lemma length_b64url: "length (b64url s) \<le> 2 * length s"
proof -
  have "length (b64_encode u s) \<le> 2 * length s" if u for u
    using that by (induction u s rule: b64_encode.induct) auto
  then show ?thesis by simp
qed

definition example_claims :: mcp_claims where
  "example_claims = \<lparr>mc_issuer = ''aheron'', mc_audience = ''00000000-0000-4000-8000-000000000001'',
     mc_actor = ''00000000-0000-4000-8000-000000000002'', mc_purpose = ''integration-mcp'',
     mc_project = ''00000000-0000-4000-8000-000000000003'', mc_integration = ''00000000-0000-4000-8000-000000000001'',
     mc_installation = ''00000000-0000-4000-8000-000000000004'', mc_access_version = 1, mc_integration_access_version = 1,
     mc_permissions = [''mcp.read''], mc_issued_at = 100, mc_expires_at = 200\<rparr>"

lemma example_valid: "mcp_valid (100 * second) example_claims"
  by (simp add: mcp_valid_def example_claims_def mcp_uuid_def zero_uuid_def lower_hex_char_def is_digit_def
      mcp_max_ttl_def unix_seconds_def second_def int64_def mcp_has_permission_def)

lemma example_now: "mcp_valid (150 * second) example_claims"
  by (simp add: mcp_valid_def example_claims_def mcp_uuid_def zero_uuid_def lower_hex_char_def is_digit_def
      mcp_max_ttl_def unix_seconds_def second_def int64_def mcp_has_permission_def)

lemma example_typed: "mcp_typed example_claims"
  by (simp add: mcp_typed_def example_claims_def int64_def)

lemma example_length:
  "length (write_json (mcp_header_json ''kid'')) \<le> 100 \<and> length (write_json (mcp_claims_json example_claims)) \<le> 600"
proof -
  have "itoa (Suc 0) = ''1''" "itoa 100 = ''100''" "itoa 200 = ''200''"
    by (simp_all add: itoa.simps [of "Suc 0"] itoa.simps [of 100] itoa.simps [of 200] itoa.simps [of 10] itoa.simps [of 20]
        itoa.simps [of 2] digit_char_def char_of_def bit_iff_odd)
  then show ?thesis
    by (simp add: mcp_header_json_def mcp_claims_json_def example_claims_def int_json_def format_int_def quote_plain plain_char_def)
qed

lemma mcp_token_roundtrip_witness:
  "\<exists>token v. sign_mcp_token any_cipher example_claims (replicate 64 CHR ''k'') ''kid'' (100 * second) = Some token \<and>
     fst (verify_mcp any_cipher None (150 * second) token v) = Inr example_claims"
proof -
  let ?key = "replicate 64 CHR ''k''"
  let ?v = "\<lparr>mv_integration = mc_integration example_claims,
    mv_keys = (new_key_set [] 1)\<lparr>ks_by_kid := [(''kid'', ed_public any_cipher ?key)], ks_fetched_at := Some (150 * second)\<rparr>\<rparr>"
  obtain token where t: "sign_mcp_token any_cipher example_claims ?key ''kid'' (100 * second) = Some token"
    using example_valid by (simp add: sign_mcp_token_def Let_def)
  have "length token \<le> 2 * length (write_json (mcp_header_json ''kid'')) + 2 * length (write_json (mcp_claims_json example_claims)) + 2 * 64 + 2"
    using t length_b64url [of "write_json (mcp_header_json ''kid'')"] length_b64url [of "write_json (mcp_claims_json example_claims)"]
      length_b64url [of "replicate 64 CHR ''s''"]
    by (auto simp: sign_mcp_token_def Let_def any_cipher_def split: if_splits)
  with example_length have len: "length token \<le> 8192" by linarith
  have key: "fst (key_of None (150 * second) ''kid'' (mv_keys ?v)) = Inr (ed_public any_cipher ?key)"
    by (simp add: key_of_def lookup_key_def keys_fresh_def new_key_set_def)
  have "fst (verify_mcp any_cipher None (150 * second) token ?v) = Inr example_claims"
    by (rule mcp_token_roundtrip [OF t any_cipher_ok example_typed _ len example_now _ key]) (simp_all add: plain_char_def)
  with t show ?thesis by blast
qed

subsection \<open>No token serves twice\<close>

lemma chunk_ascii:
  "(r, b) \<in> set (chunks s) \<Longrightarrow> c \<in> set b \<Longrightarrow> byte c < 0x80 \<Longrightarrow> r = byte c"
proof (induction s rule: chunks.induct)
  case (1 s)
  show ?case
  proof (cases s)
    case (Cons c0 t)
    have "fst (decode_rune s) = byte c" if "c \<in> set (take (snd (decode_rune s)) s)"
    proof (cases "byte c0 < 0x80")
      case True
      with that Cons show ?thesis by simp
    next
      case False
      with decode_rune_high [of c0 c t] that 1(4) Cons show ?thesis by simp
    qed
    moreover have "chunks s = (fst (decode_rune s), take (snd (decode_rune s)) s) # chunks (drop (snd (decode_rune s)) s)"
      using Cons by (subst chunks.simps) simp
    with 1(2) have "r = fst (decode_rune s) \<and> b = take (snd (decode_rune s)) s \<or>
        (r, b) \<in> set (chunks (drop (snd (decode_rune s)) s))" by (metis Pair_inject set_ConsD)
    ultimately show ?thesis using 1 Cons by blast
  qed (use 1 in simp)
qed

lemma trim_space_parts:
  obtains pre post where "s = pre @ trim_space s @ post" "CHR ''.'' \<notin> set pre" "CHR ''.'' \<notin> set post"
proof -
  let ?P = "\<lambda>k. is_space_rune (fst k)"
  define l where "l = takeWhile ?P (chunks s)"
  define m where "m = dropWhile ?P (chunks s)"
  define q where "q = rev (takeWhile ?P (rev m))"
  have m: "m = rev (dropWhile ?P (rev m)) @ q"
    unfolding q_def rev_append [symmetric] takeWhile_dropWhile_id by simp
  have "s = concat (map snd (l @ m))" by (simp add: l_def m_def)
  also have "\<dots> = concat (map snd l) @ trim_space s @ concat (map snd q)"
    by (subst m) (simp add: trim_space_def m_def)
  finally have s: "s = concat (map snd l) @ trim_space s @ concat (map snd q)" .
  have "CHR ''.'' \<notin> set b" if "(r, b) \<in> set l \<union> set q" for r b
  proof
    assume "CHR ''.'' \<in> set b"
    moreover from that have "is_space_rune r" "(r, b) \<in> set (chunks s)"
      by (auto simp: l_def q_def dest!: set_takeWhileD set_dropWhileD) (simp add: m_def, blast dest: set_dropWhileD)
    ultimately show False using chunk_ascii [of r b s "CHR ''.''"] by (simp add: is_space_rune_def)
  qed
  then have "CHR ''.'' \<notin> set (concat (map snd l))" "CHR ''.'' \<notin> set (concat (map snd q))" by fastforce+
  with s show thesis by (rule that)
qed

lemma split_on_prefix: "x \<notin> set p \<Longrightarrow> split_on x (p @ s) = (p @ hd (split_on x s)) # tl (split_on x s)"
  by (induction p) (auto simp: split_on_nonempty hd_Cons_tl)

lemma split_on_suffix: "x \<notin> set q \<Longrightarrow> split_on x (s @ q) = butlast (split_on x s) @ [last (split_on x s) @ q]"
proof (induction s)
  case (Cons a s)
  then show ?case by (cases "split_on x s") (auto split: list.splits)
qed simp

lemma split_on_middle:
  assumes "split_on (CHR ''.'') (p @ s @ q) = [h, c, t]" "CHR ''.'' \<notin> set p" "CHR ''.'' \<notin> set q"
  obtains h' t' where "split_on (CHR ''.'') s = [h', c, t']"
proof -
  have "split_on (CHR ''.'') (p @ s @ q) = (p @ hd (split_on (CHR ''.'') (s @ q))) # tl (split_on (CHR ''.'') (s @ q))"
    by (rule split_on_prefix [OF assms(2)])
  with assms(1) obtain h1 where "split_on (CHR ''.'') (s @ q) = [h1, c, t]"
    by (cases "split_on (CHR ''.'') (s @ q)") auto
  with split_on_suffix [OF assms(3), of s] obtain t1 where "butlast (split_on (CHR ''.'') s) = [h1, c]"
    by auto
  with append_butlast_last_id [OF split_on_nonempty, of "CHR ''.''" s] that show thesis by (metis append_Cons append_Nil)
qed

lemma trim_prefix_parts: "CHR ''.'' \<notin> set p \<Longrightarrow> \<exists>u. s = u @ trim_prefix p s \<and> CHR ''.'' \<notin> set u"
  by (cases "has_prefix p s") (auto simp: trim_prefix_def has_prefix_conv)

lemma strip_bearer_middle:
  assumes "split_on (CHR ''.'') token = [h, c, t]"
  obtains h' t' where "split_on (CHR ''.'') (strip_bearer token) = [h', c, t']"
proof -
  obtain pre post where 1: "token = pre @ trim_space token @ post" "CHR ''.'' \<notin> set pre" "CHR ''.'' \<notin> set post"
    by (rule trim_space_parts)
  obtain u where 2: "trim_space token = u @ trim_prefix ''Bearer '' (trim_space token)" "CHR ''.'' \<notin> set u"
    using trim_prefix_parts [of "''Bearer ''" "trim_space token"] by auto
  obtain w where 3: "trim_prefix ''Bearer '' (trim_space token) = w @ strip_bearer token" "CHR ''.'' \<notin> set w"
    using trim_prefix_parts [of "''bearer ''" "trim_prefix ''Bearer '' (trim_space token)"] by (auto simp: strip_bearer_def)
  have "token = (pre @ u @ w) @ strip_bearer token @ post" using 1(1) 2(1) 3(1) by simp
  with assms have "split_on (CHR ''.'') ((pre @ u @ w) @ strip_bearer token @ post) = [h, c, t]" by metis
  then show thesis by (rule split_on_middle) (use 1 2 3 that in auto)
qed

lemma verify_mcp_claims:
  assumes "fst (verify_mcp E reply now token v) = Inr claims"
  obtains h c s cb where "split_on (CHR ''.'') token = [h, c, s]" "b64url_decode c = Some cb"
    "dec_mcp_claims cb = Some claims" "mcp_valid now claims" "mc_integration claims = mv_integration v"
  using assms that by (auto simp: verify_mcp_def split: if_splits list.splits option.splits prod.splits sum.splits)

lemma verify_console_claims:
  assumes "fst (verify_console E reply now token v) = Inr claims"
  obtains h c s cb cl where "split_on (CHR ''.'') (strip_bearer token) = [h, c, s]" "b64url_decode c = Some cb"
    "dec_console_claims cb = Some cl" "check_console_claims (cv_integration v) now cl = Inr claims"
  using assms that by (auto simp: verify_console_def split: if_splits list.splits option.splits prod.splits sum.splits)

text \<open>
  C23. No token serves for both purposes: whatever the clocks, ciphers, key sets and integrations,
  a string the MCP verifier accepts is rejected by the console verifier, although the latter trims
  the string and strips a bearer prefix.
\<close>

theorem tokens_do_not_cross:
  assumes "fst (verify_mcp E reply now token v) = Inr claims"
  shows "fst (verify_console E' reply' now' token v') \<noteq> Inr claims'"
proof
  assume "fst (verify_console E' reply' now' token v') = Inr claims'"
  then obtain h c s cb cl where con: "split_on (CHR ''.'') (strip_bearer token) = [h, c, s]" "b64url_decode c = Some cb"
    "dec_console_claims cb = Some cl" "check_console_claims (cv_integration v') now' cl = Inr claims'"
    by (rule verify_console_claims)
  from assms obtain h2 c2 s2 cb2 where mcp: "split_on (CHR ''.'') token = [h2, c2, s2]" "b64url_decode c2 = Some cb2"
    "dec_mcp_claims cb2 = Some claims" "mcp_valid now claims" by (rule verify_mcp_claims)
  from strip_bearer_middle [OF mcp(1)] con(1) have "c2 = c" by auto
  with con(2) mcp(2) have cb: "cb2 = cb" by simp
  have "cj_purpose cl = ''integration-console''" using con(4) by (simp add: check_console_claims_def)
  with con(3) obtain ms where ms: "parse_json cb = Some (JObj ms)" "json_field ''purpose'' dec_string [] ms = Some ''integration-console''"
    by (auto simp: dec_console_claims_def split: option.splits json.splits)
  have "mc_purpose claims = ''integration-mcp''" using mcp(4) by (simp add: mcp_valid_def)
  with mcp(3) ms show False by (auto simp: dec_mcp_claims_def cb split: option.splits json.splits)
qed

lemma tokens_do_not_cross_witness:
  "\<exists>token v. fst (verify_mcp any_cipher None (150 * second) token v) = Inr example_claims \<and>
     (\<forall>E reply now v' c. fst (verify_console E reply now token v') \<noteq> Inr c)"
proof -
  let ?key = "replicate 32 CHR ''p''"
  let ?v = "\<lparr>mv_integration = mc_integration example_claims,
    mv_keys = (new_key_set [] 1)\<lparr>ks_by_kid := [(''kid'', ?key)], ks_fetched_at := Some (150 * second)\<rparr>\<rparr>"
  let ?h = "b64url (write_json (mcp_header_json ''kid''))"
  let ?c = "b64url (write_json (mcp_claims_json example_claims))"
  have acc: "fst (verify_mcp any_cipher None (150 * second) (?h @ ''.'' @ ?c @ ''.'' @ b64url []) ?v) = Inr example_claims"
  proof (rule verify_mcp_wire [where key = ?key])
    show "length (?h @ ''.'' @ ?c @ ''.'' @ b64url []) \<le> 8192"
      using example_length length_b64url [of "write_json (mcp_header_json ''kid'')"]
        length_b64url [of "write_json (mcp_claims_json example_claims)"] by simp
  qed (simp_all add: example_now example_typed plain_char_def key_of_def lookup_key_def keys_fresh_def new_key_set_def any_cipher_def)
  with tokens_do_not_cross [OF acc] show ?thesis by blast
qed

end
