(* ===== verification/Server.thy ===== *)
theory Server
  imports Sign
begin

text \<open>
  \<open>src/integration/server.go\<close> and the request types of \<open>payload.go\<close>: the middleware that
  authenticates the requests of the platform, and the handlers built on it.

  A request is its headers and the bytes its body yields (\<open>None\<close>: reading fails). An HTTP answer
  is a status and a JSON value. \<open>reply\<close> is what the JWKS endpoint answers if it is asked.
\<close>

subsection \<open>The verifier\<close>

record verifier_cfg =
  vc_jwks_url :: string
  vc_window :: duration
  vc_cache_ttl :: duration
  vc_max_body :: int

record verifier =
  vf_keys :: key_set
  vf_window :: duration
  vf_max_body :: int

record inbound =
  in_body :: "string option"
  in_timestamp :: string
  in_signature :: string
  in_kid :: string

datatype reject_stage =
    ReadBody
  | BodyTooLarge
  | MissingHeaders
  | BadTimestamp sign_error
  | SelectKey sign_error
  | VerifySignature sign_error

definition default_jwks_url :: string where
  "default_jwks_url = ''https://aheron.pro/.well-known/aheron-integration-jwks.json''"

definition default_max_inbound_body :: int where "default_max_inbound_body = 1048576"

definition new_verifier :: "verifier_cfg \<Rightarrow> verifier" where
  "new_verifier cfg =
     \<lparr>vf_keys = new_key_set (if vc_jwks_url cfg = [] then default_jwks_url else vc_jwks_url cfg) (vc_cache_ttl cfg),
      vf_window = (if vc_window cfg \<le> 0 then default_window else vc_window cfg),
      vf_max_body = (if vc_max_body cfg \<le> 0 then default_max_inbound_body else vc_max_body cfg)\<rparr>"

text \<open>\<open>io.LimitReader\<close>: nothing is read when the limit is not positive.\<close>

definition limit_read :: "int \<Rightarrow> string \<Rightarrow> string" where
  "limit_read n s = take (nat n) s"

text \<open>The result of \<open>verify\<close>: the stage that rejects, or the body and key id the handler gets.\<close>

definition verify_request :: "ed25519 \<Rightarrow> string \<Rightarrow> http_reply option \<Rightarrow> time \<Rightarrow> inbound \<Rightarrow> verifier \<Rightarrow>
    (reject_stage, string \<times> string) go_result \<times> verifier" where
  "verify_request E domain reply now r v = (case in_body r of
     None \<Rightarrow> (Inl ReadBody, v)
   | Some whole \<Rightarrow>
       let body = limit_read (wrap64 (vf_max_body v + 1)) whole in
       if vf_max_body v < int (length body) then (Inl BodyTooLarge, v)
       else if in_timestamp r = [] \<or> in_signature r = [] then (Inl MissingHeaders, v)
       else (case check_timestamp (in_timestamp r) (vf_window v) now of
           Some e \<Rightarrow> (Inl (BadTimestamp e), v)
         | None \<Rightarrow>
             (case key_of reply now (in_kid r) (vf_keys v) of
                (Inl e, ks) \<Rightarrow> (Inl (SelectKey e), v\<lparr>vf_keys := ks\<rparr>)
              | (Inr key, ks) \<Rightarrow>
                  (case (if domain = [] then verify_body E key (in_timestamp r) body (in_signature r)
                         else verify_domain E key domain (in_timestamp r) body (in_signature r)) of
                     Some e \<Rightarrow> (Inl (VerifySignature e), v\<lparr>vf_keys := ks\<rparr>)
                   | None \<Rightarrow> (Inr (body, in_kid r), v\<lparr>vf_keys := ks\<rparr>)))))"

subsection \<open>Answers\<close>

record response =
  rs_status :: int
  rs_json :: "json option"

definition json_error :: "int \<Rightarrow> string \<Rightarrow> response" where
  "json_error status message = \<lparr>rs_status = status, rs_json = Some (JObj [(''error'', JStr message)])\<rparr>"

definition reject :: response where
  "reject = json_error 401 ''signature verification failed''"

text \<open>A handler gets the verified body; \<open>None\<close> is the nil error.\<close>

definition verified :: "ed25519 \<Rightarrow> string \<Rightarrow> http_reply option \<Rightarrow> time \<Rightarrow> (string \<Rightarrow> response) \<Rightarrow> inbound \<Rightarrow> verifier \<Rightarrow>
    response \<times> verifier" where
  "verified E domain reply now next r v = (case verify_request E domain reply now r v of
     (Inl _, v) \<Rightarrow> (reject, v)
   | (Inr (body, _), v) \<Rightarrow> (next body, v))"

definition handle_action :: "(string \<Rightarrow> 'e option) \<Rightarrow> string \<Rightarrow> response" where
  "handle_action fn body = (case fn body of
     Some _ \<Rightarrow> json_error 500 ''handler failed''
   | None \<Rightarrow> \<lparr>rs_status = 200, rs_json = None\<rparr>)"

record trigger_sync =
  ts_project :: string
  ts_block_key :: string
  ts_config_version :: int

definition dec_trigger_sync :: "string \<Rightarrow> trigger_sync option" where
  "dec_trigger_sync body = (case parse_json body of
     Some (JObj ms) \<Rightarrow> (case (json_field ''projectId'' dec_string [] ms, json_field ''blockKey'' dec_string [] ms,
          json_field ''configVersion'' dec_int 0 ms) of
        (Some p, Some b, Some c) \<Rightarrow> Some \<lparr>ts_project = p, ts_block_key = b, ts_config_version = c\<rparr>
      | _ \<Rightarrow> None)
   | Some JNull \<Rightarrow> Some \<lparr>ts_project = [], ts_block_key = [], ts_config_version = 0\<rparr>
   | _ \<Rightarrow> None)"

definition handle_trigger_sync :: "(trigger_sync \<Rightarrow> 'e option) \<Rightarrow> string \<Rightarrow> response" where
  "handle_trigger_sync fn body = (case dec_trigger_sync body of
     None \<Rightarrow> json_error 400 ''integration: decode body''
   | Some req \<Rightarrow> (case fn req of
       Some _ \<Rightarrow> json_error 500 ''handler failed''
     | None \<Rightarrow> \<lparr>rs_status = 200, rs_json = None\<rparr>))"

subsection \<open>Variable values\<close>

record values_request =
  vr_project :: string
  vr_key :: string
  vr_query :: "string option"
  vr_cursor :: "string option"
  vr_limit :: "int option"
  vr_values :: "string list option"

record value_item =
  vi_value :: string
  vi_title :: string
  vi_icon :: "string option"

record values_response =
  vs_items :: "value_item list option" \<comment> \<open>\<open>None\<close>: a nil slice\<close>
  vs_next_cursor :: "string option"

datatype values_error =
    NeedsProject | NeedsKey | LimitRange | EmptyCursor | TooManyValues | MixedModes
  | CursorWhenResolving | TooManyItems nat int | EmptyItemValue nat | EmptyItemTitle nat | EmptyNextCursor

definition max_values_items :: int where "max_values_items = 200"
definition max_resolve_values :: nat where "max_resolve_values = 100"

definition dec_values_request :: "string \<Rightarrow> values_request option" where
  "dec_values_request body = (case parse_json body of
     Some (JObj ms) \<Rightarrow> (case (json_field ''projectId'' dec_string [] ms, json_field ''variableKey'' dec_string [] ms,
          json_field ''query'' (map_option Some \<circ> dec_string) None ms, json_field ''cursor'' (map_option Some \<circ> dec_string) None ms,
          json_field ''limit'' (map_option Some \<circ> dec_int) None ms, json_field ''values'' (map_option Some \<circ> dec_strings) None ms) of
        (Some p, Some k, Some q, Some c, Some l, Some vs) \<Rightarrow>
          Some \<lparr>vr_project = p, vr_key = k, vr_query = q, vr_cursor = c, vr_limit = l, vr_values = vs\<rparr>
      | _ \<Rightarrow> None)
   | Some JNull \<Rightarrow> Some \<lparr>vr_project = [], vr_key = [], vr_query = None, vr_cursor = None, vr_limit = None, vr_values = None\<rparr>
   | _ \<Rightarrow> None)"

definition blank :: "string \<Rightarrow> bool" where
  "blank s \<longleftrightarrow> trim_space s = []"

definition validate_values_request :: "values_request \<Rightarrow> values_error option" where
  "validate_values_request r =
     (if blank (vr_project r) then Some NeedsProject
      else if blank (vr_key r) then Some NeedsKey
      else if (case vr_limit r of None \<Rightarrow> False | Some l \<Rightarrow> l < 1 \<or> max_values_items < l) then Some LimitRange
      else if (case vr_cursor r of None \<Rightarrow> False | Some c \<Rightarrow> blank c) then Some EmptyCursor
      else if max_resolve_values < (case vr_values r of None \<Rightarrow> 0 | Some vs \<Rightarrow> length vs) then Some TooManyValues
      else if vr_values r \<noteq> None \<and> (vr_query r \<noteq> None \<or> vr_cursor r \<noteq> None \<or> vr_limit r \<noteq> None) then Some MixedModes
      else None)"

definition max_items :: "values_request \<Rightarrow> int" where
  "max_items r = (case vr_values r of
     Some vs \<Rightarrow> int (length vs)
   | None \<Rightarrow> (case vr_limit r of Some l \<Rightarrow> l | None \<Rightarrow> max_values_items))"

fun check_items :: "nat \<Rightarrow> value_item list \<Rightarrow> values_error option" where
  "check_items i [] = None"
| "check_items i (x # xs) =
     (if blank (vi_value x) then Some (EmptyItemValue i)
      else if blank (vi_title x) then Some (EmptyItemTitle i)
      else check_items (i + 1) xs)"

definition items_of :: "values_response \<Rightarrow> value_item list" where
  "items_of resp = (case vs_items resp of None \<Rightarrow> [] | Some xs \<Rightarrow> xs)"

definition validate_values_response :: "values_request \<Rightarrow> values_response \<Rightarrow> values_error option" where
  "validate_values_response r resp =
     (if vr_values r \<noteq> None \<and> vs_next_cursor resp \<noteq> None then Some CursorWhenResolving
      else if max_items r < int (length (items_of resp)) then Some (TooManyItems (length (items_of resp)) (max_items r))
      else (case check_items 0 (items_of resp) of
          Some e \<Rightarrow> Some e
        | None \<Rightarrow> if (case vs_next_cursor resp of None \<Rightarrow> False | Some c \<Rightarrow> blank c) then Some EmptyNextCursor else None))"

definition item_json :: "value_item \<Rightarrow> json" where
  "item_json x = JObj ([(''value'', JStr (vi_value x)), (''title'', JStr (vi_title x))] @
     (case vi_icon x of None \<Rightarrow> [] | Some i \<Rightarrow> [(''icon'', JStr i)]))"

definition values_json :: "values_response \<Rightarrow> json" where
  "values_json resp = JObj ([(''items'', JArr (map item_json (items_of resp)))] @
     (case vs_next_cursor resp of None \<Rightarrow> [] | Some c \<Rightarrow> [(''nextCursor'', JStr c)]))"

definition handle_values :: "(values_error \<Rightarrow> string) \<Rightarrow> (values_request \<Rightarrow> ('e, values_response) go_result) \<Rightarrow> string \<Rightarrow> response" where
  "handle_values message fn body = (case dec_values_request body of
     None \<Rightarrow> json_error 400 ''integration: decode body''
   | Some req \<Rightarrow> (case validate_values_request req of
       Some e \<Rightarrow> json_error 400 (message e)
     | None \<Rightarrow> (case fn req of
         Inl _ \<Rightarrow> json_error 500 ''handler failed''
       | Inr resp \<Rightarrow> (case validate_values_response req resp of
           Some _ \<Rightarrow> json_error 500 ''handler returned invalid response''
         | None \<Rightarrow> \<lparr>rs_status = 200, rs_json = Some (values_json resp)\<rparr>))))"

subsection \<open>Properties\<close>

text \<open>A request that verifies, under a cipher that accepts every signature.\<close>

definition signature_example :: string where
  "signature_example = b64std (replicate 64 CHR ''s'')"

definition key_set_example :: key_set where
  "key_set_example = (new_key_set [] 1)\<lparr>ks_by_kid := [(''k'', replicate 32 CHR ''p'')], ks_fetched_at := Some 0\<rparr>"

lemma signature_example_accepted:
  "signature_example \<noteq> []" "verify_input any_cipher (replicate 32 CHR ''p'') m signature_example = None"
proof -
  show "signature_example \<noteq> []"
  proof
    assume "signature_example = []"
    then have "b64std_decode [] = Some (replicate 64 CHR ''s'')" by (metis b64_decode_encode signature_example_def)
    then show False by (simp add: b64_decode_def)
  qed
  show "verify_input any_cipher (replicate 32 CHR ''p'') m signature_example = None"
    by (simp add: verify_input_def any_cipher_def signature_example_def)
qed

lemma key_set_example_has: "key_of None 0 ''k'' key_set_example = (Inr (replicate 32 CHR ''p''), key_set_example)"
  by (simp add: key_of_def lookup_key_def keys_fresh_def new_key_set_def key_set_example_def)

lemma signed_example:
  "\<exists>r v. verify_request any_cipher [] None 0 r v = (Inr (''{}'', ''k''), v) \<and> 0 \<le> vf_max_body v \<and> vf_max_body v < 2 ^ 63 - 1"
proof -
  let ?v = "(new_verifier \<lparr>vc_jwks_url = [], vc_window = 0, vc_cache_ttl = 0, vc_max_body = 0\<rparr>)
     \<lparr>vf_keys := key_set_example\<rparr>"
  let ?r = "\<lparr>in_body = Some ''{}'', in_timestamp = ''0'', in_signature = signature_example, in_kid = ''k''\<rparr>"
  have t: "check_timestamp ''0'' default_window 0 = None"
    by (simp add: check_timestamp_def atoi_def is_digit_def digits_val_def digit_val_def int64_def unix_time_def time_sub_def
        default_window_def second_def)
  have "verify_request any_cipher [] None 0 ?r ?v = (Inr (''{}'', ''k''), ?v)"
    using t signature_example_accepted key_set_example_has
    by (simp add: verify_request_def verify_body_def new_verifier_def limit_read_def default_max_inbound_body_def int64_def)
  then show ?thesis by (intro exI [of _ ?r] exI [of _ ?v]) (simp add: new_verifier_def default_max_inbound_body_def)
qed

text \<open>
  C27. Authentication: the body handed to a handler is the whole body of the request, no longer
  than the limit, and it carries a signature the cipher accepts, over the header's timestamp (and
  the endpoint's domain), under a key of the key set the header's id selects; the timestamp is one
  \<open>check_timestamp\<close> accepts.
\<close>

theorem verified_request_is_signed:
  assumes "verify_request E domain reply now r v = (Inr (body, kid), v')"
    and "0 \<le> vf_max_body v" "vf_max_body v < 2 ^ 63 - 1"
  shows "in_body r = Some body \<and> int (length body) \<le> vf_max_body v \<and>
    check_timestamp (in_timestamp r) (vf_window v) now = None \<and>
    (\<exists>key sig. fst (key_of reply now (in_kid r) (vf_keys v)) = Inr key \<and> b64std_decode (in_signature r) = Some sig \<and>
       length key = 32 \<and> length sig = 64 \<and>
       ed_verify E key (if domain = [] then signing_input (in_timestamp r) body else domain_input domain (in_timestamp r) body) sig)"
proof -
  from assms(1) obtain whole where whole: "in_body r = Some whole"
    by (cases "in_body r") (simp_all add: verify_request_def)
  define b where "b = limit_read (wrap64 (vf_max_body v + 1)) whole"
  note V = assms(1) [unfolded verify_request_def whole option.simps Let_def, folded b_def]
  from V have len: "\<not> vf_max_body v < int (length b)" by (simp split: if_splits)
  from V len have ts: "check_timestamp (in_timestamp r) (vf_window v) now = None"
    by (simp split: if_splits option.splits)
  obtain res ks where K: "key_of reply now (in_kid r) (vf_keys v) = (res, ks)" by fastforce
  from V len ts K obtain key where key: "res = Inr key" by (cases res) (simp_all split: if_splits)
  from V len ts K key have body: "b = body" and
    ok: "verify_input E key (if domain = [] then signing_input (in_timestamp r) b else domain_input domain (in_timestamp r) b) (in_signature r) = None"
    by (auto simp: verify_body_def verify_domain_def split: if_splits option.splits)
  from ok obtain sig where sig: "b64std_decode (in_signature r) = Some sig" "length key = 32" "length sig = 64"
    "ed_verify E key (if domain = [] then signing_input (in_timestamp r) b else domain_input domain (in_timestamp r) b) sig"
    by (auto simp: verify_input_def split: option.splits if_splits)
  have "wrap64 (vf_max_body v + 1) = vf_max_body v + 1" using assms(2,3) by (simp add: int64_def)
  then have "b = take (nat (vf_max_body v + 1)) whole" by (simp add: b_def limit_read_def)
  with len assms(2) have "whole = b" by (simp add: min_def split: if_splits)
  with whole body len ts K key sig show ?thesis by auto
qed

lemma verified_request_is_signed_witness:
  "\<exists>r v v'. verify_request any_cipher [] None 0 r v = (Inr (''{}'', ''k''), v') \<and> in_body r = Some ''{}''"
proof -
  obtain r v where v: "verify_request any_cipher [] None 0 r v = (Inr (''{}'', ''k''), v)" "0 \<le> vf_max_body v" "vf_max_body v < 2 ^ 63 - 1"
    using signed_example by blast
  from verified_request_is_signed [OF v] v(1) show ?thesis by blast
qed

lemma check_items_None: "check_items i xs = None \<longleftrightarrow> list_all (\<lambda>x. \<not> blank (vi_value x) \<and> \<not> blank (vi_title x)) xs"
  by (induction xs arbitrary: i) simp_all

text \<open>
  The answer of the variable-values endpoint: whatever the integration's function returns, a
  200 carries at most 200 items, at most as many as the request asked for, each with a value and a
  title that are not blank; when the request resolves given values there are no more items than
  values, of which there are at most 100, and no cursor.
\<close>

theorem values_reply_bounded:
  assumes "rs_status (handle_values message fn body) = 200"
  shows "\<exists>req resp. dec_values_request body = Some req \<and> fn req = Inr resp \<and>
    rs_json (handle_values message fn body) = Some (values_json resp) \<and>
    length (items_of resp) \<le> 200 \<and> (\<forall>l. vr_limit req = Some l \<longrightarrow> int (length (items_of resp)) \<le> l) \<and>
    list_all (\<lambda>x. \<not> blank (vi_value x) \<and> \<not> blank (vi_title x)) (items_of resp) \<and>
    (\<forall>vs. vr_values req = Some vs \<longrightarrow> length (items_of resp) \<le> length vs \<and> length vs \<le> 100 \<and> vs_next_cursor resp = None)"
proof -
  from assms obtain req resp where h: "dec_values_request body = Some req" "validate_values_request req = None"
    "fn req = Inr resp" "validate_values_response req resp = None"
    by (auto simp: handle_values_def json_error_def split: option.splits sum.splits)
  from h(2) have lim: "\<And>l. vr_limit req = Some l \<Longrightarrow> 1 \<le> l \<and> l \<le> 200" and
    vals: "\<And>vs. vr_values req = Some vs \<Longrightarrow> length vs \<le> 100 \<and> vr_limit req = None"
    by (auto simp: validate_values_request_def max_values_items_def max_resolve_values_def split: if_splits option.splits)
  from h(4) have n: "int (length (items_of resp)) \<le> max_items req" and items: "check_items 0 (items_of resp) = None"
    and cur: "vr_values req \<noteq> None \<Longrightarrow> vs_next_cursor resp = None"
    by (auto simp: validate_values_response_def split: if_splits option.splits)
  have "int (length (items_of resp)) \<le> 200"
    using n lim vals by (fastforce simp: max_items_def max_values_items_def split: option.splits)
  moreover have "int (length (items_of resp)) \<le> l" if "vr_limit req = Some l" for l
    using n that vals by (auto simp: max_items_def split: option.splits)
  moreover have "length (items_of resp) \<le> length vs \<and> length vs \<le> 100 \<and> vs_next_cursor resp = None" if "vr_values req = Some vs" for vs
    using n that vals cur by (simp add: max_items_def)
  ultimately show ?thesis using h items by (auto simp: handle_values_def check_items_None)
qed

lemma values_reply_bounded_witness:
  "\<exists>body fn. rs_status (handle_values (\<lambda>_. []) (fn :: values_request \<Rightarrow> (unit, values_response) go_result) body) = 200"
proof -
  let ?req = "JObj [(''projectId'', JStr ''p''), (''variableKey'', JStr ''k'')]"
  let ?fn = "\<lambda>_. Inr \<lparr>vs_items = None, vs_next_cursor = None\<rparr> :: (unit, values_response) go_result"
  define body where "body = write_json ?req"
  have "parse_json body = Some ?req"
    unfolding body_def by (rule parse_json_write) (simp_all add: plain_char_def max_depth_def)
  then have d: "dec_values_request body = Some \<lparr>vr_project = ''p'', vr_key = ''k'', vr_query = None,
      vr_cursor = None, vr_limit = None, vr_values = None\<rparr>"
    by (simp add: dec_values_request_def fold_key_def lower_char_def dec_string_def)
  have "\<not> blank ''p''" "\<not> blank ''k''" by (simp_all add: blank_def trim_space_def is_space_rune_def)
  then have s: "rs_status (handle_values (\<lambda>_. []) ?fn body) = 200"
    by (simp add: handle_values_def d validate_values_request_def validate_values_response_def items_of_def max_items_def
        max_values_items_def)
  from values_reply_bounded [OF s] s show ?thesis by blast
qed

end
