(* ===== verification/Lifecycle.thy ===== *)
theory Lifecycle
  imports Server
begin

text \<open>
  Installation lifecycle messages: \<open>src/integrationoauth/installation_settings.go\<close> and
  \<open>src/integration/lifecycle.go\<close>, \<open>lifecycle_http.go\<close>, \<open>lifecycle_sender.go\<close>.

  The digest \<open>sha\<close> (\<open>crypto/sha256\<close>: 32 bytes) is an argument. \<open>url.Parse\<close> is an argument too, its
  result is the record \<open>url\<close>; the HTTP exchange of the sender is its reply.
\<close>

subsection \<open>Objects read member by member\<close>

text \<open>\<open>json.Decoder\<close> over one object: each member with its value and the bytes of that value.\<close>

fun parse_raw_members :: "nat \<Rightarrow> nat \<Rightarrow> string \<Rightarrow> ((string \<times> json \<times> string) list \<times> string) option" where
  "parse_raw_members 0 d s = None"
| "parse_raw_members (Suc n) d s = (case skip_ws s of [] \<Rightarrow> None
   | q # r \<Rightarrow> if q \<noteq> CHR 0x22 then None
      else (case parse_string (length r) r of None \<Rightarrow> None
       | Some (k, t) \<Rightarrow> (case skip_ws t of [] \<Rightarrow> None
          | c # t' \<Rightarrow> if c \<noteq> CHR '':'' then None
             else (case parse_value (2 * length s + 2) d t' of None \<Rightarrow> None
              | Some (v, u) \<Rightarrow>
                 let raw = take (length (skip_ws t') - length u) (skip_ws t') in
                 (case skip_ws u of [] \<Rightarrow> None
                 | e # u' \<Rightarrow>
                    if e = CHR ''}'' then Some ([(k, v, raw)], u')
                    else if e = CHR '','' then
                      (case parse_raw_members n d u' of None \<Rightarrow> None | Some (ms, w) \<Rightarrow> Some ((k, v, raw) # ms, w))
                    else None)))))"

definition object_members :: "string \<Rightarrow> (string \<times> json \<times> string) list option" where
  "object_members s = (case skip_ws s of [] \<Rightarrow> None
   | c # r \<Rightarrow> if c \<noteq> CHR ''{'' then None
      else (case skip_ws r of [] \<Rightarrow> None
       | x # t \<Rightarrow>
          if x = CHR ''}'' then (if skip_ws t = [] then Some [] else None)
          else (case parse_raw_members (length r) 1 r of None \<Rightarrow> None
           | Some (ms, t) \<Rightarrow> if skip_ws t = [] then Some ms else None)))"

text \<open>The checks the decoders share: no field twice, unknown, \<open>null\<close> or missing.\<close>

definition strict_members :: "nat \<Rightarrow> (string \<times> bool) list \<Rightarrow> string \<Rightarrow> (string \<times> json \<times> string) list option" where
  "strict_members limit flds s =
     (if limit < length s \<or> \<not> valid_utf8 s then None
      else (case object_members s of None \<Rightarrow> None
       | Some ms \<Rightarrow>
          if distinct (map fst ms) \<and> list_all (\<lambda>(k, v, _). k \<in> fst ` set flds \<and> v \<noteq> JNull) ms \<and>
             list_all (\<lambda>(k, required). required \<longrightarrow> k \<in> fst ` set ms) flds
          then Some ms else None))"

definition plain_members :: "(string \<times> json \<times> string) list \<Rightarrow> (string \<times> json) list" where
  "plain_members ms = map (\<lambda>(k, v, _). (k, v)) ms"

subsection \<open>OAuth installation settings\<close>

record settings =
  st_integration :: string
  st_project :: string
  st_installation :: string
  st_client :: string
  st_key :: string
  st_access_version :: int
  st_integration_access_version :: int
  st_grant_version :: int
  st_policy_revision :: int
  st_policy_digest :: string

definition uuid_matches :: "string \<Rightarrow> bool" where
  "uuid_matches s \<longleftrightarrow> uuid_regexp s \<and> s \<noteq> zero_uuid"

definition valid_digest :: "string \<Rightarrow> bool" where
  "valid_digest s \<longleftrightarrow> (case hex_decode s of None \<Rightarrow> False | Some b \<Rightarrow> length b = 32) \<and> s = ascii_lower s"

definition settings_valid :: "settings \<Rightarrow> bool" where
  "settings_valid s \<longleftrightarrow> list_all uuid_matches [st_integration s, st_project s, st_installation s, st_client s] \<and>
     ascii_identifier (st_key s) 128 \<and> 0 < st_access_version s \<and> 0 < st_integration_access_version s \<and>
     0 < st_grant_version s \<and> 0 < st_policy_revision s \<and> valid_digest (st_policy_digest s)"

definition settings_fields :: "(string \<times> bool) list" where
  "settings_fields = map (\<lambda>k. (k, True)) [''integrationId'', ''projectId'', ''installationId'', ''clientId'', ''keyId'',
     ''accessVersion'', ''integrationAccessVersion'', ''grantVersion'', ''policyRevision'', ''policyDigest'']"

definition dec_settings_fields :: "(string \<times> json) list \<Rightarrow> settings option" where
  "dec_settings_fields ms =
     (case ((json_field ''integrationId'' dec_string [] ms, json_field ''projectId'' dec_string [] ms,
          json_field ''installationId'' dec_string [] ms, json_field ''clientId'' dec_string [] ms, json_field ''keyId'' dec_string [] ms),
         (json_field ''accessVersion'' dec_int 0 ms, json_field ''integrationAccessVersion'' dec_int 0 ms,
          json_field ''grantVersion'' dec_int 0 ms, json_field ''policyRevision'' dec_int 0 ms, json_field ''policyDigest'' dec_string [] ms)) of
        ((Some a, Some b, Some c, Some d, Some e), (Some f, Some g, Some h, Some i, Some j)) \<Rightarrow>
          Some \<lparr>st_integration = a, st_project = b, st_installation = c, st_client = d, st_key = e, st_access_version = f,
            st_integration_access_version = g, st_grant_version = h, st_policy_revision = i, st_policy_digest = j\<rparr>
      | _ \<Rightarrow> None)"

definition decode_settings :: "string \<Rightarrow> settings option" where
  "decode_settings raw =
     (if raw = [] then None
      else (case strict_members 8192 settings_fields raw of None \<Rightarrow> None
       | Some ms \<Rightarrow> (case dec_settings_fields (plain_members ms) of None \<Rightarrow> None
          | Some s \<Rightarrow> if settings_valid s then Some s else None)))"

definition settings_members :: "settings \<Rightarrow> (string \<times> json) list" where
  "settings_members s = [(''integrationId'', JStr (st_integration s)), (''projectId'', JStr (st_project s)),
     (''installationId'', JStr (st_installation s)), (''clientId'', JStr (st_client s)), (''keyId'', JStr (st_key s)),
     (''accessVersion'', int_json (st_access_version s)),
     (''integrationAccessVersion'', int_json (st_integration_access_version s)),
     (''grantVersion'', int_json (st_grant_version s)), (''policyRevision'', int_json (st_policy_revision s)),
     (''policyDigest'', JStr (st_policy_digest s))]"

definition settings_json :: "settings \<Rightarrow> json" where
  "settings_json s = JObj (settings_members s)"

subsection \<open>Messages\<close>

datatype lifecycle_error = LifecycleInvalid | LifecycleConflict | LifecycleStateBad

record lifecycle_request =
  lr_protocol :: string
  lr_event :: string
  lr_integration :: string
  lr_project :: string
  lr_installation :: string
  lr_sequence :: int
  lr_action :: string
  lr_oauth :: "settings option"

definition lifecycle_protocol :: string where
  "lifecycle_protocol = ''aheron.installation-lifecycle.v1''"

definition validate_lifecycle :: "lifecycle_request \<Rightarrow> lifecycle_error option" where
  "validate_lifecycle r =
     (if lr_protocol r \<noteq> lifecycle_protocol \<or> \<not> uuid_matches (lr_event r) \<or> \<not> uuid_matches (lr_integration r) \<or>
         \<not> uuid_matches (lr_project r) \<or> \<not> uuid_matches (lr_installation r) \<or> lr_sequence r < 1 then Some LifecycleInvalid
      else if lr_action r \<noteq> ''install'' \<and> lr_action r \<noteq> ''uninstall'' then Some LifecycleInvalid
      else (case lr_oauth r of None \<Rightarrow> None
       | Some s \<Rightarrow> if lr_action r \<noteq> ''install'' \<or> \<not> settings_valid s \<or> st_integration s \<noteq> lr_integration r \<or>
            st_project s \<noteq> lr_project r \<or> st_installation s \<noteq> lr_installation r then Some LifecycleInvalid else None))"

definition request_members :: "lifecycle_request \<Rightarrow> (string \<times> json) list" where
  "request_members r = [(''protocol'', JStr (lr_protocol r)), (''eventId'', JStr (lr_event r)),
     (''integrationId'', JStr (lr_integration r)), (''projectId'', JStr (lr_project r)),
     (''installationId'', JStr (lr_installation r)), (''sequence'', int_json (lr_sequence r)), (''action'', JStr (lr_action r))] @
     (case lr_oauth r of None \<Rightarrow> [] | Some s \<Rightarrow> [(''oauth'', settings_json s)])"

definition request_json :: "lifecycle_request \<Rightarrow> json" where
  "request_json r = JObj (request_members r)"

definition lifecycle_digest :: "(string \<Rightarrow> string) \<Rightarrow> lifecycle_request \<Rightarrow> (lifecycle_error, string) go_result" where
  "lifecycle_digest sha r = (case validate_lifecycle r of Some e \<Rightarrow> Inl e
     | None \<Rightarrow> Inr (hex_string (sha (write_json (request_json r)))))"

record lifecycle_state =
  ls_integration :: string
  ls_project :: string
  ls_installation :: string
  ls_sequence :: int
  ls_event :: string
  ls_action :: string
  ls_digest :: string

definition zero_state :: lifecycle_state where
  "zero_state = \<lparr>ls_integration = [], ls_project = [], ls_installation = [], ls_sequence = 0, ls_event = [], ls_action = [], ls_digest = []\<rparr>"

record lifecycle_receipt =
  rc_protocol :: string
  rc_event :: string
  rc_integration :: string
  rc_project :: string
  rc_installation :: string
  rc_sequence :: int
  rc_digest :: string
  rc_outcome :: string
  rc_observed :: int

definition validate_state :: "lifecycle_state \<Rightarrow> lifecycle_error option" where
  "validate_state s =
     (if s = zero_state then None
      else if ls_sequence s < 1 \<or> \<not> uuid_matches (ls_integration s) \<or> \<not> uuid_matches (ls_project s) \<or>
        \<not> uuid_matches (ls_installation s) \<or> \<not> uuid_matches (ls_event s) \<or>
        (ls_action s \<noteq> ''install'' \<and> ls_action s \<noteq> ''uninstall'') then Some LifecycleStateBad
      else if \<not> valid_digest (ls_digest s) then Some LifecycleStateBad else None)"

definition state_of :: "string \<Rightarrow> lifecycle_request \<Rightarrow> lifecycle_state" where
  "state_of digest r = \<lparr>ls_integration = lr_integration r, ls_project = lr_project r, ls_installation = lr_installation r,
     ls_sequence = lr_sequence r, ls_event = lr_event r, ls_action = lr_action r, ls_digest = digest\<rparr>"

definition receipt_of :: "string \<Rightarrow> string \<Rightarrow> int \<Rightarrow> lifecycle_request \<Rightarrow> lifecycle_receipt" where
  "receipt_of digest outcome observed r = \<lparr>rc_protocol = lifecycle_protocol, rc_event = lr_event r,
     rc_integration = lr_integration r, rc_project = lr_project r, rc_installation = lr_installation r,
     rc_sequence = lr_sequence r, rc_digest = digest, rc_outcome = outcome, rc_observed = observed\<rparr>"

definition decide_lifecycle :: "(string \<Rightarrow> string) \<Rightarrow> lifecycle_state \<Rightarrow> lifecycle_request \<Rightarrow>
    (lifecycle_error, lifecycle_state \<times> lifecycle_receipt) go_result" where
  "decide_lifecycle sha cur r =
     bindR (lifecycle_digest sha r) (\<lambda>digest.
       (case validate_state cur of Some e \<Rightarrow> Inl e
        | None \<Rightarrow>
          guardR (ls_sequence cur \<noteq> 0 \<and> (ls_project cur \<noteq> lr_project r \<or> ls_integration cur \<noteq> lr_integration r)) LifecycleConflict
          (if lr_sequence r < ls_sequence cur then Inr (cur, receipt_of digest ''superseded'' (ls_sequence cur) r)
           else if lr_sequence r = ls_sequence cur then
             guardR (digest \<noteq> ls_digest cur \<or> lr_event r \<noteq> ls_event cur \<or> lr_installation r \<noteq> ls_installation cur \<or>
               lr_action r \<noteq> ls_action cur) LifecycleConflict
             (Inr (cur, receipt_of digest ''duplicate'' (ls_sequence cur) r))
           else
             guardR (ls_event cur = lr_event r) LifecycleConflict
             (guardR (ls_installation cur = lr_installation r \<and> ls_action cur = ''uninstall'' \<and> lr_action r = ''install'') LifecycleConflict
             (Inr (state_of digest r, receipt_of digest ''applied'' (lr_sequence r) r))))))"

definition receipt_valid_for :: "(string \<Rightarrow> string) \<Rightarrow> lifecycle_receipt \<Rightarrow> lifecycle_request \<Rightarrow> lifecycle_error option" where
  "receipt_valid_for sha rc r = (case lifecycle_digest sha r of Inl e \<Rightarrow> Some e
     | Inr digest \<Rightarrow>
        if rc_protocol rc \<noteq> lifecycle_protocol \<or> rc_event rc \<noteq> lr_event r \<or> rc_integration rc \<noteq> lr_integration r \<or>
           rc_project rc \<noteq> lr_project r \<or> rc_installation rc \<noteq> lr_installation r \<or> rc_sequence rc \<noteq> lr_sequence r \<or>
           rc_digest rc \<noteq> digest then Some LifecycleInvalid
        else if (rc_outcome rc = ''applied'' \<or> rc_outcome rc = ''duplicate'') \<and> rc_observed rc = lr_sequence r then None
        else if rc_outcome rc = ''superseded'' \<and> lr_sequence r < rc_observed rc then None
        else Some LifecycleInvalid)"

definition validate_lifecycle_oauth :: "(string \<Rightarrow> string) \<Rightarrow> lifecycle_state \<Rightarrow> settings \<Rightarrow> lifecycle_error option" where
  "validate_lifecycle_oauth sha st s =
     (if validate_state st \<noteq> None \<or> ls_sequence st = 0 \<or> ls_action st \<noteq> ''install'' then Some LifecycleStateBad
      else (case lifecycle_digest sha \<lparr>lr_protocol = lifecycle_protocol, lr_event = ls_event st, lr_integration = ls_integration st,
            lr_project = ls_project st, lr_installation = ls_installation st, lr_sequence = ls_sequence st,
            lr_action = ls_action st, lr_oauth = Some s\<rparr> of
          Inl _ \<Rightarrow> Some LifecycleStateBad
        | Inr digest \<Rightarrow> if digest \<noteq> ls_digest st then Some LifecycleStateBad else None))"

subsection \<open>The watermark\<close>

lemma hex_digit_lower: "d < 16 \<Longrightarrow> lower_hex_char (hex_digit d)"
  by (auto simp: hex_digit_def lower_hex_char_def is_digit_def)

lemma hex_decode_string: "hex_decode (hex_string s) = Some s"
proof (induction s)
  case (Cons c s)
  have "byte c div 16 < 16" "byte c mod 16 < 16" by (simp_all add: byte_parts)
  moreover have "16 * (byte c div 16) + byte c mod 16 = byte c" by simp
  ultimately show ?case using Cons by (simp add: hex_string_def del: mult_div_mod_eq)
qed (simp add: hex_string_def)

lemma hex_string_lower: "list_all lower_hex_char (hex_string s)"
  by (auto simp: hex_string_def list_all_iff byte_parts intro: hex_digit_lower)

lemma lower_hex_fixed: "lower_hex_char c \<Longrightarrow> lower_char c = c"
  by (auto simp: lower_hex_char_def lower_char_def is_digit_def)

lemma valid_digest_hex: "length s = 32 \<Longrightarrow> valid_digest (hex_string s)"
  using hex_string_lower [of s]
  by (simp add: valid_digest_def hex_decode_string ascii_lower_def list_all_iff lower_hex_fixed map_idI)

fun deliver_all :: "(string \<Rightarrow> string) \<Rightarrow> lifecycle_state \<Rightarrow> lifecycle_request list \<Rightarrow>
    lifecycle_state \<times> (lifecycle_error, lifecycle_receipt) go_result list" where
  "deliver_all sha s [] = (s, [])"
| "deliver_all sha s (r # rs) = (case decide_lifecycle sha s r of
     Inl e \<Rightarrow> (case deliver_all sha s rs of (s', res) \<Rightarrow> (s', Inl e # res))
   | Inr (s1, rc) \<Rightarrow> (case deliver_all sha s1 rs of (s', res) \<Rightarrow> (s', Inr rc # res)))"

text \<open>The specification: a register that keeps the greatest sequence seen.\<close>

fun watermark :: "int \<Rightarrow> lifecycle_request list \<Rightarrow> (string \<times> int) list" where
  "watermark n [] = []"
| "watermark n (r # rs) =
     (if n < lr_sequence r then (''applied'', lr_sequence r) # watermark (lr_sequence r) rs
      else (if lr_sequence r = n then ''duplicate'' else ''superseded'', n) # watermark n rs)"

text \<open>What the platform sends for one project and integration: one message per sequence and event.\<close>

definition stream_ok :: "lifecycle_request set \<Rightarrow> bool" where
  "stream_ok M \<longleftrightarrow>
     (\<forall>a \<in> M. validate_lifecycle a = None) \<and>
     (\<forall>a \<in> M. \<forall>b \<in> M. lr_project a = lr_project b \<and> lr_integration a = lr_integration b \<and>
        (lr_sequence a = lr_sequence b \<longrightarrow> a = b) \<and> (lr_event a = lr_event b \<longrightarrow> a = b) \<and>
        (lr_sequence a < lr_sequence b \<longrightarrow> lr_installation a = lr_installation b \<longrightarrow> lr_action a = ''uninstall'' \<longrightarrow>
           lr_action b \<noteq> ''install''))"

definition digest_of :: "(string \<Rightarrow> string) \<Rightarrow> lifecycle_request \<Rightarrow> string" where
  "digest_of sha r = hex_string (sha (write_json (request_json r)))"

lemma digest_valid: "validate_lifecycle r = None \<Longrightarrow> lifecycle_digest sha r = Inr (digest_of sha r)"
  by (simp add: lifecycle_digest_def digest_of_def)

lemma state_of_valid:
  assumes "validate_lifecycle r = None" "\<And>x. length (sha x) = 32"
  shows "validate_state (state_of (digest_of sha r) r) = None"
proof -
  have "valid_digest (digest_of sha r)" unfolding digest_of_def by (rule valid_digest_hex) (rule assms(2))
  with assms(1) show ?thesis
    by (auto simp: validate_state_def state_of_def validate_lifecycle_def split: if_splits)
qed

text \<open>The two kinds of states a stream leads to.\<close>

definition tracks :: "(string \<Rightarrow> string) \<Rightarrow> lifecycle_request set \<Rightarrow> lifecycle_state \<Rightarrow> bool" where
  "tracks sha M s \<longleftrightarrow> s = zero_state \<or> (\<exists>m \<in> M. s = state_of (digest_of sha m) m)"

lemma decide_in_stream:
  assumes M: "stream_ok M" and r: "r \<in> M" and s: "tracks sha M s" and sha: "\<And>x. length (sha x) = 32"
  shows "decide_lifecycle sha s r =
    (if lr_sequence r < ls_sequence s then Inr (s, receipt_of (digest_of sha r) ''superseded'' (ls_sequence s) r)
     else if lr_sequence r = ls_sequence s then Inr (s, receipt_of (digest_of sha r) ''duplicate'' (ls_sequence s) r)
     else Inr (state_of (digest_of sha r) r, receipt_of (digest_of sha r) ''applied'' (lr_sequence r) r))"
proof -
  have v: "validate_lifecycle r = None" using M r by (simp add: stream_ok_def)
  then have pos: "1 \<le> lr_sequence r" and ev: "lr_event r \<noteq> []"
    by (auto simp: validate_lifecycle_def uuid_matches_def uuid_regexp_def split: if_splits)
  from s consider "s = zero_state" | m where "m \<in> M" "s = state_of (digest_of sha m) m" by (auto simp: tracks_def)
  then show ?thesis
  proof cases
    case 1
    with v pos ev show ?thesis by (simp add: decide_lifecycle_def digest_valid validate_state_def zero_state_def)
  next
    case 2
    have vm: "validate_state s = None" using 2 M state_of_valid [OF _ sha] by (simp add: stream_ok_def)
    have same: "lr_project m = lr_project r" "lr_integration m = lr_integration r"
      "lr_sequence m = lr_sequence r \<longrightarrow> m = r" "lr_event m = lr_event r \<longrightarrow> m = r"
      "lr_sequence m < lr_sequence r \<longrightarrow> lr_installation m = lr_installation r \<longrightarrow> lr_action m = ''uninstall'' \<longrightarrow> lr_action r \<noteq> ''install''"
      using M 2(1) r unfolding stream_ok_def by blast+
    have sq: "ls_sequence s = lr_sequence m" using 2(2) by (simp add: state_of_def)
    consider "lr_sequence r < lr_sequence m" | "m = r" | "lr_sequence m < lr_sequence r" "m \<noteq> r"
      using same(3) by fastforce
    then show ?thesis
      by cases (use v vm same 2(2) sq in \<open>auto simp: decide_lifecycle_def digest_valid state_of_def guardR_def\<close>)
  qed
qed

lemma receipt_of_valid:
  "validate_lifecycle r = None \<Longrightarrow>
   receipt_valid_for sha (receipt_of (digest_of sha r) outcome n r) r = None \<longleftrightarrow>
     (outcome = ''applied'' \<or> outcome = ''duplicate'') \<and> n = lr_sequence r \<or> outcome = ''superseded'' \<and> lr_sequence r < n"
  by (auto simp: receipt_valid_for_def digest_valid receipt_of_def)

lemma deliver_all_stream:
  assumes M: "stream_ok M" and sha: "\<And>x. length (sha x) = 32"
  shows "set rs \<subseteq> M \<Longrightarrow> tracks sha M s \<Longrightarrow>
    (\<exists>rcs. snd (deliver_all sha s rs) = map Inr rcs \<and>
       map (\<lambda>rc. (rc_outcome rc, rc_observed rc)) rcs = watermark (ls_sequence s) rs \<and>
       list_all2 (\<lambda>rc r. receipt_valid_for sha rc r = None) rcs rs) \<and>
    (fst (deliver_all sha s rs) = s \<and> (\<forall>r \<in> set rs. lr_sequence r \<le> ls_sequence s) \<or>
     (\<exists>m \<in> set rs. fst (deliver_all sha s rs) = state_of (digest_of sha m) m \<and> ls_sequence s < lr_sequence m \<and>
        (\<forall>r \<in> set rs. lr_sequence r \<le> lr_sequence m)))"
proof (induction rs arbitrary: s)
  case (Cons r rs)
  have r: "r \<in> M" and v: "validate_lifecycle r = None" using Cons.prems(1) M by (auto simp: stream_ok_def)
  note D = decide_in_stream [OF M r Cons.prems(2) sha]
  show ?case
  proof (cases "ls_sequence s < lr_sequence r")
    case True
    let ?s = "state_of (digest_of sha r) r"
    have t: "tracks sha M ?s" using r by (auto simp: tracks_def)
    have "ls_sequence ?s = lr_sequence r" by (simp add: state_of_def)
    with Cons.IH [OF _ t] Cons.prems(1) obtain rcs where
      "snd (deliver_all sha ?s rs) = map Inr rcs" "map (\<lambda>rc. (rc_outcome rc, rc_observed rc)) rcs = watermark (lr_sequence r) rs"
      "list_all2 (\<lambda>rc r. receipt_valid_for sha rc r = None) rcs rs" and
      f: "fst (deliver_all sha ?s rs) = ?s \<and> (\<forall>r' \<in> set rs. lr_sequence r' \<le> lr_sequence r) \<or>
        (\<exists>m \<in> set rs. fst (deliver_all sha ?s rs) = state_of (digest_of sha m) m \<and> lr_sequence r < lr_sequence m \<and>
           (\<forall>r' \<in> set rs. lr_sequence r' \<le> lr_sequence m))" by auto
    moreover have "deliver_all sha s (r # rs) = (fst (deliver_all sha ?s rs),
        Inr (receipt_of (digest_of sha r) ''applied'' (lr_sequence r) r) # snd (deliver_all sha ?s rs))"
      using D True by (simp split: prod.splits)
    ultimately have "\<exists>rcs. snd (deliver_all sha s (r # rs)) = map Inr rcs \<and>
       map (\<lambda>rc. (rc_outcome rc, rc_observed rc)) rcs = watermark (ls_sequence s) (r # rs) \<and>
       list_all2 (\<lambda>rc r. receipt_valid_for sha rc r = None) rcs (r # rs)"
      using True receipt_of_valid [OF v]
      by (intro exI [of _ "receipt_of (digest_of sha r) ''applied'' (lr_sequence r) r # rcs"]) (simp add: receipt_of_def)
    moreover have "\<exists>m \<in> set (r # rs). fst (deliver_all sha s (r # rs)) = state_of (digest_of sha m) m \<and>
        ls_sequence s < lr_sequence m \<and> (\<forall>r' \<in> set (r # rs). lr_sequence r' \<le> lr_sequence m)"
      using f True D by (fastforce split: prod.splits)
    ultimately show ?thesis by blast
  next
    case False
    let ?o = "if lr_sequence r = ls_sequence s then ''duplicate'' else ''superseded''"
    from Cons.IH [OF _ Cons.prems(2)] Cons.prems(1) obtain rcs where
      "snd (deliver_all sha s rs) = map Inr rcs" "map (\<lambda>rc. (rc_outcome rc, rc_observed rc)) rcs = watermark (ls_sequence s) rs"
      "list_all2 (\<lambda>rc r. receipt_valid_for sha rc r = None) rcs rs" and
      f: "fst (deliver_all sha s rs) = s \<and> (\<forall>r' \<in> set rs. lr_sequence r' \<le> ls_sequence s) \<or>
        (\<exists>m \<in> set rs. fst (deliver_all sha s rs) = state_of (digest_of sha m) m \<and> ls_sequence s < lr_sequence m \<and>
           (\<forall>r' \<in> set rs. lr_sequence r' \<le> lr_sequence m))" by auto
    moreover have e: "deliver_all sha s (r # rs) = (fst (deliver_all sha s rs),
        Inr (receipt_of (digest_of sha r) ?o (ls_sequence s) r) # snd (deliver_all sha s rs))"
      using D False by (simp split: prod.splits)
    ultimately have "\<exists>rcs. snd (deliver_all sha s (r # rs)) = map Inr rcs \<and>
       map (\<lambda>rc. (rc_outcome rc, rc_observed rc)) rcs = watermark (ls_sequence s) (r # rs) \<and>
       list_all2 (\<lambda>rc r. receipt_valid_for sha rc r = None) rcs (r # rs)"
      using False receipt_of_valid [OF v]
      by (intro exI [of _ "receipt_of (digest_of sha r) ?o (ls_sequence s) r # rcs"]) (simp add: receipt_of_def)
    with f e False show ?thesis by fastforce
  qed
qed simp

text \<open>
  C6. The receiver refines a register of the greatest sequence: the messages of one stream, in any
  order and any number of times, are all answered without an error, by receipts that are valid for
  their messages and whose outcomes are those of the register, and what is left is the state of the
  latest of the messages delivered.
\<close>

theorem lifecycle_refines_watermark:
  assumes "stream_ok M" "set rs \<subseteq> M" "rs \<noteq> []" and "\<And>x. length (sha x) = 32"
  shows "(\<exists>rcs. snd (deliver_all sha zero_state rs) = map Inr rcs \<and>
       map (\<lambda>rc. (rc_outcome rc, rc_observed rc)) rcs = watermark 0 rs \<and>
       list_all2 (\<lambda>rc r. receipt_valid_for sha rc r = None) rcs rs) \<and>
    (\<exists>m \<in> set rs. (\<forall>r \<in> set rs. lr_sequence r \<le> lr_sequence m) \<and>
       fst (deliver_all sha zero_state rs) = state_of (digest_of sha m) m)"
proof -
  have "1 \<le> lr_sequence r" if "r \<in> set rs" for r
  proof -
    from that assms(1,2) have "validate_lifecycle r = None" by (auto simp: stream_ok_def)
    then show ?thesis by (simp add: validate_lifecycle_def split: if_splits)
  qed
  then have n: "\<not> (\<forall>r \<in> set rs. lr_sequence r \<le> 0)" using assms(3) by (cases rs) fastforce+
  have t: "tracks sha M zero_state" by (simp add: tracks_def)
  have z: "ls_sequence zero_state = 0" by (simp add: zero_state_def)
  note D = deliver_all_stream [OF assms(1,4,2) t, unfolded z]
  from conjunct2 [OF D] n have "\<exists>m \<in> set rs. (\<forall>r \<in> set rs. lr_sequence r \<le> lr_sequence m) \<and>
       fst (deliver_all sha zero_state rs) = state_of (digest_of sha m) m" by blast
  with conjunct1 [OF D] show ?thesis by (rule conjI)
qed

definition install_example :: lifecycle_request where
  "install_example = \<lparr>lr_protocol = lifecycle_protocol, lr_event = ''00000000-0000-4000-8000-000000000001'',
     lr_integration = ''00000000-0000-4000-8000-000000000002'', lr_project = ''00000000-0000-4000-8000-000000000003'',
     lr_installation = ''00000000-0000-4000-8000-000000000004'', lr_sequence = 1, lr_action = ''install'', lr_oauth = None\<rparr>"

definition uninstall_example :: lifecycle_request where
  "uninstall_example = install_example\<lparr>lr_event := ''00000000-0000-4000-8000-000000000005'', lr_sequence := 2, lr_action := ''uninstall''\<rparr>"

lemma uuid_matches_chars: "uuid_matches s \<longleftrightarrow> length s = 36 \<and> uuid_chars 0 s \<and> s \<noteq> zero_uuid"
  by (auto simp: uuid_matches_def uuid_regexp_chars)

lemmas example_defs = install_example_def uninstall_example_def uuid_matches_chars zero_uuid_def lower_hex_char_def is_digit_def

lemma examples_valid: "validate_lifecycle install_example = None" "validate_lifecycle uninstall_example = None"
  by (simp_all add: validate_lifecycle_def example_defs)

lemma lifecycle_refines_watermark_witness:
  "fst (deliver_all (\<lambda>_. replicate 32 CHR ''d'') zero_state [uninstall_example, install_example, uninstall_example]) =
     state_of (digest_of (\<lambda>_. replicate 32 CHR ''d'') uninstall_example) uninstall_example"
proof -
  have "stream_ok {install_example, uninstall_example}"
    using examples_valid by (simp add: stream_ok_def install_example_def uninstall_example_def)
  from lifecycle_refines_watermark [OF this, of "[uninstall_example, install_example, uninstall_example]"]
  show ?thesis by (auto simp: install_example_def uninstall_example_def)
qed

text \<open>
  The receiver remembers only the last lifetime: a closed one can be opened again with a higher
  sequence once another installation came in between.
\<close>

lemma closed_lifetime_reopens:
  assumes v: "validate_lifecycle a = None" "validate_lifecycle b = None" "validate_lifecycle c = None"
    and sha: "\<And>x. length (sha x) = 32"
    and p: "lr_project a = lr_project b" "lr_project b = lr_project c" "lr_integration a = lr_integration b" "lr_integration b = lr_integration c"
    and s: "lr_sequence a < lr_sequence b" "lr_sequence b < lr_sequence c" and e: "lr_event a \<noteq> lr_event b" "lr_event b \<noteq> lr_event c"
    and i: "lr_installation a \<noteq> lr_installation b" "lr_installation c = lr_installation a"
    and act: "lr_action a = ''uninstall''" "lr_action b = ''install''" "lr_action c = ''install''"
  shows "fst (deliver_all sha (state_of (digest_of sha a) a) [b, c]) = state_of (digest_of sha c) c"
proof -
  have va: "validate_state (state_of (digest_of sha a) a) = None" and vb: "validate_state (state_of (digest_of sha b) b) = None"
    by (rule state_of_valid [OF v(1) sha], rule state_of_valid [OF v(2) sha])
  have "decide_lifecycle sha (state_of (digest_of sha a) a) b =
      Inr (state_of (digest_of sha b) b, receipt_of (digest_of sha b) ''applied'' (lr_sequence b) b)"
    using v(2) va p s e i act by (simp add: decide_lifecycle_def digest_valid) (simp add: state_of_def)
  moreover have "decide_lifecycle sha (state_of (digest_of sha b) b) c =
      Inr (state_of (digest_of sha c) c, receipt_of (digest_of sha c) ''applied'' (lr_sequence c) c)"
    using v(3) vb p s e i act by (simp add: decide_lifecycle_def digest_valid) (simp add: state_of_def)
  ultimately show ?thesis by simp
qed

end
