(* ===== verification/LifecycleHttp.thy ===== *)
theory LifecycleHttp
  imports Lifecycle
begin

text \<open>
  \<open>src/integration/lifecycle_http.go\<close> and \<open>lifecycle_sender.go\<close>: the receiver's endpoint, the
  platform's sender, and the delivery of a message from one to the other.

  \<open>url.Parse\<close> is an argument, \<open>exchange\<close> what the HTTP client answers to the one request of a
  delivery (\<open>None\<close>: a transport error). \<open>from_seed\<close> is \<open>ed25519.NewKeyFromSeed\<close>.
\<close>

subsection \<open>Decoding\<close>

definition max_lifecycle_body :: nat where "max_lifecycle_body = 16384"

definition request_fields :: "(string \<times> bool) list" where
  "request_fields = [(''protocol'', True), (''eventId'', True), (''integrationId'', True), (''projectId'', True),
     (''installationId'', True), (''sequence'', True), (''action'', True), (''oauth'', False)]"

definition receipt_fields :: "(string \<times> bool) list" where
  "receipt_fields = [(''protocol'', True), (''eventId'', True), (''integrationId'', True), (''projectId'', True),
     (''installationId'', True), (''sequence'', True), (''requestDigest'', True), (''outcome'', True), (''observedSequence'', True)]"

definition dec_oauth :: "(string \<times> json \<times> string) list \<Rightarrow> settings option option" where
  "dec_oauth ms = (case map_of (map (\<lambda>(k, _, raw). (k, raw)) ms) ''oauth'' of
     None \<Rightarrow> Some None
   | Some raw \<Rightarrow> map_option Some (decode_settings raw))"

definition decode_request :: "string \<Rightarrow> lifecycle_request option" where
  "decode_request body = (case strict_members max_lifecycle_body request_fields body of None \<Rightarrow> None
   | Some rs \<Rightarrow> let ms = plain_members rs in
      (case (json_field ''protocol'' dec_string [] ms, json_field ''eventId'' dec_string [] ms,
          json_field ''integrationId'' dec_string [] ms, json_field ''projectId'' dec_string [] ms,
          json_field ''installationId'' dec_string [] ms, json_field ''sequence'' dec_int 0 ms,
          json_field ''action'' dec_string [] ms, dec_oauth rs) of
        (Some p, Some e, Some i, Some pr, Some inst, Some sq, Some act, Some oa) \<Rightarrow>
          Some \<lparr>lr_protocol = p, lr_event = e, lr_integration = i, lr_project = pr, lr_installation = inst,
            lr_sequence = sq, lr_action = act, lr_oauth = oa\<rparr>
      | _ \<Rightarrow> None))"

definition receipt_members :: "lifecycle_receipt \<Rightarrow> (string \<times> json) list" where
  "receipt_members r = [(''protocol'', JStr (rc_protocol r)), (''eventId'', JStr (rc_event r)),
     (''integrationId'', JStr (rc_integration r)), (''projectId'', JStr (rc_project r)),
     (''installationId'', JStr (rc_installation r)), (''sequence'', int_json (rc_sequence r)),
     (''requestDigest'', JStr (rc_digest r)), (''outcome'', JStr (rc_outcome r)), (''observedSequence'', int_json (rc_observed r))]"

definition receipt_json :: "lifecycle_receipt \<Rightarrow> json" where
  "receipt_json r = JObj (receipt_members r)"

definition decode_receipt :: "string \<Rightarrow> lifecycle_receipt option" where
  "decode_receipt body = (case strict_members max_lifecycle_body receipt_fields body of None \<Rightarrow> None
   | Some rs \<Rightarrow> let ms = plain_members rs in
      (case ((json_field ''protocol'' dec_string [] ms, json_field ''eventId'' dec_string [] ms,
          json_field ''integrationId'' dec_string [] ms, json_field ''projectId'' dec_string [] ms,
          json_field ''installationId'' dec_string [] ms), (json_field ''sequence'' dec_int 0 ms,
          json_field ''requestDigest'' dec_string [] ms, json_field ''outcome'' dec_string [] ms,
          json_field ''observedSequence'' dec_int 0 ms)) of
        ((Some p, Some e, Some i, Some pr, Some inst), (Some sq, Some d, Some oc, Some ob)) \<Rightarrow>
          Some \<lparr>rc_protocol = p, rc_event = e, rc_integration = i, rc_project = pr, rc_installation = inst,
            rc_sequence = sq, rc_digest = d, rc_outcome = oc, rc_observed = ob\<rparr>
      | _ \<Rightarrow> None))"

subsection \<open>The endpoint\<close>

definition lifecycle_answer :: "(string \<Rightarrow> string) \<Rightarrow> string \<Rightarrow> (lifecycle_request \<Rightarrow> (lifecycle_error, lifecycle_receipt) go_result) \<Rightarrow>
    string \<Rightarrow> response" where
  "lifecycle_answer sha integration_id fn body = (case decode_request body of
     None \<Rightarrow> json_error 400 ''invalid lifecycle request''
   | Some req \<Rightarrow>
       if validate_lifecycle req \<noteq> None \<or> (lr_action req = ''install'' \<and> lr_oauth req = None)
       then json_error 400 ''invalid lifecycle request''
       else if lr_integration req \<noteq> integration_id then json_error 403 ''wrong lifecycle recipient''
       else (case fn req of
           Inl e \<Rightarrow> if e = LifecycleConflict then json_error 409 ''lifecycle conflict''
             else json_error 503 ''lifecycle processing unavailable''
         | Inr receipt \<Rightarrow>
             if receipt_valid_for sha receipt req \<noteq> None then json_error 503 ''lifecycle receipt unavailable''
             else \<lparr>rs_status = 200, rs_json = Some (receipt_json receipt)\<rparr>))"

text \<open>\<open>http.MaxBytesReader\<close>: reading past the limit fails.\<close>

definition max_bytes :: "nat \<Rightarrow> inbound \<Rightarrow> inbound" where
  "max_bytes n r = (case in_body r of None \<Rightarrow> r
     | Some b \<Rightarrow> if n < length b then r\<lparr>in_body := None\<rparr> else r)"

definition serve_lifecycle :: "ed25519 \<Rightarrow> (string \<Rightarrow> string) \<Rightarrow> string \<Rightarrow> (lifecycle_request \<Rightarrow> (lifecycle_error, lifecycle_receipt) go_result) \<Rightarrow>
    http_reply option \<Rightarrow> time \<Rightarrow> string \<Rightarrow> inbound \<Rightarrow> verifier \<Rightarrow> response \<times> verifier" where
  "serve_lifecycle E sha integration_id fn jwks now http_method r v =
     (if http_method \<noteq> ''POST'' then (json_error 405 ''POST required'', v)
      else verified E lifecycle_protocol jwks now (lifecycle_answer sha integration_id fn) (max_bytes max_lifecycle_body r) v)"

definition handle_lifecycle :: "ed25519 \<Rightarrow> (string \<Rightarrow> string) \<Rightarrow> string \<Rightarrow> (lifecycle_request \<Rightarrow> (lifecycle_error, lifecycle_receipt) go_result) option \<Rightarrow>
    (http_reply option \<Rightarrow> time \<Rightarrow> string \<Rightarrow> inbound \<Rightarrow> verifier \<Rightarrow> response \<times> verifier) option" where
  "handle_lifecycle E sha integration_id fn = (case fn of None \<Rightarrow> None
     | Some fn \<Rightarrow> if \<not> uuid_matches integration_id then None else Some (serve_lifecycle E sha integration_id fn))"

subsection \<open>The sender\<close>

record url =
  u_scheme :: string
  u_user :: bool
  u_host :: string
  u_hostname :: string
  u_opaque :: string
  u_path :: string
  u_raw_path :: string
  u_raw_query :: string
  u_force_query :: bool
  u_fragment :: string

record lifecycle_sender =
  sn_key :: string
  sn_key_id :: string
  sn_allow_http :: bool

datatype delivery_error =
    MessageError lifecycle_error
  | DeliveryFailed
  | DeliveryCancelled
  | DeliveryStatus int string

definition new_lifecycle_sender :: "(string \<Rightarrow> string) \<Rightarrow> lifecycle_sender \<Rightarrow> lifecycle_sender option" where
  "new_lifecycle_sender from_seed cfg =
     (let k = sn_key_id cfg in
      if length (sn_key cfg) \<noteq> 64 \<or> length k = 0 \<or> 128 < length k \<or>
         list_ex (\<lambda>c. c \<in> {CHR 0x0D, CHR 0x0A, CHR 0x00}) k \<or> trim_space k \<noteq> k then None
      else if \<not> list_all (\<lambda>(r, _). 33 \<le> r \<and> r \<le> 126) (chunks k) then None
      else if sn_key cfg \<noteq> from_seed (take 32 (sn_key cfg)) then None
      else Some cfg)"

definition deliverable :: "bool \<Rightarrow> url option \<Rightarrow> bool" where
  "deliverable allow_http u = (case u of None \<Rightarrow> False
     | Some u \<Rightarrow> \<not> (u_hostname u = [] \<or> u_user u \<or> u_fragment u \<noteq> [] \<or> u_opaque u \<noteq> [] \<or>
         (u_scheme u \<noteq> ''https'' \<and> \<not> (allow_http \<and> u_scheme u = ''http''))))"

definition deliver :: "ed25519 \<Rightarrow> (string \<Rightarrow> string) \<Rightarrow> (string \<Rightarrow> url option) \<Rightarrow> time \<Rightarrow> bool \<Rightarrow> (inbound \<Rightarrow> http_reply option) \<Rightarrow>
    lifecycle_sender \<Rightarrow> string \<Rightarrow> lifecycle_request \<Rightarrow> (delivery_error, lifecycle_receipt) go_result" where
  "deliver E sha parse_url now ctx_done exchange sn destination req = (case validate_lifecycle req of
     Some e \<Rightarrow> Inl (MessageError e)
   | None \<Rightarrow>
       if \<not> deliverable (sn_allow_http sn) (parse_url destination) then Inl (MessageError LifecycleInvalid)
       else
         let body = write_json (request_json req); ts = format_timestamp now in
         (case exchange \<lparr>in_body = Some body, in_timestamp = ts,
              in_signature = sign_domain E (sn_key sn) lifecycle_protocol ts body, in_kid = sn_key_id sn\<rparr> of
            None \<Rightarrow> Inl (if ctx_done then DeliveryCancelled else DeliveryStatus 0 ''transport'')
          | Some reply \<Rightarrow>
              if hr_status reply \<noteq> 200 then Inl (DeliveryStatus (hr_status reply) ''http_status'')
              else (case decode_receipt (take (max_lifecycle_body + 1) (hr_body reply)) of
                  None \<Rightarrow> Inl (DeliveryStatus (hr_status reply) ''invalid_receipt'')
                | Some receipt \<Rightarrow>
                    if receipt_valid_for sha receipt req \<noteq> None
                    then Inl (DeliveryStatus (hr_status reply) ''invalid_receipt'')
                    else Inr receipt)))"

text \<open>The wire between the two: \<open>json.Encoder\<close> ends the answer with a line feed.\<close>

definition to_reply :: "response \<Rightarrow> http_reply" where
  "to_reply r = \<lparr>hr_status = rs_status r, hr_content_type = ''application/json'',
     hr_body = (case rs_json r of None \<Rightarrow> [] | Some j \<Rightarrow> write_json j @ [CHR 0x0A])\<rparr>"

subsection \<open>Reading back what was written\<close>

lemma skip_ws_written: "plain_json v \<Longrightarrow> skip_ws (write_json v @ t) = write_json v @ t"
  by (erule write_head) (simp add: skip_ws_id)

lemma raw_members_written:
  "list_all (\<lambda>m. plain (fst m) \<and> plain_json (snd m)) ms \<Longrightarrow> ms \<noteq> [] \<Longrightarrow> \<forall>m \<in> set ms. json_depth (snd m) + d \<le> max_depth \<Longrightarrow>
   length ms \<le> n \<Longrightarrow>
   parse_raw_members n d (join '','' (map (\<lambda>m. quote_string (fst m) @ '':'' @ write_json (snd m)) ms) @ CHR ''}'' # t) =
     Some (map (\<lambda>(k, v). (k, v, write_json v)) ms, t)"
proof (induction ms arbitrary: n)
  case (Cons m ms)
  obtain k v where m: "m = (k, v)" by (cases m)
  obtain i where n: "n = Suc i" "length ms \<le> i" using Cons.prems(4) by (cases n) auto
  from Cons.prems have pv: "plain_json v" and d: "json_depth v + d \<le> max_depth" and k: "plain k" by (simp_all add: m)
  note key = parse_string_plain [OF k]
  have val: "parse_value f d (write_json v @ u) = Some (v, u)" if "2 * length (write_json v) \<le> f" "stops u" for f u
    using readsD [OF parse_write [OF pv] d _ that(2)] fuel_length [OF pv] that(1) by simp
  show ?case
  proof (cases "ms = []")
    case True
    then show ?thesis
      by (simp add: n(1) m quote_plain [OF k] key val skip_ws_written [OF pv] Let_def del: parse_value.simps)
  next
    case False
    have "parse_raw_members i d (join '','' (map (\<lambda>m. quote_string (fst m) @ '':'' @ write_json (snd m)) ms) @ CHR ''}'' # t) =
        Some (map (\<lambda>(k, v). (k, v, write_json v)) ms, t)"
      using Cons.IH [of i] Cons.prems n(2) False by simp
    with False show ?thesis
      by (simp add: n(1) m join_Cons quote_plain [OF k] key val skip_ws_written [OF pv] Let_def del: parse_value.simps)
  qed
qed simp

declare parse_raw_members.simps [simp del]

lemma length_join_members:
  "ms \<noteq> [] \<Longrightarrow> length ms \<le> length (join '','' (map (\<lambda>m. quote_string (fst m) @ '':'' @ write_json (snd m)) ms))"
proof (induction ms)
  case (Cons m ms)
  then show ?case by (cases ms) auto
qed simp

lemma object_members_written:
  assumes "plain_json (JObj ms)" "json_depth (JObj ms) \<le> max_depth" "ms \<noteq> []" "skip_ws t = []"
  shows "object_members (write_json (JObj ms) @ t) = Some (map (\<lambda>(k, v). (k, v, write_json v)) ms)"
proof -
  let ?body = "join '','' (map (\<lambda>m. quote_string (fst m) @ '':'' @ write_json (snd m)) ms)"
  have depth: "\<forall>m \<in> set ms. json_depth (snd m) + 1 \<le> max_depth"
    using assms(2) foldr_max_le [of _ ms "\<lambda>m. json_depth (snd m)"] by fastforce
  obtain u where u: "?body @ CHR ''}'' # t = CHR 0x22 # u"
    using assms(1,3) quote_plain by (cases ms; cases "tl ms") auto
  have "length ms \<le> length (?body @ CHR ''}'' # t)" using length_join_members [OF assms(3)] by simp
  from raw_members_written [OF _ assms(3) depth this, where t = t] assms(1)
  have "parse_raw_members (length (CHR 0x22 # u)) 1 (CHR 0x22 # u) = Some (map (\<lambda>(k, v). (k, v, write_json v)) ms, t)"
    unfolding u by (simp add: list_all_iff)
  moreover have "write_json (JObj ms) @ t = CHR ''{'' # CHR 0x22 # u" using u by simp
  ultimately show ?thesis using assms(4) by (simp add: object_members_def)
qed

lemma chunks_ascii_all: "list_all (\<lambda>c. byte c < 0x80) s \<Longrightarrow> chunks s = map (\<lambda>c. (byte c, [c])) s"
  by (induction s) simp_all

lemma ascii_utf8: "list_all (\<lambda>c. byte c < 0x80) s \<Longrightarrow> valid_utf8 s"
  by (auto simp: valid_utf8_def chunks_ascii_all list_all_iff)

lemma plain_ascii: "plain s \<Longrightarrow> list_all (\<lambda>c. byte c < 0x80) s"
  unfolding plain_def by (erule list_all_mono) (simp add: plain_char_def)

lemma join_all: "list_all P sep \<Longrightarrow> \<forall>s \<in> set ss. list_all P s \<Longrightarrow> list_all P (join sep ss)"
  by (induction sep ss rule: join.induct) auto

lemma number_char_ascii: "number_char c \<Longrightarrow> byte c < 0x80"
  by (auto simp: number_char_def is_digit_def)

lemma write_json_ascii: "plain_json v \<Longrightarrow> list_all (\<lambda>c. byte c < 0x80) (write_json v)"
proof (induction v)
  case (JArr vs)
  then have "list_all (\<lambda>c. byte c < 0x80) (join '','' (map write_json vs))"
    by (intro join_all) (auto simp: list_all_iff)
  then show ?case by simp
next
  case (JObj ms)
  have "list_all (\<lambda>c. byte c < 0x80) (join '','' (map (\<lambda>m. quote_string (fst m) @ '':'' @ write_json (snd m)) ms))"
  proof (rule join_all)
    show "\<forall>s \<in> set (map (\<lambda>m. quote_string (fst m) @ '':'' @ write_json (snd m)) ms). list_all (\<lambda>c. byte c < 0x80) s"
    proof
      fix s assume "s \<in> set (map (\<lambda>m. quote_string (fst m) @ '':'' @ write_json (snd m)) ms)"
      then obtain m where m: "m \<in> set ms" "s = quote_string (fst m) @ '':'' @ write_json (snd m)" by auto
      with JObj.prems have "plain (fst m)" "plain_json (snd m)" by (auto simp: list_all_iff)
      with JObj.IH [of m "snd m"] m plain_ascii show "list_all (\<lambda>c. byte c < 0x80) s"
        by (cases m) (auto simp: quote_plain snds.simps)
    qed
  qed simp
  then show ?case by simp
next
  case (JNum s)
  then show ?case using list_all_mono [of number_char s] number_char_ascii by auto
next
  case (JStr s)
  then show ?case using plain_ascii by (simp add: quote_plain)
qed simp_all

lemma strict_members_written:
  assumes "plain_json (JObj ms)" "json_depth (JObj ms) \<le> max_depth" "ms \<noteq> []" "t = [] \<or> t = [CHR 0x0A]"
    and "length (write_json (JObj ms) @ t) \<le> n" "distinct (map fst ms)"
    and "list_all (\<lambda>(k, v). k \<in> fst ` set flds \<and> v \<noteq> JNull) ms" "list_all (\<lambda>(k, r). r \<longrightarrow> k \<in> fst ` set ms) flds"
  shows "strict_members n flds (write_json (JObj ms) @ t) = Some (map (\<lambda>(k, v). (k, v, write_json v)) ms)"
proof -
  have ws: "skip_ws t = []" using assms(4) by (auto simp: skip_ws_def ws_char_def)
  have "valid_utf8 (write_json (JObj ms) @ t)"
    using write_json_ascii [OF assms(1)] assms(4) by (intro ascii_utf8) (auto simp del: write_json.simps)
  moreover have "fst ` set (map (\<lambda>(k, v). (k, v, write_json v)) ms) = fst ` set ms" by force
  moreover have "map fst (map (\<lambda>(k, v). (k, v, write_json v)) ms) = map fst ms" by auto
  ultimately show ?thesis
    using object_members_written [OF assms(1-3) ws] assms(5-8)
    by (auto simp: strict_members_def list_all_iff split_beta simp del: write_json.simps map_map)
qed

lemma plain_members_written [simp]: "plain_members (map (\<lambda>(k, v). (k, v, write_json v)) ms) = ms"
  by (simp add: plain_members_def comp_def split_beta)

lemma raw_of_written: "map_of (map (\<lambda>(k, _, raw). (k, raw)) (map (\<lambda>(k, v). (k, v, write_json v)) ms)) k = map_option write_json (map_of ms k)"
  by (induction ms) auto

lemma lifecycle_keys:
  "fold_key ''protocol'' = ''protocol''" "fold_key ''eventId'' = ''eventid''" "fold_key ''integrationId'' = ''integrationid''"
  "fold_key ''projectId'' = ''projectid''" "fold_key ''installationId'' = ''installationid''" "fold_key ''sequence'' = ''sequence''"
  "fold_key ''action'' = ''action''" "fold_key ''oauth'' = ''oauth''" "fold_key ''clientId'' = ''clientid''"
  "fold_key ''keyId'' = ''keyid''" "fold_key ''accessVersion'' = ''accessversion''"
  "fold_key ''integrationAccessVersion'' = ''integrationaccessversion''" "fold_key ''grantVersion'' = ''grantversion''"
  "fold_key ''policyRevision'' = ''policyrevision''" "fold_key ''policyDigest'' = ''policydigest''"
  "fold_key ''requestDigest'' = ''requestdigest''" "fold_key ''outcome'' = ''outcome''"
  "fold_key ''observedSequence'' = ''observedsequence''"
  by (simp_all add: fold_key_def lower_char_def char_of_def bit_iff_odd)

lemma uuid_matches_plain: "uuid_matches s \<Longrightarrow> plain s" "uuid_matches s \<Longrightarrow> length s = 36"
  by (auto simp: uuid_matches_chars intro: uuid_plain)

lemma hex_val_plain: "hex_val c \<noteq> None \<Longrightarrow> plain_char c"
  by (auto simp: hex_val_def plain_char_def is_digit_def split: if_splits)

lemma valid_digest_plain: "valid_digest s \<Longrightarrow> plain s \<and> length s = 64"
proof -
  have "hex_decode s = Some b \<Longrightarrow> plain s \<and> length s = 2 * length b" for b
    by (induction s arbitrary: b rule: hex_decode.induct) (auto simp: hex_val_plain split: option.splits)
  then show "valid_digest s \<Longrightarrow> plain s \<and> length s = 64" by (auto simp: valid_digest_def split: option.splits)
qed

lemma length_itoa: "n < 10 ^ k \<Longrightarrow> 0 < k \<Longrightarrow> length (itoa n) \<le> k"
proof (induction n arbitrary: k rule: itoa.induct)
  case (1 n)
  show ?case
  proof (cases "n < 10")
    case True
    with 1 show ?thesis by (simp add: itoa.simps [of n])
  next
    case False
    with 1 obtain j where k: "k = Suc j" "0 < j" by (cases k; cases "k - 1") auto
    with 1 False have "length (itoa (n div 10)) \<le> j" by (intro 1(1)) auto
    with False k show ?thesis by (simp add: itoa.simps [of n])
  qed
qed

lemma length_format_int: "int64 n \<Longrightarrow> 1 \<le> n \<Longrightarrow> length (format_int n) \<le> 19"
proof -
  assume "int64 n" "1 \<le> n"
  then have "nat n < 10 ^ 19" by (simp add: int64_def)
  with length_itoa [of "nat n" 19] \<open>1 \<le> n\<close> show ?thesis by (simp add: format_int_def)
qed

text \<open>The integers are \<open>int64\<close>s; the key id needs no JSON escape.\<close>

definition settings_typed :: "settings \<Rightarrow> bool" where
  "settings_typed s \<longleftrightarrow> int64 (st_access_version s) \<and> int64 (st_integration_access_version s) \<and>
     int64 (st_grant_version s) \<and> int64 (st_policy_revision s) \<and> plain (st_key s)"

lemma settings_json_plain:
  assumes "settings_valid s" "settings_typed s"
  shows "plain_json (settings_json s)" "json_depth (settings_json s) = 1" "length (write_json (settings_json s)) \<le> 1000"
proof -
  have ids: "plain (st_integration s)" "plain (st_project s)" "plain (st_installation s)" "plain (st_client s)"
    "length (st_integration s) = 36" "length (st_project s) = 36" "length (st_installation s) = 36" "length (st_client s) = 36"
    "plain (st_policy_digest s)" "length (st_policy_digest s) = 64" "plain (st_key s)" "length (st_key s) \<le> 128"
    using assms uuid_matches_plain valid_digest_plain by (auto simp: settings_valid_def settings_typed_def ascii_identifier_def)
  have pos: "1 \<le> st_access_version s" "1 \<le> st_integration_access_version s" "1 \<le> st_grant_version s" "1 \<le> st_policy_revision s"
    using assms(1) by (auto simp: settings_valid_def)
  have i64: "int64 (st_access_version s)" "int64 (st_integration_access_version s)" "int64 (st_grant_version s)" "int64 (st_policy_revision s)"
    using assms(2) by (auto simp: settings_typed_def)
  show "plain_json (settings_json s)"
    using ids pos by (simp add: settings_json_def settings_members_def int_json_def format_int_plain plain_char_def)
  show "json_depth (settings_json s) = 1" by (simp add: settings_json_def settings_members_def int_json_def)
  have "length (write_json (settings_json s)) \<le> 600 + length (format_int (st_access_version s)) + length (format_int (st_integration_access_version s)) +
      length (format_int (st_grant_version s)) + length (format_int (st_policy_revision s))"
    using ids by (simp add: settings_json_def settings_members_def int_json_def quote_plain plain_char_def)
  then show "length (write_json (settings_json s)) \<le> 1000"
    using length_format_int [OF i64(1) pos(1)] length_format_int [OF i64(2) pos(2)] length_format_int [OF i64(3) pos(3)]
      length_format_int [OF i64(4) pos(4)] by linarith
qed

lemma settings_roundtrip:
  assumes "settings_valid s" "settings_typed s"
  shows "decode_settings (write_json (settings_json s)) = Some s"
proof -
  note P = settings_json_plain [OF assms]
  have "strict_members 8192 settings_fields (write_json (JObj (settings_members s)) @ []) =
      Some (map (\<lambda>(k, v). (k, v, write_json v)) (settings_members s))"
    by (rule strict_members_written)
      (use P in \<open>simp_all add: settings_json_def settings_members_def settings_fields_def max_depth_def int_json_def del: write_json.simps\<close>)
  moreover have "dec_settings_fields (settings_members s) = Some s"
    using assms(2) by (simp add: settings_members_def dec_settings_fields_def lifecycle_keys dec_int_json settings_typed_def)
  moreover have "write_json (settings_json s) \<noteq> []" using write_nonempty [OF P(1)] by simp
  ultimately show ?thesis using assms(1) by (simp add: decode_settings_def settings_json_def del: write_json.simps)
qed

definition request_typed :: "lifecycle_request \<Rightarrow> bool" where
  "request_typed r \<longleftrightarrow> int64 (lr_sequence r) \<and> (case lr_oauth r of None \<Rightarrow> True | Some s \<Rightarrow> settings_typed s)"

lemma request_json_plain:
  assumes "validate_lifecycle r = None" "request_typed r"
  shows "plain_json (request_json r)" "json_depth (request_json r) \<le> 2" "length (write_json (request_json r)) \<le> 2000"
proof -
  have ids: "plain (lr_event r)" "plain (lr_integration r)" "plain (lr_project r)" "plain (lr_installation r)"
    "length (lr_event r) = 36" "length (lr_integration r) = 36" "length (lr_project r) = 36" "length (lr_installation r) = 36"
    using assms(1) uuid_matches_plain by (auto simp: validate_lifecycle_def split: if_splits)
  have fixed: "lr_protocol r = lifecycle_protocol" "1 \<le> lr_sequence r" "lr_action r = ''install'' \<or> lr_action r = ''uninstall''"
    using assms(1) by (auto simp: validate_lifecycle_def split: if_splits)
  have act: "plain (lr_action r)" "length (lr_action r) \<le> 9" using fixed(3) by (auto simp: plain_char_def)
  have prot: "plain (lr_protocol r)" "length (lr_protocol r) = 32" by (simp_all add: fixed(1) lifecycle_protocol_def plain_char_def)
  have sq: "length (format_int (lr_sequence r)) \<le> 19"
    using length_format_int fixed(2) assms(2) by (simp add: request_typed_def)
  have oa: "plain_json (settings_json s)" "json_depth (settings_json s) = 1" "length (write_json (settings_json s)) \<le> 1000"
    if "lr_oauth r = Some s" for s
    using settings_json_plain [of s] assms that by (auto simp: validate_lifecycle_def request_typed_def split: if_splits)
  show "plain_json (request_json r)"
    using ids prot act fixed(2) oa(1)
    by (cases "lr_oauth r") (simp_all add: request_json_def request_members_def int_json_def format_int_plain plain_char_def)
  show "json_depth (request_json r) \<le> 2"
    using oa(2) by (cases "lr_oauth r") (simp_all add: request_json_def request_members_def int_json_def)
  have "length (write_json (request_json r)) \<le> 500 + length (format_int (lr_sequence r)) +
      (case lr_oauth r of None \<Rightarrow> 0 | Some s \<Rightarrow> length (write_json (settings_json s)))"
    using ids prot act
    by (cases "lr_oauth r") (simp_all add: request_json_def request_members_def int_json_def quote_plain plain_char_def)
  then show "length (write_json (request_json r)) \<le> 2000"
    using sq oa(3) by (cases "lr_oauth r") (simp, fastforce)
qed

lemma request_roundtrip:
  assumes "validate_lifecycle r = None" "request_typed r"
  shows "decode_request (write_json (request_json r)) = Some r"
proof -
  note P = request_json_plain [OF assms]
  have "strict_members max_lifecycle_body request_fields (write_json (JObj (request_members r)) @ []) =
      Some (map (\<lambda>(k, v). (k, v, write_json v)) (request_members r))"
    by (rule strict_members_written; cases "lr_oauth r")
      (use P in \<open>simp_all add: request_json_def request_members_def request_fields_def max_depth_def max_lifecycle_body_def int_json_def
         settings_json_def del: write_json.simps\<close>)
  moreover have "dec_oauth (map (\<lambda>(k, v). (k, v, write_json v)) (request_members r)) = Some (lr_oauth r)"
  proof (cases "lr_oauth r")
    case None
    then show ?thesis by (simp only: dec_oauth_def raw_of_written) (simp add: request_members_def)
  next
    case (Some s)
    have "decode_settings (write_json (settings_json s)) = Some s"
      using assms Some by (intro settings_roundtrip) (auto simp: validate_lifecycle_def request_typed_def split: if_splits)
    with Some show ?thesis by (simp only: dec_oauth_def raw_of_written) (simp add: request_members_def)
  qed
  moreover have "json_field ''protocol'' dec_string [] (request_members r) = Some (lr_protocol r)"
    "json_field ''eventId'' dec_string [] (request_members r) = Some (lr_event r)"
    "json_field ''integrationId'' dec_string [] (request_members r) = Some (lr_integration r)"
    "json_field ''projectId'' dec_string [] (request_members r) = Some (lr_project r)"
    "json_field ''installationId'' dec_string [] (request_members r) = Some (lr_installation r)"
    "json_field ''sequence'' dec_int 0 (request_members r) = Some (lr_sequence r)"
    "json_field ''action'' dec_string [] (request_members r) = Some (lr_action r)"
    using assms(2) by (cases "lr_oauth r"; simp add: request_members_def lifecycle_keys dec_int_json request_typed_def settings_json_def)+
  ultimately show ?thesis
    by (simp only: decode_request_def request_json_def append_Nil2 option.simps plain_members_written Let_def prod.case) simp
qed

lemma receipt_roundtrip:
  assumes v: "validate_lifecycle r = None" and t: "request_typed r" and sha: "\<And>x. length (sha x) = 32"
    and oc: "oc \<in> {''applied'', ''duplicate'', ''superseded''}" and n: "1 \<le> n" "int64 n"
  defines "rc \<equiv> receipt_of (digest_of sha r) oc n r"
  shows "decode_receipt (take (max_lifecycle_body + 1) (write_json (receipt_json rc) @ [CHR 0x0A])) = Some rc"
proof -
  have ids: "plain (lr_event r)" "plain (lr_integration r)" "plain (lr_project r)" "plain (lr_installation r)"
    "length (lr_event r) = 36" "length (lr_integration r) = 36" "length (lr_project r) = 36" "length (lr_installation r) = 36"
    and sq: "1 \<le> lr_sequence r"
    using v uuid_matches_plain by (auto simp: validate_lifecycle_def split: if_splits)
  have "valid_digest (digest_of sha r)" unfolding digest_of_def by (rule valid_digest_hex) (rule sha)
  then have d: "plain (digest_of sha r)" "length (digest_of sha r) = 64" using valid_digest_plain by auto
  have o: "plain oc" "length oc \<le> 10" using oc by (auto simp: plain_char_def)
  have prot: "plain lifecycle_protocol" "length lifecycle_protocol = 32" by (simp_all add: lifecycle_protocol_def plain_char_def)
  have i64: "int64 (lr_sequence r)" using t by (simp add: request_typed_def)
  let ?ms = "receipt_members rc"
  have plain: "plain_json (JObj ?ms)"
    using ids prot d o sq n(1) by (simp add: rc_def receipt_of_def receipt_members_def int_json_def format_int_plain plain_char_def)
  have "length (write_json (JObj ?ms) @ [CHR 0x0A]) \<le> 800 + length (format_int (lr_sequence r)) + length (format_int n)"
    using ids prot d o by (simp add: rc_def receipt_of_def receipt_members_def int_json_def quote_plain plain_char_def)
  then have len: "length (write_json (JObj ?ms) @ [CHR 0x0A]) \<le> max_lifecycle_body"
    using length_format_int [OF i64 sq] length_format_int [OF n(2,1)] by (simp add: max_lifecycle_body_def)
  have "strict_members max_lifecycle_body receipt_fields (write_json (JObj ?ms) @ [CHR 0x0A]) =
      Some (map (\<lambda>(k, v). (k, v, write_json v)) ?ms)"
    by (rule strict_members_written)
      (use plain len in \<open>simp_all add: receipt_members_def receipt_fields_def max_depth_def int_json_def del: write_json.simps\<close>)
  moreover have "json_field ''protocol'' dec_string [] ?ms = Some (rc_protocol rc)"
    "json_field ''eventId'' dec_string [] ?ms = Some (rc_event rc)"
    "json_field ''integrationId'' dec_string [] ?ms = Some (rc_integration rc)"
    "json_field ''projectId'' dec_string [] ?ms = Some (rc_project rc)"
    "json_field ''installationId'' dec_string [] ?ms = Some (rc_installation rc)"
    "json_field ''sequence'' dec_int 0 ?ms = Some (rc_sequence rc)"
    "json_field ''requestDigest'' dec_string [] ?ms = Some (rc_digest rc)"
    "json_field ''outcome'' dec_string [] ?ms = Some (rc_outcome rc)"
    "json_field ''observedSequence'' dec_int 0 ?ms = Some (rc_observed rc)"
    using i64 n(2) by (simp_all add: receipt_members_def lifecycle_keys dec_int_json rc_def receipt_of_def)
  ultimately have "decode_receipt (write_json (receipt_json rc) @ [CHR 0x0A]) = Some rc"
    by (simp only: decode_receipt_def receipt_json_def option.simps plain_members_written Let_def prod.case) simp
  moreover have "take (max_lifecycle_body + 1) (write_json (receipt_json rc) @ [CHR 0x0A]) = write_json (receipt_json rc) @ [CHR 0x0A]"
    using len by (intro take_all) (simp add: receipt_json_def del: write_json.simps)
  ultimately show ?thesis by simp
qed

lemma decide_receipt:
  assumes "decide_lifecycle sha cur r = Inr (st, rc)" "1 \<le> lr_sequence r"
  obtains oc n where "rc = receipt_of (digest_of sha r) oc n r" "validate_lifecycle r = None"
    "receipt_valid_for sha rc r = None" "oc \<in> {''applied'', ''duplicate'', ''superseded''}" "1 \<le> n"
    "n = lr_sequence r \<or> n = ls_sequence cur"
proof -
  from assms(1) have v: "validate_lifecycle r = None"
    by (auto simp: decide_lifecycle_def lifecycle_digest_def split: option.splits)
  consider "rc = receipt_of (digest_of sha r) ''superseded'' (ls_sequence cur) r" "lr_sequence r < ls_sequence cur"
    | "rc = receipt_of (digest_of sha r) ''duplicate'' (ls_sequence cur) r" "lr_sequence r = ls_sequence cur"
    | "rc = receipt_of (digest_of sha r) ''applied'' (lr_sequence r) r"
    using assms(1) by (auto simp: decide_lifecycle_def digest_valid [OF v] split: option.splits if_splits)
  then show thesis
  proof cases
    case 1
    show thesis by (rule that [OF 1(1) v]) (use 1 assms(2) receipt_of_valid [OF v] in auto)
  next
    case 2
    show thesis by (rule that [OF 2(1) v]) (use 2 assms(2) receipt_of_valid [OF v] in auto)
  next
    case 3
    show thesis by (rule that [OF 3 v]) (use 3 assms(2) receipt_of_valid [OF v] in auto)
  qed
qed

text \<open>
  C5. A delivery end to end: the receipt the receiver decided on is what the sender gets, for
  every message the receiver can decide, when the receiver's key set gives the sender's public key
  for its key id, the clocks agree up to the window of the verifier, the message is for this
  integration, and an install carries its OAuth settings. Signing, transport encoding, strict
  decoding and the receipt checks on both sides are all those of the code.
\<close>

theorem delivery_end_to_end:
  assumes E: "ed_ok E" and sha: "\<And>x. length (sha x) = 32"
    and dec: "decide_lifecycle sha cur req = Inr (st, rc)" and typed: "request_typed req" "int64 (ls_sequence cur)"
    and oauth: "lr_action req = ''install'' \<longrightarrow> lr_oauth req \<noteq> None"
    and url: "deliverable (sn_allow_http sn) (parse_url destination)"
    and key: "fst (key_of jwks now (sn_key_id sn) (vf_keys v)) = Inr (ed_public E (sn_key sn))"
    and time: "check_timestamp (format_timestamp sent) (vf_window v) now = None"
    and limit: "2000 \<le> vf_max_body v" "vf_max_body v < 2 ^ 63 - 1"
  shows "deliver E sha parse_url sent ctx_done
      (\<lambda>r. Some (to_reply (fst (serve_lifecycle E sha (lr_integration req) (\<lambda>q. map_sum id snd (decide_lifecycle sha cur q))
         jwks now ''POST'' r v)))) sn destination req = Inr rc"
proof -
  from dec have "validate_lifecycle req = None" by (auto simp: decide_lifecycle_def lifecycle_digest_def split: option.splits)
  then have "1 \<le> lr_sequence req" by (simp add: validate_lifecycle_def split: if_splits)
  from decide_receipt [OF dec this] obtain oc n where R: "rc = receipt_of (digest_of sha req) oc n req"
    "validate_lifecycle req = None" "receipt_valid_for sha rc req = None" "oc \<in> {''applied'', ''duplicate'', ''superseded''}"
    "1 \<le> n" "n = lr_sequence req \<or> n = ls_sequence cur" .
  have "int64 n" using R(6) typed by (auto simp: request_typed_def)
  then have reread: "decode_receipt (take (max_lifecycle_body + 1) (write_json (receipt_json rc) @ [CHR 0x0A])) = Some rc"
    unfolding R(1) using R(2,4,5) typed(1) sha by (intro receipt_roundtrip)
  define body where "body = write_json (request_json req)"
  define ts where "ts = format_timestamp sent"
  define inb where "inb = \<lparr>in_body = Some body, in_timestamp = ts,
    in_signature = sign_domain E (sn_key sn) lifecycle_protocol ts body, in_kid = sn_key_id sn\<rparr>"
  have len: "length body \<le> 2000" unfolding body_def by (rule request_json_plain(3) [OF R(2) typed(1)])
  have mb: "max_bytes max_lifecycle_body inb = inb" using len by (simp add: max_bytes_def inb_def max_lifecycle_body_def)
  have ts0: "ts \<noteq> []" unfolding ts_def format_timestamp_def format_int_def by simp
  have sig0: "in_signature inb \<noteq> []"
  proof
    assume "in_signature inb = []"
    then have "b64std_decode [] = Some (ed_sign E (sn_key sn) (domain_input lifecycle_protocol ts body))"
      by (metis b64_decode_encode inb_def inbound.select_convs(3) sign_domain_def)
    moreover have "length (ed_sign E (sn_key sn) (domain_input lifecycle_protocol ts body)) = 64" using E by (simp add: ed_ok_def)
    ultimately show False by (simp add: b64_decode_def)
  qed
  obtain ks where K: "key_of jwks now (sn_key_id sn) (vf_keys v) = (Inr (ed_public E (sn_key sn)), ks)"
    using key by (metis prod.collapse)
  have read: "limit_read (wrap64 (vf_max_body v + 1)) body = body"
    using limit len by (simp add: limit_read_def int64_def)
  have ver: "verify_domain E (ed_public E (sn_key sn)) lifecycle_protocol ts body (in_signature inb) = None"
    unfolding verify_domain_def inb_def inbound.select_convs sign_domain_def by (rule verify_input_sign [OF E])
  have "verify_request E lifecycle_protocol jwks now inb v = (Inr (body, sn_key_id sn), v\<lparr>vf_keys := ks\<rparr>)"
    using ts0 sig0 K read limit len time ver
    by (simp add: verify_request_def inb_def ts_def lifecycle_protocol_def)
  then have ans: "fst (serve_lifecycle E sha (lr_integration req) (\<lambda>q. map_sum id snd (decide_lifecycle sha cur q)) jwks now ''POST'' inb v) =
      lifecycle_answer sha (lr_integration req) (\<lambda>q. map_sum id snd (decide_lifecycle sha cur q)) body"
    by (simp add: serve_lifecycle_def verified_def mb)
  have "lifecycle_answer sha (lr_integration req) (\<lambda>q. map_sum id snd (decide_lifecycle sha cur q)) body =
      \<lparr>rs_status = 200, rs_json = Some (receipt_json rc)\<rparr>"
    using request_roundtrip [OF R(2) typed(1)] R(2,3) oauth dec by (auto simp: lifecycle_answer_def body_def)
  with ans have "to_reply (fst (serve_lifecycle E sha (lr_integration req) (\<lambda>q. map_sum id snd (decide_lifecycle sha cur q)) jwks now ''POST'' inb v)) =
      \<lparr>hr_status = 200, hr_content_type = ''application/json'', hr_body = write_json (receipt_json rc) @ [CHR 0x0A]\<rparr>"
    by (simp add: to_reply_def)
  then show ?thesis
    using R(2,3) url reread by (simp add: deliver_def Let_def del: take_append flip: body_def ts_def inb_def)
qed

lemma delivery_end_to_end_witness:
  "\<exists>parse_url sn v rc. deliver any_cipher (\<lambda>_. replicate 32 CHR ''d'') parse_url 0 False
      (\<lambda>r. Some (to_reply (fst (serve_lifecycle any_cipher (\<lambda>_. replicate 32 CHR ''d'') (lr_integration uninstall_example)
         (\<lambda>q. map_sum id snd (decide_lifecycle (\<lambda>_. replicate 32 CHR ''d'') zero_state q)) None 0 ''POST'' r v)))) sn ''u'' uninstall_example =
    Inr rc \<and> rc_outcome rc = ''applied''"
proof -
  let ?sha = "\<lambda>_. replicate 32 CHR ''d''"
  let ?sn = "\<lparr>sn_key = [], sn_key_id = ''k'', sn_allow_http = False\<rparr>"
  let ?v = "(new_verifier \<lparr>vc_jwks_url = [], vc_window = 0, vc_cache_ttl = 0, vc_max_body = 0\<rparr>)
     \<lparr>vf_keys := (new_key_set [] 1)\<lparr>ks_by_kid := [(''k'', ed_public any_cipher [])], ks_fetched_at := Some 0\<rparr>\<rparr>"
  let ?url = "\<lambda>_. Some \<lparr>u_scheme = ''https'', u_user = False, u_host = ''h'', u_hostname = ''h'', u_opaque = [], u_path = [],
     u_raw_path = [], u_raw_query = [], u_force_query = False, u_fragment = []\<rparr>"
  have dec: "decide_lifecycle ?sha zero_state uninstall_example = Inr (state_of (digest_of ?sha uninstall_example) uninstall_example,
      receipt_of (digest_of ?sha uninstall_example) ''applied'' 2 uninstall_example)"
    using examples_valid(2)
    by (simp add: decide_lifecycle_def digest_valid validate_state_def zero_state_def uninstall_example_def install_example_def)
  have t: "check_timestamp (format_timestamp 0) (vf_window ?v) 0 = None"
    using atoi_format_int [of 0]
    by (simp add: check_timestamp_def format_timestamp_def unix_seconds_def int64_def unix_time_def time_sub_def
        new_verifier_def default_window_def second_def)
  have "deliver any_cipher ?sha ?url 0 False
      (\<lambda>r. Some (to_reply (fst (serve_lifecycle any_cipher ?sha (lr_integration uninstall_example)
         (\<lambda>q. map_sum id snd (decide_lifecycle ?sha zero_state q)) None 0 ''POST'' r ?v)))) ?sn ''u'' uninstall_example =
      Inr (receipt_of (digest_of ?sha uninstall_example) ''applied'' 2 uninstall_example)"
    by (rule delivery_end_to_end [OF any_cipher_ok _ dec _ _ _ _ _ t])
      (simp_all add: uninstall_example_def install_example_def request_typed_def int64_def zero_state_def deliverable_def
        key_of_def lookup_key_def keys_fresh_def new_key_set_def new_verifier_def default_max_inbound_body_def)
  then show ?thesis by (force simp: receipt_of_def)
qed

end
