(* ===== verification/OAuth.thy ===== *)
theory OAuth
  imports LifecycleHttp
begin

text \<open>
  \<open>src/integrationoauth/provider.go\<close>, \<open>token_http.go\<close>, \<open>application.go\<close>: the token provider. One
  acquisition per key is under way at a time (a flight, by its number), all callers of the key wait
  for it; tokens are cached until their refresh time, the least recently used entry gives way.

  The steps of the provider are the sections under its mutex: \<open>token_enter\<close> (until the caller
  waits), \<open>token_leave\<close> (its context ends first), \<open>token_done\<close> (the flight is done), \<open>acquire_done\<close> (the
  goroutine of the flight), \<open>invalidate\<close>. \<open>url.Parse\<close>, \<open>mime.ParseMediaType\<close> and the HTTP exchange are
  arguments; \<open>client_timeout\<close> is the timeout of the caller's HTTP client, 0 without one.
\<close>

subsection \<open>Requests\<close>

datatype oauth_error =
    ErrConfig
  | ErrRequest
  | ErrCapacity
  | ErrContext \<comment> \<open>the error of the caller's context\<close>
  | TokenError int string
  | TokenContext \<comment> \<open>\<open>ErrToken\<close> wrapping the error of the acquisition's context\<close>

record token_request =
  tr_project :: string
  tr_installation :: string
  tr_audience :: string
  tr_scopes :: "string list"

record cache_key =
  ck_project :: string
  ck_installation :: string
  ck_audience :: string
  ck_scopes :: string
  ck_kind :: string

record token =
  tk_value :: string
  tk_expires :: time
  tk_scope :: string

text \<open>\<open>slices.Sort\<close> on strings.\<close>

fun insert_sorted :: "string \<Rightarrow> string list \<Rightarrow> string list" where
  "insert_sorted s [] = [s]"
| "insert_sorted s (t # ts) = (if str_less t s then t # insert_sorted s ts else s # t # ts)"

definition sorted_strings :: "string list \<Rightarrow> string list" where
  "sorted_strings ss = foldr insert_sorted ss []"

definition canonical_uuid :: "string \<Rightarrow> bool" where
  "canonical_uuid s \<longleftrightarrow> length s = 36 \<and> s \<noteq> zero_uuid \<and> uuid_chars 0 s"

text \<open>The loop over the sorted scopes; \<open>prev\<close> is the one before.\<close>

fun check_scopes :: "string option \<Rightarrow> string list \<Rightarrow> bool" where
  "check_scopes prev [] = True"
| "check_scopes prev (s # ss) =
     (ascii_identifier s 128 \<and> \<not> list_ex (\<lambda>c. c = CHR 0x22 \<or> c = CHR 0x5C) s \<and> prev \<noteq> Some s \<and> check_scopes (Some s) ss)"

definition normalize_scopes :: "string list \<Rightarrow> (oauth_error, string) go_result" where
  "normalize_scopes scopes =
     guardR (scopes = [] \<or> 128 < length scopes) ErrRequest
    (guardR (\<not> check_scopes None (sorted_strings scopes)) ErrRequest
    (guardR (4096 < length (join '' '' (sorted_strings scopes))) ErrRequest
    (Inr (join '' '' (sorted_strings scopes)))))"

definition control_rune :: "nat \<Rightarrow> bool" where
  "control_rune r \<longleftrightarrow> r < 0x20 \<or> (0x7F \<le> r \<and> r < 0xA0)"

definition request_key :: "token_request \<Rightarrow> (oauth_error, cache_key) go_result" where
  "request_key r =
     guardR (\<not> canonical_uuid (tr_project r) \<or> \<not> canonical_uuid (tr_installation r) \<or> tr_audience r = [] \<or>
       256 < length (tr_audience r) \<or> \<not> valid_utf8 (tr_audience r) \<or>
       list_ex (\<lambda>(c, _). is_space_rune c \<or> control_rune c) (chunks (tr_audience r))) ErrRequest
    (bindR (normalize_scopes (tr_scopes r)) (\<lambda>joined.
      Inr \<lparr>ck_project = tr_project r, ck_installation = tr_installation r, ck_audience = tr_audience r,
        ck_scopes = joined, ck_kind = []\<rparr>))"

definition application_request_key :: "string \<Rightarrow> (oauth_error, cache_key) go_result" where
  "application_request_key audience =
     guardR (audience \<noteq> ''catalog'' \<and> audience \<noteq> ''links'') ErrRequest
    (Inr \<lparr>ck_project = [], ck_installation = [], ck_audience = audience, ck_scopes = [], ck_kind = ''application''\<rparr>)"

subsection \<open>Token responses\<close>

definition valid_profile_bearer :: "string \<Rightarrow> string \<Rightarrow> bool" where
  "valid_profile_bearer value prefix \<longleftrightarrow> length value = length prefix + 43 \<and> has_prefix prefix value \<and>
     (case b64_decode True True (drop (length prefix) value) of None \<Rightarrow> False | Some e \<Rightarrow> length e = 32)"

text \<open>\<open>strings.ToLower\<close> where the result can be ASCII: two runes beyond ASCII have an ASCII lower case.\<close>

definition lower_key :: "string \<Rightarrow> string" where
  "lower_key s = concat (map (\<lambda>(r, b). if r = 0x212A then ''k'' else if r = 0x130 then ''i'' else map lower_char b) (chunks s))"

definition token_fields :: "string list" where
  "token_fields = [''access_token'', ''token_type'', ''expires_in'', ''scope'']"

definition present :: "(string \<times> json) list \<Rightarrow> string \<Rightarrow> bool" where
  "present ms k \<longleftrightarrow> (case map_of ms k of None \<Rightarrow> False | Some v \<Rightarrow> v \<noteq> JNull)"

definition invalid_response :: oauth_error where
  "invalid_response = TokenError 200 ''invalid_response''"

definition decode_profile_token :: "string \<Rightarrow> string \<Rightarrow> string \<Rightarrow> bool \<Rightarrow> (oauth_error, token \<times> duration) go_result" where
  "decode_profile_token raw requested prefix application =
     guardR (16384 < length raw) invalid_response
    (case object_members raw of None \<Rightarrow> Inl invalid_response
     | Some rs \<Rightarrow> let ms = plain_members rs in
        guardR (\<not> distinct (map fst ms)) invalid_response
       (guardR (list_ex (\<lambda>(k, _). lower_key k \<in> set token_fields \<and> k \<noteq> lower_key k) ms) invalid_response
       (guardR (\<not> list_all (present ms) [''access_token'', ''token_type'', ''expires_in'']) invalid_response
       (guardR (\<not> application \<and> \<not> present ms ''scope'') invalid_response
       (guardR (application \<and> map_of ms ''scope'' \<noteq> None \<and> map_of ms ''scope'' \<noteq> Some (JStr [])) invalid_response
       (case (case map_of ms ''access_token'' of Some (JStr v) \<Rightarrow> Some v | _ \<Rightarrow> None) of None \<Rightarrow> Inl invalid_response
        | Some value \<Rightarrow>
           guardR (\<not> valid_profile_bearer value prefix) invalid_response
          (guardR (map_of ms ''token_type'' \<noteq> Some (JStr ''Bearer'')) invalid_response
          (case (case map_of ms ''expires_in'' of Some v \<Rightarrow> dec_int v | None \<Rightarrow> None) of None \<Rightarrow> Inl invalid_response
           | Some seconds \<Rightarrow>
              guardR (seconds < 1 \<or> 300 < seconds) invalid_response
             (if application then Inr (\<lparr>tk_value = value, tk_expires = zero_time, tk_scope = []\<rparr>, seconds * second)
              else (case map_of ms ''scope'' of
                 Some (JStr scope) \<Rightarrow>
                   (case normalize_scopes (split_on CHR 0x20 scope) of
                      Inr canonical \<Rightarrow> if canonical \<noteq> requested then Inl invalid_response
                        else Inr (\<lparr>tk_value = value, tk_expires = zero_time, tk_scope = canonical\<rparr>, seconds * second)
                    | Inl _ \<Rightarrow> Inl invalid_response)
               | _ \<Rightarrow> Inl invalid_response))))))))))"

subsection \<open>Acquisition\<close>

record provider_cfg =
  pc_client_id :: string
  pc_key_id :: string
  pc_private_key :: string
  pc_endpoint :: string
  pc_client_timeout :: duration
  pc_max_entries :: int

record cache_entry =
  en_token :: token
  en_refresh :: time
  en_used :: nat

record flight =
  fl_waiters :: nat
  fl_cancelled :: bool
  fl_result :: "(oauth_error, token) go_result option" \<comment> \<open>\<open>None\<close> until \<open>done\<close> is closed\<close>

record provider =
  pv_client_id :: string
  pv_key_id :: string
  pv_endpoint :: string
  pv_private_key :: string
  pv_timeout :: duration
  pv_max_entries :: nat
  pv_cache :: "(cache_key \<times> cache_entry) list"
  pv_flights :: "(cache_key \<times> nat) list"
  pv_flight :: "nat \<Rightarrow> flight"
  pv_next :: nat
  pv_sequence :: nat

definition https_url :: "url \<Rightarrow> bool" where
  "https_url u \<longleftrightarrow> u_scheme u = ''https'' \<and> u_hostname u \<noteq> [] \<and> \<not> u_user u \<and> u_opaque u = [] \<and> u_fragment u = []"

definition bounded_timeout :: "duration \<Rightarrow> duration" where
  "bounded_timeout t = (if t \<le> 0 then 30 * second else t)"

definition new_provider :: "(string \<Rightarrow> string) \<Rightarrow> (string \<Rightarrow> url option) \<Rightarrow> provider_cfg \<Rightarrow> (oauth_error, provider) go_result" where
  "new_provider from_seed parse_url cfg =
     guardR (\<not> canonical_uuid (pc_client_id cfg) \<or> \<not> ascii_identifier (pc_key_id cfg) 128 \<or> length (pc_private_key cfg) \<noteq> 64 \<or>
       pc_private_key cfg \<noteq> from_seed (take 32 (pc_private_key cfg))) ErrConfig
    (case parse_url (pc_endpoint cfg) of None \<Rightarrow> Inl ErrConfig
     | Some u \<Rightarrow>
        guardR (\<not> https_url u \<or> u_path u = [] \<or> u_raw_query u \<noteq> [] \<or> u_force_query u \<or> CHR ''#'' \<in> set (pc_endpoint cfg) \<or>
          2048 < length (pc_endpoint cfg)) ErrConfig
       (let n = (if pc_max_entries cfg = 0 then 1024 else pc_max_entries cfg) in
        guardR (n < 1 \<or> 10000 < n) ErrConfig
       (guardR (30 * second < bounded_timeout (pc_client_timeout cfg)) ErrConfig
       (Inr \<lparr>pv_client_id = pc_client_id cfg, pv_key_id = pc_key_id cfg, pv_endpoint = pc_endpoint cfg,
          pv_private_key = pc_private_key cfg, pv_timeout = bounded_timeout (pc_client_timeout cfg), pv_max_entries = nat n,
          pv_cache = [], pv_flights = [], pv_flight = (\<lambda>_. \<lparr>fl_waiters = 0, fl_cancelled = False, fl_result = None\<rparr>),
          pv_next = 0, pv_sequence = 0\<rparr>))))"

definition assertion :: "ed25519 \<Rightarrow> provider \<Rightarrow> string \<Rightarrow> time \<Rightarrow> string" where
  "assertion E p entropy now =
     (let h = write_json (JObj [(''alg'', JStr ''EdDSA''), (''kid'', JStr (pv_key_id p)), (''typ'', JStr ''JWT'')]);
          c = write_json (JObj [(''iss'', JStr (pv_client_id p)), (''sub'', JStr (pv_client_id p)), (''aud'', JStr (pv_endpoint p)),
            (''iat'', int_json (unix_seconds now)), (''exp'', int_json (unix_seconds now + 60)), (''jti'', JStr (b64url entropy))]);
          input = b64url h @ ''.'' @ b64url c
      in input @ ''.'' @ b64url (ed_sign E (pv_private_key p) input))"

definition token_form :: "provider \<Rightarrow> cache_key \<Rightarrow> string \<Rightarrow> (string \<times> string) list" where
  "token_form p key a =
     [(''grant_type'', ''client_credentials''), (''client_id'', pv_client_id p),
      (''client_assertion_type'', ''urn:ietf:params:oauth:client-assertion-type:jwt-bearer''), (''client_assertion'', a)] @
     (if ck_kind key = ''application'' then [(''audience'', ck_audience key), (''tokenKind'', ''application'')]
      else [(''projectId'', ck_project key), (''installationId'', ck_installation key), (''audience'', ck_audience key),
        (''scope'', ck_scopes key)])"

definition transport_error :: "bool \<Rightarrow> string \<Rightarrow> oauth_error" where
  "transport_error ctx_done code = (if ctx_done then TokenContext else TokenError 0 code)"

text \<open>
  \<open>entropy\<close> is \<open>None\<close> when the random source fails; \<open>exchange\<close> answers the form, with a flag that tells
  whether the body could be read; \<open>jitter\<close> is \<open>Int64N\<close>: below its argument.
\<close>

definition fetch :: "ed25519 \<Rightarrow> (string \<Rightarrow> string option) \<Rightarrow> string option \<Rightarrow> time \<Rightarrow> time \<Rightarrow> bool \<Rightarrow>
    ((string \<times> string) list \<Rightarrow> (http_reply \<times> bool) option) \<Rightarrow> (int \<Rightarrow> int) \<Rightarrow> provider \<Rightarrow> cache_key \<Rightarrow>
    (oauth_error, token \<times> time) go_result" where
  "fetch E media_type entropy started received ctx_done exchange jitter p key = (case entropy of
     None \<Rightarrow> Inl (TokenError 0 ''entropy'')
   | Some en \<Rightarrow> (case exchange (token_form p key (assertion E p en started)) of
       None \<Rightarrow> Inl (transport_error ctx_done ''transport'')
     | Some (r, readable) \<Rightarrow>
         guardR (hr_status r \<noteq> 200) (TokenError (hr_status r) ''http_status'')
        (guardR (media_type (hr_content_type r) \<noteq> Some ''application/json'') invalid_response
        (guardR (\<not> readable) (transport_error ctx_done ''read_response'')
        (bindR (decode_profile_token (take 16385 (hr_body r)) (ck_scopes key)
            (if ck_kind key = ''application'' then ''aho_app_'' else ''aho_'') (ck_kind key = ''application''))
          (\<lambda>(t, ttl).
             let t = t\<lparr>tk_expires := started + ttl\<rparr> in
             guardR (\<not> received < tk_expires t) (TokenError 200 ''expired_response'')
            (Inr (t, tk_expires t - (godiv ttl 10 + jitter (godiv ttl 20 + 1))))))))))"

subsection \<open>The provider\<close>

datatype entered = Answer "(oauth_error, token) go_result" | Wait nat

text \<open>Joining the flight of the key, or starting one.\<close>

definition join_flight :: "cache_key \<Rightarrow> provider \<Rightarrow> entered \<times> provider" where
  "join_flight key p = (case map_of (pv_flights p) key of
     Some f \<Rightarrow> (Wait f, p\<lparr>pv_flight := (pv_flight p)(f := (pv_flight p f)\<lparr>fl_waiters := fl_waiters (pv_flight p f) + 1\<rparr>)\<rparr>)
   | None \<Rightarrow>
       if pv_max_entries p \<le> length (pv_flights p) then (Answer (Inl ErrCapacity), p)
       else (Wait (pv_next p), p\<lparr>pv_flights := AList.update key (pv_next p) (pv_flights p),
         pv_flight := (pv_flight p)(pv_next p := \<lparr>fl_waiters = 1, fl_cancelled = False, fl_result = None\<rparr>),
         pv_next := pv_next p + 1\<rparr>))"

definition token_enter :: "cache_key \<Rightarrow> bool \<Rightarrow> time \<Rightarrow> provider \<Rightarrow> entered \<times> provider" where
  "token_enter key ctx_err now p =
     (if ctx_err then (Answer (Inl ErrContext), p)
      else (case map_of (pv_cache p) key of
        Some c \<Rightarrow>
          if now < en_refresh c then
            (let s = (pv_sequence p + 1) mod 2 ^ 64
             in (Answer (Inr (en_token c)), p\<lparr>pv_sequence := s, pv_cache := AList.update key (c\<lparr>en_used := s\<rparr>) (pv_cache p)\<rparr>))
          else join_flight key (p\<lparr>pv_cache := AList.delete key (pv_cache p)\<rparr>)
      | None \<Rightarrow> join_flight key p))"

text \<open>The caller's context ends before the flight does.\<close>

definition token_leave :: "cache_key \<Rightarrow> nat \<Rightarrow> provider \<Rightarrow> provider" where
  "token_leave key f p =
     (let n = fl_waiters (pv_flight p f) - 1;
          last_one = (n = 0 \<and> map_of (pv_flights p) key = Some f)
      in p\<lparr>pv_flights := (if last_one then AList.delete key (pv_flights p) else pv_flights p),
           pv_flight := (pv_flight p)(f := (pv_flight p f)\<lparr>fl_waiters := n,
             fl_cancelled := last_one \<or> fl_cancelled (pv_flight p f)\<rparr>)\<rparr>)"

text \<open>The caller after \<open>done\<close> was closed; \<open>None\<close> while it is not.\<close>

definition token_done :: "nat \<Rightarrow> bool \<Rightarrow> time \<Rightarrow> provider \<Rightarrow> (oauth_error, token) go_result option" where
  "token_done f ctx_err now p = (case fl_result (pv_flight p f) of
     None \<Rightarrow> None
   | Some res \<Rightarrow>
       if ctx_err then Some (Inl ErrContext)
       else (case res of
           Inl e \<Rightarrow> Some (Inl e)
         | Inr t \<Rightarrow> if \<not> now < tk_expires t then Some (Inl (TokenError 0 ''expired_response'')) else Some (Inr t)))"

text \<open>The entry with the least use counter below the one given.\<close>

fun oldest_entry :: "(cache_key \<times> cache_entry) list \<Rightarrow> nat \<Rightarrow> cache_key option \<Rightarrow> cache_key option" where
  "oldest_entry [] used best = best"
| "oldest_entry ((k, c) # cs) used best =
     (if en_used c < used then oldest_entry cs (en_used c) (Some k) else oldest_entry cs used best)"

definition evict_oldest :: "(cache_key \<times> cache_entry) list \<Rightarrow> (cache_key \<times> cache_entry) list" where
  "evict_oldest cs = (case oldest_entry cs (2 ^ 64 - 1) None of None \<Rightarrow> cs | Some k \<Rightarrow> AList.delete k cs)"

text \<open>\<open>ctx_done\<close> and \<open>ctx_late\<close>: the context of the acquisition at its two checks.\<close>

definition acquire_done :: "cache_key \<Rightarrow> nat \<Rightarrow> (oauth_error, token \<times> time) go_result \<Rightarrow> bool \<Rightarrow> bool \<Rightarrow> provider \<Rightarrow> provider" where
  "acquire_done key f fetched ctx_done ctx_late p =
     (let res = (if ctx_done then Inl TokenContext else fetched);
          p = (if map_of (pv_flights p) key = Some f then
                 (let p = p\<lparr>pv_flights := AList.delete key (pv_flights p)\<rparr>
                  in (case res of
                        Inl _ \<Rightarrow> p
                      | Inr (t, renew_at) \<Rightarrow>
                          if ctx_late then p else
                          let cs = (if pv_max_entries p \<le> length (pv_cache p) then evict_oldest (pv_cache p) else pv_cache p);
                              s = (pv_sequence p + 1) mod 2 ^ 64
                          in p\<lparr>pv_sequence := s, pv_cache := AList.update key \<lparr>en_token = t, en_refresh = renew_at, en_used = s\<rparr> cs\<rparr>))
               else p)
      in p\<lparr>pv_flight := (pv_flight p)(f := (pv_flight p f)\<lparr>fl_result := Some (map_sum id fst res)\<rparr>)\<rparr>)"

definition invalidate :: "cache_key \<Rightarrow> string \<Rightarrow> provider \<Rightarrow> provider" where
  "invalidate key rejected p =
     (if rejected = [] then p
      else (case map_of (pv_cache p) key of
          None \<Rightarrow> p
        | Some c \<Rightarrow> if tk_value (en_token c) = rejected then p\<lparr>pv_cache := AList.delete key (pv_cache p)\<rparr> else p))"

definition invalidate_request :: "token_request \<Rightarrow> string \<Rightarrow> provider \<Rightarrow> provider" where
  "invalidate_request r rejected p = (if rejected = [] then p
     else (case request_key r of Inl _ \<Rightarrow> p | Inr key \<Rightarrow> invalidate key rejected p))"

definition invalidate_application :: "string \<Rightarrow> string \<Rightarrow> provider \<Rightarrow> provider" where
  "invalidate_application audience rejected p =
     (case application_request_key audience of Inl _ \<Rightarrow> p | Inr key \<Rightarrow> invalidate key rejected p)"

subsection \<open>Callers and flights together\<close>

text \<open>
  \<open>pw_waits\<close>: the callers that wait, with their key and flight; \<open>pw_owner f\<close>: the key flight \<open>f\<close> was
  started for; \<open>pw_fetched\<close>: the tokens the endpoint granted so far, with the key that was asked for.
  The runs considered use the cache fewer than 2^64 - 1 times, so that the counter does not wrap.
\<close>

record provider_world =
  pw_provider :: provider
  pw_waits :: "(cache_key \<times> nat) list"
  pw_owner :: "nat \<Rightarrow> cache_key"
  pw_fetched :: "(cache_key \<times> token) set"

inductive provider_step :: "ed25519 \<Rightarrow> (string \<Rightarrow> string option) \<Rightarrow> provider_world \<Rightarrow> provider_world \<Rightarrow> bool" for E media where
  answered: "pv_sequence (pw_provider w) < 2 ^ 64 - 2 \<Longrightarrow> token_enter key ctx_err now (pw_provider w) = (Answer res, p) \<Longrightarrow>
    provider_step E media w (w\<lparr>pw_provider := p\<rparr>)"
| waiting: "token_enter key ctx_err now (pw_provider w) = (Wait f, p) \<Longrightarrow>
    provider_step E media w (w\<lparr>pw_provider := p, pw_waits := (key, f) # pw_waits w, pw_owner := (pw_owner w)(f := key)\<rparr>)"
| left: "(key, f) \<in> set (pw_waits w) \<Longrightarrow>
    provider_step E media w (w\<lparr>pw_provider := token_leave key f (pw_provider w), pw_waits := remove1 (key, f) (pw_waits w)\<rparr>)"
| returned: "(key, f) \<in> set (pw_waits w) \<Longrightarrow> fl_result (pv_flight (pw_provider w) f) \<noteq> None \<Longrightarrow>
    provider_step E media w (w\<lparr>pw_waits := remove1 (key, f) (pw_waits w)\<rparr>)"
| acquired: "pv_sequence (pw_provider w) < 2 ^ 64 - 2 \<Longrightarrow> f < pv_next (pw_provider w) \<Longrightarrow> fl_result (pv_flight (pw_provider w) f) = None \<Longrightarrow>
    (\<And>n. 0 < n \<Longrightarrow> 0 \<le> jitter n) \<Longrightarrow>
    res = fetch E media entropy started received ctx_done exchange jitter (pw_provider w) (pw_owner w f) \<Longrightarrow>
    provider_step E media w (w\<lparr>pw_provider := acquire_done (pw_owner w f) f res ctx_done' ctx_late (pw_provider w),
      pw_fetched := (case res of Inl _ \<Rightarrow> pw_fetched w | Inr (t, _) \<Rightarrow> insert (pw_owner w f, t) (pw_fetched w))\<rparr>)"
| rejected: "provider_step E media w (w\<lparr>pw_provider := invalidate key value (pw_provider w)\<rparr>)"

definition cache_inv :: "provider \<Rightarrow> (cache_key \<times> token) set \<Rightarrow> bool" where
  "cache_inv p F \<longleftrightarrow> distinct (map fst (pv_cache p)) \<and> length (pv_cache p) \<le> pv_max_entries p \<and> 0 < pv_max_entries p \<and>
     (\<forall>(k, c) \<in> set (pv_cache p). (k, en_token c) \<in> F \<and> en_refresh c \<le> tk_expires (en_token c) \<and> en_used c \<le> pv_sequence p)"

definition flights_inv :: "provider \<Rightarrow> (nat \<Rightarrow> cache_key) \<Rightarrow> bool" where
  "flights_inv p own \<longleftrightarrow> distinct (map fst (pv_flights p)) \<and> length (pv_flights p) \<le> pv_max_entries p \<and>
     (\<forall>k f. map_of (pv_flights p) k = Some f \<longrightarrow> f < pv_next p \<and> own f = k \<and>
        fl_result (pv_flight p f) = None \<and> \<not> fl_cancelled (pv_flight p f))"

definition results_inv :: "provider \<Rightarrow> (nat \<Rightarrow> cache_key) \<Rightarrow> (cache_key \<times> token) set \<Rightarrow> bool" where
  "results_inv p own F \<longleftrightarrow> (\<forall>f t. f < pv_next p \<longrightarrow> fl_result (pv_flight p f) = Some (Inr t) \<longrightarrow> (own f, t) \<in> F)"

definition waits_inv :: "provider \<Rightarrow> (nat \<Rightarrow> cache_key) \<Rightarrow> (cache_key \<times> nat) list \<Rightarrow> bool" where
  "waits_inv p own ws \<longleftrightarrow>
     (\<forall>(k, f) \<in> set ws. f < pv_next p \<and> own f = k \<and> (fl_result (pv_flight p f) = None \<longrightarrow> map_of (pv_flights p) k = Some f)) \<and>
     (\<forall>f. f < pv_next p \<longrightarrow> fl_result (pv_flight p f) = None \<longrightarrow> fl_waiters (pv_flight p f) = length (filter (\<lambda>x. snd x = f) ws))"

definition provider_inv :: "provider_world \<Rightarrow> bool" where
  "provider_inv w \<longleftrightarrow> cache_inv (pw_provider w) (pw_fetched w) \<and> flights_inv (pw_provider w) (pw_owner w) \<and>
     results_inv (pw_provider w) (pw_owner w) (pw_fetched w) \<and> waits_inv (pw_provider w) (pw_owner w) (pw_waits w)"

subsection \<open>No foreign, expired or aborted token\<close>

lemma length_delete_less: "map_of xs k \<noteq> None \<Longrightarrow> length (AList.delete k xs) < length xs"
  by (induction xs) (auto simp: less_Suc_eq_le length_delete_le split: if_splits)

lemma length_update: "length (AList.update k v xs) = (if map_of xs k = None then Suc (length xs) else length xs)"
  by (induction xs) auto

lemma set_delete_sub: "set (AList.delete k xs) \<subseteq> set xs"
  by (auto simp: AList.delete_eq)

lemma map_of_delete_Some: "map_of (AList.delete k xs) k' = Some v \<Longrightarrow> k' \<noteq> k \<and> map_of xs k' = Some v"
  by (simp add: delete_conv' split: if_splits)

lemma map_of_update_Some: "map_of (AList.update k v xs) k' = (if k' = k then Some v else map_of xs k')"
  by (simp add: update_conv')

lemma oldest_entry_in:
  "oldest_entry cs u b = Some k \<Longrightarrow> b = Some k \<or> map_of cs k \<noteq> None"
  by (induction cs u b rule: oldest_entry.induct) (auto split: if_splits)

lemma oldest_entry_found: "b \<noteq> None \<or> (\<exists>(k, c) \<in> set cs. en_used c < u) \<Longrightarrow> oldest_entry cs u b \<noteq> None"
  by (induction cs u b rule: oldest_entry.induct) auto

lemma evict_oldest_sub: "set (evict_oldest cs) \<subseteq> set cs" "distinct (map fst cs) \<Longrightarrow> distinct (map fst (evict_oldest cs))"
  by (auto simp: evict_oldest_def distinct_delete dest: subsetD [OF set_delete_sub] split: option.splits)

lemma length_evict_oldest:
  assumes "cs \<noteq> []" "\<forall>(k, c) \<in> set cs. en_used c < 2 ^ 64 - 1"
  shows "length (evict_oldest cs) < length cs"
proof -
  from assms have "oldest_entry cs (2 ^ 64 - 1) None \<noteq> None"
    by (intro oldest_entry_found) (cases cs; auto)
  then obtain k where k: "oldest_entry cs (2 ^ 64 - 1) None = Some k" by auto
  with oldest_entry_in [OF k] have "map_of cs k \<noteq> None" by simp
  from length_delete_less [OF this] k show ?thesis by (simp add: evict_oldest_def)
qed

lemma cache_inv_delete: "cache_inv p F \<Longrightarrow> cache_inv (p\<lparr>pv_cache := AList.delete k (pv_cache p)\<rparr>) F"
  using set_delete_sub [of k "pv_cache p"] length_delete_le [of k "pv_cache p"]
  by (auto simp: cache_inv_def distinct_delete)

lemma cache_inv_cong:
  "pv_cache p = pv_cache q \<Longrightarrow> pv_max_entries p = pv_max_entries q \<Longrightarrow> pv_sequence p = pv_sequence q \<Longrightarrow>
   cache_inv p F \<longleftrightarrow> cache_inv q F"
  by (simp add: cache_inv_def)

lemma cache_inv_mono: "cache_inv p F \<Longrightarrow> F \<subseteq> G \<Longrightarrow> cache_inv p G"
  by (auto simp: cache_inv_def)

lemma cache_inv_insert:
  assumes inv: "cache_inv p F" and seq: "pv_sequence p < 2 ^ 64 - 2" and F: "(key, t) \<in> F" and r: "ra \<le> tk_expires t"
    and cs: "cs = (if pv_max_entries p \<le> length (pv_cache p) then evict_oldest (pv_cache p) else pv_cache p)"
    and s: "s = (pv_sequence p + 1) mod 2 ^ 64"
  shows "cache_inv (p\<lparr>pv_sequence := s, pv_cache := AList.update key \<lparr>en_token = t, en_refresh = ra, en_used = s\<rparr> cs\<rparr>) F"
proof -
  have s1: "s = pv_sequence p + 1" using seq s by simp
  have "pv_cache p \<noteq> []" if "pv_max_entries p \<le> length (pv_cache p)" using inv that by (auto simp: cache_inv_def)
  moreover have "\<forall>(k, c) \<in> set (pv_cache p). en_used c < 2 ^ 64 - 1" using inv seq by (fastforce simp: cache_inv_def)
  ultimately have "length cs < pv_max_entries p"
    using length_evict_oldest inv by (fastforce simp: cs cache_inv_def)
  then have "length (AList.update key \<lparr>en_token = t, en_refresh = ra, en_used = s\<rparr> cs) \<le> pv_max_entries p"
    by (simp add: length_update)
  moreover have "set cs \<subseteq> set (pv_cache p)" "distinct (map fst cs)"
    using inv evict_oldest_sub by (auto simp: cs cache_inv_def)
  ultimately show ?thesis
    using inv F r set_update_sub [of key "\<lparr>en_token = t, en_refresh = ra, en_used = s\<rparr>" cs]
    by (fastforce simp: cache_inv_def distinct_update s1)
qed

lemma join_flight_unchanged:
  "join_flight key p = (res, p') \<Longrightarrow> pv_cache p' = pv_cache p \<and> pv_max_entries p' = pv_max_entries p \<and> pv_sequence p' = pv_sequence p"
  by (auto simp: join_flight_def split: option.splits if_splits)

lemma token_enter_cases:
  assumes "token_enter key ctx_err now p = (res, p')"
  obtains (err) "res = Answer (Inl ErrContext)" "p' = p"
  | (hit) c s where "map_of (pv_cache p) key = Some c" "now < en_refresh c" "res = Answer (Inr (en_token c))"
      "s = (pv_sequence p + 1) mod 2 ^ 64" "p' = p\<lparr>pv_sequence := s, pv_cache := AList.update key (c\<lparr>en_used := s\<rparr>) (pv_cache p)\<rparr>"
  | (join) cs where "cs = pv_cache p \<or> cs = AList.delete key (pv_cache p)" "join_flight key (p\<lparr>pv_cache := cs\<rparr>) = (res, p')"
proof -
  consider "ctx_err" | c where "\<not> ctx_err" "map_of (pv_cache p) key = Some c" "now < en_refresh c"
    | c where "\<not> ctx_err" "map_of (pv_cache p) key = Some c" "\<not> now < en_refresh c"
    | "\<not> ctx_err" "map_of (pv_cache p) key = None" by (cases "map_of (pv_cache p) key") auto
  then show thesis
  proof cases
    case 1
    with assms show thesis by (intro err) (simp_all add: token_enter_def)
  next
    case (2 c)
    with assms show thesis by (intro hit [of c]) (auto simp add: token_enter_def Let_def)
  next
    case (3 c)
    with assms show thesis by (intro join [of "AList.delete key (pv_cache p)"]) (simp_all add: token_enter_def)
  next
    case 4
    with assms show thesis by (intro join [of "pv_cache p"]) (simp_all add: token_enter_def)
  qed
qed

lemma waits_invD:
  assumes "waits_inv p own ws"
  shows "(k, f) \<in> set ws \<Longrightarrow> f < pv_next p" "(k, f) \<in> set ws \<Longrightarrow> own f = k"
    "(k, f) \<in> set ws \<Longrightarrow> fl_result (pv_flight p f) = None \<Longrightarrow> map_of (pv_flights p) k = Some f"
    "f < pv_next p \<Longrightarrow> fl_result (pv_flight p f) = None \<Longrightarrow> fl_waiters (pv_flight p f) = length (filter (\<lambda>x. snd x = f) ws)"
  using assms by (auto simp: waits_inv_def)

lemma waits_invI:
  assumes "\<And>k f. (k, f) \<in> set ws \<Longrightarrow> f < pv_next p \<and> own f = k \<and> (fl_result (pv_flight p f) = None \<longrightarrow> map_of (pv_flights p) k = Some f)"
    and "\<And>f. f < pv_next p \<Longrightarrow> fl_result (pv_flight p f) = None \<Longrightarrow> fl_waiters (pv_flight p f) = length (filter (\<lambda>x. snd x = f) ws)"
  shows "waits_inv p own ws"
  using assms by (auto simp: waits_inv_def)

lemma join_flight_inv:
  assumes j: "join_flight key p = (Wait f, p')" and fl: "flights_inv p own" and re: "results_inv p own F" and wa: "waits_inv p own ws"
  shows "flights_inv p' (own(f := key)) \<and> results_inv p' (own(f := key)) F \<and> waits_inv p' (own(f := key)) ((key, f) # ws)"
proof (cases "map_of (pv_flights p) key")
  case (Some g)
  with j have f: "f = g" and p': "p' = p\<lparr>pv_flight := (pv_flight p)(f := (pv_flight p f)\<lparr>fl_waiters := fl_waiters (pv_flight p f) + 1\<rparr>)\<rparr>"
    by (auto simp: join_flight_def)
  from Some f fl have g: "f < pv_next p" "own f = key" "fl_result (pv_flight p f) = None" by (auto simp: flights_inv_def)
  then have own: "own(f := key) = own" by auto
  have "flights_inv p' own" using fl by (auto simp: flights_inv_def p')
  moreover have "results_inv p' own F" using re by (auto simp: results_inv_def p')
  moreover have "waits_inv p' own ((key, f) # ws)" using wa g Some f by (auto simp: waits_inv_def p')
  ultimately show ?thesis unfolding own by blast
next
  case None
  with j have f: "f = pv_next p" "\<not> pv_max_entries p \<le> length (pv_flights p)"
    and p': "p' = p\<lparr>pv_flights := AList.update key f (pv_flights p),
      pv_flight := (pv_flight p)(f := \<lparr>fl_waiters = 1, fl_cancelled = False, fl_result = None\<rparr>), pv_next := f + 1\<rparr>"
    by (auto simp: join_flight_def split: if_splits)
  have "flights_inv p' (own(f := key))"
    using fl f None by (fastforce simp: flights_inv_def p' distinct_update length_update map_of_update_Some split: if_splits)
  moreover have "results_inv p' (own(f := key)) F" using re f by (auto simp: results_inv_def p')
  moreover have "waits_inv p' (own(f := key)) ((key, f) # ws)"
  proof (rule waits_invI)
    fix k g assume kg: "(k, g) \<in> set ((key, f) # ws)"
    show "g < pv_next p' \<and> (own(f := key)) g = k \<and> (fl_result (pv_flight p' g) = None \<longrightarrow> map_of (pv_flights p') k = Some g)"
    proof (cases "g = f")
      case True
      with kg waits_invD(1) [OF wa] f(1) have "k = key" by auto
      with True show ?thesis by (simp add: p' map_of_update_Some)
    next
      case False
      with kg have w: "(k, g) \<in> set ws" by auto
      note D = waits_invD(1-3) [OF wa w]
      have "k \<noteq> key" if "fl_result (pv_flight p g) = None" using D(3) that None by auto
      with D False f(1) show ?thesis by (auto simp: p' map_of_update_Some)
    qed
  next
    fix g assume g: "g < pv_next p'" "fl_result (pv_flight p' g) = None"
    have none: "filter (\<lambda>x. snd x = f) ws = []" using waits_invD(1) [OF wa] f(1) by (fastforce simp: filter_empty_conv)
    show "fl_waiters (pv_flight p' g) = length (filter (\<lambda>x. snd x = g) ((key, f) # ws))"
    proof (cases "g = f")
      case True
      with none show ?thesis by (simp add: p')
    next
      case False
      with g f(1) waits_invD(4) [OF wa, of g] show ?thesis by (simp add: p')
    qed
  qed
  ultimately show ?thesis by blast
qed

lemma answered_unchanged:
  assumes "join_flight key p = (Answer res, p')"
  shows "p' = p"
  using assms by (auto simp: join_flight_def split: option.splits if_splits)

lemma flights_inv_cong:
  "pv_flights p = pv_flights q \<Longrightarrow> pv_max_entries p = pv_max_entries q \<Longrightarrow> pv_flight p = pv_flight q \<Longrightarrow> pv_next p = pv_next q \<Longrightarrow>
   flights_inv p own \<longleftrightarrow> flights_inv q own"
  by (simp add: flights_inv_def)

lemma waits_results_cong:
  "pv_flights p = pv_flights q \<Longrightarrow> pv_flight p = pv_flight q \<Longrightarrow> pv_next p = pv_next q \<Longrightarrow>
   (waits_inv p own ws \<longleftrightarrow> waits_inv q own ws) \<and> (results_inv p own F \<longleftrightarrow> results_inv q own F)"
  by (simp add: waits_inv_def results_inv_def)

lemma enter_cache_inv:
  assumes "token_enter key e now p = (res, p')" "cache_inv p F" "pv_sequence p < 2 ^ 64 - 2"
  shows "cache_inv p' F"
  using assms(1)
proof (cases rule: token_enter_cases)
  case err
  with assms(2) show ?thesis by simp
next
  case (hit c s)
  have c: "(key, c) \<in> set (pv_cache p)" using hit(1) by (rule map_of_SomeD)
  have s: "s = pv_sequence p + 1" using hit(4) assms(3) by simp
  have "length (AList.update key (c\<lparr>en_used := s\<rparr>) (pv_cache p)) = length (pv_cache p)" using hit(1) by (simp add: length_update)
  with c assms(2) set_update_sub [of key "c\<lparr>en_used := s\<rparr>" "pv_cache p"] show ?thesis
    unfolding hit(5) by (fastforce simp: cache_inv_def distinct_update s)
next
  case (join cs)
  from join(1) cache_inv_delete [OF assms(2), of key] assms(2) have "cache_inv (p\<lparr>pv_cache := cs\<rparr>) F"
    by (auto simp: cache_inv_def)
  with join_flight_unchanged [OF join(2)] show ?thesis by (simp add: cache_inv_def)
qed

lemma enter_answer_inv:
  assumes "token_enter key e now p = (Answer res, p')"
  shows "pv_flights p' = pv_flights p \<and> pv_flight p' = pv_flight p \<and> pv_next p' = pv_next p \<and> pv_max_entries p' = pv_max_entries p"
  using assms
proof (cases rule: token_enter_cases)
  case (join cs)
  with answered_unchanged [OF join(2)] show ?thesis by simp
qed auto

lemma enter_wait_inv:
  assumes "token_enter key e now p = (Wait f, p')" "flights_inv p own" "results_inv p own F" "waits_inv p own ws"
  shows "flights_inv p' (own(f := key)) \<and> results_inv p' (own(f := key)) F \<and> waits_inv p' (own(f := key)) ((key, f) # ws)"
  using assms(1)
proof (cases rule: token_enter_cases)
  case (join cs)
  have "flights_inv (p\<lparr>pv_cache := cs\<rparr>) own" "results_inv (p\<lparr>pv_cache := cs\<rparr>) own F" "waits_inv (p\<lparr>pv_cache := cs\<rparr>) own ws"
    using assms(2-4) by (simp_all add: flights_inv_def results_inv_def waits_inv_def)
  with join_flight_inv [OF join(2)] show ?thesis by blast
qed auto

lemma leave_inv:
  assumes "(key, f) \<in> set ws" "flights_inv p own" "results_inv p own F" "waits_inv p own ws"
  shows "flights_inv (token_leave key f p) own \<and> results_inv (token_leave key f p) own F \<and>
    waits_inv (token_leave key f p) own (remove1 (key, f) ws)"
proof -
  let ?n = "fl_waiters (pv_flight p f) - 1"
  define q where "q = token_leave key f p"
  have wf: "f < pv_next p" "own f = key" "fl_result (pv_flight p f) = None \<longrightarrow> map_of (pv_flights p) key = Some f"
    using assms(1,4) by (auto simp: waits_inv_def)
  have cnt: "length (filter (\<lambda>x. snd x = g) (remove1 (key, f) ws)) = length (filter (\<lambda>x. snd x = g) ws) - (if g = f then 1 else 0)" for g
    using assms(1) by (auto simp: filter_remove1 length_remove1)
  have res: "fl_result (pv_flight q g) = fl_result (pv_flight p g)" for g by (simp add: q_def token_leave_def Let_def)
  have nx: "pv_next q = pv_next p" "pv_max_entries q = pv_max_entries p" by (simp_all add: q_def token_leave_def Let_def)
  have fls: "map_of (pv_flights q) k = (if k = key \<and> ?n = 0 \<and> map_of (pv_flights p) key = Some f then None else map_of (pv_flights p) k)" for k
    by (simp add: q_def token_leave_def Let_def delete_conv')
  have other: "k = own g" if "map_of (pv_flights p) k = Some g" for k g using assms(2) that by (auto simp: flights_inv_def)
  have fi: "flights_inv q own"
  proof -
    have "distinct (map fst (pv_flights q))" "length (pv_flights q) \<le> pv_max_entries q"
      using assms(2) length_delete_le [of key "pv_flights p"]
      by (auto simp: flights_inv_def q_def token_leave_def Let_def distinct_delete)
    moreover have "g < pv_next q \<and> own g = k \<and> fl_result (pv_flight q g) = None \<and> \<not> fl_cancelled (pv_flight q g)"
      if "map_of (pv_flights q) k = Some g" for k g
    proof -
      from that fls have g: "map_of (pv_flights p) k = Some g" "\<not> (k = key \<and> ?n = 0 \<and> map_of (pv_flights p) key = Some f)"
        by (auto split: if_splits)
      with assms(2) have "g < pv_next p \<and> own g = k \<and> fl_result (pv_flight p g) = None \<and> \<not> fl_cancelled (pv_flight p g)"
        by (auto simp: flights_inv_def)
      with g wf show ?thesis by (auto simp: q_def token_leave_def Let_def)
    qed
    ultimately show ?thesis by (auto simp: flights_inv_def)
  qed
  have "results_inv q own F" using assms(3) res nx by (simp add: results_inv_def)
  moreover have "waits_inv q own (remove1 (key, f) ws)"
  proof (rule waits_invI)
    fix k g assume kg: "(k, g) \<in> set (remove1 (key, f) ws)"
    have w: "(k, g) \<in> set ws" using kg set_remove1_subset by fast
    note D = waits_invD(1-3) [OF assms(4) w]
    have "?n \<noteq> 0" if "g = f" "fl_result (pv_flight p f) = None"
    proof -
      have "0 < length (filter (\<lambda>x. snd x = f) (remove1 (key, f) ws))" using kg that(1) by (force simp: filter_empty_conv)
      with cnt [of f] waits_invD(4) [OF assms(4) wf(1) that(2)] show ?thesis by simp
    qed
    moreover have "g = f" if "k = key" "map_of (pv_flights p) key = Some f" "fl_result (pv_flight p g) = None"
      using D(3) that by simp
    ultimately show "g < pv_next q \<and> own g = k \<and> (fl_result (pv_flight q g) = None \<longrightarrow> map_of (pv_flights q) k = Some g)"
      using D fls [of k] res [of g] nx by auto
  next
    fix g assume "g < pv_next q" "fl_result (pv_flight q g) = None"
    with waits_invD(4) [OF assms(4), of g] res nx cnt [of g]
    show "fl_waiters (pv_flight q g) = length (filter (\<lambda>x. snd x = g) (remove1 (key, f) ws))"
      by (cases "g = f") (simp_all add: q_def token_leave_def Let_def)
  qed
  ultimately show ?thesis using fi by (simp add: q_def)
qed

lemma flights_invD:
  "flights_inv p own \<Longrightarrow> map_of (pv_flights p) k = Some f \<Longrightarrow>
    f < pv_next p \<and> own f = k \<and> fl_result (pv_flight p f) = None \<and> \<not> fl_cancelled (pv_flight p f)"
  by (auto simp: flights_inv_def)

lemma acquire_inv:
  fixes ctx_done ctx_late :: bool
  assumes ca: "cache_inv p F" and fl: "flights_inv p own" and re: "results_inv p own F" and wa: "waits_inv p own ws"
    and f: "fl_result (pv_flight p f) = None" and seq: "pv_sequence p < 2 ^ 64 - 2"
    and res: "\<And>t ra. res = Inr (t, ra) \<Longrightarrow> (own f, t) \<in> F \<and> ra \<le> tk_expires t"
  defines "q \<equiv> acquire_done (own f) f res ctx_done ctx_late p"
  shows "cache_inv q F \<and> flights_inv q own \<and> results_inv q own F \<and> waits_inv q own ws"
proof -
  let ?res = "if ctx_done then Inl TokenContext else res"
  have nx: "pv_next q = pv_next p" "pv_max_entries q = pv_max_entries p"
    by (auto simp: q_def acquire_done_def Let_def split: sum.splits)
  have data: "pv_flight q = (pv_flight p)(f := (pv_flight p f)\<lparr>fl_result := Some (map_sum id fst ?res)\<rparr>)"
    by (auto simp: q_def acquire_done_def Let_def split: sum.splits)
  have fls: "pv_flights q = (if map_of (pv_flights p) (own f) = Some f then AList.delete (own f) (pv_flights p) else pv_flights p)"
    by (auto simp: q_def acquire_done_def Let_def split: sum.splits)
  have gone: "map_of (pv_flights p) k = Some g \<and> g \<noteq> f" if g: "map_of (pv_flights q) k = Some g" for k g
  proof (cases "map_of (pv_flights p) (own f) = Some f")
    case True
    with g have "k \<noteq> own f" "map_of (pv_flights p) k = Some g" by (simp_all add: fls delete_conv' split: if_splits)
    with flights_invD [OF fl] show ?thesis by blast
  next
    case False
    with g have "map_of (pv_flights p) k = Some g" by (simp add: fls)
    with False flights_invD [OF fl] show ?thesis by metis
  qed
  have "cache_inv q F"
  proof (cases "map_of (pv_flights p) (own f) = Some f \<and> \<not> ctx_done \<and> \<not> ctx_late \<and> \<not> isl res")
    case True
    then obtain t ra where r: "res = Inr (t, ra)" by (cases res) auto
    define cs where "cs = (if pv_max_entries p \<le> length (pv_cache p) then evict_oldest (pv_cache p) else pv_cache p)"
    define s where "s = (pv_sequence p + 1) mod 2 ^ 64"
    have "pv_cache q = AList.update (own f) \<lparr>en_token = t, en_refresh = ra, en_used = s\<rparr> cs \<and> pv_sequence q = s"
      using True r by (simp add: q_def acquire_done_def Let_def cs_def s_def)
    moreover have "cache_inv (p\<lparr>pv_sequence := s, pv_cache := AList.update (own f) \<lparr>en_token = t, en_refresh = ra, en_used = s\<rparr> cs\<rparr>) F"
      using res [OF r] by (intro cache_inv_insert [OF ca seq _ _ cs_def s_def]) auto
    ultimately show ?thesis using nx by (simp add: cache_inv_def)
  next
    case False
    then have "pv_cache q = pv_cache p \<and> pv_sequence q = pv_sequence p"
      by (auto simp: q_def acquire_done_def Let_def split: sum.splits)
    with ca nx show ?thesis by (simp add: cache_inv_def)
  qed
  moreover have "flights_inv q own"
  proof -
    have fd: "distinct (map fst (pv_flights p))" "length (pv_flights p) \<le> pv_max_entries p"
      using fl unfolding flights_inv_def by blast+
    have "distinct (map fst (pv_flights q))" "length (pv_flights q) \<le> pv_max_entries q"
      using fd length_delete_le [of "own f" "pv_flights p"] by (simp_all add: fls nx distinct_delete)
    moreover have "g < pv_next q \<and> own g = k \<and> fl_result (pv_flight q g) = None \<and> \<not> fl_cancelled (pv_flight q g)"
      if "map_of (pv_flights q) k = Some g" for k g
      using gone [OF that] flights_invD [OF fl, of k g] by (simp add: nx data)
    ultimately show ?thesis unfolding flights_inv_def by blast
  qed
  moreover have "results_inv q own F"
    using re res by (cases res) (auto simp: results_inv_def nx data split: if_splits)
  moreover have "waits_inv q own ws"
  proof (rule waits_invI)
    fix k g assume "(k, g) \<in> set ws"
    note D = waits_invD(1-3) [OF wa this]
    show "g < pv_next q \<and> own g = k \<and> (fl_result (pv_flight q g) = None \<longrightarrow> map_of (pv_flights q) k = Some g)"
    proof (intro conjI impI)
      assume "fl_result (pv_flight q g) = None"
      then have "g \<noteq> f" "fl_result (pv_flight p g) = None" by (auto simp: data split: if_splits)
      with D(3) have g: "map_of (pv_flights p) k = Some g" by blast
      with \<open>g \<noteq> f\<close> have "\<not> (k = own f \<and> map_of (pv_flights p) (own f) = Some f)" by auto
      with g show "map_of (pv_flights q) k = Some g" unfolding fls by (simp add: delete_conv' split: if_split)
    qed (use D(1,2) in \<open>simp_all add: nx\<close>)
  next
    fix g assume "g < pv_next q" "fl_result (pv_flight q g) = None"
    with waits_invD(4) [OF wa, of g] show "fl_waiters (pv_flight q g) = length (filter (\<lambda>x. snd x = g) ws)"
      by (auto simp: nx data split: if_splits)
  qed
  ultimately show ?thesis by blast
qed

lemma decode_profile_ttl:
  assumes "decode_profile_token raw requested prefix application = Inr (t, ttl)"
  shows "second \<le> ttl \<and> ttl \<le> 300 * second"
  using assms by (auto simp: decode_profile_token_def Let_def second_def split: option.splits if_splits json.splits sum.splits)

lemma fetch_refresh:
  assumes "fetch E media entropy started received ctx_done exchange jitter p key = Inr (t, ra)"
    and "\<And>n. 0 < n \<Longrightarrow> 0 \<le> jitter n"
  shows "ra \<le> tk_expires t \<and> received < tk_expires t"
proof -
  from assms(1) obtain raw t0 ttl where d: "decode_profile_token raw (ck_scopes key)
      (if ck_kind key = ''application'' then ''aho_app_'' else ''aho_'') (ck_kind key = ''application'') = Inr (t0, ttl)"
    "ra = tk_expires t - (godiv ttl 10 + jitter (godiv ttl 20 + 1))" "received < tk_expires t"
    by (auto simp: fetch_def Let_def split: option.splits)
  from decode_profile_ttl [OF d(1)] have "0 \<le> ttl" by (simp add: second_def)
  then have "0 \<le> godiv ttl 10" "0 < godiv ttl 20 + 1" by (simp_all add: pos_imp_zdiv_nonneg_iff add_pos_nonneg)
  with assms(2) [of "godiv ttl 20 + 1"] d(2,3) show ?thesis by linarith
qed

lemma provider_inv_step:
  assumes "provider_step E media w w'" "provider_inv w"
  shows "provider_inv w'"
  using assms
proof (induction rule: provider_step.induct)
  case (answered w key e now res p)
  then have "cache_inv p (pw_fetched w)" using enter_cache_inv by (auto simp: provider_inv_def)
  moreover note U = enter_answer_inv [OF answered.hyps(2)]
  ultimately show ?case
    using answered.prems flights_inv_cong [of p "pw_provider w"] waits_results_cong [of p "pw_provider w"]
    by (simp add: provider_inv_def)
next
  case (waiting key e now w f p)
  have "cache_inv p (pw_fetched w)"
    using waiting.hyps
  proof (cases rule: token_enter_cases)
    case (join cs)
    from join(1) waiting.prems cache_inv_delete [of "pw_provider w" "pw_fetched w" key]
    have "cache_inv ((pw_provider w)\<lparr>pv_cache := cs\<rparr>) (pw_fetched w)" by (auto simp: provider_inv_def cache_inv_def)
    with join_flight_unchanged [OF join(2)] show ?thesis by (simp add: cache_inv_def)
  qed auto
  moreover have "flights_inv (pw_provider w) (pw_owner w)" "results_inv (pw_provider w) (pw_owner w) (pw_fetched w)"
    "waits_inv (pw_provider w) (pw_owner w) (pw_waits w)" using waiting.prems by (simp_all add: provider_inv_def)
  note enter_wait_inv [OF waiting.hyps this]
  ultimately show ?case unfolding provider_inv_def by simp
next
  case (left key f w)
  have "cache_inv (token_leave key f (pw_provider w)) (pw_fetched w)"
    using left.prems by (simp add: provider_inv_def cache_inv_def token_leave_def Let_def)
  moreover have "flights_inv (pw_provider w) (pw_owner w)" "results_inv (pw_provider w) (pw_owner w) (pw_fetched w)"
    "waits_inv (pw_provider w) (pw_owner w) (pw_waits w)" using left.prems by (simp_all add: provider_inv_def)
  note leave_inv [OF left.hyps this]
  ultimately show ?case unfolding provider_inv_def by simp
next
  case (returned key f w)
  have wa: "waits_inv (pw_provider w) (pw_owner w) (pw_waits w)" using returned.prems by (simp add: provider_inv_def)
  have "waits_inv (pw_provider w) (pw_owner w) (remove1 (key, f) (pw_waits w))"
  proof (rule waits_invI)
    fix k g assume "(k, g) \<in> set (remove1 (key, f) (pw_waits w))"
    then have "(k, g) \<in> set (pw_waits w)" using set_remove1_subset by fast
    with waits_invD(1-3) [OF wa] show "g < pv_next (pw_provider w) \<and> pw_owner w g = k \<and>
        (fl_result (pv_flight (pw_provider w) g) = None \<longrightarrow> map_of (pv_flights (pw_provider w)) k = Some g)" by blast
  next
    fix g assume g: "g < pv_next (pw_provider w)" "fl_result (pv_flight (pw_provider w) g) = None"
    then have "g \<noteq> f" using returned.hyps(2) by auto
    then have "filter (\<lambda>x. snd x = g) (remove1 (key, f) (pw_waits w)) = filter (\<lambda>x. snd x = g) (pw_waits w)"
      by (simp add: filter_remove1 remove1_idem)
    with waits_invD(4) [OF wa g] show "fl_waiters (pv_flight (pw_provider w) g) =
        length (filter (\<lambda>x. snd x = g) (remove1 (key, f) (pw_waits w)))" by simp
  qed
  with returned.prems show ?case by (simp add: provider_inv_def)
next
  case (acquired w f jitter res entropy started received ctx_done exchange ctx_done' ctx_late)
  define F where "F = (case res of Inl _ \<Rightarrow> pw_fetched w | Inr (t, _) \<Rightarrow> insert (pw_owner w f, t) (pw_fetched w))"
  have sub: "pw_fetched w \<subseteq> F" by (auto simp: F_def split: sum.splits)
  have I: "cache_inv (pw_provider w) F" "flights_inv (pw_provider w) (pw_owner w)" "results_inv (pw_provider w) (pw_owner w) F"
    "waits_inv (pw_provider w) (pw_owner w) (pw_waits w)"
    using acquired.prems cache_inv_mono [OF _ sub] sub by (auto simp: provider_inv_def results_inv_def)
  have "(pw_owner w f, t) \<in> F \<and> ra \<le> tk_expires t" if "res = Inr (t, ra)" for t ra
    using fetch_refresh [OF acquired.hyps(5) [symmetric, unfolded that] acquired.hyps(4)] that by (simp add: F_def)
  from acquire_inv [OF I acquired.hyps(3,1) this] show ?case by (simp add: provider_inv_def F_def)
next
  case (rejected w key v)
  have "cache_inv (invalidate key v (pw_provider w)) (pw_fetched w)"
    using rejected cache_inv_delete by (auto simp: provider_inv_def invalidate_def split: option.splits)
  moreover have "pv_flights (invalidate key v p) = pv_flights p" "pv_flight (invalidate key v p) = pv_flight p"
    "pv_next (invalidate key v p) = pv_next p" "pv_max_entries (invalidate key v p) = pv_max_entries p" for p
    by (simp_all add: invalidate_def split: option.splits)
  ultimately show ?case
    using rejected flights_inv_cong [of "invalidate key v (pw_provider w)" "pw_provider w"]
      waits_results_cong [of "invalidate key v (pw_provider w)" "pw_provider w"]
    by (simp add: provider_inv_def)
qed

lemma provider_inv_start:
  "0 < pv_max_entries p \<Longrightarrow> pv_cache p = [] \<Longrightarrow> pv_flights p = [] \<Longrightarrow> pv_next p = 0 \<Longrightarrow>
   provider_inv \<lparr>pw_provider = p, pw_waits = [], pw_owner = own, pw_fetched = {}\<rparr>"
  by (simp add: provider_inv_def cache_inv_def flights_inv_def results_inv_def waits_inv_def)

text \<open>
  C12. The token provider, with any number of concurrent callers: whatever is returned for a key,
  from the cache or from an acquisition, was granted by the endpoint for that very key and has not
  expired; an acquisition someone waits for is the current one of its key and not cancelled,
  whoever else gave up; and the cache and the acquisitions stay within the configured maximum.
\<close>

theorem provider_tokens_safe:
  assumes "new_provider from_seed parse_url cfg = Inr p0"
    and "(provider_step E media)\<^sup>*\<^sup>* \<lparr>pw_provider = p0, pw_waits = [], pw_owner = own, pw_fetched = {}\<rparr> w"
  shows "(\<forall>key now t p'. token_enter key False now (pw_provider w) = (Answer (Inr t), p') \<longrightarrow>
        (key, t) \<in> pw_fetched w \<and> now < tk_expires t) \<and>
    (\<forall>(key, f) \<in> set (pw_waits w). \<forall>now t. token_done f False now (pw_provider w) = Some (Inr t) \<longrightarrow>
        (key, t) \<in> pw_fetched w \<and> now < tk_expires t) \<and>
    (\<forall>(key, f) \<in> set (pw_waits w). fl_result (pv_flight (pw_provider w) f) = None \<longrightarrow>
        map_of (pv_flights (pw_provider w)) key = Some f \<and> \<not> fl_cancelled (pv_flight (pw_provider w) f)) \<and>
    length (pv_cache (pw_provider w)) \<le> pv_max_entries (pw_provider w) \<and>
    length (pv_flights (pw_provider w)) \<le> pv_max_entries (pw_provider w)"
proof -
  from assms(1) have "0 < pv_max_entries p0 \<and> pv_cache p0 = [] \<and> pv_flights p0 = [] \<and> pv_next p0 = 0"
    by (auto simp: new_provider_def Let_def split: option.splits)
  then have "provider_inv \<lparr>pw_provider = p0, pw_waits = [], pw_owner = own, pw_fetched = {}\<rparr>"
    by (intro provider_inv_start) simp_all
  with assms(2) have inv: "provider_inv w"
    by (induction rule: rtranclp_induct) (auto intro: provider_inv_step)
  let ?p = "pw_provider w"
  have ca: "cache_inv ?p (pw_fetched w)" and fl: "flights_inv ?p (pw_owner w)" and re: "results_inv ?p (pw_owner w) (pw_fetched w)"
    and wa: "waits_inv ?p (pw_owner w) (pw_waits w)" using inv by (simp_all add: provider_inv_def)
  have hit: "(key, t) \<in> pw_fetched w \<and> now < tk_expires t" if e: "token_enter key False now ?p = (Answer (Inr t), p')" for key now t p'
    using e
  proof (cases rule: token_enter_cases)
    case (hit c s)
    with ca map_of_SomeD [OF hit(1)] show ?thesis by (fastforce simp: cache_inv_def)
  next
    case (join cs)
    then show ?thesis by (auto simp: join_flight_def split: option.splits if_splits)
  qed simp
  moreover have "(key, t) \<in> pw_fetched w \<and> now < tk_expires t"
    if "(key, f) \<in> set (pw_waits w)" "token_done f False now ?p = Some (Inr t)" for key f now t
    using that(2) re waits_invD(1,2) [OF wa that(1)]
    by (auto simp: token_done_def results_inv_def split: option.splits sum.splits if_splits)
  moreover have "map_of (pv_flights ?p) key = Some f \<and> \<not> fl_cancelled (pv_flight ?p f)"
    if "(key, f) \<in> set (pw_waits w)" "fl_result (pv_flight ?p f) = None" for key f
    using waits_invD(3) [OF wa that] flights_invD [OF fl] by blast
  moreover have "length (pv_cache ?p) \<le> pv_max_entries ?p" "length (pv_flights ?p) \<le> pv_max_entries ?p"
    using ca fl by (simp_all add: cache_inv_def flights_inv_def)
  ultimately show ?thesis by blast
qed

definition provider_example :: provider_cfg where
  "provider_example = \<lparr>pc_client_id = ''01890f3c-7b5a-7c1e-8d2f-0123456789ab'', pc_key_id = ''k'', pc_private_key = replicate 64 CHR ''s'',
     pc_endpoint = ''https://issuer/token'', pc_client_timeout = 0, pc_max_entries = 2\<rparr>"

lemma provider_example_ok:
  "\<exists>p. new_provider (\<lambda>_. replicate 64 CHR ''s'') (\<lambda>_. Some \<lparr>u_scheme = ''https'', u_user = False, u_host = ''issuer'',
      u_hostname = ''issuer'', u_opaque = [], u_path = ''/token'', u_raw_path = [], u_raw_query = [], u_force_query = False,
      u_fragment = []\<rparr>) provider_example = Inr p \<and> pv_max_entries p = 2 \<and> pv_cache p = [] \<and> pv_flights p = [] \<and> pv_next p = 0"
proof -
  have u: "canonical_uuid ''01890f3c-7b5a-7c1e-8d2f-0123456789ab''" by code_simp
  have "ascii_identifier ''k'' 128" by code_simp
  moreover have "CHR ''#'' \<notin> set ''https://issuer/token''" by simp
  ultimately show ?thesis using u
    by (simp add: new_provider_def provider_example_def https_url_def bounded_timeout_def Let_def second_def)
qed

text \<open>Two callers of one key, the first of which gives up: the other one's acquisition is current.\<close>

lemma provider_tokens_safe_witness:
  "\<exists>from_seed parse_url p0 w key f.
     new_provider from_seed parse_url provider_example = Inr p0 \<and>
     (provider_step any_cipher (\<lambda>_. None))\<^sup>*\<^sup>* \<lparr>pw_provider = p0, pw_waits = [], pw_owner = (\<lambda>_. key), pw_fetched = {}\<rparr> w \<and>
     pw_waits w = [(key, f)] \<and> map_of (pv_flights (pw_provider w)) key = Some f \<and> \<not> fl_cancelled (pv_flight (pw_provider w) f)"
proof -
  obtain from_seed parse_url p where new: "new_provider from_seed parse_url provider_example = Inr p"
    and p: "pv_max_entries p = 2" "pv_cache p = []" "pv_flights p = []" "pv_next p = 0"
    using provider_example_ok by blast
  define key where "key = \<lparr>ck_project = [], ck_installation = [], ck_audience = ''catalog'', ck_scopes = [], ck_kind = ''application''\<rparr>"
  define w0 where "w0 = \<lparr>pw_provider = p, pw_waits = [], pw_owner = (\<lambda>_::nat. key), pw_fetched = {}\<rparr>"
  define w1 where "w1 = w0\<lparr>pw_provider := snd (token_enter key False 0 p), pw_waits := [(key, 0)]\<rparr>"
  define w2 where "w2 = w1\<lparr>pw_provider := snd (token_enter key False 0 (pw_provider w1)), pw_waits := [(key, 0), (key, 0)]\<rparr>"
  define w3 where "w3 = w2\<lparr>pw_provider := token_leave key 0 (pw_provider w2), pw_waits := [(key, 0)]\<rparr>"
  note ws = w3_def w2_def w1_def w0_def
  have own: "(\<lambda>_::nat. key)(0 := key) = (\<lambda>_. key)" by auto
  have e1: "token_enter key False 0 (pw_provider w0) = (Wait 0, pw_provider w1)"
    by (simp add: token_enter_def join_flight_def ws p)
  have s1: "provider_step any_cipher (\<lambda>_. None) w0 w1"
    using waiting [OF e1, of any_cipher "\<lambda>_. None"] by (simp add: ws own)
  have e2: "token_enter key False 0 (pw_provider w1) = (Wait 0, pw_provider w2)"
    by (simp add: token_enter_def join_flight_def ws p)
  have s2: "provider_step any_cipher (\<lambda>_. None) w1 w2"
    using waiting [OF e2, of any_cipher "\<lambda>_. None"] by (simp add: ws own)
  have s3: "provider_step any_cipher (\<lambda>_. None) w2 w3"
    using left [of key 0 w2 any_cipher "\<lambda>_. None"] by (simp add: ws)
  have run: "(provider_step any_cipher (\<lambda>_. None))\<^sup>*\<^sup>* w0 w3"
    using s1 s2 s3 by (meson converse_rtranclp_into_rtranclp r_into_rtranclp)
  have "fl_result (pv_flight (pw_provider w3) 0) = None" and "pw_waits w3 = [(key, 0)]"
    by (simp_all add: token_enter_def join_flight_def token_leave_def Let_def ws p)
  moreover have "\<forall>(k, f) \<in> set (pw_waits w3). fl_result (pv_flight (pw_provider w3) f) = None \<longrightarrow>
      map_of (pv_flights (pw_provider w3)) k = Some f \<and> \<not> fl_cancelled (pv_flight (pw_provider w3) f)"
    by (rule provider_tokens_safe [OF new run [unfolded w0_def], THEN conjunct2, THEN conjunct2, THEN conjunct1])
  ultimately have "pw_waits w3 = [(key, 0)] \<and> map_of (pv_flights (pw_provider w3)) key = Some 0 \<and> \<not> fl_cancelled (pv_flight (pw_provider w3) 0)"
    by simp
  with new run show ?thesis unfolding w0_def by blast
qed

end
