(* ===== verification/OAuthClient.thy ===== *)
theory OAuthClient
  imports OAuth
begin

text \<open>
  \<open>src/integrationoauth/client.go\<close>, \<open>application.go\<close>: the client that puts a token of the provider on
  the requests to one resource. What the two acquisitions and the two exchanges of a call answer are
  arguments of \<open>client_do\<close>; it returns the sequence of its effects. \<open>sf\<close> is \<open>unicode.SimpleFold\<close> on runes
  beyond ASCII (a representative of the orbit).
\<close>

subsection \<open>Paths\<close>

text \<open>\<open>path.Clean\<close> on rooted paths: the elements kept so far are on a stack.\<close>

fun clean_stack :: "string list \<Rightarrow> string list \<Rightarrow> string list" where
  "clean_stack st [] = rev st"
| "clean_stack st (s # ss) =
     (if s = [] \<or> s = ''.'' then clean_stack st ss
      else if s = ''..'' then clean_stack (tl st) ss
      else clean_stack (s # st) ss)"

definition path_clean :: "string \<Rightarrow> string" where
  "path_clean p = ''/'' @ join ''/'' (clean_stack [] (split_on CHR ''/'' p))"

definition trim_suffix :: "string \<Rightarrow> string \<Rightarrow> string" where
  "trim_suffix x s = (if has_prefix (rev x) (rev s) then take (length s - length x) s else s)"

definition clean_resource_path :: "url \<Rightarrow> bool" where
  "clean_resource_path u \<longleftrightarrow> u_path u = [] \<or>
     (has_prefix ''/'' (u_path u) \<and> \<not> list_ex (\<lambda>c. c = CHR 0x5C \<or> c = CHR ''%'') (u_path u) \<and>
      \<not> (u_raw_path u \<noteq> [] \<and> u_raw_path u \<noteq> u_path u) \<and>
      (path_clean (u_path u) = trim_suffix ''/'' (u_path u) \<or> u_path u = ''/''))"

subsection \<open>The client\<close>

definition fold_rune :: "(nat \<Rightarrow> nat) \<Rightarrow> nat \<Rightarrow> nat" where
  "fold_rune sf r = (if r = 0x212A then 107 else if r = 0x17F then 115 else if 65 \<le> r \<and> r \<le> 90 then r + 32
     else if r < 128 then r else sf r)"

definition equal_fold :: "(nat \<Rightarrow> nat) \<Rightarrow> string \<Rightarrow> string \<Rightarrow> bool" where
  "equal_fold sf s t \<longleftrightarrow> map (fold_rune sf \<circ> fst) (chunks s) = map (fold_rune sf \<circ> fst) (chunks t)"

record client =
  cl_application :: "string option"
  cl_base :: url
  cl_request :: token_request

datatype body = NoBody | Body string "string option option" \<comment> \<open>what \<open>GetBody\<close> returns, when it is set\<close>

record resource_request =
  rq_method :: string
  rq_url :: "url option"
  rq_host :: string
  rq_headers :: "(string \<times> string list) list"
  rq_body :: body

datatype client_error = ClientConfig | ClientRequest | ClientToken oauth_error | ClientTransport bool

definition resource_base :: "(string \<Rightarrow> url option) \<Rightarrow> string \<Rightarrow> url option" where
  "resource_base parse_url base = (case parse_url base of None \<Rightarrow> None
     | Some u \<Rightarrow> if \<not> https_url u \<or> u_raw_query u \<noteq> [] \<or> u_force_query u \<or> CHR ''#'' \<in> set base \<or> \<not> clean_resource_path u
        then None else Some u)"

definition new_client :: "(string \<Rightarrow> url option) \<Rightarrow> string \<Rightarrow> token_request \<Rightarrow> (client_error, client) go_result" where
  "new_client parse_url base r = (case resource_base parse_url base of None \<Rightarrow> Inl ClientConfig
     | Some u \<Rightarrow> (case request_key r of Inl _ \<Rightarrow> Inl ClientConfig
         | Inr _ \<Rightarrow> Inr \<lparr>cl_application = None, cl_base = u, cl_request = r\<rparr>))"

definition new_application_client :: "(string \<Rightarrow> url option) \<Rightarrow> string \<Rightarrow> string \<Rightarrow> (client_error, client) go_result" where
  "new_application_client parse_url base audience = (case resource_base parse_url base of None \<Rightarrow> Inl ClientConfig
     | Some u \<Rightarrow> (case application_request_key audience of Inl _ \<Rightarrow> Inl ClientConfig
         | Inr _ \<Rightarrow> Inr \<lparr>cl_application = Some audience, cl_base = u,
             cl_request = \<lparr>tr_project = [], tr_installation = [], tr_audience = [], tr_scopes = []\<rparr>\<rparr>))"

definition acquire_token :: "client \<Rightarrow> bool \<Rightarrow> time \<Rightarrow> provider \<Rightarrow> entered \<times> provider" where
  "acquire_token c ctx_err now p =
     (case (case cl_application c of Some a \<Rightarrow> application_request_key a | None \<Rightarrow> request_key (cl_request c)) of
        Inl e \<Rightarrow> (Answer (Inl e), p)
      | Inr key \<Rightarrow> token_enter key ctx_err now p)"

definition invalidate_token :: "client \<Rightarrow> token \<Rightarrow> provider \<Rightarrow> provider" where
  "invalidate_token c t p = (case cl_application c of
     Some a \<Rightarrow> invalidate_application a (tk_value t) p
   | None \<Rightarrow> invalidate_request (cl_request c) (tk_value t) p)"

definition credential_headers :: "string list" where
  "credential_headers = [''authorization'', ''proxy-authorization'', ''cookie'', ''x-api-key'', ''x-integration-id'',
     ''x-integration-timestamp'', ''x-integration-signature'']"

definition within_base :: "string \<Rightarrow> string \<Rightarrow> bool" where
  "within_base base p \<longleftrightarrow> (let b = trim_right_char CHR ''/'' base in p = b \<or> has_prefix (b @ ''/'') p)"

definition accepts :: "(nat \<Rightarrow> nat) \<Rightarrow> client \<Rightarrow> resource_request option \<Rightarrow> bool" where
  "accepts sf c req = (case req of None \<Rightarrow> False | Some r \<Rightarrow> (case rq_url r of None \<Rightarrow> False | Some u \<Rightarrow>
     https_url u \<and> equal_fold sf (u_host u) (u_host (cl_base c)) \<and> clean_resource_path u \<and>
     \<not> (rq_host r \<noteq> [] \<and> \<not> equal_fold sf (rq_host r) (u_host (cl_base c))) \<and>
     within_base (u_path (cl_base c)) (u_path u) \<and>
     \<not> list_ex (\<lambda>(k, _). lower_key k \<in> set credential_headers) (rq_headers r)))"

subsection \<open>A call\<close>

datatype call_effect = Acquired "(oauth_error, token) go_result" | Sent resource_request | Rejected token

definition bearer :: "token \<Rightarrow> resource_request \<Rightarrow> resource_request" where
  "bearer t r = r\<lparr>rq_headers := AList.update ''Authorization'' [''Bearer '' @ tk_value t] (rq_headers r)\<rparr>"

text \<open>The request that can be sent once more, when the body can be had again.\<close>

definition replay :: "resource_request \<Rightarrow> resource_request option" where
  "replay r = (case rq_body r of
     NoBody \<Rightarrow> Some r
   | Body _ (Some (Some b)) \<Rightarrow> Some (r\<lparr>rq_body := Body b (Some (Some b))\<rparr>)
   | Body _ _ \<Rightarrow> None)"

definition client_do :: "(nat \<Rightarrow> nat) \<Rightarrow> client \<Rightarrow> resource_request option \<Rightarrow> bool \<Rightarrow>
    (oauth_error, token) go_result \<Rightarrow> (bool, http_reply) go_result \<Rightarrow>
    (oauth_error, token) go_result \<Rightarrow> (bool, http_reply) go_result \<Rightarrow>
    (client_error, http_reply) go_result \<times> call_effect list" where
  "client_do sf c req retry token1 reply1 token2 reply2 = (case req of
     None \<Rightarrow> (Inl ClientRequest, [])
   | Some r \<Rightarrow>
       if \<not> accepts sf c req then (Inl ClientRequest, [])
       else (case token1 of Inl e \<Rightarrow> (Inl (ClientToken e), [Acquired token1])
     | Inr t \<Rightarrow> (case reply1 of
         Inl ctx_err \<Rightarrow> (Inl (ClientTransport ctx_err), [Acquired token1, Sent (bearer t r)])
       | Inr a \<Rightarrow>
           if hr_status a \<noteq> 401 then (Inr a, [Acquired token1, Sent (bearer t r)])
           else (case (if retry then replay r else None) of
               None \<Rightarrow> (Inr a, [Acquired token1, Sent (bearer t r), Rejected t])
             | Some r2 \<Rightarrow> (case token2 of
                 Inl e \<Rightarrow> (Inl (ClientToken e), [Acquired token1, Sent (bearer t r), Rejected t, Acquired token2])
               | Inr t2 \<Rightarrow> (case reply2 of
                   Inl ctx_err \<Rightarrow> (Inl (ClientTransport ctx_err),
                     [Acquired token1, Sent (bearer t r), Rejected t, Acquired token2, Sent (bearer t2 r2)])
                 | Inr a2 \<Rightarrow> (Inr a2, [Acquired token1, Sent (bearer t r), Rejected t, Acquired token2, Sent (bearer t2 r2)] @
                     (if hr_status a2 = 401 then [Rejected t2] else []))))))))"

definition do_request :: "(nat \<Rightarrow> nat) \<Rightarrow> client \<Rightarrow> resource_request option \<Rightarrow>
    (oauth_error, token) go_result \<Rightarrow> (bool, http_reply) go_result \<Rightarrow>
    (oauth_error, token) go_result \<Rightarrow> (bool, http_reply) go_result \<Rightarrow>
    (client_error, http_reply) go_result \<times> call_effect list" where
  "do_request sf c req =
     client_do sf c req (case req of None \<Rightarrow> False | Some r \<Rightarrow> rq_method r \<in> {''GET'', ''HEAD'', []})"

definition do_idempotent :: "(nat \<Rightarrow> nat) \<Rightarrow> client \<Rightarrow> resource_request option \<Rightarrow>
    (oauth_error, token) go_result \<Rightarrow> (bool, http_reply) go_result \<Rightarrow>
    (oauth_error, token) go_result \<Rightarrow> (bool, http_reply) go_result \<Rightarrow>
    (client_error, http_reply) go_result \<times> call_effect list" where
  "do_idempotent sf c req = client_do sf c req True"

subsection \<open>Clean paths\<close>

lemma clean_stack_set: "set (clean_stack st ss) \<subseteq> set st \<union> set ss"
proof (induction st ss rule: clean_stack.induct)
  case (2 st s ss)
  have "set (tl st) \<subseteq> set st" by (cases st) auto
  with 2 show ?case by (simp del: set_subset_Cons) blast
qed simp

lemma clean_stack_proper:
  assumes "\<And>s. s \<in> set st \<Longrightarrow> ok s" and "s \<in> set (clean_stack st ss)"
    and ok: "\<And>s. s \<noteq> [] \<Longrightarrow> s \<noteq> ''.'' \<Longrightarrow> s \<noteq> ''..'' \<Longrightarrow> ok s"
  shows "ok s"
  using assms(1,2)
proof (induction ss arbitrary: st)
  case (Cons x ss)
  have tl: "s \<in> set (tl st) \<Longrightarrow> s \<in> set st" for s by (cases st) auto
  consider "clean_stack st (x # ss) = clean_stack st ss" | "clean_stack st (x # ss) = clean_stack (tl st) ss"
    | "clean_stack st (x # ss) = clean_stack (x # st) ss" "ok x" using ok [of x] by (simp only: clean_stack.simps) metis
  then show ?case
  proof cases
    case 1
    with Cons show ?thesis by metis
  next
    case 2
    with Cons tl show ?thesis by metis
  next
    case 3
    with Cons.IH [of "x # st"] Cons.prems show ?thesis by (metis set_ConsD)
  qed
qed simp

lemma clean_stack_plain: "\<forall>s \<in> set ss. s \<noteq> ''.'' \<and> s \<noteq> ''..'' \<Longrightarrow> clean_stack st ss = rev st @ filter (\<lambda>s. s \<noteq> []) ss"
  by (induction st ss rule: clean_stack.induct) auto

lemma trim_suffix_char: "trim_suffix [x] s = (if s \<noteq> [] \<and> last s = x then butlast s else s)"
  by (cases s rule: rev_cases) (auto simp: trim_suffix_def has_prefix_def)

definition path_element :: "string \<Rightarrow> bool" where
  "path_element s \<longleftrightarrow> CHR ''/'' \<notin> set s \<and> s \<notin> {[], ''.'', ''..''}"

definition path_elements :: "string \<Rightarrow> string list" where
  "path_elements p = filter (\<lambda>s. s \<noteq> []) (split_on CHR ''/'' p)"

lemma last_join: "ps \<noteq> [] \<Longrightarrow> last ps \<noteq> [] \<Longrightarrow> join sep ps \<noteq> [] \<and> last (join sep ps) = last (last ps)"
  by (induction sep ps rule: join.induct) auto

lemma split_on_append_all: "split_on c (a @ c # s) = split_on c a @ split_on c s"
  by (induction a) (auto split: list.splits)

lemma split_elements: "segs \<noteq> [] \<Longrightarrow> \<forall>s \<in> set segs. path_element s \<Longrightarrow> split_on CHR ''/'' (join ''/'' segs) = segs"
  by (rule split_on_join) (auto simp: path_element_def)

lemma path_element_last: "path_element s \<Longrightarrow> s \<noteq> [] \<and> last s \<noteq> CHR ''/''"
  using last_in_set [of s] unfolding path_element_def by (metis insertCI)

lemma clean_elements:
  assumes "\<forall>s \<in> set segs. path_element s"
  shows "clean_stack [] ([] # segs) = segs" "clean_stack [] ([] # segs @ [[]]) = segs"
proof -
  have "\<forall>s \<in> set ([] # segs @ [[]]). s \<noteq> ''.'' \<and> s \<noteq> ''..''" "filter (\<lambda>s. s \<noteq> []) segs = segs"
    using assms unfolding path_element_def by (simp_all add: filter_id_conv)
  then show "clean_stack [] ([] # segs) = segs" "clean_stack [] ([] # segs @ [[]]) = segs"
    by (simp_all add: clean_stack_plain del: clean_stack.simps)
qed

lemma clean_path_iff:
  "(has_prefix ''/'' p \<and> (path_clean p = trim_suffix ''/'' p \<or> p = ''/'')) \<longleftrightarrow> p \<in> {''/'', ''//''} \<or>
     (\<exists>segs. segs \<noteq> [] \<and> (\<forall>s \<in> set segs. path_element s) \<and> p \<in> {''/'' @ join ''/'' segs, ''/'' @ join ''/'' segs @ ''/''})"
  (is "?l \<longleftrightarrow> _ \<or> (\<exists>segs. ?e segs)")
proof
  assume l: ?l
  define st where "st = clean_stack [] (split_on CHR ''/'' p)"
  show "p \<in> {''/'', ''//''} \<or> (\<exists>segs. ?e segs)"
  proof (cases "p = ''/''")
    case False
    with l have t: "''/'' @ join ''/'' st = trim_suffix ''/'' p" by (simp add: path_clean_def st_def)
    then have "p = ''/'' @ join ''/'' st \<or> p = ''/'' @ join ''/'' st @ ''/''"
      by (cases p rule: rev_cases) (auto simp: trim_suffix_char split: if_splits)
    moreover have "\<forall>s \<in> set st. path_element s"
    proof
      fix s assume s: "s \<in> set st"
      with clean_stack_set [of "[]" "split_on CHR ''/'' p"] have "s \<in> set (split_on CHR ''/'' p)" by (auto simp: st_def)
      then have "CHR ''/'' \<notin> set s" by (rule split_on_part)
      moreover from clean_stack_proper [of "[]" "\<lambda>s. s \<noteq> [] \<and> s \<noteq> ''.'' \<and> s \<noteq> ''..''", OF _ s [unfolded st_def]] have "s \<noteq> [] \<and> s \<noteq> ''.'' \<and> s \<noteq> ''..''" by simp
      ultimately show "path_element s" by (simp add: path_element_def)
    qed
    ultimately show ?thesis using False by (cases "st = []") auto
  qed simp
next
  assume "p \<in> {''/'', ''//''} \<or> (\<exists>segs. ?e segs)"
  then consider "p = ''/''" | "p = ''//''" | segs where "?e segs" by blast
  then show ?l
  proof cases
    case 3
    then have e: "\<forall>s \<in> set segs. path_element s" "segs \<noteq> []" by blast+
    then have "last segs \<noteq> []" "last (last segs) \<noteq> CHR ''/''" using path_element_last by simp_all
    with e(2) have last: "join ''/'' segs \<noteq> []" "last (join ''/'' segs) \<noteq> CHR ''/''" using last_join [of segs "''/''"] by auto
    from 3 consider "p = CHR ''/'' # join ''/'' segs" | "p = CHR ''/'' # join ''/'' segs @ ''/''" by auto
    then show ?thesis
    proof cases
      case 1
      with e clean_elements(1) [OF e(1)] last show ?thesis
        by (simp add: path_clean_def split_elements trim_suffix_char has_prefix_def)
    next
      case 2
      with e clean_elements(2) [OF e(1)] last show ?thesis
        by (simp add: path_clean_def split_elements split_on_append_all trim_suffix_char has_prefix_def)
    qed
  qed (simp_all add: path_clean_def trim_suffix_char has_prefix_def)
qed

text \<open>
  Which resource paths are accepted: the empty path, \<open>/\<close>, \<open>//\<close>, and the paths of elements that
  are neither empty nor dot segments, with at most one slash at the end; without backslashes and
  percent signs, and with no other escaped form.
\<close>

theorem clean_resource_path_iff:
  "clean_resource_path u \<longleftrightarrow> u_path u = [] \<or>
     ((u_raw_path u = [] \<or> u_raw_path u = u_path u) \<and> CHR 0x5C \<notin> set (u_path u) \<and> CHR ''%'' \<notin> set (u_path u) \<and>
      (u_path u \<in> {''/'', ''//''} \<or>
       (\<exists>segs. segs \<noteq> [] \<and> list_all path_element segs \<and>
          u_path u \<in> {''/'' @ join ''/'' segs, ''/'' @ join ''/'' segs @ ''/''})))"
proof -
  have bad: "list_ex (\<lambda>c. c = CHR 0x5C \<or> c = CHR ''%'') p \<longleftrightarrow> CHR 0x5C \<in> set p \<or> CHR ''%'' \<in> set p" for p
    by (auto simp: list_ex_iff)
  have "(e \<or> (h \<and> \<not> bad \<and> \<not> (\<not> r1 \<and> \<not> r2) \<and> c)) \<longleftrightarrow> (e \<or> ((r1 \<or> r2) \<and> \<not> b1 \<and> \<not> b2 \<and> x))"
    if "h \<and> c \<longleftrightarrow> x" "bad \<longleftrightarrow> b1 \<or> b2" for h c x bad b1 b2 e r1 r2 using that by blast
  from this [OF clean_path_iff bad] show ?thesis unfolding clean_resource_path_def list_all_iff .
qed

lemma trim_right_replicate: obtains n where "s = trim_right_char c s @ replicate n c"
  by (rule trim_right_char_ex)

lemma path_elements_append: "path_elements (a @ CHR ''/'' # b) = path_elements a @ path_elements b"
  by (simp add: path_elements_def split_on_append_all)

lemma path_elements_slashes: "path_elements (a @ replicate n CHR ''/'') = path_elements a"
proof (induction n)
  case (Suc n)
  have "a @ replicate (Suc n) CHR ''/'' = (a @ replicate n CHR ''/'') @ CHR ''/'' # []"
    by (simp add: replicate_append_same)
  with Suc show ?case by (simp only: path_elements_append) (simp add: path_elements_def)
qed simp

lemma within_base_elements:
  assumes "within_base base p"
  shows "\<exists>more. path_elements p = path_elements base @ more"
proof -
  define b where "b = trim_right_char CHR ''/'' base"
  obtain n where "base = b @ replicate n CHR ''/''" using trim_right_replicate b_def by metis
  then have base: "path_elements base = path_elements b" by (simp add: path_elements_slashes)
  from assms consider "p = b" | t where "p = b @ CHR ''/'' # t"
    by (auto simp: within_base_def Let_def b_def has_prefix_conv)
  then show ?thesis unfolding base by cases (auto simp: path_elements_append)
qed

text \<open>What normalising a clean path sees is its elements.\<close>

lemma clean_path_elements:
  assumes "clean_resource_path u"
  shows "clean_stack [] (split_on CHR ''/'' (u_path u)) = path_elements (u_path u)"
proof -
  from assms consider "u_path u \<in> {[], ''/'', ''//''}"
    | segs where "segs \<noteq> []" "\<forall>s \<in> set segs. path_element s" "u_path u = CHR ''/'' # join ''/'' segs"
    | segs where "segs \<noteq> []" "\<forall>s \<in> set segs. path_element s" "u_path u = CHR ''/'' # join ''/'' segs @ ''/''"
    unfolding clean_resource_path_def using clean_path_iff [of "u_path u"] by (auto simp only: append_Cons append_Nil insert_iff empty_iff)
  then have "\<forall>s \<in> set (split_on CHR ''/'' (u_path u)). s \<noteq> ''.'' \<and> s \<noteq> ''..''"
  proof cases
    case 1
    then show ?thesis by auto
  next
    case 2
    then show ?thesis using split_elements [OF 2(1,2)] by (auto simp: path_element_def)
  next
    case 3
    then show ?thesis using split_elements [OF 3(1,2)] by (auto simp: path_element_def split_on_append_all)
  qed
  then show ?thesis by (simp add: clean_stack_plain path_elements_def)
qed

subsection \<open>What a call sends\<close>

fun sent_requests :: "call_effect list \<Rightarrow> resource_request list" where
  "sent_requests [] = []"
| "sent_requests (Sent q # es) = q # sent_requests es"
| "sent_requests (_ # es) = sent_requests es"

definition credentials :: "resource_request \<Rightarrow> (string \<times> string list) list" where
  "credentials r = filter (\<lambda>(k, _). lower_key k \<in> set credential_headers) (rq_headers r)"

definition confined :: "(nat \<Rightarrow> nat) \<Rightarrow> client \<Rightarrow> token \<Rightarrow> resource_request \<Rightarrow> bool" where
  "confined sf c t q \<longleftrightarrow> (\<exists>u more. rq_url q = Some u \<and> https_url u \<and> equal_fold sf (u_host u) (u_host (cl_base c)) \<and>
     clean_stack [] (split_on CHR ''/'' (u_path u)) = path_elements (u_path (cl_base c)) @ more \<and>
     credentials q = [(''Authorization'', [''Bearer '' @ tk_value t])])"

lemma lower_authorization: "lower_key ''Authorization'' = ''authorization''"
  by code_simp

lemma update_new: "k \<notin> fst ` set xs \<Longrightarrow> AList.update k v xs = xs @ [(k, v)]"
  by (induction xs) auto

lemma bearer_credentials:
  assumes "\<not> list_ex (\<lambda>(k, _). lower_key k \<in> set credential_headers) (rq_headers r)"
  shows "credentials (bearer t r) = [(''Authorization'', [''Bearer '' @ tk_value t])]"
proof -
  have auth: "lower_key ''Authorization'' \<in> set credential_headers" by (simp add: lower_authorization credential_headers_def)
  with assms have "''Authorization'' \<notin> fst ` set (rq_headers r)" by (fastforce simp: list_ex_iff)
  then have "rq_headers (bearer t r) = rq_headers r @ [(''Authorization'', [''Bearer '' @ tk_value t])]"
    by (simp add: bearer_def update_new)
  moreover have "filter (\<lambda>(k, _). lower_key k \<in> set credential_headers) (rq_headers r) = []"
    using assms by (auto simp: filter_empty_conv list_ex_iff)
  ultimately show ?thesis using auth by (simp add: credentials_def)
qed

lemma accepted_confined:
  assumes "accepts sf c (Some r)" "rq_url q = rq_url r" "rq_headers q = rq_headers r"
  shows "confined sf c t (bearer t q)"
proof -
  from assms(1) obtain u where u: "rq_url r = Some u" "https_url u" "equal_fold sf (u_host u) (u_host (cl_base c))"
    "clean_resource_path u" "within_base (u_path (cl_base c)) (u_path u)"
    "\<not> list_ex (\<lambda>(k, _). lower_key k \<in> set credential_headers) (rq_headers r)"
    by (auto simp: accepts_def split: option.splits)
  from within_base_elements [OF u(5)] clean_path_elements [OF u(4)] obtain more where
    "clean_stack [] (split_on CHR ''/'' (u_path u)) = path_elements (u_path (cl_base c)) @ more" by auto
  moreover have "credentials (bearer t q) = [(''Authorization'', [''Bearer '' @ tk_value t])]"
    using u(6) by (intro bearer_credentials) (simp add: assms(3))
  moreover have "rq_url (bearer t q) = Some u" using u(1) assms(2) by (simp add: bearer_def)
  ultimately show ?thesis using u(2,3) unfolding confined_def by blast
qed

lemma replay_same: "replay r = Some q \<Longrightarrow> rq_url q = rq_url r \<and> rq_headers q = rq_headers r"
  by (auto simp: replay_def split: body.splits option.splits)

text \<open>The effects a call can have.\<close>

lemma client_do_cases:
  assumes "client_do sf c req retry token1 reply1 token2 reply2 = (res, ev)"
  obtains (refused) "ev = []" "res = Inl ClientRequest"
  | (no_token) e where "ev = [Acquired (Inl e)]" "res = Inl (ClientToken e)"
  | (once) r t where "req = Some r" "accepts sf c req" "token1 = Inr t" "ev = [Acquired (Inr t), Sent (bearer t r)]"
      "\<And>a. res = Inr a \<Longrightarrow> hr_status a \<noteq> 401"
  | (unauthorized) r t more where "req = Some r" "accepts sf c req" "token1 = Inr t"
      "ev = [Acquired (Inr t), Sent (bearer t r), Rejected t] @ more" "more = [] \<or> (\<exists>e. more = [Acquired (Inl e)] \<and> res = Inl (ClientToken e))"
  | (again) r t a q t2 where "req = Some r" "accepts sf c req" "token1 = Inr t" "reply1 = Inr a" "hr_status a = 401" "retry"
      "replay r = Some q" "token2 = Inr t2"
      "ev = [Acquired (Inr t), Sent (bearer t r), Rejected t, Acquired (Inr t2), Sent (bearer t2 q)] @
        (case res of Inr a2 \<Rightarrow> if hr_status a2 = 401 then [Rejected t2] else [] | _ \<Rightarrow> [])"
  using assms
  by (auto simp: client_do_def split: option.splits sum.splits if_splits)

text \<open>
  C13. A call sends at most two requests, both over HTTPS to the client's host, to paths that stay below
  its base path also after normalisation, with one credential: a token acquired in this call. A second
  one is sent only when the first was answered with 401, the call may be retried and its body can be
  had again; a token that was answered with 401 is invalidated before the call goes on or returns.
\<close>

theorem client_call_confined:
  assumes "client_do sf c req retry token1 reply1 token2 reply2 = (res, ev)"
  shows "(\<forall>q \<in> set (sent_requests ev). \<exists>t. Acquired (Inr t) \<in> set ev \<and> confined sf c t q) \<and>
    length (sent_requests ev) \<le> 2 \<and>
    (length (sent_requests ev) = 2 \<longrightarrow> retry \<and> (\<exists>a. reply1 = Inr a \<and> hr_status a = 401) \<and>
       (\<exists>r q t. req = Some r \<and> replay r = Some q \<and> take 3 ev = [Acquired (Inr t), Sent (bearer t r), Rejected t])) \<and>
    (\<forall>a. res = Inr a \<and> hr_status a = 401 \<longrightarrow> (\<exists>t q. last ev = Rejected t \<and> last (sent_requests ev) = bearer t q))"
  using assms
proof (cases rule: client_do_cases)
  case (once r t)
  then show ?thesis using accepted_confined [of sf c r r t] by auto
next
  case (unauthorized r t more)
  then show ?thesis using accepted_confined [of sf c r r t] by auto
next
  case (again r t a q t2)
  have "confined sf c t (bearer t r)" "confined sf c t2 (bearer t2 q)"
    using again(1,2) accepted_confined [of sf c r] replay_same [OF again(7)] by auto
  then show ?thesis using again by (auto split: sum.splits if_splits)
qed auto

definition client_example :: client where
  "client_example = \<lparr>cl_application = Some ''catalog'', cl_base = \<lparr>u_scheme = ''https'', u_user = False, u_host = ''api'', u_hostname = ''api'',
     u_opaque = [], u_path = ''/v1/'', u_raw_path = [], u_raw_query = [], u_force_query = False, u_fragment = []\<rparr>,
     cl_request = \<lparr>tr_project = [], tr_installation = [], tr_audience = [], tr_scopes = []\<rparr>\<rparr>"

definition request_example :: resource_request where
  "request_example = \<lparr>rq_method = ''GET'', rq_url = Some ((cl_base client_example)\<lparr>u_path := ''/v1/items''\<rparr>), rq_host = [],
     rq_headers = [(''Accept'', [''application/json''])], rq_body = NoBody\<rparr>"

lemma client_call_confined_witness:
  "\<exists>res ev t t2. client_do id client_example (Some request_example) True
       (Inr t) (Inr \<lparr>hr_status = 401, hr_content_type = [], hr_body = []\<rparr>) (Inr t2) (Inr \<lparr>hr_status = 200, hr_content_type = [], hr_body = []\<rparr>) = (res, ev) \<and>
     length (sent_requests ev) = 2 \<and> (\<forall>q \<in> set (sent_requests ev). \<exists>t. confined id client_example t q)"
proof -
  let ?t = "\<lparr>tk_value = ''a'', tk_expires = 1, tk_scope = []\<rparr>"
  let ?e = "[Acquired (Inr ?t), Sent (bearer ?t request_example), Rejected ?t, Acquired (Inr ?t), Sent (bearer ?t request_example)]"
  have "accepts id client_example (Some request_example)" by code_simp
  then have call: "client_do id client_example (Some request_example) True (Inr ?t) (Inr \<lparr>hr_status = 401, hr_content_type = [], hr_body = []\<rparr>) (Inr ?t)
      (Inr \<lparr>hr_status = 200, hr_content_type = [], hr_body = []\<rparr>) = (Inr \<lparr>hr_status = 200, hr_content_type = [], hr_body = []\<rparr>, ?e)"
    by (simp add: client_do_def replay_def request_example_def)
  show ?thesis
  proof (intro exI conjI)
    show "length (sent_requests ?e) = 2" by simp
    show "\<forall>q \<in> set (sent_requests ?e). \<exists>t. confined id client_example t q"
      using client_call_confined [OF call] by blast
  qed (rule call)
qed

end
