(* ===== verification/JsonStrings.thy ===== *)
theory JsonStrings
  imports Codec
begin

text \<open>
  What \<open>json.Marshal\<close> writes for a string of UTF-8 is read back as that string, whatever escapes
  it needs.
\<close>

lemma digit64: "z < 64 \<Longrightarrow> (q * 64 + z) div 64 = q \<and> (q * 64 + z) mod 64 = (z :: nat)"
  by (simp add: mult.commute)

lemma char_of_byte: "n = byte c \<Longrightarrow> char_of n = c"
  by simp

lemma decode_three:
  assumes "second_byte b0 b1" "cont_byte b2" "0xE0 \<le> b0" "b0 < 0xF0"
    and r: "r = (b0 - 0xE0) * 4096 + (b1 - 0x80) * 64 + (b2 - 0x80)"
  shows "r div 4096 = b0 - 0xE0 \<and> (r div 64) mod 64 = b1 - 0x80 \<and> r mod 64 = b2 - 0x80 \<and>
    0x800 \<le> r \<and> r < 0x10000 \<and> \<not> (0xD800 \<le> r \<and> r < 0xE000)"
proof -
  define x y z where "x = b0 - 0xE0" and "y = b1 - 0x80" and "z = b2 - 0x80"
  have b: "y < 64" "z < 64" "x < 16" "x = 0 \<longrightarrow> 32 \<le> y" "x = 13 \<longrightarrow> y < 32"
    using assms by (auto simp: second_byte_def cont_byte_def x_def y_def z_def split: if_splits)
  have r': "r = (x * 64 + y) * 64 + z" by (simp add: r x_def y_def z_def)
  have "r div 64 = x * 64 + y" "r mod 64 = z" unfolding r' using digit64 [OF b(2), of "x * 64 + y"] by simp_all
  moreover have "r div 4096 = (r div 64) div 64" by (simp add: div_mult2_eq [symmetric])
  ultimately have "r div 4096 = x" "(r div 64) mod 64 = y" "r mod 64 = z" using b(1) by simp_all
  moreover have "0x800 \<le> r" "r < 0x10000" using b by (auto simp: r')
  moreover have "\<not> (0xD800 \<le> r \<and> r < 0xE000)"
  proof (cases "x \<le> 12" "x = 13" rule: case_split [case_product case_split])
    case False_False
    then have "14 \<le> x" by simp
    then show ?thesis by (simp add: r')
  qed (use b in \<open>auto simp: r'\<close>)
  ultimately show ?thesis by (simp add: x_def y_def z_def)
qed

lemma decode_four:
  assumes "second_byte b0 b1" "cont_byte b2" "cont_byte b3" "0xF0 \<le> b0" "b0 \<le> 0xF4"
    and r: "r = (b0 - 0xF0) * 262144 + (b1 - 0x80) * 4096 + (b2 - 0x80) * 64 + (b3 - 0x80)"
  shows "r div 262144 = b0 - 0xF0 \<and> (r div 4096) mod 64 = b1 - 0x80 \<and> (r div 64) mod 64 = b2 - 0x80 \<and> r mod 64 = b3 - 0x80 \<and>
    0x10000 \<le> r \<and> r \<le> 0x10FFFF"
proof -
  define x y z w where "x = b0 - 0xF0" and "y = b1 - 0x80" and "z = b2 - 0x80" and "w = b3 - 0x80"
  have b: "y < 64" "z < 64" "w < 64" "x \<le> 4" "x = 0 \<longrightarrow> 16 \<le> y" "x = 4 \<longrightarrow> y < 16"
    using assms by (auto simp: second_byte_def cont_byte_def x_def y_def z_def w_def split: if_splits)
  have r': "r = ((x * 64 + y) * 64 + z) * 64 + w" by (simp add: r x_def y_def z_def w_def)
  have 1: "r div 64 = (x * 64 + y) * 64 + z" "r mod 64 = w" unfolding r' using digit64 [OF b(3), of "(x * 64 + y) * 64 + z"] by simp_all
  have "r div 4096 = (r div 64) div 64" by (simp add: div_mult2_eq [symmetric])
  then have 2: "r div 4096 = x * 64 + y" "(r div 64) mod 64 = z" unfolding 1 using digit64 [OF b(2), of "x * 64 + y"] by simp_all
  have "r div 262144 = (r div 4096) div 64" by (simp add: div_mult2_eq [symmetric])
  then have "r div 262144 = x" "(r div 4096) mod 64 = y" using b(1) by (simp_all add: 2)
  moreover have "0x10000 \<le> r" "r \<le> 0x10FFFF" using b by (auto simp: r')
  ultimately show ?thesis using 1 2 by (simp add: x_def y_def z_def w_def)
qed

lemma decode_two:
  assumes "0xC2 \<le> b0" "b0 < 0xE0" "second_byte b0 b1" and r: "r = (b0 - 0xC0) * 64 + (b1 - 0x80)"
  shows "r div 64 = b0 - 0xC0 \<and> r mod 64 = b1 - 0x80 \<and> 0x80 \<le> r \<and> r < 0x800"
proof -
  define x y where "x = b0 - 0xC0" and "y = b1 - 0x80"
  have b: "y < 64" "x < 32" "2 \<le> x" using assms by (auto simp: second_byte_def x_def y_def split: if_splits)
  have r': "r = x * 64 + y" by (simp add: r x_def y_def)
  show ?thesis using b by (simp add: r' x_def [symmetric] y_def [symmetric])
qed

text \<open>A rune that takes several bytes: what follows does not matter, and encoding gives its bytes.\<close>

lemma decode_multi:
  assumes d: "decode_rune s = (r, w)" and w: "2 \<le> w"
  shows "decode_rune (take w s @ u) = (r, w) \<and> encode_rune r = take w s \<and> 0x80 \<le> byte (hd s) \<and> 0x80 \<le> r \<and> length (take w s) = w"
proof -
  from d w obtain c0 r0 where s0: "s = c0 # r0" "0xC2 \<le> byte c0" "byte c0 \<le> 0xF4"
    by (cases s) (auto simp: decode_rune_def split: if_splits)
  from d w s0 obtain c1 r1 where s1: "r0 = c1 # r1" "second_byte (byte c0) (byte c1)"
    by (cases r0) (auto simp: decode_rune_def split: if_splits)
  show ?thesis
  proof (cases "byte c0 < 0xE0")
    case True
    with d s0 s1 have r: "r = (byte c0 - 0xC0) * 64 + (byte c1 - 0x80)" "w = 2" by (auto simp: decode_rune_def)
    have "0x80 \<le> byte c1" using s1(2) by (auto simp: second_byte_def split: if_splits)
    with decode_two [OF s0(2) True s1(2) r(1)] s0 s1 r True show ?thesis
      by (simp add: decode_rune_def encode_rune_def Let_def char_of_byte)
  next
    case False
    note F = this
    with d w s0 s1 obtain c2 r2 where s2: "r1 = c2 # r2" "cont_byte (byte c2)"
      by (cases r1) (auto simp: decode_rune_def split: if_splits)
    have c: "0x80 \<le> byte c1" "0x80 \<le> byte c2" using s1(2) s2(2) by (auto simp: second_byte_def cont_byte_def split: if_splits)
    show ?thesis
    proof (cases "byte c0 < 0xF0")
      case True
      with F d s0 s1 s2 have r: "r = (byte c0 - 0xE0) * 4096 + (byte c1 - 0x80) * 64 + (byte c2 - 0x80)" "w = 3"
        by (auto simp: decode_rune_def)
      from F have "0xE0 \<le> byte c0" by simp
      from decode_three [OF s1(2) s2(2) this True r(1)] s0 s1 s2 r(2) True F c show ?thesis
        by (auto simp: decode_rune_def encode_rune_def Let_def char_of_byte r(1) [symmetric])
    next
      case G: False
      with d w s0 s1 s2 F obtain c3 r3 where s3: "r2 = c3 # r3" "cont_byte (byte c3)"
        by (cases r2) (auto simp: decode_rune_def split: if_splits)
      have c3: "0x80 \<le> byte c3" using s3(2) by (simp add: cont_byte_def)
      from F G d s0 s1 s2 s3 have r: "r = (byte c0 - 0xF0) * 262144 + (byte c1 - 0x80) * 4096 + (byte c2 - 0x80) * 64 + (byte c3 - 0x80)" "w = 4"
        by (auto simp: decode_rune_def)
      from G have "0xF0 \<le> byte c0" by simp
      from decode_four [OF s1(2) s2(2) s3(2) this s0(3) r(1)] s0 s1 s2 s3 r(2) F G c c3 show ?thesis
        by (auto simp: decode_rune_def encode_rune_def Let_def char_of_byte r(1) [symmetric])
    qed
  qed
qed

lemma unescape_bmp: "hex4 s = Some (r, t) \<Longrightarrow> \<not> high_surrogate r \<Longrightarrow> unescape_u s = Some (encode_rune r, t)"
  by (auto simp: unescape_u_def split: list.splits)

lemma parse_chunk:
  assumes d: "decode_rune s = (r, w)" "s \<noteq> []" "\<not> (r = 0xFFFD \<and> w = 1)"
  shows "parse_string (Suc n) (escape_chunk (r, take w s) @ u) =
    (case parse_string n u of None \<Rightarrow> None | Some (v, t) \<Rightarrow> Some (take w s @ v, t))"
proof (cases "w = 1")
  case True
  from d True have "byte (hd s) < 0x80" by (cases s) (auto simp: decode_rune_def split: if_splits list.splits)
  then obtain c where c: "s = c # tl s" "byte c < 0x80" using d(2) by (cases s) auto
  then have r: "r = byte c" and b: "take w s = [c]" using d(1) True by (metis decode_rune_ascii fst_conv, metis One_nat_def take0 take_Suc_Cons True)
  have c': "c = char_of r" by (simp add: r)
  have escapes: "escape_chunk (0x22, b) = [CHR 0x5C, CHR 0x22]" "escape_chunk (0x5C, b) = [CHR 0x5C, CHR 0x5C]"
    "escape_chunk (8, b) = CHR 0x5C # ''b''" "escape_chunk (12, b) = CHR 0x5C # ''f''" "escape_chunk (10, b) = CHR 0x5C # ''n''"
    "escape_chunk (13, b) = CHR 0x5C # ''r''" "escape_chunk (9, b) = CHR 0x5C # ''t''" for b
    by (simp_all add: escape_chunk_def)
  consider "r = 0x22" | "r = 0x5C" | "r = 8" | "r = 12" | "r = 10" | "r = 13" | "r = 9"
    | "r \<notin> {0x22, 0x5C, 8, 12, 10, 13, 9}" "r < 0x20 \<or> r = 0x3C \<or> r = 0x3E \<or> r = 0x26"
    | "r \<notin> {0x22, 0x5C, 8, 12, 10, 13, 9}" "\<not> (r < 0x20 \<or> r = 0x3C \<or> r = 0x3E \<or> r = 0x26)" by blast
  then show ?thesis
  proof cases
    case 8
    have e: "escape_chunk (r, [c]) = CHR 0x5C # CHR ''u'' # CHR ''0'' # CHR ''0'' # [hex_digit (r div 16), hex_digit (r mod 16)]"
      using 8 by (simp add: escape_chunk_def Let_def)
    have "hex4 (CHR ''0'' # CHR ''0'' # hex_digit (r div 16) # hex_digit (r mod 16) # u) = Some (r, u)"
      using c(2) by (simp add: hex_digit_val r) (simp add: hex_val_def is_digit_def digit_val_def)
    moreover have "\<not> high_surrogate r" using c(2) by (simp add: high_surrogate_def r)
    moreover have "encode_rune r = [c]" using c(2) by (simp add: encode_rune_def r)
    ultimately have "unescape_u (CHR ''0'' # CHR ''0'' # hex_digit (r div 16) # hex_digit (r mod 16) # u) = Some ([c], u)"
      by (simp add: unescape_bmp)
    then show ?thesis unfolding b by (simp add: e parse_string.simps)
  next
    case 9
    have "c \<noteq> CHR 0x22" "c \<noteq> CHR 0x5C" using 9 by (auto simp: r char_eq_byte)
    then show ?thesis unfolding b using 9 c(2) by (simp add: escape_chunk_def Let_def r parse_string.simps split: option.split)
  qed (simp_all only: b escapes fst_conv, simp_all add: c' parse_string.simps simple_escape_def char_of_def bit_iff_odd split: option.split)
next
  case False
  with d(1,2) decode_rune_width [of s] have "2 \<le> w" by (metis One_nat_def Suc_1 Suc_leI le_neq_implies_less snd_conv)
  note M = decode_multi [OF d(1) this, of u]
  obtain c s' where s: "s = c # s'" using d(2) by (cases s) auto
  then obtain m where w: "w = Suc m" using \<open>2 \<le> w\<close> by (cases w) auto
  consider "r = 0x2028" | "r = 0x2029" | "r \<noteq> 0x2028" "r \<noteq> 0x2029" by blast
  then show ?thesis
  proof cases
    case 1
    have "unescape_u (''2028'' @ u) = Some (take w s, u)"
      using M 1 by (subst unescape_bmp [where r = "0x2028" and t = u]) (simp_all add: high_surrogate_def hex_val_def is_digit_def digit_val_def)
    then show ?thesis using 1 False by (simp add: escape_chunk_def parse_string.simps)
  next
    case 2
    have "unescape_u (''2029'' @ u) = Some (take w s, u)"
      using M 2 by (subst unescape_bmp [where r = "0x2029" and t = u]) (simp_all add: high_surrogate_def hex_val_def is_digit_def digit_val_def)
    then show ?thesis using 2 False by (simp add: escape_chunk_def parse_string.simps)
  next
    case 3
    have e: "escape_chunk (r, take w s) = take w s" using 3 M False by (simp add: escape_chunk_def Let_def)
    have c: "c \<noteq> CHR 0x22" "c \<noteq> CHR 0x5C" "\<not> byte c < 0x20" using M s by (auto simp: char_eq_byte)
    have tk: "take w s @ u = c # (take m s' @ u)" by (simp add: s w)
    have dr: "drop w (take w s @ u) = u" "take w (take w s @ u) = take w s" using M by simp_all
    have "parse_string (Suc n) (c # (take m s' @ u)) = (case decode_rune (c # (take m s' @ u)) of (x, k) \<Rightarrow>
        (case parse_string n (drop k (c # (take m s' @ u))) of None \<Rightarrow> None
         | Some (v, t') \<Rightarrow> Some ((if x = 0xFFFD then encode_rune 0xFFFD else take k (c # (take m s' @ u))) @ v, t')))"
      using c by (simp add: parse_string.simps)
    also have "\<dots> = (case parse_string n u of None \<Rightarrow> None | Some (v, t) \<Rightarrow> Some (take w s @ v, t))"
      unfolding tk [symmetric] using M dr by (auto split: option.splits)
    finally show ?thesis by (simp only: e tk)
  qed
qed

lemma parse_string_quote:
  "valid_utf8 s \<Longrightarrow> length (chunks s) < n \<Longrightarrow> parse_string n (concat (map escape_chunk (chunks s)) @ CHR 0x22 # t) = Some (s, t)"
proof (induction s arbitrary: n rule: chunks.induct)
  case (1 s)
  show ?case
  proof (cases "s = []")
    case True
    with 1 show ?thesis by (cases n) (simp_all add: parse_string.simps)
  next
    case False
    obtain r w where d: "decode_rune s = (r, w)" by (cases "decode_rune s")
    have ch: "chunks s = (r, take w s) # chunks (drop w s)" using False d by (simp add: chunks.simps [of s])
    have w: "w \<le> length s" using decode_rune_width [OF False] d by simp
    from 1 ch w have ok: "\<not> (r = 0xFFFD \<and> w = 1)" "valid_utf8 (drop w s)" by (auto simp: valid_utf8_def)
    from 1 ch obtain m where n: "n = Suc m" "length (chunks (drop w s)) < m" by (cases n) auto
    from 1 False d ok(2) n(2) have "parse_string m (concat (map escape_chunk (chunks (drop w s))) @ CHR 0x22 # t) = Some (drop w s, t)"
      by simp
    with parse_chunk [OF d False ok(1), of m] show ?thesis by (simp add: ch n(1))
  qed
qed

lemma chunks_length: "length (chunks s) \<le> length (concat (map escape_chunk (chunks s)))"
proof -
  have "escape_chunk (r, b) \<noteq> []" if "(r, b) \<in> set (chunks s)" for r b
  proof -
    have "b \<noteq> []" using that
    proof (induction s rule: chunks.induct)
      case (1 s)
      then show ?case using decode_rune_width [of s] by (cases "s = []") (auto simp: chunks.simps [of s])
    qed
    then show ?thesis by (simp add: escape_chunk_def Let_def)
  qed
  then have "list_all (\<lambda>k. 1 \<le> length (escape_chunk k)) (chunks s)" by (auto simp: list_all_iff Suc_le_eq)
  moreover have "list_all (\<lambda>k. 1 \<le> length (escape_chunk k)) ks \<Longrightarrow> length ks \<le> length (concat (map escape_chunk ks))" for ks
    by (induction ks) auto
  ultimately show ?thesis by blast
qed

text \<open>As it is used: after the opening quote, with the length of the text as fuel.\<close>

lemma parse_quoted:
  assumes "valid_utf8 s"
  shows "\<exists>r. quote_string s @ t = CHR 0x22 # r \<and> parse_string (length r) r = Some (s, t)"
proof -
  let ?r = "concat (map escape_chunk (chunks s)) @ CHR 0x22 # t"
  have "length (chunks s) < length ?r" using chunks_length [of s] by simp
  from parse_string_quote [OF assms this] show ?thesis by (simp add: quote_string_def)
qed

subsection \<open>What is read is UTF-8\<close>

lemma valid_chunk:
  assumes d: "decode_rune s = (r, w)" "s \<noteq> []" "\<not> (r = 0xFFFD \<and> w = 1)"
  shows "decode_rune (take w s @ u) = (r, w) \<and> length (take w s) = w \<and> 0 < w"
proof (cases "w = 1")
  case True
  from d True have "byte (hd s) < 0x80" by (cases s) (auto simp: decode_rune_def split: if_splits list.splits)
  then obtain c where c: "s = c # tl s" "byte c < 0x80" using d(2) by (cases s) auto
  with True d(1) show ?thesis by (metis One_nat_def append_Cons append_Nil decode_rune_ascii length_Cons list.size(3) take0 take_Suc_Cons zero_less_one)
next
  case False
  with d(1,2) decode_rune_width [of s] have "2 \<le> w" by (metis One_nat_def Suc_1 Suc_leI le_neq_implies_less snd_conv)
  with decode_multi [OF d(1) this, of u] show ?thesis by simp
qed

lemma chunks_valid_append: "valid_utf8 s \<Longrightarrow> chunks (s @ t) = chunks s @ chunks t"
proof (induction s rule: chunks.induct)
  case (1 s)
  show ?case
  proof (cases "s = []")
    case False
    obtain r w where d: "decode_rune s = (r, w)" by (cases "decode_rune s")
    have ch: "chunks s = (r, take w s) # chunks (drop w s)" using False d by (simp add: chunks.simps [of s])
    have w: "w \<le> length s" using decode_rune_width [OF False] d by simp
    from 1 ch w have ok: "\<not> (r = 0xFFFD \<and> w = 1)" "valid_utf8 (drop w s)" by (auto simp: valid_utf8_def)
    from valid_chunk [OF d False ok(1), of "drop w s @ t"] have "decode_rune (s @ t) = (r, w)"
      by (simp add: append_assoc [symmetric] del: append_assoc)
    with False w have "chunks (s @ t) = (r, take w s) # chunks (drop w s @ t)" by (simp add: chunks.simps [of "s @ t"])
    with 1 False d ok(2) ch show ?thesis by simp
  qed simp
qed

lemma valid_utf8_append: "valid_utf8 s \<Longrightarrow> valid_utf8 t \<Longrightarrow> valid_utf8 (s @ t)"
  by (simp add: valid_utf8_def chunks_valid_append)

lemma valid_utf8_one:
  assumes "decode_rune s = (r, length s)" "s \<noteq> []" "r \<noteq> 0xFFFD \<or> length s \<noteq> 1"
  shows "valid_utf8 s"
  using assms by (auto simp: valid_utf8_def chunks.simps [of s])

lemma byte_char_of: "n < 256 \<Longrightarrow> byte (char_of n) = n"
  by simp

lemma valid_encode_rune: "valid_utf8 (encode_rune r)"
proof -
  define x where "x = (if 0x10FFFF < r \<or> (0xD800 \<le> r \<and> r < 0xE000) then 0xFFFD else r)"
  have x: "x \<le> 0x10FFFF" "\<not> (0xD800 \<le> x \<and> x < 0xE000)" by (simp_all add: x_def)
  have m: "(a * 64 + b mod 64) = a * 64 + (b mod 64)" for a b :: nat by simp
  consider "x < 0x80" | "0x80 \<le> x" "x < 0x800" | "0x800 \<le> x" "x < 0x10000" | "0x10000 \<le> x" by linarith
  then show ?thesis
  proof cases
    case 1
    then have e: "encode_rune r = [char_of x]" by (simp add: encode_rune_def x_def [symmetric])
    show ?thesis unfolding e using 1 by (intro valid_utf8_one [of _ x]) (simp_all add: decode_rune_def byte_char_of)
  next
    case 2
    define a b where "a = x div 64" and "b = x mod 64"
    have ab: "x = a * 64 + b" "b < 64" "2 \<le> a" "a < 32" using 2 by (auto simp: a_def b_def)
    have e: "encode_rune r = [char_of (0xC0 + a), char_of (0x80 + b)]"
      using 2 by (simp add: encode_rune_def x_def [symmetric] Let_def a_def b_def)
    show ?thesis unfolding e
      by (intro valid_utf8_one [of _ x]) (use ab in \<open>simp_all add: decode_rune_def byte_char_of second_byte_def\<close>)
  next
    case 3
    define a b c where "a = x div 4096" and "b = (x div 64) mod 64" and "c = x mod 64"
    have "x div 64 = a * 64 + b" by (simp add: a_def b_def div_mult2_eq [of x 64 64, simplified])
    then have x': "x = (a * 64 + b) * 64 + c" by (metis c_def div_mult_mod_eq)
    have ab: "b < 64" "c < 64" by (simp_all add: b_def c_def)
    have "a < 16" using 3(2) by (simp add: a_def)
    moreover have "a = 0 \<Longrightarrow> 32 \<le> b" using 3(1) x' ab by simp
    moreover have "a = 13 \<Longrightarrow> b < 32" using x(2) x' ab by simp
    ultimately have sb: "second_byte (0xE0 + a) (0x80 + b)" using ab by (auto simp: second_byte_def)
    have e: "encode_rune r = [char_of (0xE0 + a), char_of (0x80 + b), char_of (0x80 + c)]"
      using 3 by (simp add: encode_rune_def x_def [symmetric] Let_def a_def b_def c_def)
    show ?thesis unfolding e
      by (intro valid_utf8_one [of _ x])
        (use ab sb \<open>a < 16\<close> in \<open>simp_all add: decode_rune_def byte_char_of cont_byte_def x'\<close>)
  next
    case 4
    define a b c d where "a = x div 262144" and "b = (x div 4096) mod 64" and "c = (x div 64) mod 64" and "d = x mod 64"
    have "x div 4096 = a * 64 + b" by (simp add: a_def b_def div_mult2_eq [of x 4096 64, simplified])
    then have "x div 64 = (a * 64 + b) * 64 + c" by (metis c_def div_mult2_eq [of x 64 64, simplified] div_mult_mod_eq)
    then have x': "x = ((a * 64 + b) * 64 + c) * 64 + d" by (metis d_def div_mult_mod_eq)
    have ab: "b < 64" "c < 64" "d < 64" by (simp_all add: b_def c_def d_def)
    have "a \<le> 4" using x(1) x' by simp
    moreover have "a = 0 \<Longrightarrow> 16 \<le> b" using 4 x' ab by simp
    moreover have "a = 4 \<Longrightarrow> b < 16" using x(1) x' ab by simp
    ultimately have sb: "second_byte (0xF0 + a) (0x80 + b)" using ab by (auto simp: second_byte_def)
    have e: "encode_rune r = [char_of (0xF0 + a), char_of (0x80 + b), char_of (0x80 + c), char_of (0x80 + d)]"
      using 4 by (simp add: encode_rune_def x_def [symmetric] Let_def a_def b_def c_def d_def)
    show ?thesis unfolding e
      by (intro valid_utf8_one [of _ x])
        (use ab sb \<open>a \<le> 4\<close> in \<open>simp_all add: decode_rune_def byte_char_of cont_byte_def x'\<close>)
  qed
qed

lemma unescape_utf8: "unescape_u s = Some (u, t) \<Longrightarrow> valid_utf8 u"
  by (auto simp: unescape_u_def valid_encode_rune split: option.splits list.splits if_splits)

lemma simple_escape_ascii: "simple_escape e = Some x \<Longrightarrow> byte x < 0x80"
  by (auto simp: simple_escape_def split: if_splits)

lemma parse_string_utf8: "parse_string n s = Some (v, t) \<Longrightarrow> valid_utf8 v"
proof (induction n s arbitrary: v t rule: parse_string.induct)
  case (2 n s)
  from 2(4) obtain c r where s: "s = c # r" by (cases s) (simp_all add: parse_string.simps)
  show ?case
  proof (cases "c = CHR 0x22 \<or> c = CHR 0x5C")
    case True
    show ?thesis
    proof (cases "c = CHR 0x22")
      case True
      with 2(4) s show ?thesis by (simp add: parse_string.simps valid_utf8_def)
    next
      case False
      with True 2(4) s obtain e r' where r: "r = e # r'" by (cases r) (auto simp: parse_string.simps)
      show ?thesis
      proof (cases "e = CHR ''u''")
        case True
        with False 2(4) s r \<open>c = CHR 0x22 \<or> c = CHR 0x5C\<close> obtain u t' v' where
          "unescape_u r' = Some (u, t')" "parse_string n t' = Some (v', t)" "v = u @ v'"
          by (auto simp: parse_string.simps split: option.splits)
        with 2 s r False True \<open>c = CHR 0x22 \<or> c = CHR 0x5C\<close> show ?thesis
          using unescape_utf8 by (auto intro: valid_utf8_append)
      next
        case F: False
        with False 2(4) s r \<open>c = CHR 0x22 \<or> c = CHR 0x5C\<close> obtain x v' where
          x: "simple_escape e = Some x" "parse_string n r' = Some (v', t)" "v = x # v'"
          by (auto simp: parse_string.simps split: option.splits)
        with 2 s r False F \<open>c = CHR 0x22 \<or> c = CHR 0x5C\<close> have "valid_utf8 v'" by auto
        with simple_escape_ascii [OF x(1)] x(3) show ?thesis by (simp add: valid_utf8_def)
      qed
    qed
  next
    case False
    obtain u w where d: "decode_rune s = (u, w)" by (cases "decode_rune s")
    have low: "\<not> byte c < 0x20" using 2(4) s False by (auto simp: parse_string.simps)
    with False 2(4) s d obtain v' where p: "parse_string n (drop w s) = Some (v', t)"
      "v = (if u = 0xFFFD then encode_rune 0xFFFD else take w s) @ v'"
      by (auto simp: parse_string.simps split: option.splits)
    from 2(3) [of c r u w] p(1) low False s d have "valid_utf8 v'" by auto
    moreover have "valid_utf8 (take w s)" if "u \<noteq> 0xFFFD"
      using valid_chunk [OF d, of "[]"] that s by (intro valid_utf8_one [of _ u]) auto
    ultimately show ?thesis using p(2) by (auto intro!: valid_utf8_append valid_encode_rune)
  qed
qed (simp add: parse_string.simps)

end
