(* ===== verification/TransferJson.thy ===== *)
theory TransferJson
  imports JsonStrings
begin

text \<open>
  \<open>DecodeJSON\<close> and \<open>Pointer\<close> of \<open>src/schemetransfer/validation.go\<close>: the decoder that refuses duplicate
  fields and documents that are too large, too deep or have too many nodes. It reads the tokens of
  \<open>json.Decoder\<close>. A Go map is an association list in the order of its keys, so that equal maps are
  equal lists and \<open>json.Marshal\<close> is \<open>write_json\<close>.
\<close>

subsection \<open>Pointers\<close>

datatype contract_error = ContractError string string \<comment> \<open>code and path\<close>

definition escape_key :: "string \<Rightarrow> string" where
  "escape_key k = replace_char CHR ''/'' ''~1'' (replace_char CHR ''~'' ''~0'' k)"

definition pointer :: "string \<Rightarrow> string \<Rightarrow> string" where
  "pointer parent k = parent @ ''/'' @ escape_key k"

subsection \<open>Number tokens\<close>

definition scan_digits :: "string \<Rightarrow> (string \<times> string) option" where
  "scan_digits s = (if takeWhile is_digit s = [] then None else Some (takeWhile is_digit s, dropWhile is_digit s))"

definition scan_exponent :: "string \<Rightarrow> (string \<times> string) option" where
  "scan_exponent s = (case s of [] \<Rightarrow> Some ([], [])
   | c # r \<Rightarrow>
      if c = CHR ''e'' \<or> c = CHR ''E'' then
        (case r of x # r' \<Rightarrow>
           if x = CHR ''-'' \<or> x = CHR ''+'' then map_option (\<lambda>(ds, t). (c # x # ds, t)) (scan_digits r')
           else map_option (\<lambda>(ds, t). (c # ds, t)) (scan_digits r)
         | [] \<Rightarrow> None)
      else Some ([], s))"

definition scan_fraction :: "string \<Rightarrow> (string \<times> string) option" where
  "scan_fraction s = (case s of [] \<Rightarrow> Some ([], [])
   | c # r \<Rightarrow>
      if c = CHR ''.'' then (case scan_digits r of None \<Rightarrow> None
         | Some (ds, t) \<Rightarrow> map_option (\<lambda>(es, u). (c # ds @ es, u)) (scan_exponent t))
      else scan_exponent s)"

text \<open>The longest number the scanner of \<open>encoding/json\<close> follows, \<open>None\<close> where it stops with an error.\<close>

definition scan_number :: "string \<Rightarrow> (string \<times> string) option" where
  "scan_number s =
     (let sign = (if has_prefix ''-'' s then ''-'' else []); s1 = drop (length sign) s
      in (case s1 of [] \<Rightarrow> None
        | c # r \<Rightarrow>
           if c = CHR ''0'' then map_option (\<lambda>(fs, t). (sign @ c # fs, t)) (scan_fraction r)
           else (case scan_digits s1 of None \<Rightarrow> None
              | Some (ds, t) \<Rightarrow> map_option (\<lambda>(fs, u). (sign @ ds @ fs, u)) (scan_fraction t))))"

subsection \<open>Documents\<close>

definition max_document_bytes :: nat where "max_document_bytes = 1048576"

definition expect :: "char option \<Rightarrow> string \<Rightarrow> string option" where
  "expect sep s = (case sep of None \<Rightarrow> Some s
     | Some c \<Rightarrow> (case skip_ws s of [] \<Rightarrow> None | x # t \<Rightarrow> if x = c then Some t else None))"

definition scalar_token :: "char \<Rightarrow> string \<Rightarrow> (json \<times> string) option" where
  "scalar_token c r =
     (if c = CHR 0x22 then map_option (\<lambda>(v, t). (JStr v, t)) (parse_string (length r) r)
      else if c = CHR ''t'' then literal ''true'' (JBool True) (c # r)
      else if c = CHR ''f'' then literal ''false'' (JBool False) (c # r)
      else if c = CHR ''n'' then literal ''null'' JNull (c # r)
      else map_option (\<lambda>(x, t). (JNum x, t)) (scan_number (c # r)))"

text \<open>
  \<open>read_doc\<close> is the closure \<open>read\<close> at a depth and a path, with the nodes counted so far and the
  separator \<open>Token\<close> skips first; it returns the value, the count and the rest of the text. The loops
  over the elements and the members have their own functions; \<open>fuel\<close> bounds the recursion.
\<close>

function (sequential) read_doc :: "nat \<Rightarrow> nat \<Rightarrow> string \<Rightarrow> nat \<Rightarrow> char option \<Rightarrow> string \<Rightarrow> (contract_error, json \<times> nat \<times> string) go_result"
  and read_elems :: "nat \<Rightarrow> nat \<Rightarrow> string \<Rightarrow> nat \<Rightarrow> nat \<Rightarrow> string \<Rightarrow> (contract_error, json list \<times> nat \<times> string) go_result"
  and read_members :: "nat \<Rightarrow> nat \<Rightarrow> string \<Rightarrow> nat \<Rightarrow> (string \<times> json) list \<Rightarrow> bool \<Rightarrow> string \<Rightarrow>
    (contract_error, (string \<times> json) list \<times> nat \<times> string) go_result" where
  "read_doc 0 d p k sep s = Inl (ContractError ''invalidJSON'' p)"
| "read_doc (Suc n) d p k sep s =
     (if 64 < d \<or> 50000 < k + 1 then Inl (ContractError ''documentTooComplex'' p)
      else (case map_option skip_ws (expect sep s) of
        None \<Rightarrow> Inl (ContractError ''invalidJSON'' p)
      | Some [] \<Rightarrow> Inl (ContractError ''invalidJSON'' p)
      | Some (c # r) \<Rightarrow>
          if c = CHR ''{'' then map_sum id (\<lambda>(ms, kt). (JObj ms, kt)) (read_members n d p (k + 1) [] True r)
          else if c = CHR ''['' then map_sum id (\<lambda>(vs, kt). (JArr vs, kt)) (read_elems n d p (k + 1) 0 r)
          else (case scalar_token c r of
              None \<Rightarrow> Inl (ContractError ''invalidJSON'' p)
            | Some (v, t) \<Rightarrow> Inr (v, k + 1, t))))"
| "read_elems 0 d p k i s = Inl (ContractError ''invalidJSON'' p)"
| "read_elems (Suc n) d p k i s = (case skip_ws s of
     [] \<Rightarrow> Inl (ContractError ''invalidJSON'' p)
   | c # r \<Rightarrow>
      if c = CHR '']'' then Inr ([], k, r)
      else if c = CHR ''}'' then Inl (ContractError ''invalidJSON'' p)
      else (case read_doc n (d + 1) (p @ ''/'' @ itoa i) k (if i = 0 then None else Some CHR '','') s of
          Inl e \<Rightarrow> Inl e
        | Inr (v, k, t) \<Rightarrow> map_sum id (\<lambda>(vs, kt). (v # vs, kt)) (read_elems n d p k (i + 1) t)))"
| "read_members 0 d p k ms first s = Inl (ContractError ''invalidJSON'' p)"
| "read_members (Suc n) d p k ms first s = (case skip_ws s of
     [] \<Rightarrow> Inl (ContractError ''invalidJSON'' p)
   | c # r \<Rightarrow>
      if c = CHR ''}'' then Inr (ms, k, r)
      else if c = CHR '']'' then Inl (ContractError ''invalidJSON'' p)
      else (case map_option skip_ws (expect (if first then None else Some CHR '','') s) of
          Some (q # r) \<Rightarrow>
            if q \<noteq> CHR 0x22 then Inl (ContractError ''invalidJSON'' p)
            else (case parse_string (length r) r of
                None \<Rightarrow> Inl (ContractError ''invalidJSON'' p)
              | Some (key, t) \<Rightarrow>
                  if map_of ms key \<noteq> None then Inl (ContractError ''duplicateField'' (pointer p key))
                  else (case read_doc n (d + 1) (pointer p key) k (Some CHR '':'') t of
                      Inl e \<Rightarrow> Inl e
                    | Inr (v, k, u) \<Rightarrow> read_members n d p k (insert_member (key, v) ms) False u))
        | _ \<Rightarrow> Inl (ContractError ''invalidJSON'' p)))"
  by pat_completeness auto

termination
  by (relation "measure (\<lambda>x. case x of Inl (n, _) \<Rightarrow> n | Inr (Inl (n, _)) \<Rightarrow> n | Inr (Inr (n, _)) \<Rightarrow> n)") auto

definition decode_json :: "string \<Rightarrow> (contract_error, json) go_result" where
  "decode_json raw =
     guardR (max_document_bytes < length raw) (ContractError ''documentTooLarge'' [])
    (bindR (read_doc (2 * length raw + 2) 0 [] 0 None raw) (\<lambda>(v, _, t).
      if skip_ws t = [] then Inr v else Inl (ContractError ''invalidJSON'' [])))"

declare read_doc.simps [simp del] read_elems.simps [simp del] read_members.simps [simp del]

subsection \<open>Documents that are written are read back\<close>

definition sorted_keys :: "(string \<times> 'v) list \<Rightarrow> bool" where
  "sorted_keys ms \<longleftrightarrow> sorted_wrt str_less (map fst ms)"

text \<open>The values a document stands for: text in UTF-8, numbers as tokens, maps in the order of their keys.\<close>

fun doc_json :: "json \<Rightarrow> bool" where
  "doc_json (JNum s) \<longleftrightarrow> valid_number s"
| "doc_json (JStr s) \<longleftrightarrow> valid_utf8 s"
| "doc_json (JArr vs) \<longleftrightarrow> list_all doc_json vs"
| "doc_json (JObj ms) \<longleftrightarrow> sorted_keys ms \<and> list_all (\<lambda>m. valid_utf8 (fst m) \<and> doc_json (snd m)) ms"
| "doc_json (JFloat _) \<longleftrightarrow> False"
| "doc_json _ \<longleftrightarrow> True"

text \<open>The depth of the deepest node below the root.\<close>

fun doc_depth :: "json \<Rightarrow> nat" where
  "doc_depth (JArr vs) = foldr max (map (\<lambda>v. Suc (doc_depth v)) vs) 0"
| "doc_depth (JObj ms) = foldr max (map (\<lambda>m. Suc (doc_depth (snd m))) ms) 0"
| "doc_depth _ = 0"

fun json_nodes :: "json \<Rightarrow> nat" where
  "json_nodes (JArr vs) = Suc (sum_list (map json_nodes vs))"
| "json_nodes (JObj ms) = Suc (sum_list (map (\<lambda>m. json_nodes (snd m)) ms))"
| "json_nodes _ = 1"

fun doc_fuel :: "json \<Rightarrow> nat" where
  "doc_fuel (JArr vs) = Suc (foldr (\<lambda>v k. Suc (max (doc_fuel v) k)) vs 1)"
| "doc_fuel (JObj ms) = Suc (foldr (\<lambda>m k. Suc (max (doc_fuel (snd m)) k)) ms 1)"
| "doc_fuel _ = 1"

lemma scan_digits_append:
  "list_all is_digit ds \<Longrightarrow> ds \<noteq> [] \<Longrightarrow> t = [] \<or> \<not> is_digit (hd t) \<Longrightarrow> scan_digits (ds @ t) = Some (ds, t)"
proof -
  assume ds: "list_all is_digit ds" "ds \<noteq> []" "t = [] \<or> \<not> is_digit (hd t)"
  have "takeWhile is_digit (ds @ t) = ds \<and> dropWhile is_digit (ds @ t) = t"
    using ds(1,3) by (induction ds) (cases t; simp)+
  with ds(2) show ?thesis by (simp add: scan_digits_def)
qed

lemma stops_digit: "stops t \<Longrightarrow> t = [] \<or> \<not> number_char (hd t)"
  by (cases t) (auto simp: stops_def)

lemma stops_no_digit: "stops t \<Longrightarrow> t = [] \<or> \<not> is_digit (hd t)"
  using stops_digit by (auto simp: number_char_def)

lemma scan_exponent_append: "valid_exp e \<Longrightarrow> stops t \<Longrightarrow> scan_exponent (e @ t) = Some (e, t)"
proof (cases e)
  case Nil
  assume "stops t"
  with Nil stops_digit [of t] show ?thesis by (cases t) (auto simp: scan_exponent_def number_char_def)
next
  case (Cons c r)
  assume e: "valid_exp e" and t: "stops t"
  then obtain x r' where r: "r = x # r'" and c: "c = CHR ''e'' \<or> c = CHR ''E''" using Cons by (cases r) (auto simp: valid_exp_def)
  have "list_all is_digit (if x = CHR ''-'' \<or> x = CHR ''+'' then r' else r)" "(if x = CHR ''-'' \<or> x = CHR ''+'' then r' else r) \<noteq> []"
    using e Cons r c by (auto simp: valid_exp_def Let_def)
  from scan_digits_append [OF this stops_no_digit [OF t]] show ?thesis
    using Cons r c by (auto simp: scan_exponent_def split: if_splits)
qed

lemma exp_no_digit: "valid_exp e \<Longrightarrow> stops t \<Longrightarrow> e @ t = [] \<or> \<not> is_digit (hd (e @ t))"
  using stops_no_digit [of t] by (cases e) (auto simp: valid_exp_def is_digit_def)

lemma scan_fraction_append: "valid_frac_exp f \<Longrightarrow> stops t \<Longrightarrow> scan_fraction (f @ t) = Some (f, t)"
proof (cases f)
  case Nil
  assume t: "stops t"
  with scan_exponent_append [of "[]" t] stops_digit [OF t] Nil show ?thesis
    by (cases t) (auto simp: scan_fraction_def valid_exp_def number_char_def)
next
  case (Cons c r)
  assume f: "valid_frac_exp f" and t: "stops t"
  show ?thesis
  proof (cases "c = CHR ''.''")
    case True
    let ?ds = "takeWhile is_digit r" and ?e = "dropWhile is_digit r"
    from f Cons True have e: "?ds \<noteq> []" "valid_exp ?e" by (auto simp: valid_frac_exp_def)
    have "list_all is_digit ?ds" by (auto simp: list_all_iff dest: set_takeWhileD)
    from scan_digits_append [OF this e(1) exp_no_digit [OF e(2) t]] scan_exponent_append [OF e(2) t] have
      "scan_digits (r @ t) = Some (?ds, ?e @ t)" "scan_exponent (?e @ t) = Some (?e, t)"
      by (simp_all add: append_assoc [symmetric] del: append_assoc)
    with Cons True show ?thesis by (simp add: scan_fraction_def)
  next
    case False
    with f Cons have "valid_exp f" by (auto simp: valid_frac_exp_def)
    from scan_exponent_append [OF this t] show ?thesis using Cons False by (simp add: scan_fraction_def)
  qed
qed

lemma frac_no_digit: "valid_frac_exp f \<Longrightarrow> stops t \<Longrightarrow> f @ t = [] \<or> \<not> is_digit (hd (f @ t))"
  using stops_no_digit [of t] by (cases f) (auto simp: valid_frac_exp_def valid_exp_def is_digit_def split: if_splits)

lemma scan_number_append:
  assumes "valid_number s" "stops t"
  shows "scan_number (s @ t) = Some (s, t)"
proof -
  define sign where "sign = (if has_prefix ''-'' s then ''-'' else [])"
  define r where "r = strip_minus s"
  define ip f where "ip = takeWhile is_digit r" and "f = dropWhile is_digit r"
  have s: "s = sign @ r" unfolding sign_def r_def strip_minus_def has_prefix_def by (cases s) auto
  have ip: "ip \<noteq> []" "hd ip = CHR ''0'' \<longrightarrow> length ip = 1" "valid_frac_exp f" "r = ip @ f" "list_all is_digit ip"
    using assms(1) unfolding valid_number_def Let_def r_def [symmetric] ip_def f_def
    by (auto simp: list_all_iff dest: set_takeWhileD)
  obtain c cs where c: "ip = c # cs" using ip(1) by (cases ip) auto
  have cd: "c \<noteq> CHR ''-''" using ip(5) c by (auto simp: is_digit_def)
  have sign: "has_prefix ''-'' (s @ t) \<longleftrightarrow> has_prefix ''-'' s"
    unfolding s ip(4) c using cd by (auto simp: has_prefix_def sign_def)
  note F = scan_fraction_append [OF ip(3) assms(2)]
  have rest: "drop (length sign) (s @ t) = c # cs @ f @ t" by (simp add: s ip(4) c)
  show ?thesis
  proof (cases "c = CHR ''0''")
    case True
    with ip(2) c have "cs = []" by simp
    with True F rest show ?thesis
      by (simp add: scan_number_def Let_def sign sign_def [symmetric]) (simp add: s ip(4) c)
  next
    case False
    have "scan_digits (ip @ f @ t) = Some (ip, f @ t)"
      by (rule scan_digits_append) (use ip frac_no_digit [OF ip(3) assms(2)] in auto)
    with False F rest c show ?thesis
      by (simp add: scan_number_def Let_def sign sign_def [symmetric]) (simp add: s ip(4) c)
  qed
qed

definition before :: "char option \<Rightarrow> string" where
  "before sep = (case sep of None \<Rightarrow> [] | Some c \<Rightarrow> [c])"

definition docs_read :: "json \<Rightarrow> bool" where
  "docs_read v \<longleftrightarrow> (\<forall>n d p k sep t. doc_depth v + d \<le> 64 \<longrightarrow> json_nodes v + k \<le> 50000 \<longrightarrow> doc_fuel v \<le> n \<longrightarrow> stops t \<longrightarrow>
     sep \<in> {None, Some CHR '','', Some CHR '':''} \<longrightarrow>
     read_doc n d p k sep (before sep @ write_json v @ t) = Inr (v, k + json_nodes v, t))"

lemma docs_readD:
  "docs_read v \<Longrightarrow> doc_depth v + d \<le> 64 \<Longrightarrow> json_nodes v + k \<le> 50000 \<Longrightarrow> doc_fuel v \<le> n \<Longrightarrow> stops t \<Longrightarrow>
   sep \<in> {None, Some CHR '','', Some CHR '':''} \<Longrightarrow>
   read_doc n d p k sep (before sep @ write_json v @ t) = Inr (v, k + json_nodes v, t)"
  unfolding docs_read_def by blast

lemma expect_before: "sep \<in> {None, Some CHR '','', Some CHR '':''} \<Longrightarrow> expect sep (before sep @ s) = Some s"
  by (auto simp: expect_def before_def)

text \<open>The first character of a written value.\<close>

lemma doc_head:
  assumes "doc_json v"
  shows "\<exists>c r. write_json v = c # r \<and> \<not> ws_char c \<and> c \<noteq> CHR '']'' \<and> c \<noteq> CHR ''}''"
proof (cases v)
  case (JNum s)
  then obtain c r where s: "s = c # r" using assms valid_number_nonempty by (cases s) auto
  with assms JNum have "c = CHR ''-'' \<or> is_digit c"
    by (auto simp: valid_number_def Let_def strip_minus_def split: if_splits)
  then have "\<not> ws_char c \<and> c \<noteq> CHR '']'' \<and> c \<noteq> CHR ''}''" by (auto simp: ws_char_def is_digit_def)
  with JNum s show ?thesis by simp
qed (use assms in \<open>simp_all add: ws_char_def quote_string_def\<close>)

lemma read_scalar:
  assumes "d \<le> 64" "k < 50000" "sep \<in> {None, Some CHR '','', Some CHR '':''}" "w = c # r" "\<not> ws_char c" "c \<noteq> CHR ''{''" "c \<noteq> CHR ''[''"
    and "scalar_token c (r @ t) = Some (v, t)"
  shows "read_doc (Suc n) d p k sep (before sep @ w @ t) = Inr (v, Suc k, t)"
  using assms skip_ws_id [of "c # r @ t"] by (simp add: read_doc.simps expect_before)

lemma docs_read_scalar:
  assumes "write_json v = c # r" "\<not> ws_char c" "c \<noteq> CHR ''{''" "c \<noteq> CHR ''[''" "json_nodes v = 1" "doc_depth v = 0" "doc_fuel v = 1"
    and "\<And>t. stops t \<Longrightarrow> scalar_token c (r @ t) = Some (v, t)"
  shows "docs_read v"
proof (unfold docs_read_def, intro allI impI)
  fix n d p k sep t
  assume *: "doc_depth v + d \<le> 64" "json_nodes v + k \<le> 50000" "doc_fuel v \<le> n" "stops t" "sep \<in> {None, Some CHR '','', Some CHR '':''}"
  then obtain i where "n = Suc i" using assms(7) by (cases n) auto
  with * assms(5,6) read_scalar [OF _ _ *(5) assms(1-4) assms(8) [OF *(4)], of d k i p]
  show "read_doc n d p k sep (before sep @ write_json v @ t) = Inr (v, k + json_nodes v, t)" by simp
qed

lemma read_elems_written:
  "list_all docs_read vs \<Longrightarrow> list_all doc_json vs \<Longrightarrow> \<forall>v \<in> set vs. doc_depth v + (d + 1) \<le> 64 \<Longrightarrow>
   sum_list (map json_nodes vs) + k \<le> 50000 \<Longrightarrow> foldr (\<lambda>v k. Suc (max (doc_fuel v) k)) vs 1 \<le> n \<Longrightarrow>
   read_elems n d p k i ((if i = 0 \<or> vs = [] then [] else '','') @ join '','' (map write_json vs) @ CHR '']'' # t) =
     Inr (vs, k + sum_list (map json_nodes vs), t)"
proof (induction vs arbitrary: n k i)
  case Nil
  then show ?case by (cases n) (simp_all add: read_elems.simps)
next
  case (Cons v vs)
  define sep where "sep = (if i = 0 then None else Some CHR '','')"
  define rest where "rest = (if vs = [] then [] else '','') @ join '','' (map write_json vs) @ CHR '']'' # t"
  from Cons.prems(5) obtain m where n: "n = Suc m" "doc_fuel v \<le> m" "foldr (\<lambda>v k. Suc (max (doc_fuel v) k)) vs 1 \<le> m"
    by (cases n) auto
  from Cons.prems have v: "docs_read v" "doc_depth v + (d + 1) \<le> 64" "json_nodes v + k \<le> 50000" "doc_json v" by simp_all
  have sep: "sep \<in> {None, Some CHR '','', Some CHR '':''}" by (simp add: sep_def)
  have "stops rest" by (cases vs) (simp_all add: rest_def)
  note V = docs_readD [OF v(1-3) n(2) this sep]
  have written: "(if i = 0 \<or> v # vs = [] then [] else '','') @ join '','' (map write_json (v # vs)) @ CHR '']'' # t
      = before sep @ write_json v @ rest"
    by (cases vs) (auto simp: before_def sep_def rest_def)
  obtain c r where c: "skip_ws (before sep @ write_json v @ rest) = c # r" "c \<noteq> CHR '']''" "c \<noteq> CHR ''}''"
  proof (cases "i = 0")
    case True
    with doc_head [OF v(4)] that show thesis by (auto simp: before_def sep_def skip_ws_def)
  next
    case False
    with that show thesis by (simp add: before_def sep_def)
  qed
  have "read_elems m d p (k + json_nodes v) (i + 1) rest = Inr (vs, k + json_nodes v + sum_list (map json_nodes vs), t)"
    using Cons.IH [of "k + json_nodes v" m "i + 1"] Cons.prems n(3) by (simp add: rest_def)
  with V c show ?case unfolding written by (simp add: n(1) read_elems.simps sep_def [symmetric])
qed

lemma insert_member_last: "\<forall>k \<in> fst ` set ms. str_less k key \<Longrightarrow> insert_member (key, v) ms = ms @ [(key, v)]"
  by (induction ms) auto

lemma read_members_written:
  "list_all (\<lambda>m. valid_utf8 (fst m) \<and> docs_read (snd m)) ms \<Longrightarrow> \<forall>m \<in> set ms. doc_depth (snd m) + (d + 1) \<le> 64 \<Longrightarrow>
   sum_list (map (\<lambda>m. json_nodes (snd m)) ms) + k \<le> 50000 \<Longrightarrow> foldr (\<lambda>m k. Suc (max (doc_fuel (snd m)) k)) ms 1 \<le> n \<Longrightarrow>
   sorted_keys (acc @ ms) \<Longrightarrow>
   read_members n d p k acc first ((if first \<or> ms = [] then [] else '','') @
       join '','' (map (\<lambda>m. quote_string (fst m) @ '':'' @ write_json (snd m)) ms) @ CHR ''}'' # t) =
     Inr (acc @ ms, k + sum_list (map (\<lambda>m. json_nodes (snd m)) ms), t)"
proof (induction ms arbitrary: n k acc first)
  case Nil
  then show ?case by (cases n) (simp_all add: read_members.simps)
next
  case (Cons m ms)
  obtain key v where m: "m = (key, v)" by (cases m)
  define rest where "rest = (if ms = [] then [] else '','') @
       join '','' (map (\<lambda>m. quote_string (fst m) @ '':'' @ write_json (snd m)) ms) @ CHR ''}'' # t"
  define sep where "sep = (if first then None else Some CHR '','')"
  from Cons.prems(4) obtain i where n: "n = Suc i" "doc_fuel v \<le> i" "foldr (\<lambda>m k. Suc (max (doc_fuel (snd m)) k)) ms 1 \<le> i"
    by (cases n) (auto simp: m)
  from Cons.prems have v: "docs_read v" "doc_depth v + (d + 1) \<le> 64" "json_nodes v + k \<le> 50000" and key: "valid_utf8 key"
    by (simp_all add: m)
  have "stops rest" by (cases ms) (simp_all add: rest_def)
  note V = docs_readD [OF v n(2) this, of "Some CHR '':''" "pointer p key"]
  obtain r where r: "quote_string key @ '':'' @ write_json v @ rest = CHR 0x22 # r"
    "parse_string (length r) r = Some (key, '':'' @ write_json v @ rest)" using parse_quoted [OF key] by blast
  have written: "(if first \<or> m # ms = [] then [] else '','') @
       join '','' (map (\<lambda>m. quote_string (fst m) @ '':'' @ write_json (snd m)) (m # ms)) @ CHR ''}'' # t = before sep @ CHR 0x22 # r"
    using r(1) by (cases ms) (auto simp: before_def sep_def rest_def m)
  obtain c u where c: "skip_ws (before sep @ CHR 0x22 # r) = c # u" "c \<noteq> CHR '']''" "c \<noteq> CHR ''}''"
    by (cases first) (simp_all add: before_def sep_def)
  have ex: "expect sep (before sep @ CHR 0x22 # r) = Some (CHR 0x22 # r)" by (rule expect_before) (simp add: sep_def)
  have lt: "\<forall>k \<in> fst ` set acc. str_less k key" using Cons.prems(5) by (auto simp: sorted_keys_def sorted_wrt_append m)
  then have "map_of acc key = None" by (force simp: map_of_eq_None_iff)
  moreover have "read_members i d p (k + json_nodes v) (acc @ [(key, v)]) False rest =
      Inr (acc @ m # ms, k + json_nodes v + sum_list (map (\<lambda>m. json_nodes (snd m)) ms), t)"
    using Cons.IH [of "k + json_nodes v" i "acc @ [(key, v)]" False] Cons.prems n(3) by (simp add: rest_def m)
  ultimately show ?case using V c ex r(2) unfolding written
    by (simp add: n(1) read_members.simps sep_def [symmetric] insert_member_last [OF lt] m before_def)
qed

lemma doc_read_written: "doc_json v \<Longrightarrow> docs_read v"
proof (induction v)
  case (JArr vs)
  then have vs: "list_all docs_read vs" "list_all doc_json vs" by (simp_all add: list_all_iff)
  show ?case
  proof (unfold docs_read_def, intro allI impI)
    fix n d p k sep t
    assume d: "doc_depth (JArr vs) + d \<le> 64" and k: "json_nodes (JArr vs) + k \<le> 50000" and n: "doc_fuel (JArr vs) \<le> n"
      and sep: "sep \<in> {None, Some CHR '','', Some CHR '':''}"
    from n obtain i where i: "n = Suc i" "foldr (\<lambda>v k. Suc (max (doc_fuel v) k)) vs 1 \<le> i" by (cases n) auto
    have depth: "\<forall>v \<in> set vs. doc_depth v + (d + 1) \<le> 64"
      using d foldr_max_le [of _ vs "\<lambda>v. Suc (doc_depth v)"] by fastforce
    from read_elems_written [OF vs depth _ i(2), of "k + 1" p 0 t] k
    have "read_elems i d p (Suc k) 0 (join '','' (map write_json vs) @ CHR '']'' # t) = Inr (vs, k + json_nodes (JArr vs), t)" by simp
    then show "read_doc n d p k sep (before sep @ write_json (JArr vs) @ t) = Inr (JArr vs, k + json_nodes (JArr vs), t)"
      using d k by (simp add: i(1) read_doc.simps expect_before [OF sep])
  qed
next
  case (JObj ms)
  then have ms: "list_all (\<lambda>m. valid_utf8 (fst m) \<and> docs_read (snd m)) ms" "sorted_keys ms" by (fastforce simp: list_all_iff)+
  show ?case
  proof (unfold docs_read_def, intro allI impI)
    fix n d p k sep t
    assume d: "doc_depth (JObj ms) + d \<le> 64" and k: "json_nodes (JObj ms) + k \<le> 50000" and n: "doc_fuel (JObj ms) \<le> n"
      and sep: "sep \<in> {None, Some CHR '','', Some CHR '':''}"
    from n obtain i where i: "n = Suc i" "foldr (\<lambda>m k. Suc (max (doc_fuel (snd m)) k)) ms 1 \<le> i" by (cases n) auto
    have depth: "\<forall>m \<in> set ms. doc_depth (snd m) + (d + 1) \<le> 64"
      using d foldr_max_le [of _ ms "\<lambda>m. Suc (doc_depth (snd m))"] by fastforce
    from read_members_written [OF ms(1) depth _ i(2), of "k + 1" "[]" p True t] k ms(2)
    have "read_members i d p (Suc k) [] True (join '','' (map (\<lambda>m. quote_string (fst m) @ '':'' @ write_json (snd m)) ms) @ CHR ''}'' # t) =
      Inr (ms, k + json_nodes (JObj ms), t)" by simp
    then show "read_doc n d p k sep (before sep @ write_json (JObj ms) @ t) = Inr (JObj ms, k + json_nodes (JObj ms), t)"
      using d k by (simp add: i(1) read_doc.simps expect_before [OF sep])
  qed
next
  case (JNum s)
  then obtain c r where c: "s = c # r" "c = CHR ''-'' \<or> is_digit c"
    by (cases s) (auto simp: valid_number_def Let_def strip_minus_def split: if_splits)
  have c': "\<not> ws_char c" "c \<noteq> CHR ''{''" "c \<noteq> CHR ''[''" "c \<noteq> CHR 0x22" "c \<noteq> CHR ''t''" "c \<noteq> CHR ''f''" "c \<noteq> CHR ''n''"
    using c(2) by (auto simp: ws_char_def is_digit_def)
  have "scalar_token c (r @ t) = Some (JNum s, t)" if "stops t" for t
    using that scan_number_append [of s t] JNum c c'(4-7) by (simp add: scalar_token_def)
  then show ?case using c c'(1-3) by (intro docs_read_scalar [of "JNum s" c r]) simp_all
next
  case (JStr s)
  show ?case
  proof (rule docs_read_scalar)
    show "scalar_token CHR 0x22 ((concat (map escape_chunk (chunks s)) @ [CHR 0x22]) @ t) = Some (JStr s, t)" for t
      using parse_quoted [of s t] JStr by (auto simp: scalar_token_def quote_string_def)
  qed (simp_all add: quote_string_def ws_char_def)
next
  case JNull
  show ?case
    by (rule docs_read_scalar [of _ "CHR ''n''" "''ull''"]) (simp_all add: scalar_token_def literal_def has_prefix_def ws_char_def)
next
  case (JBool b)
  show ?case
  proof (cases b)
    case True
    then show ?thesis
      by (intro docs_read_scalar [of _ "CHR ''t''" "''rue''"]) (simp_all add: scalar_token_def literal_def has_prefix_def ws_char_def)
  next
    case False
    then show ?thesis
      by (intro docs_read_scalar [of _ "CHR ''f''" "''alse''"]) (simp_all add: scalar_token_def literal_def has_prefix_def ws_char_def)
  qed
qed simp

lemma doc_fuel_length: "doc_json v \<Longrightarrow> doc_fuel v + 1 \<le> 2 * length (write_json v) + 1"
proof (induction v)
  case (JArr vs)
  have "foldr (\<lambda>v k. Suc (max (doc_fuel v) k)) vs 1 \<le> 2 * length (join '','' (map write_json vs)) + 2"
    if "\<forall>v \<in> set vs. doc_fuel v \<le> 2 * length (write_json v) \<and> write_json v \<noteq> []" for vs
    using that
  proof (induction vs)
    case (Cons v vs)
    then have "0 < length (write_json v)" by simp
    with Cons show ?case by (cases vs) auto
  qed simp
  moreover have "\<forall>v \<in> set vs. doc_fuel v \<le> 2 * length (write_json v) \<and> write_json v \<noteq> []"
    using JArr doc_head by (fastforce simp: list_all_iff)
  ultimately show ?case by fastforce
next
  case (JObj ms)
  have "foldr (\<lambda>m k. Suc (max (doc_fuel (snd m)) k)) ms 1
      \<le> 2 * length (join '','' (map (\<lambda>m. quote_string (fst m) @ '':'' @ write_json (snd m)) ms)) + 2"
    if "\<forall>m \<in> set ms. doc_fuel (snd m) \<le> 2 * length (write_json (snd m))" for ms :: "(string \<times> json) list"
    using that
  proof (induction ms)
    case (Cons m ms)
    then show ?case by (cases ms) auto
  qed simp
  with JObj show ?case by (fastforce simp: list_all_iff)
next
  case (JNum s)
  with valid_number_nonempty [of s] show ?case by (cases s) auto
qed (auto simp: quote_string_def)

lemma decode_written:
  assumes "doc_json v" "doc_depth v \<le> 64" "json_nodes v \<le> 50000" "length (write_json v) \<le> max_document_bytes"
  shows "decode_json (write_json v) = Inr v"
proof -
  have "read_doc (2 * length (write_json v) + 2) 0 [] 0 None (before None @ write_json v @ []) = Inr (v, 0 + json_nodes v, [])"
    by (rule docs_readD [OF doc_read_written]) (use assms doc_fuel_length [OF assms(1)] in simp_all)
  then show ?thesis using assms(4) by (simp add: decode_json_def before_def)
qed

subsection \<open>What is read satisfies the limits\<close>

lemma scan_digits_some: "scan_digits s = Some (ds, t) \<Longrightarrow> list_all is_digit ds \<and> ds \<noteq> [] \<and> s = ds @ t \<and> (t = [] \<or> \<not> is_digit (hd t))"
  by (cases "dropWhile is_digit s")
    (auto simp: scan_digits_def list_all_iff hd_dropWhile dest: set_takeWhileD split: if_splits)

lemma take_digits: "list_all is_digit ds \<Longrightarrow> t = [] \<or> \<not> is_digit (hd t) \<Longrightarrow> takeWhile is_digit (ds @ t) = ds \<and> dropWhile is_digit (ds @ t) = t"
  by (induction ds) (cases t; simp)+

lemma scan_exponent_valid: "scan_exponent s = Some (e, t) \<Longrightarrow> valid_exp e"
  by (auto simp: scan_exponent_def valid_exp_def Let_def split: list.splits if_splits dest!: scan_digits_some) 

lemma scan_fraction_valid: "scan_fraction s = Some (f, t) \<Longrightarrow> valid_frac_exp f"
proof (cases s)
  case (Cons c r)
  assume f: "scan_fraction s = Some (f, t)"
  show ?thesis
  proof (cases "c = CHR ''.''")
    case True
    with f Cons obtain ds u es where d: "scan_digits r = Some (ds, u)" "scan_exponent u = Some (es, t)" "f = CHR ''.'' # ds @ es"
      by (auto simp: scan_fraction_def split: option.splits)
    note D = scan_digits_some [OF d(1)] and E = scan_exponent_valid [OF d(2)]
    have "es = [] \<or> \<not> is_digit (hd es)" using E by (cases es) (auto simp: valid_exp_def is_digit_def)
    with take_digits [of ds es] D E d(3) show ?thesis by (auto simp: valid_frac_exp_def)
  next
    case False
    with f Cons have "scan_exponent s = Some (f, t)" by (simp add: scan_fraction_def)
    from scan_exponent_valid [OF this] show ?thesis by (cases f) (auto simp: valid_frac_exp_def valid_exp_def)
  qed
qed (simp add: scan_fraction_def valid_frac_exp_def)

lemma scan_number_valid:
  assumes "scan_number s = Some (x, t)"
  shows "valid_number x"
proof -
  define sign where "sign = (if has_prefix ''-'' s then ''-'' else [])"
  from assms obtain c r where r: "drop (length sign) s = c # r"
    by (auto simp: scan_number_def Let_def sign_def [symmetric] split: list.splits)
  have nod: "f = [] \<or> \<not> is_digit (hd f)" if "valid_frac_exp f" for f
    using that by (cases f) (auto simp: valid_frac_exp_def valid_exp_def is_digit_def split: if_splits)
  have minus: "strip_minus (sign @ d # y) = d # y" if "is_digit d" for d y
    using that by (auto simp: sign_def strip_minus_def is_digit_def)
  show ?thesis
  proof (cases "c = CHR ''0''")
    case True
    with assms r obtain f where f: "scan_fraction r = Some (f, t)" "x = sign @ CHR ''0'' # f"
      by (auto simp: scan_number_def Let_def sign_def [symmetric])
    note F = scan_fraction_valid [OF f(1)]
    have z: "is_digit CHR ''0''" by (simp add: is_digit_def)
    with take_digits [of "''0''" f] nod [OF F] have "takeWhile is_digit (CHR ''0'' # f) = ''0''" "dropWhile is_digit (CHR ''0'' # f) = f" by simp_all
    with F show ?thesis unfolding f(2) valid_number_def Let_def minus [OF z] by simp
  next
    case False
    with assms r obtain ds u f where f: "scan_digits (c # r) = Some (ds, u)" "scan_fraction u = Some (f, t)" "x = sign @ ds @ f"
      by (auto simp: scan_number_def Let_def sign_def [symmetric] split: option.splits)
    note D = scan_digits_some [OF f(1)] and F = scan_fraction_valid [OF f(2)]
    then obtain ds' where ds: "ds = c # ds'" by (cases ds) auto
    with D have "is_digit c" by simp
    with take_digits [of ds f] nod [OF F] D F False show ?thesis
      unfolding f(3) valid_number_def Let_def ds append_Cons minus [OF \<open>is_digit c\<close>] by (simp add: ds)
  qed
qed

lemma literal_some: "literal w v s = Some (x, t) \<Longrightarrow> x = v"
  by (auto simp: literal_def split: if_splits)

lemma scalar_doc: "scalar_token c r = Some (v, t) \<Longrightarrow> doc_json v \<and> json_nodes v = 1 \<and> doc_depth v = 0"
  by (auto simp: scalar_token_def dest!: literal_some parse_string_utf8 scan_number_valid split: if_splits)

lemma sorted_insert:
  assumes "sorted_keys ms" "map_of ms k = None"
  shows "sorted_keys (insert_member (k, v) ms)"
  using assms
proof (induction ms)
  case (Cons m ms)
  from Cons.prems have s: "sorted_keys ms" "\<forall>x \<in> set ms. str_less (fst m) (fst x)" "map_of ms k = None" "fst m \<noteq> k"
    by (auto simp: sorted_keys_def split: if_splits)
  show ?case
  proof (cases "str_less (fst m) k")
    case True
    with Cons.IH s show ?thesis by (auto simp: sorted_keys_def)
  next
    case False
    with s(4) str_less_linear have "str_less k (fst m)" by blast
    with False s str_less_trans show ?thesis using Cons.prems(1) by (auto simp: sorted_keys_def)
  qed
qed (simp add: sorted_keys_def)

lemma sum_insert_member: "sum_list (map f (insert_member m ms)) = f m + (sum_list (map f ms) :: nat)"
  by (induction ms) auto

definition within :: "nat \<Rightarrow> json \<Rightarrow> bool" where
  "within d v \<longleftrightarrow> doc_json v \<and> doc_depth v + d \<le> 64"

lemma foldr_max_bound: "foldr max ns 0 \<le> b \<longleftrightarrow> (\<forall>n \<in> set ns. n \<le> (b :: nat))"
  by (induction ns) auto

lemma read_doc_limits:
  "read_doc n d p k sep s = Inr (v, k', t) \<Longrightarrow> within d v \<and> k' = k + json_nodes v \<and> k' \<le> 50000"
  "read_elems n d p k i s = Inr (vs, k', t) \<Longrightarrow> k \<le> 50000 \<Longrightarrow>
     list_all (within (d + 1)) vs \<and> k' = k + sum_list (map json_nodes vs) \<and> k' \<le> 50000"
  "read_members n d p k ms first s = Inr (ms', k', t) \<Longrightarrow> k \<le> 50000 \<Longrightarrow> sorted_keys ms \<Longrightarrow>
     list_all (\<lambda>m. valid_utf8 (fst m) \<and> within (d + 1) (snd m)) ms \<Longrightarrow>
     sorted_keys ms' \<and> list_all (\<lambda>m. valid_utf8 (fst m) \<and> within (d + 1) (snd m)) ms' \<and>
     k' + sum_list (map (\<lambda>m. json_nodes (snd m)) ms) = k + sum_list (map (\<lambda>m. json_nodes (snd m)) ms') \<and> k' \<le> 50000"
proof (induction n d p k sep s and n d p k i s and n d p k ms first s arbitrary: v k' t and vs k' t and ms' k' t
    rule: read_doc_read_elems_read_members.induct)
  case (2 n d p k sep s)
  from 2(3) have lim: "d \<le> 64" "k + 1 \<le> 50000" by (auto simp: read_doc.simps split: if_splits)
  from 2(3) lim obtain c r where c: "map_option skip_ws (expect sep s) = Some (c # r)"
    by (auto simp: read_doc.simps split: option.splits list.splits)
  consider "c = CHR ''{''" | "c = CHR ''[''" | "c \<noteq> CHR ''{''" "c \<noteq> CHR ''[''" by blast
  then show ?case
  proof cases
    case 1
    with 2(3) lim c obtain ms where r: "read_members n d p (k + 1) [] True r = Inr (ms, k', t)" "v = JObj ms"
      by (cases "read_members n d p (k + 1) [] True r") (auto simp: read_doc.simps)
    from 2(1) [OF _ c _ 1 r(1)] lim have "sorted_keys ms \<and> list_all (\<lambda>m. valid_utf8 (fst m) \<and> within (d + 1) (snd m)) ms \<and>
        k' = k + 1 + sum_list (map (\<lambda>m. json_nodes (snd m)) ms) \<and> k' \<le> 50000" by (simp add: sorted_keys_def)
    moreover from this have "foldr max (map (\<lambda>m. Suc (doc_depth (snd m))) ms) 0 \<le> 64 - d"
      by (auto simp: foldr_max_bound within_def list_all_iff)
    ultimately show ?thesis using lim by (auto simp: r(2) within_def list_all_iff)
  next
    case 2
    with "2.prems" lim c obtain vs where r: "read_elems n d p (k + 1) 0 r = Inr (vs, k', t)" "v = JArr vs"
      by (cases "read_elems n d p (k + 1) 0 r") (auto simp: read_doc.simps)
    have "c \<noteq> CHR ''{''" using 2 by simp
    from "2.IH"(2) [OF _ c _ this 2 r(1)] lim have "list_all (within (d + 1)) vs \<and> k' = k + 1 + sum_list (map json_nodes vs) \<and> k' \<le> 50000" by simp
    moreover from this have "foldr max (map (\<lambda>v. Suc (doc_depth v)) vs) 0 \<le> 64 - d"
      by (auto simp: foldr_max_bound within_def list_all_iff)
    ultimately show ?thesis using lim by (auto simp: r(2) within_def list_all_iff)
  next
    case 3
    with 2(3) lim c have "scalar_token c r = Some (v, t) \<and> k' = k + 1"
      by (auto simp: read_doc.simps split: option.splits)
    with scalar_doc [of c r v t] lim show ?thesis by (auto simp: within_def)
  qed
next
  case (4 n d p k i s)
  from 4(3) obtain c r where c: "skip_ws s = c # r" by (cases "skip_ws s") (auto simp: read_elems.simps)
  show ?case
  proof (cases "c = CHR '']''")
    case True
    with 4(3,4) c show ?thesis by (auto simp: read_elems.simps)
  next
    case False
    with 4(3) c have c2: "c \<noteq> CHR ''}''" by (auto simp: read_elems.simps)
    with False 4(3) c obtain x k1 t1 ws where x: "read_doc n (d + 1) (p @ ''/'' @ itoa i) k (if i = 0 then None else Some CHR '','') s = Inr (x, k1, t1)"
      "read_elems n d p k1 (i + 1) t1 = Inr (ws, k', t)" "vs = x # ws"
      apply (simp add: read_elems.simps split: sum.splits prod.splits)
      subgoal for y by (cases "read_elems n d p (fst (snd y)) (i + 1) (snd (snd y))") auto
      done
    from 4(1) [OF c False c2 x(1)] have 1: "within (d + 1) x \<and> k1 = k + json_nodes x \<and> k1 \<le> 50000" .
    with 4(2) [OF c False c2 x(1) refl refl x(2)] show ?thesis by (simp add: x(3))
  qed
next
  case (6 n d p k ms first s)
  from 6(3) obtain c r where c: "skip_ws s = c # r" by (cases "skip_ws s") (auto simp: read_members.simps)
  show ?case
  proof (cases "c = CHR ''}''")
    case True
    with 6(3-) c show ?thesis by (auto simp: read_members.simps)
  next
    case False
    with 6(3) c have c2: "c \<noteq> CHR '']''" by (auto simp: read_members.simps)
    from False c2 6(3) c obtain q r2 where q: "map_option skip_ws (expect (if first then None else Some CHR '','') s) = Some (q # r2)"
      by (auto simp: read_members.simps split: option.splits list.splits)
    with False c2 6(3) c have q1: "q = CHR 0x22" by (auto simp: read_members.simps split: if_splits)
    with False c2 6(3) c q obtain key t1 where key: "parse_string (length r2) r2 = Some (key, t1)" "map_of ms key = None"
      by (auto simp: read_members.simps split: option.splits if_splits)
    with False c2 6(3) c q q1 obtain x k1 u where x: "read_doc n (d + 1) (pointer p key) k (Some CHR '':'') t1 = Inr (x, k1, u)"
      "read_members n d p k1 (insert_member (key, x) ms) False u = Inr (ms', k', t)"
      by (auto simp: read_members.simps split: sum.splits)
    note h = c False c2 q
    have 1: "within (d + 1) x \<and> k1 = k + json_nodes x \<and> k1 \<le> 50000"
      using 6(1) [OF c False c2 q refl _ key(1) _ _ x(1)] q1 key(2) by auto
    have "sorted_keys (insert_member (key, x) ms)" using sorted_insert [OF 6(5) key(2)] .
    moreover have "list_all (\<lambda>m. valid_utf8 (fst m) \<and> within (d + 1) (snd m)) (insert_member (key, x) ms)"
      using 6(6) 1 parse_string_utf8 [OF key(1)] by (simp add: list_all_iff)
    ultimately show ?thesis
      using 6(2) [OF c False c2 q refl _ key(1) _ _ x(1) refl refl x(2)] q1 key(2) 1 by (simp add: sum_insert_member)
  qed
qed (simp_all add: read_doc.simps read_elems.simps read_members.simps)

lemma decode_json_limits:
  assumes "decode_json s = Inr v"
  shows "doc_json v \<and> doc_depth v \<le> 64 \<and> json_nodes v \<le> 50000"
  using assms by (auto simp: decode_json_def within_def dest!: read_doc_limits(1) split: if_splits)

end
