(* ===== verification/CopyPlan.thy ===== *)
theory CopyPlan
  imports TransferJson Template
begin

text \<open>
  \<open>src/schemetransfer/copy_plan.go\<close>, \<open>copy_files.go\<close> and the rules of \<open>validation.go\<close>: plans for copying
  the settings of one block. A plan moves values out of the settings, JSON null stays in their place;
  \<open>hydrated_settings\<close> puts them back. \<open>json.RawMessage\<close> is its text. What the JSON schema says of a
  response is the argument \<open>conforms\<close> (the library and the schema file are not Go code of the module).
\<close>

subsection \<open>Pointers into a document\<close>

definition invalid_path :: "string \<Rightarrow> contract_error" where
  "invalid_path p = ContractError ''invalidCopyPath'' p"

definition unescape_key :: "string \<Rightarrow> string" where
  "unescape_key e = replace_pair CHR ''~'' CHR ''0'' ''~'' (replace_pair CHR ''~'' CHR ''1'' ''/'' e)"

definition array_index :: "string \<Rightarrow> nat \<Rightarrow> nat option" where
  "array_index key n = (case atoi key of None \<Rightarrow> None
     | Some i \<Rightarrow> if i < 0 \<or> int n \<le> i \<or> itoa (nat i) \<noteq> key then None else Some (nat i))"

text \<open>One step of \<open>copyPointer\<close>; the error is a code.\<close>

definition child :: "string \<Rightarrow> json \<Rightarrow> (string, json) go_result" where
  "child key v = (case v of
     JObj ms \<Rightarrow> (case map_of ms key of None \<Rightarrow> Inl ''missingCopyPath'' | Some x \<Rightarrow> Inr x)
   | JArr vs \<Rightarrow> (case array_index key (length vs) of None \<Rightarrow> Inl ''invalidCopyPath'' | Some i \<Rightarrow> Inr (vs ! i))
   | _ \<Rightarrow> Inl ''invalidCopyPath'')"

definition set_child :: "string \<Rightarrow> json \<Rightarrow> json \<Rightarrow> json" where
  "set_child key y v = (case v of
     JObj ms \<Rightarrow> JObj (AList.update key y ms)
   | JArr vs \<Rightarrow> (case array_index key (length vs) of None \<Rightarrow> v | Some i \<Rightarrow> JArr (vs[i := y]))
   | _ \<Rightarrow> v)"

text \<open>The loop over the parts: the value found and the document with the replacement, if there is one.\<close>

fun pointer_walk :: "json option \<Rightarrow> string list \<Rightarrow> json \<Rightarrow> (string, json \<times> json) go_result" where
  "pointer_walk rep [] v = Inl ''invalidCopyPath''"
| "pointer_walk rep (e # es) v =
     (let key = unescape_key e in
      if escape_key key \<noteq> e then Inl ''invalidCopyPath''
      else bindR (child key v) (\<lambda>x.
        if es = [] then Inr (x, case rep of None \<Rightarrow> v | Some y \<Rightarrow> set_child key y v)
        else bindR (pointer_walk rep es x) (\<lambda>(old, x'). Inr (old, set_child key x' v))))"

definition copy_pointer :: "json \<Rightarrow> string \<Rightarrow> json option \<Rightarrow> (contract_error, json \<times> json) go_result" where
  "copy_pointer root path rep = (case path of
     [] \<Rightarrow> Inl (invalid_path path)
   | c # p \<Rightarrow> if c \<noteq> CHR ''/'' then Inl (invalid_path path)
      else map_sum (\<lambda>code. ContractError code path) id (pointer_walk rep (split_on CHR ''/'' p) root))"

subsection \<open>Plans\<close>

record selector =
  se_kind :: string
  se_source_key :: string
  se_owner :: string
  se_value_type :: string

text \<open>\<open>Rule\<close> with the fields its semantic checks read; \<open>Fields\<close> in the order of the keys.\<close>

datatype rule = Rule (ru_kind: string) (ru_fields: "(string \<times> rule) list") (ru_items: "rule option") (ru_values: "rule option")
  (ru_resource: "selector option") (ru_read_as: string) (ru_write_as: string) (ru_empty: string) (ru_default: "(string \<times> string) option")

record implicit_resource =
  im_kind :: string
  im_owner :: string
  im_key :: string
  im_value_type :: string
  im_access :: string

record copy_reference =
  cr_file :: "string option" \<comment> \<open>\<open>File.MediaFileID\<close>\<close>
  cr_path :: string
  cr_resource :: selector
  cr_value :: string
  cr_read_as :: string
  cr_write_as :: string
  cr_access :: string
  cr_constraints :: string

record copy_plan =
  cp_references :: "copy_reference list"
  cp_templates :: "string list"
  cp_implicit :: "implicit_resource list"

record issue =
  is_severity :: string
  is_code :: string
  is_path :: string
  is_message :: string
  is_step_ref :: string
  is_resource_ref :: string

record copy_response =
  pr_version :: int
  pr_settings :: string
  pr_plan :: "copy_plan option"
  pr_issues :: "issue list"

text \<open>
  The checks of one \<open>reference\<close>; a rule without its resource panics in the code, and the schema of
  the rules requires it.
\<close>

definition reference_semantics :: "string \<Rightarrow> rule \<Rightarrow> contract_error option" where
  "reference_semantics path r =
     (if (ru_empty r = ''bindDefault'') \<noteq> (ru_default r \<noteq> None) then Some (ContractError ''invalidDefault'' path)
      else (case ru_resource r of None \<Rightarrow> Some (ContractError ''panic'' path)
        | Some s \<Rightarrow>
            if se_kind s = ''integrationResource'' then
              (if ru_read_as r \<noteq> ''value'' \<or> ru_write_as r \<noteq> ''value'' \<or> ru_default r \<noteq> None
               then Some (ContractError ''invalidResourceEncoding'' path) else None)
            else if ru_read_as r = ''value'' \<or> ru_write_as r = ''value'' then Some (ContractError ''invalidResourceEncoding'' path)
            else if (se_kind s = ''branch'' \<or> se_kind s = ''tag'') \<and>
              (ru_read_as r \<noteq> ''id'' \<or> ru_write_as r \<noteq> ''id'' \<or> ru_default r \<noteq> None)
            then Some (ContractError ''invalidResourceEncoding'' path) else None))"

fun rule_semantics :: "string \<Rightarrow> rule \<Rightarrow> contract_error option"
  and fields_semantics :: "string \<Rightarrow> (string \<times> rule) list \<Rightarrow> contract_error option" where
  "rule_semantics path (Rule kind flds items vals res ra wa emp def) =
     (case (if kind = ''reference'' then reference_semantics path (Rule kind flds items vals res ra wa emp def) else None) of
        Some e \<Rightarrow> Some e
      | None \<Rightarrow> (case fields_semantics path flds of
          Some e \<Rightarrow> Some e
        | None \<Rightarrow> (case (case items of None \<Rightarrow> None | Some r \<Rightarrow> rule_semantics (pointer path ''items'') r) of
            Some e \<Rightarrow> Some e
          | None \<Rightarrow> (case vals of None \<Rightarrow> None | Some r \<Rightarrow> rule_semantics (pointer path ''values'') r))))"
| "fields_semantics path [] = None"
| "fields_semantics path ((k, r) # rs) =
     (case rule_semantics (pointer path k) r of Some e \<Rightarrow> Some e | None \<Rightarrow> fields_semantics path rs)"

definition reference_rule :: "copy_reference \<Rightarrow> rule" where
  "reference_rule c = Rule ''reference'' [] None None (Some (cr_resource c)) (cr_read_as c) (cr_write_as c) ''requireBinding'' None"

text \<open>\<open>json.Unmarshal\<close> into a string.\<close>

definition unmarshal_string :: "string \<Rightarrow> string option" where
  "unmarshal_string raw = (case parse_json raw of Some (JStr s) \<Rightarrow> Some s | Some JNull \<Rightarrow> Some [] | _ \<Rightarrow> None)"

definition validate_copy_file :: "copy_reference \<Rightarrow> contract_error option" where
  "validate_copy_file c = (case cr_file c of None \<Rightarrow> None
     | Some _ \<Rightarrow>
        if se_kind (cr_resource c) \<noteq> ''integrationResource'' \<or> cr_read_as c \<noteq> ''value'' \<or> cr_write_as c \<noteq> ''value'' \<or> cr_access c \<noteq> []
        then Some (ContractError ''invalidCopyFileReference'' (cr_path c))
        else (case unmarshal_string (cr_value c) of
            None \<Rightarrow> Some (ContractError ''invalidCopyFileValue'' (cr_path c))
          | Some i \<Rightarrow> if i = [] then Some (ContractError ''invalidCopyFileValue'' (cr_path c)) else None))"

definition overlap :: "string \<Rightarrow> string \<Rightarrow> bool" where
  "overlap p q \<longleftrightarrow> p = q \<or> has_prefix (q @ ''/'') p \<or> has_prefix (p @ ''/'') q"

definition check_path :: "json \<Rightarrow> string list \<Rightarrow> string \<Rightarrow> (contract_error, json \<times> string list) go_result" where
  "check_path v paths path =
     guardR (list_ex (\<lambda>p. overlap p path) paths) (ContractError ''overlappingCopyPaths'' path)
    (bindR (copy_pointer v path None) (\<lambda>(x, _). Inr (x, path # paths)))"

text \<open>Files by source key and identity; an empty media id counts as none.\<close>

definition check_file :: "copy_reference \<Rightarrow> ((string \<times> string) \<times> string) list \<Rightarrow>
    (contract_error, ((string \<times> string) \<times> string) list) go_result" where
  "check_file c files = (case cr_file c of None \<Rightarrow> Inr files
     | Some media \<Rightarrow>
        let key = (se_source_key (cr_resource c), case unmarshal_string (cr_value c) of None \<Rightarrow> [] | Some i \<Rightarrow> i);
            old = (case map_of files key of None \<Rightarrow> [] | Some m \<Rightarrow> m)
        in if old \<noteq> [] \<and> old \<noteq> media then Inl (ContractError ''conflictingCopyFile'' (cr_path c))
           else Inr (AList.update key media files))"

definition check_source :: "copy_reference \<Rightarrow> json \<Rightarrow> contract_error option" where
  "check_source c source =
     (if source = JNull then Some (ContractError ''copySourceValueRequired'' (cr_path c))
      else if se_kind (cr_resource c) = ''integrationResource'' then None
      else (case source of
          JStr s \<Rightarrow> if trim_space s = [] then Some (ContractError ''copySourceValueRequired'' (cr_path c)) else None
        | _ \<Rightarrow> Some (ContractError ''copySourceValueRequired'' (cr_path c))))"

definition opt_error :: "'e option \<Rightarrow> ('e, 'a) go_result \<Rightarrow> ('e, 'a) go_result" where
  "opt_error e k = (case e of Some x \<Rightarrow> Inl x | None \<Rightarrow> k)"

fun check_references :: "json \<Rightarrow> string list \<Rightarrow> ((string \<times> string) \<times> string) list \<Rightarrow> copy_reference list \<Rightarrow>
    (contract_error, string list) go_result" where
  "check_references v paths files [] = Inr paths"
| "check_references v paths files (c # cs) =
     bindR (check_path v paths (cr_path c)) (\<lambda>(x, paths).
       guardR (x \<noteq> JNull) (ContractError ''copyPlaceholderRequired'' (cr_path c))
      (opt_error (validate_copy_file c)
      (bindR (check_file c files) (\<lambda>files.
         opt_error (rule_semantics (cr_path c) (reference_rule c))
        (bindR (decode_json (cr_value c)) (\<lambda>source.
           opt_error (check_source c source)
          (check_references v paths files cs)))))))"

fun check_templates :: "(nat \<Rightarrow> bool) \<Rightarrow> json \<Rightarrow> string list \<Rightarrow> string list \<Rightarrow> (contract_error, unit) go_result" where
  "check_templates word_tbl v paths [] = Inr ()"
| "check_templates word_tbl v paths (t # ts) =
     bindR (check_path v paths t) (\<lambda>(x, paths).
       case x of
         JStr s \<Rightarrow> guardR (isl (parse_v1 word_tbl s)) (ContractError ''invalidTemplate'' t)
           (check_templates word_tbl v paths ts)
       | _ \<Rightarrow> Inl (ContractError ''copyTemplateMustBeString'' t))"

definition validate_plan :: "(nat \<Rightarrow> bool) \<Rightarrow> copy_response \<Rightarrow> (contract_error, unit) go_result" where
  "validate_plan word_tbl r = (case pr_plan r of
     None \<Rightarrow> Inl (ContractError ''copyPlanRequired'' ''/plan'')
   | Some plan \<Rightarrow>
       bindR (decode_json (pr_settings r)) (\<lambda>v.
       bindR (check_references v [] [] (cp_references plan)) (\<lambda>paths.
         check_templates word_tbl v paths (cp_templates plan))))"

definition validate_response :: "(nat \<Rightarrow> bool) \<Rightarrow> (copy_response \<Rightarrow> contract_error option) \<Rightarrow> copy_response \<Rightarrow> (contract_error, unit) go_result" where
  "validate_response word_tbl conforms r = opt_error (conforms r) (validate_plan word_tbl r)"

fun hydrate :: "copy_reference list \<Rightarrow> json \<Rightarrow> (contract_error, json) go_result" where
  "hydrate [] v = Inr v"
| "hydrate (c # cs) v =
     bindR (copy_pointer v (cr_path c) (Some (case decode_json (cr_value c) of Inr x \<Rightarrow> x | Inl _ \<Rightarrow> JNull))) (\<lambda>(_, v).
       hydrate cs v)"

definition hydrated_settings :: "(nat \<Rightarrow> bool) \<Rightarrow> (copy_response \<Rightarrow> contract_error option) \<Rightarrow> copy_response \<Rightarrow> (contract_error, string) go_result" where
  "hydrated_settings word_tbl conforms r =
     bindR (validate_response word_tbl conforms r) (\<lambda>_.
     bindR (hydrate (case pr_plan r of Some plan \<Rightarrow> cp_references plan | None \<Rightarrow> [])
         (case decode_json (pr_settings r) of Inr v \<Rightarrow> v | Inl _ \<Rightarrow> JNull)) (\<lambda>v.
     Inr (write_json v)))"

subsection \<open>The builder\<close>

record builder =
  bu_settings :: json
  bu_plan :: copy_plan
  bu_err :: "contract_error option"

definition marshal_error :: contract_error where
  "marshal_error = ContractError ''marshal'' []"

text \<open>\<open>raw\<close>: what \<open>json.Marshal\<close> makes of the settings.\<close>

definition new_copy_builder :: "string option \<Rightarrow> builder" where
  "new_copy_builder raw =
     (let plan = \<lparr>cp_references = [], cp_templates = [], cp_implicit = []\<rparr>
      in (case raw of None \<Rightarrow> \<lparr>bu_settings = JNull, bu_plan = plan, bu_err = Some marshal_error\<rparr>
        | Some s \<Rightarrow> (case decode_json s of
            Inl e \<Rightarrow> \<lparr>bu_settings = JNull, bu_plan = plan, bu_err = Some e\<rparr>
          | Inr v \<Rightarrow> \<lparr>bu_settings = v, bu_plan = plan,
              bu_err = (case v of JObj _ \<Rightarrow> None | _ \<Rightarrow> Some (ContractError ''settingsMustBeObject'' []))\<rparr>)))"

definition add_reference :: "string \<Rightarrow> selector \<Rightarrow> string \<Rightarrow> string \<Rightarrow> string \<Rightarrow> builder \<Rightarrow> builder" where
  "add_reference path sel read_as write_as access b =
     (if bu_err b \<noteq> None then b
      else (case copy_pointer (bu_settings b) path (Some JNull) of
        Inl e \<Rightarrow> b\<lparr>bu_err := Some e\<rparr>
      | Inr (v, root) \<Rightarrow> b\<lparr>bu_settings := root, bu_plan := (bu_plan b)\<lparr>cp_references := cp_references (bu_plan b) @
          [\<lparr>cr_file = None, cr_path = path, cr_resource = sel, cr_value = write_json v, cr_read_as = read_as,
            cr_write_as = write_as, cr_access = access, cr_constraints = []\<rparr>]\<rparr>\<rparr>))"

definition add_resource :: "string \<Rightarrow> string \<Rightarrow> builder \<Rightarrow> builder" where
  "add_resource path source_key =
     add_reference path \<lparr>se_kind = ''integrationResource'', se_source_key = source_key, se_owner = [], se_value_type = []\<rparr> ''value'' ''value'' []"

definition add_subject_variable :: "string \<Rightarrow> string \<Rightarrow> string \<Rightarrow> builder \<Rightarrow> builder" where
  "add_subject_variable path value_type access =
     add_reference path \<lparr>se_kind = ''subjectVariable'', se_source_key = [], se_owner = ''projectOrThisIntegration'', se_value_type = value_type\<rparr>
       ''key'' ''key'' access"

definition add_resource_list :: "string \<Rightarrow> string \<Rightarrow> builder \<Rightarrow> builder" where
  "add_resource_list path source_key b =
     (if bu_err b \<noteq> None then b
      else (case copy_pointer (bu_settings b) path None of
        Inl e \<Rightarrow> b\<lparr>bu_err := Some e\<rparr>
      | Inr (JArr vs, _) \<Rightarrow> foldl (\<lambda>b i. add_resource (pointer path (itoa i)) source_key b) b [0..<length vs]
      | Inr _ \<Rightarrow> b\<lparr>bu_err := Some (ContractError ''copyListRequired'' path)\<rparr>))"

definition add_file :: "string \<Rightarrow> string \<Rightarrow> string \<Rightarrow> builder \<Rightarrow> builder" where
  "add_file path source_key media b =
     (let b = add_resource path source_key b
      in if bu_err b \<noteq> None then b
         else b\<lparr>bu_plan := (bu_plan b)\<lparr>cp_references := butlast (cp_references (bu_plan b)) @
           [(last (cp_references (bu_plan b)))\<lparr>cr_file := Some media\<rparr>]\<rparr>\<rparr>)"

definition add_template :: "string \<Rightarrow> builder \<Rightarrow> builder" where
  "add_template path b = b\<lparr>bu_plan := (bu_plan b)\<lparr>cp_templates := cp_templates (bu_plan b) @ [path]\<rparr>\<rparr>"

definition add_requirement :: "implicit_resource \<Rightarrow> builder \<Rightarrow> builder" where
  "add_requirement i b = b\<lparr>bu_plan := (bu_plan b)\<lparr>cp_implicit := cp_implicit (bu_plan b) @ [i]\<rparr>\<rparr>"

text \<open>The copy of the result through JSON, which detaches it from the builder, is the identity here.\<close>

definition build :: "(nat \<Rightarrow> bool) \<Rightarrow> (copy_response \<Rightarrow> contract_error option) \<Rightarrow> builder \<Rightarrow> (contract_error, copy_response) go_result" where
  "build word_tbl conforms b = opt_error (bu_err b)
     (let r = \<lparr>pr_version = 2, pr_settings = write_json (bu_settings b), pr_plan = Some (bu_plan b), pr_issues = []\<rparr>
      in bindR (validate_response word_tbl conforms r) (\<lambda>_. Inr r))"

end
