(* ===== verification/CopyHydration.thy ===== *)
theory CopyHydration
  imports CopyPlan
begin

text \<open>
  Copy plans are lossless: hydrating a valid response succeeds and touches nothing but its references,
  and what the builder takes out of the settings comes back. The laws of pointers are a contract, the
  locale \<open>pointer_store\<close>, which the pointers of \<open>copy_pointer\<close> satisfy.
\<close>

subsection \<open>Moving values out of a document and back\<close>

text \<open>
  The contract of pointers: reading and replacing what a pointer denotes, and which pointers do not
  touch each other. Values taken out one after the other can be put back in the same order.
\<close>

fun put_all :: "('p \<Rightarrow> 'x \<Rightarrow> 'v \<Rightarrow> 'v option) \<Rightarrow> ('p \<times> 'x) list \<Rightarrow> 'v \<Rightarrow> 'v option" where
  "put_all put [] v = Some v"
| "put_all put (px # pxs) v = (case put (fst px) (snd px) v of None \<Rightarrow> None | Some w \<Rightarrow> put_all put pxs w)"

locale pointer_store =
  fixes get :: "'p \<Rightarrow> 'v \<Rightarrow> 'x option"
    and put :: "'p \<Rightarrow> 'x \<Rightarrow> 'v \<Rightarrow> 'v option"
    and apart :: "'p \<Rightarrow> 'p \<Rightarrow> bool"
  assumes apart_sym: "apart p q \<Longrightarrow> apart q p"
    and put_some: "put p y v \<noteq> None \<longleftrightarrow> get p v \<noteq> None"
    and put_get: "put p y v = Some w \<Longrightarrow> get p w = Some y"
    and get_put: "get p v = Some x \<Longrightarrow> put p x v = Some v"
    and put_put: "put p y v = Some w \<Longrightarrow> put p z w = put p z v"
    and get_apart: "apart p q \<Longrightarrow> put p y v = Some w \<Longrightarrow> get q w = get q v"
    and put_apart: "apart p q \<Longrightarrow> put p y v = Some w \<Longrightarrow> put q z v = Some u \<Longrightarrow> put q z w = put p y u"
begin

lemma put_all_get:
  "put_all put pxs v = Some w \<Longrightarrow> \<forall>px \<in> set pxs. apart (fst px) q \<Longrightarrow> get q w = get q v"
  by (induction pxs arbitrary: v) (auto simp: get_apart split: option.splits)

lemma put_all_put:
  "put_all put pxs v = Some w \<Longrightarrow> \<forall>px \<in> set pxs. apart (fst px) q \<Longrightarrow> put q z v = Some v' \<Longrightarrow>
   put_all put pxs v' = put q z w"
proof (induction pxs arbitrary: v v')
  case (Cons px pxs)
  from Cons.prems(1) obtain u where u: "put (fst px) (snd px) v = Some u" "put_all put pxs u = Some w"
    by (auto split: option.splits)
  from Cons.prems have a: "apart (fst px) q" "\<forall>px \<in> set pxs. apart (fst px) q" by simp_all
  from put_apart [OF a(1) u(1) Cons.prems(3)] have e: "put q z u = put (fst px) (snd px) v'" .
  have "get q v \<noteq> None" using Cons.prems(3) put_some [of q z v] by simp
  then have "put q z u \<noteq> None" using get_apart [OF a(1) u(1)] put_some [of q z u] by simp
  then obtain u' where u': "put q z u = Some u'" by blast
  from Cons.IH [OF u(2) a(2) u'] show ?case by (simp add: e [symmetric] u')
qed simp

text \<open>One more value taken out, from the document the others are already missing in.\<close>

lemma take_out_put_back:
  assumes "put_all put pxs s = Some v" "\<forall>px \<in> set pxs. apart (fst px) q" "get q s = Some x" "put q z s = Some s'"
  shows "put_all put (pxs @ [(q, x)]) s' = Some v"
proof -
  have "get q v = Some x" using put_all_get [OF assms(1,2)] assms(3) by simp
  then have v: "put q x v = Some v" by (rule get_put)
  then have "put q z v \<noteq> None" using put_some [of q z v] put_some [of q x v] by simp
  then obtain v' where v': "put q z v = Some v'" by blast
  have "put_all put pxs s' = Some v'" using put_all_put [OF assms(1,2,4)] v' by simp
  moreover have "put_all put (as @ bs) u = (case put_all put as u of None \<Rightarrow> None | Some w \<Rightarrow> put_all put bs w)" for as bs u
    by (induction as arbitrary: u) (auto split: option.split)
  ultimately show ?thesis using put_put [OF v', of x] v by simp
qed

text \<open>Putting values at pointers that are there and do not touch each other succeeds.\<close>

lemma put_all_total:
  "\<forall>px \<in> set pxs. get (fst px) v \<noteq> None \<Longrightarrow> sorted_wrt (\<lambda>a b. apart (fst a) (fst b)) pxs \<Longrightarrow>
   \<exists>w. put_all put pxs v = Some w \<and> (\<forall>px \<in> set pxs. get (fst px) w = Some (snd px))"
proof (induction pxs arbitrary: v)
  case (Cons px pxs)
  obtain u where u: "put (fst px) (snd px) v = Some u" using Cons.prems(1) put_some [of "fst px" "snd px" v] by auto
  have "\<forall>qy \<in> set pxs. get (fst qy) u \<noteq> None" using Cons.prems get_apart [OF _ u] by auto
  moreover have "sorted_wrt (\<lambda>a b. apart (fst a) (fst b)) pxs" using Cons.prems(2) by simp
  ultimately obtain w where w: "put_all put pxs u = Some w" "\<forall>qy \<in> set pxs. get (fst qy) w = Some (snd qy)"
    using Cons.IH by blast
  have "get (fst px) w = get (fst px) u" using put_all_get [OF w(1)] Cons.prems(2) apart_sym by auto
  with put_get [OF u] u w show ?case by auto
qed simp

end

subsection \<open>Pointers satisfy the contract\<close>

definition pointer_get :: "string \<Rightarrow> json \<Rightarrow> json option" where
  "pointer_get p v = (case copy_pointer v p None of Inr (x, _) \<Rightarrow> Some x | Inl _ \<Rightarrow> None)"

definition pointer_put :: "string \<Rightarrow> json \<Rightarrow> json \<Rightarrow> json option" where
  "pointer_put p y v = (case copy_pointer v p (Some y) of Inr (_, w) \<Rightarrow> Some w | Inl _ \<Rightarrow> None)"

lemma array_index_some: "array_index key n = Some i \<Longrightarrow> i < n \<and> itoa i = key"
  by (auto simp: array_index_def split: option.splits if_splits)

lemma update_commute:
  "k \<noteq> l \<Longrightarrow> map_of ms k \<noteq> None \<Longrightarrow> map_of ms l \<noteq> None \<Longrightarrow>
   AList.update k v (AList.update l w ms) = AList.update l w (AList.update k v ms)"
  by (induction ms) (auto split: if_splits)

lemma child_cases:
  assumes "child key v = Inr x"
  obtains (obj) ms where "v = JObj ms" "map_of ms key = Some x"
  | (arr) vs i where "v = JArr vs" "array_index key (length vs) = Some i" "i < length vs" "itoa i = key" "x = vs ! i"
  using assms by (auto simp: child_def split: json.splits option.splits dest: array_index_some)

lemma child_set:
  assumes "child key v = Inr x"
  shows "child key (set_child key y v) = Inr y" "set_child key x v = v"
    "set_child key z (set_child key y v) = set_child key z v"
  using assms by (cases rule: child_cases; simp add: child_def set_child_def update_conv' update_triv)+

lemma child_other:
  assumes "child key v = Inr x" "key' \<noteq> key"
  shows "child key' (set_child key y v) = child key' v"
    "child key' v = Inr x' \<Longrightarrow> set_child key' z (set_child key y v) = set_child key y (set_child key' z v)"
proof -
  show "child key' (set_child key y v) = child key' v"
    using assms(1)
  proof (cases rule: child_cases)
    case (obj ms)
    with assms(2) show ?thesis by (simp add: child_def set_child_def update_conv')
  next
    case (arr vs i)
    have "vs[i := y] ! j = vs ! j" if "array_index key' (length vs) = Some j" for j
      using array_index_some [OF that] arr(4) assms(2) by (cases "j = i") auto
    with arr show ?thesis by (simp add: child_def set_child_def split: option.split)
  qed
  assume x': "child key' v = Inr x'"
  show "set_child key' z (set_child key y v) = set_child key y (set_child key' z v)"
    using assms(1)
  proof (cases rule: child_cases)
    case (obj ms)
    with x' assms(2) update_commute [of key' key ms z y] show ?thesis
      by (auto simp: child_def set_child_def split: option.splits)
  next
    case (arr vs i)
    with x' obtain j where j: "array_index key' (length vs) = Some j" by (auto simp: child_def split: option.splits)
    with array_index_some [OF j] arr(4) assms(2) have "i \<noteq> j" by auto
    with arr j show ?thesis by (simp add: set_child_def list_update_swap)
  qed
qed

text \<open>The walk as two functions: the value at a path and its replacement.\<close>

fun at :: "string list \<Rightarrow> json \<Rightarrow> json option" where
  "at [] v = Some v"
| "at (e # es) v = (if escape_key (unescape_key e) \<noteq> e then None
     else (case child (unescape_key e) v of Inl _ \<Rightarrow> None | Inr x \<Rightarrow> at es x))"

fun upd :: "string list \<Rightarrow> json \<Rightarrow> json \<Rightarrow> json" where
  "upd [] y v = y"
| "upd (e # es) y v = (case child (unescape_key e) v of Inl _ \<Rightarrow> v | Inr x \<Rightarrow> set_child (unescape_key e) (upd es y x) v)"

lemma at_ConsE:
  assumes "at (e # es) v = Some x"
  obtains c where "escape_key (unescape_key e) = e" "child (unescape_key e) v = Inr c" "at es c = Some x"
  using assms by (auto split: if_splits sum.splits)

lemma at_upd: "at es v = Some x \<Longrightarrow> at es (upd es y v) = Some y"
proof (induction es arbitrary: v)
  case (Cons e es)
  then obtain c where c: "escape_key (unescape_key e) = e" "child (unescape_key e) v = Inr c" "at es c = Some x" by (elim at_ConsE)
  with Cons.IH [OF c(3)] child_set(1) [OF c(2)] show ?case by simp
qed simp

lemma upd_at: "at es v = Some x \<Longrightarrow> upd es x v = v"
proof (induction es arbitrary: v)
  case (Cons e es)
  then obtain c where c: "child (unescape_key e) v = Inr c" "at es c = Some x" by (elim at_ConsE)
  with Cons.IH [OF c(2)] child_set(2) [OF c(1)] show ?case by simp
qed simp

lemma upd_upd: "at es v = Some x \<Longrightarrow> upd es z (upd es y v) = upd es z v"
proof (induction es arbitrary: v)
  case (Cons e es)
  then obtain c where c: "child (unescape_key e) v = Inr c" "at es c = Some x" by (elim at_ConsE)
  with Cons.IH [OF c(2)] child_set(1,3) [OF c(1)] show ?case by simp
qed simp

definition unrelated :: "'a list \<Rightarrow> 'a list \<Rightarrow> bool" where
  "unrelated es fs \<longleftrightarrow> (\<nexists>gs. fs = es @ gs) \<and> (\<nexists>gs. es = fs @ gs)"

lemma unrelated_Cons: "unrelated (e # es) (f # fs) \<longleftrightarrow> e \<noteq> f \<or> unrelated es fs"
  by (auto simp: unrelated_def)

lemma unrelated_Nil [simp]: "\<not> unrelated [] fs" "\<not> unrelated es []"
  by (auto simp: unrelated_def)

lemma upd_unrelated:
  assumes "at es v = Some x" "unrelated es fs"
  shows "at fs (upd es y v) = at fs v"
    "at fs v = Some a \<Longrightarrow> upd fs z (upd es y v) = upd es y (upd fs z v)"
proof -
  have "at fs (upd es y v) = at fs v \<and> (at fs v = Some a \<longrightarrow> upd fs z (upd es y v) = upd es y (upd fs z v))"
    using assms
  proof (induction es arbitrary: v fs)
    case (Cons e es)
    then obtain f fs' where fs: "fs = f # fs'" by (cases fs) auto
    let ?k = "unescape_key e" and ?l = "unescape_key f"
    from Cons.prems(1) obtain c where e: "escape_key ?k = e" and c: "child ?k v = Inr c" "at es c = Some x" by (elim at_ConsE)
    have u: "upd (e # es) y v = set_child ?k (upd es y c) v" using c(1) by simp
    show ?case
    proof (cases "f = e")
      case True
      with Cons.prems(2) fs have "unrelated es fs'" by (simp add: unrelated_Cons)
      note IH = Cons.IH [OF c(2) this]
      show ?thesis using IH c(1) child_set(1,3) [OF c(1)] e by (auto simp: fs True)
    next
      case False
      show ?thesis
      proof (cases "escape_key ?l = f")
        case True
        with e False have kl: "?l \<noteq> ?k" by auto
        note O = child_other [OF c(1) kl]
        have "child ?k (set_child ?l q v) = Inr c" if "child ?l v = Inr p" for p q
          using child_other(1) [OF that kl [symmetric]] c(1) by simp
        with O u show ?thesis by (auto simp: fs split: sum.splits)
      next
        case False
        then show ?thesis by (simp add: fs)
      qed
    qed
  qed simp
  then show "at fs (upd es y v) = at fs v" "at fs v = Some a \<Longrightarrow> upd fs z (upd es y v) = upd es y (upd fs z v)" by blast+
qed

lemma pointer_walk_at:
  "es \<noteq> [] \<Longrightarrow> (case pointer_walk rep es v of Inr xw \<Rightarrow> Some xw | Inl _ \<Rightarrow> None) =
     map_option (\<lambda>x. (x, case rep of None \<Rightarrow> v | Some y \<Rightarrow> upd es y v)) (at es v)"
proof (induction es arbitrary: v)
  case (Cons e es)
  show ?case
  proof (cases "escape_key (unescape_key e) = e \<and> es \<noteq> []")
    case True
    show ?thesis
    proof (cases "child (unescape_key e) v")
      case (Inr c)
      with Cons.IH [of c] True show ?thesis
        by (cases "pointer_walk rep es c"; cases "at es c"; cases rep) (auto simp: Let_def child_set)
    qed (use True in \<open>simp add: Let_def\<close>)
  next
    case False
    then show ?thesis by (cases "child (unescape_key e) v"; cases rep) (auto simp: Let_def child_set)
  qed
qed simp

text \<open>The parts of a pointer; \<open>overlap\<close> is the prefix order on them.\<close>

definition parts :: "string \<Rightarrow> string list" where
  "parts p = split_on CHR ''/'' (tl p)"

definition rooted :: "string \<Rightarrow> bool" where
  "rooted p \<longleftrightarrow> (\<exists>s. p = CHR ''/'' # s)"

lemma pointer_get_at: "pointer_get p v = (if rooted p then at (parts p) v else None)"
proof (cases p)
  case (Cons c s)
  show ?thesis
  proof (cases "c = CHR ''/''")
    case True
    with Cons pointer_walk_at [of "parts p" None v] show ?thesis
      by (cases "pointer_walk None (parts p) v"; cases "at (parts p) v") (auto simp: pointer_get_def copy_pointer_def rooted_def parts_def)
  qed (use Cons in \<open>simp add: pointer_get_def copy_pointer_def rooted_def\<close>)
qed (simp add: pointer_get_def copy_pointer_def rooted_def)

lemma pointer_put_upd: "pointer_put p y v = (if rooted p \<and> at (parts p) v \<noteq> None then Some (upd (parts p) y v) else None)"
proof (cases p)
  case (Cons c s)
  show ?thesis
  proof (cases "c = CHR ''/''")
    case True
    with Cons pointer_walk_at [of "parts p" "Some y" v] show ?thesis
      by (cases "pointer_walk (Some y) (parts p) v"; cases "at (parts p) v") (auto simp: pointer_put_def copy_pointer_def rooted_def parts_def)
  qed (use Cons in \<open>simp add: pointer_put_def copy_pointer_def rooted_def\<close>)
qed (simp add: pointer_put_def copy_pointer_def rooted_def)

lemma overlap_unrelated:
  assumes "rooted p" "rooted q" "\<not> overlap p q"
  shows "unrelated (parts p) (parts q)"
proof -
  have sub: "False" if r: "rooted p" "rooted q" and pq: "parts q = parts p @ gs" and no: "\<not> overlap p q" for p q gs
  proof -
    from r obtain s t where st: "p = CHR ''/'' # s" "q = CHR ''/'' # t" by (auto simp: rooted_def)
    have "t = join ''/'' (parts q)" "s = join ''/'' (parts p)" by (simp_all add: parts_def st)
    moreover have "join ''/'' (as @ bs) = join ''/'' as @ (if bs = [] then [] else ''/'' @ join ''/'' bs)" if "as \<noteq> []" for as bs
      using that by (induction as rule: induct_list012) (auto simp: join_Cons)
    moreover have "parts p \<noteq> []" by (simp add: parts_def)
    ultimately have "t = s @ (if gs = [] then [] else ''/'' @ join ''/'' gs)" using pq by simp
    then have "overlap p q" by (cases "gs = []") (auto simp: overlap_def st has_prefix_conv)
    with no show False ..
  qed
  have "overlap q p = overlap p q" by (auto simp: overlap_def)
  with assms sub [of p q] sub [of q p] show ?thesis by (auto simp: unrelated_def)
qed

definition pointers_apart :: "string \<Rightarrow> string \<Rightarrow> bool" where
  "pointers_apart p q \<longleftrightarrow> \<not> overlap p q"

interpretation doc: pointer_store pointer_get pointer_put pointers_apart
proof unfold_locales
  fix p q :: string
  assume "pointers_apart p q"
  then show "pointers_apart q p" by (auto simp: pointers_apart_def overlap_def)
next
  fix p y v
  show "pointer_put p y v \<noteq> None \<longleftrightarrow> pointer_get p v \<noteq> None" by (simp add: pointer_put_upd pointer_get_at)
next
  fix p y v w
  assume "pointer_put p y v = Some w"
  then show "pointer_get p w = Some y" by (auto simp: pointer_put_upd pointer_get_at at_upd split: if_splits)
next
  fix p v x
  assume "pointer_get p v = Some x"
  then show "pointer_put p x v = Some v" by (auto simp: pointer_put_upd pointer_get_at upd_at split: if_splits)
next
  fix p y v w z
  assume "pointer_put p y v = Some w"
  then show "pointer_put p z w = pointer_put p z v" by (auto simp: pointer_put_upd at_upd upd_upd split: if_splits)
next
  fix p q y v w
  assume "pointers_apart p q" "pointer_put p y v = Some w"
  then show "pointer_get q w = pointer_get q v"
    by (auto simp: pointer_put_upd pointer_get_at pointers_apart_def overlap_unrelated upd_unrelated(1) split: if_splits)
next
  fix p q y v w z u
  assume a: "pointers_apart p q" "pointer_put p y v = Some w" "pointer_put q z v = Some u"
  then have r: "rooted p" "rooted q" by (auto simp: pointer_put_upd split: if_splits)
  from a obtain x x' where x: "at (parts p) v = Some x" "at (parts q) v = Some x'" "w = upd (parts p) y v" "u = upd (parts q) z v"
    by (auto simp: pointer_put_upd split: if_splits)
  have un: "unrelated (parts p) (parts q)" "unrelated (parts q) (parts p)"
    using overlap_unrelated [OF r] a(1) by (auto simp: pointers_apart_def unrelated_def)
  show "pointer_put q z w = pointer_put p y u"
    using r x upd_unrelated(1) [OF x(1) un(1)] upd_unrelated(1) [OF x(2) un(2)] upd_unrelated(2) [OF x(1) un(1) x(2)]
    by (simp add: pointer_put_upd)
qed

subsection \<open>Valid responses\<close>

definition source_of :: "copy_reference \<Rightarrow> json" where
  "source_of c = (case decode_json (cr_value c) of Inr x \<Rightarrow> x | Inl _ \<Rightarrow> JNull)"

definition put_backs :: "copy_reference list \<Rightarrow> (string \<times> json) list" where
  "put_backs cs = map (\<lambda>c. (cr_path c, source_of c)) cs"

lemma hydrate_put_all: "hydrate cs v = Inr w \<longleftrightarrow> put_all pointer_put (put_backs cs) v = Some w"
proof (induction cs arbitrary: v)
  case (Cons c cs)
  show ?case
  proof (cases "copy_pointer v (cr_path c) (Some (source_of c))")
    case (Inl e)
    then have "hydrate (c # cs) v = Inl e" "pointer_put (cr_path c) (source_of c) v = None"
      by (simp_all add: source_of_def pointer_put_def)
    then show ?thesis by (simp add: put_backs_def)
  next
    case (Inr xu)
    then have "hydrate (c # cs) v = hydrate cs (snd xu)" "pointer_put (cr_path c) (source_of c) v = Some (snd xu)"
      by (simp_all add: source_of_def pointer_put_def split_beta)
    with Cons show ?thesis by (simp add: put_backs_def)
  qed
qed (simp add: put_backs_def)

lemma opt_error_Inr [simp]: "opt_error e k = Inr x \<longleftrightarrow> e = None \<and> k = Inr x"
  by (cases e) (simp_all add: opt_error_def)

lemma check_path_Inr:
  "check_path v paths p = Inr (x, paths') \<longleftrightarrow> paths' = p # paths \<and> (\<forall>q \<in> set paths. \<not> overlap q p) \<and> pointer_get p v = Some x"
  by (cases "copy_pointer v p None") (auto simp: check_path_def pointer_get_def list_ex_iff)

lemma check_references_paths:
  "check_references v paths files cs = Inr qs \<Longrightarrow>
     sorted_wrt (\<lambda>c d. pointers_apart (cr_path c) (cr_path d)) cs \<and>
     (\<forall>c \<in> set cs. (\<forall>p \<in> set paths. \<not> overlap p (cr_path c)) \<and> pointer_get (cr_path c) v = Some JNull \<and>
        decode_json (cr_value c) = Inr (source_of c) \<and> source_of c \<noteq> JNull)"
proof (induction cs arbitrary: paths files)
  case (Cons c cs)
  then obtain files' source where c: "\<forall>q \<in> set paths. \<not> overlap q (cr_path c)" "pointer_get (cr_path c) v = Some JNull"
    "decode_json (cr_value c) = Inr source" "check_source c source = None"
    "check_references v (cr_path c # paths) files' cs = Inr qs"
    by (auto simp: check_path_Inr)
  from c(3,4) have "source_of c = source" "source \<noteq> JNull" by (auto simp: source_of_def check_source_def)
  with c Cons.IH [OF c(5)] show ?case by (auto simp: pointers_apart_def)
qed simp

lemma valid_plan:
  assumes "validate_response word_tbl conforms r = Inr ()"
  obtains plan v where "pr_plan r = Some plan" "decode_json (pr_settings r) = Inr v"
    "sorted_wrt (\<lambda>c d. pointers_apart (cr_path c) (cr_path d)) (cp_references plan)"
    "\<forall>c \<in> set (cp_references plan). pointer_get (cr_path c) v = Some JNull \<and> decode_json (cr_value c) = Inr (source_of c) \<and> source_of c \<noteq> JNull"
proof -
  from assms obtain plan where p: "pr_plan r = Some plan" "validate_plan word_tbl r = Inr ()"
    by (cases "pr_plan r") (auto simp: validate_response_def validate_plan_def)
  then obtain v qs where "decode_json (pr_settings r) = Inr v" "check_references v [] [] (cp_references plan) = Inr qs"
    by (auto simp: validate_plan_def)
  with check_references_paths [OF this(2)] p(1) that show thesis by blast
qed

text \<open>
  C27. A response that validates can always be hydrated: every reference gets its source value, and
  what no reference touches is what it was; before that, every reference is null in the settings.
\<close>

theorem hydration_total:
  assumes "validate_response word_tbl conforms r = Inr ()"
  shows "\<exists>plan v w. pr_plan r = Some plan \<and> decode_json (pr_settings r) = Inr v \<and>
    hydrated_settings word_tbl conforms r = Inr (write_json w) \<and>
    list_all (\<lambda>c. pointer_get (cr_path c) v = Some JNull \<and>
      pointer_get (cr_path c) w = Some (source_of c) \<and> source_of c \<noteq> JNull) (cp_references plan) \<and>
    (\<forall>p. list_all (\<lambda>c. \<not> overlap (cr_path c) p) (cp_references plan) \<longrightarrow> pointer_get p w = pointer_get p v)"
proof -
  obtain plan v where p: "pr_plan r = Some plan" "decode_json (pr_settings r) = Inr v"
    "sorted_wrt (\<lambda>c d. pointers_apart (cr_path c) (cr_path d)) (cp_references plan)"
    "\<forall>c \<in> set (cp_references plan). pointer_get (cr_path c) v = Some JNull \<and> decode_json (cr_value c) = Inr (source_of c) \<and> source_of c \<noteq> JNull"
    using valid_plan [OF assms] .
  let ?pxs = "put_backs (cp_references plan)"
  have "\<forall>px \<in> set ?pxs. pointer_get (fst px) v \<noteq> None" using p(4) by (auto simp: put_backs_def)
  moreover have "sorted_wrt (\<lambda>a b. pointers_apart (fst a) (fst b)) ?pxs" using p(3) by (simp add: put_backs_def sorted_wrt_map)
  ultimately obtain w where w: "put_all pointer_put ?pxs v = Some w" "\<forall>px \<in> set ?pxs. pointer_get (fst px) w = Some (snd px)"
    using doc.put_all_total by blast
  have "hydrated_settings word_tbl conforms r = Inr (write_json w)"
    using assms p(1,2) hydrate_put_all [THEN iffD2, OF w(1)] by (simp add: hydrated_settings_def)
  moreover have "pointer_get q w = pointer_get q v" if "\<forall>c \<in> set (cp_references plan). \<not> overlap (cr_path c) q" for q
    by (rule doc.put_all_get [OF w(1)]) (use that in \<open>auto simp: put_backs_def pointers_apart_def\<close>)
  ultimately show ?thesis using p w(2) by (auto simp: put_backs_def list_all_iff)
qed

subsection \<open>The builder takes out what hydration puts back\<close>

text \<open>Values within the limits of documents.\<close>

definition small_doc :: "json \<Rightarrow> bool" where
  "small_doc v \<longleftrightarrow> doc_json v \<and> doc_depth v \<le> 64 \<and> json_nodes v \<le> 50000"

definition smaller :: "json \<Rightarrow> json \<Rightarrow> bool" where
  "smaller x v \<longleftrightarrow> doc_json x \<and> doc_depth x \<le> doc_depth v \<and> json_nodes x \<le> json_nodes v"

lemma member_le: "x \<in> set xs \<Longrightarrow> f x \<le> (sum_list (map f xs) :: nat)"
  by (induction xs) auto

lemma child_smaller: "doc_json v \<Longrightarrow> child key v = Inr x \<Longrightarrow> smaller x v"
proof (erule child_cases)
  fix ms assume v: "doc_json v" "v = JObj ms" "map_of ms key = Some x"
  then have m: "(key, x) \<in> set ms" by (simp add: map_of_SomeD)
  with v foldr_max_le [OF m, of "\<lambda>m. Suc (doc_depth (snd m))"] member_le [OF m, of "\<lambda>m. json_nodes (snd m)"]
  show ?thesis by (auto simp: smaller_def list_all_iff)
next
  fix vs i assume v: "doc_json v" "v = JArr vs" "i < length vs" "x = vs ! i"
  then have m: "x \<in> set vs" by simp
  with v foldr_max_le [OF m, of "\<lambda>v. Suc (doc_depth v)"] member_le [OF m, of json_nodes]
  show ?thesis by (auto simp: smaller_def list_all_iff)
qed

lemma foldr_max_mono: "list_all2 (\<lambda>x y. f x \<le> f y) xs ys \<Longrightarrow> foldr max (map f xs) (0 :: nat) \<le> foldr max (map f ys) 0"
  by (induction rule: list_all2_induct) auto

lemma sum_mono2: "list_all2 (\<lambda>x y. f x \<le> f y) xs ys \<Longrightarrow> sum_list (map f xs) \<le> (sum_list (map f ys) :: nat)"
  by (induction rule: list_all2_induct) auto

lemma update_list_all2:
  "map_of ms k = Some x \<Longrightarrow> (\<And>m. R m m) \<Longrightarrow> R (k, y) (k, x) \<Longrightarrow> list_all2 R (AList.update k y ms) ms"
  by (induction ms) (auto simp: list_all2_refl split: if_splits)

lemma update_same_keys: "map_of ms k = Some x \<Longrightarrow> map fst (AList.update k y ms) = map fst ms"
  by (induction ms) (auto split: if_splits)

lemma set_child_smaller:
  assumes "doc_json v" "child key v = Inr x" "smaller y x"
  shows "smaller (set_child key y v) v"
  using assms(2)
proof (cases rule: child_cases)
  case (obj ms)
  have le: "doc_depth y \<le> doc_depth x" "json_nodes y \<le> json_nodes x" "doc_json y" using assms(3) by (simp_all add: smaller_def)
  have "list_all2 (\<lambda>m n. Suc (doc_depth (snd m)) \<le> Suc (doc_depth (snd n))) (AList.update key y ms) ms"
    "list_all2 (\<lambda>m n. json_nodes (snd m) \<le> json_nodes (snd n)) (AList.update key y ms) ms"
    using le by (auto intro: update_list_all2 [OF obj(2)])
  note foldr_max_mono [OF this(1)] and sum_mono2 [OF this(2)]
  moreover have "sorted_keys (AList.update key y ms)" using assms(1) obj update_same_keys [OF obj(2)] by (simp add: sorted_keys_def)
  moreover have "list_all (\<lambda>m. valid_utf8 (fst m) \<and> doc_json (snd m)) (AList.update key y ms)"
    using assms(1) obj le(3) set_update_sub [of key y ms] map_of_SomeD [OF obj(2)] by (force simp: list_all_iff)
  ultimately show ?thesis using obj(1) by (simp add: smaller_def set_child_def)
next
  case (arr vs i)
  have le: "doc_depth y \<le> doc_depth x" "json_nodes y \<le> json_nodes x" "doc_json y" using assms(3) by (simp_all add: smaller_def)
  have "list_all2 (\<lambda>m n. Suc (doc_depth m) \<le> Suc (doc_depth n)) (vs[i := y]) vs"
    "list_all2 (\<lambda>m n. json_nodes m \<le> json_nodes n) (vs[i := y]) vs"
    using le arr by (auto simp: list_all2_conv_all_nth nth_list_update)
  note foldr_max_mono [OF this(1)] and sum_mono2 [OF this(2)]
  moreover have "list_all doc_json (vs[i := y])"
    using assms(1) arr le(3) set_update_subset_insert [of vs i y] by (auto simp: list_all_iff)
  ultimately show ?thesis using arr by (simp add: smaller_def set_child_def)
qed

lemma at_smaller: "doc_json v \<Longrightarrow> at es v = Some x \<Longrightarrow> smaller x v"
proof (induction es arbitrary: v)
  case (Cons e es)
  then obtain c where c: "child (unescape_key e) v = Inr c" "at es c = Some x" by (elim at_ConsE)
  note S = child_smaller [OF Cons.prems(1) c(1)]
  with Cons.IH [OF _ c(2)] show ?case by (auto simp: smaller_def)
qed (simp add: smaller_def)

lemma upd_smaller: "doc_json v \<Longrightarrow> at es v = Some x \<Longrightarrow> smaller y x \<Longrightarrow> smaller (upd es y v) v"
proof (induction es arbitrary: v)
  case (Cons e es)
  then obtain c where c: "child (unescape_key e) v = Inr c" "at es c = Some x" by (elim at_ConsE)
  note S = child_smaller [OF Cons.prems(1) c(1)]
  with Cons.IH [OF _ c(2) Cons.prems(3)] have "smaller (upd es y c) c" by (simp add: smaller_def)
  from set_child_smaller [OF Cons.prems(1) c(1) this] show ?case using c(1) by simp
qed simp

lemma null_smaller: "smaller JNull x"
  by (cases x) (simp_all add: smaller_def)

lemma copy_pointer_null:
  assumes "copy_pointer v p (Some JNull) = Inr (x, w)" "small_doc v"
  shows "pointer_get p v = Some x \<and> pointer_put p JNull v = Some w \<and> small_doc x \<and> small_doc w"
proof -
  have put: "pointer_put p JNull v = Some w" using assms(1) by (simp add: pointer_put_def)
  then have r: "rooted p" "at (parts p) v \<noteq> None" "w = upd (parts p) JNull v" by (auto simp: pointer_put_upd split: if_splits)
  then obtain c s where p: "p = CHR ''/'' # s" "parts p = split_on CHR ''/'' s" by (auto simp: rooted_def parts_def)
  have "pointer_walk (Some JNull) (parts p) v = Inr (x, w)"
    using assms(1) p by (cases "pointer_walk (Some JNull) (parts p) v") (auto simp: copy_pointer_def)
  with pointer_walk_at [of "parts p" "Some JNull" v] p(2) have at: "at (parts p) v = Some x" by (cases "at (parts p) v") auto
  have "doc_json v" using assms(2) by (simp add: small_doc_def)
  note at_smaller [OF this at] upd_smaller [OF this at null_smaller]
  with assms(2) r at put show ?thesis by (auto simp: small_doc_def smaller_def pointer_get_at)
qed

lemma small_read: "small_doc v \<Longrightarrow> decode_json (write_json v) = Inr u \<Longrightarrow> u = v"
  using decode_written [of v] by (auto simp: small_doc_def decode_json_def split: if_splits)

datatype builder_op =
    OpReference string selector string string string
  | OpResource string string
  | OpSubjectVariable string string string
  | OpResourceList string string
  | OpFile string string string
  | OpTemplate string
  | OpRequire implicit_resource

fun apply_op :: "builder_op \<Rightarrow> builder \<Rightarrow> builder" where
  "apply_op (OpReference p sel ra wa ac) = add_reference p sel ra wa ac"
| "apply_op (OpResource p k) = add_resource p k"
| "apply_op (OpSubjectVariable p t ac) = add_subject_variable p t ac"
| "apply_op (OpResourceList p k) = add_resource_list p k"
| "apply_op (OpFile p k media) = add_file p k media"
| "apply_op (OpTemplate p) = add_template p"
| "apply_op (OpRequire i) = add_requirement i"

text \<open>
  The invariant of a builder that started from \<open>v0\<close>: the values moved out so far, \<open>xs\<close>, put back at
  the paths of the references give \<open>v0\<close>, as long as the paths do not overlap.
\<close>

definition moved_out :: "json \<Rightarrow> copy_reference list \<Rightarrow> json \<Rightarrow> bool" where
  "moved_out v0 cs s \<longleftrightarrow> small_doc s \<and> (\<exists>xs. list_all2 (\<lambda>c x. cr_value c = write_json x \<and> small_doc x) cs xs \<and>
     (sorted_wrt (\<lambda>c d. pointers_apart (cr_path c) (cr_path d)) cs \<longrightarrow>
        put_all pointer_put (zip (map cr_path cs) xs) s = Some v0))"

definition builder_inv :: "json \<Rightarrow> builder \<Rightarrow> bool" where
  "builder_inv v0 b \<longleftrightarrow> bu_err b = None \<longrightarrow> moved_out v0 (cp_references (bu_plan b)) (bu_settings b)"

lemma moved_out_snoc:
  assumes "moved_out v0 cs s" "copy_pointer s (cr_path c) (Some JNull) = Inr (x, w)" "cr_value c = write_json x"
  shows "moved_out v0 (cs @ [c]) w"
proof -
  from assms(1) obtain xs where xs: "small_doc s" "list_all2 (\<lambda>c x. cr_value c = write_json x \<and> small_doc x) cs xs"
    "sorted_wrt (\<lambda>c d. pointers_apart (cr_path c) (cr_path d)) cs \<Longrightarrow> put_all pointer_put (zip (map cr_path cs) xs) s = Some v0"
    by (auto simp: moved_out_def)
  note N = copy_pointer_null [OF assms(2) xs(1)]
  have len: "length cs = length xs" using xs(2) by (rule list_all2_lengthD)
  have "put_all pointer_put (zip (map cr_path (cs @ [c])) (xs @ [x])) w = Some v0"
    if sw: "sorted_wrt (\<lambda>c d. pointers_apart (cr_path c) (cr_path d)) (cs @ [c])"
  proof -
    have "\<forall>px \<in> set (zip (map cr_path cs) xs). pointers_apart (fst px) (cr_path c)"
      using sw by (fastforce simp: sorted_wrt_append dest: set_zip_leftD)
    moreover have "put_all pointer_put (zip (map cr_path cs) xs) s = Some v0" using xs(3) sw by (simp add: sorted_wrt_append)
    ultimately have "put_all pointer_put (zip (map cr_path cs) xs @ [(cr_path c, x)]) w = Some v0"
      using N by (intro doc.take_out_put_back [of _ s]) auto
    then show ?thesis using len by simp
  qed
  moreover have "list_all2 (\<lambda>c x. cr_value c = write_json x \<and> small_doc x) (cs @ [c]) (xs @ [x])"
    using xs(2) N assms(3) by (simp add: list_all2_appendI)
  ultimately show ?thesis using N unfolding moved_out_def by blast
qed

lemma add_reference_inv: "builder_inv v0 b \<Longrightarrow> builder_inv v0 (add_reference p sel ra wa ac b)"
  by (auto simp: builder_inv_def add_reference_def intro: moved_out_snoc split: sum.splits)

lemma add_resource_inv: "builder_inv v0 b \<Longrightarrow> builder_inv v0 (add_resource p k b)"
  by (simp add: add_resource_def add_reference_inv)

lemma add_resource_list_inv: "builder_inv v0 b \<Longrightarrow> builder_inv v0 (add_resource_list p k b)"
proof -
  assume b: "builder_inv v0 b"
  have "builder_inv v0 (foldl (\<lambda>b i. add_resource (pointer p (itoa i)) k b) b ns)" for ns :: "nat list"
    using b by (induction ns rule: rev_induct) (simp_all add: add_resource_inv)
  with b show ?thesis by (auto simp: add_resource_list_def builder_inv_def split: sum.splits prod.splits json.splits)
qed

lemma moved_out_maps: "moved_out v0 cs s \<longleftrightarrow> small_doc s \<and>
    (\<exists>xs. list_all2 (\<lambda>v x. v = write_json x \<and> small_doc x) (map cr_value cs) xs \<and>
      (sorted_wrt pointers_apart (map cr_path cs) \<longrightarrow> put_all pointer_put (zip (map cr_path cs) xs) s = Some v0))"
  by (simp add: moved_out_def sorted_wrt_map list_all2_map1)

text \<open>Marking the last reference as a file leaves its path and its value.\<close>

lemma moved_out_file: "cs \<noteq> [] \<Longrightarrow> moved_out v0 cs s \<Longrightarrow> moved_out v0 (butlast cs @ [(last cs)\<lparr>cr_file := f\<rparr>]) s"
proof -
  assume cs: "cs \<noteq> []" "moved_out v0 cs s"
  let ?d = "butlast cs @ [(last cs)\<lparr>cr_file := f\<rparr>]"
  obtain ds d where "cs = ds @ [d]" using cs(1) by (metis rev_exhaust)
  then have same: "map cr_path ?d = map cr_path cs" "map cr_value ?d = map cr_value cs" by simp_all
  from cs(2) show ?thesis unfolding moved_out_maps same .
qed

lemma add_file_inv: "builder_inv v0 b \<Longrightarrow> builder_inv v0 (add_file p k media b)"
proof -
  assume "builder_inv v0 b"
  then have i: "builder_inv v0 (add_resource p k b)" by (rule add_resource_inv)
  have "cp_references (bu_plan (add_resource p k b)) \<noteq> []" if "bu_err (add_resource p k b) = None"
    using that by (auto simp: add_resource_def add_reference_def split: sum.splits if_splits)
  with i show ?thesis by (simp add: add_file_def Let_def builder_inv_def moved_out_file)
qed

lemma add_template_inv: "builder_inv v0 b \<Longrightarrow> builder_inv v0 (add_template p b)"
  by (simp add: add_template_def builder_inv_def)

lemma add_requirement_inv: "builder_inv v0 b \<Longrightarrow> builder_inv v0 (add_requirement i b)"
  by (simp add: add_requirement_def builder_inv_def)

lemmas builder_invs = add_reference_inv add_resource_inv add_resource_list_inv add_file_inv add_template_inv add_requirement_inv

lemma apply_op_inv: "builder_inv v0 b \<Longrightarrow> builder_inv v0 (apply_op oper b)"
  by (cases oper) (simp_all add: builder_invs add_subject_variable_def)

lemma start_inv:
  assumes "decode_json raw = Inr v0"
  shows "builder_inv v0 (new_copy_builder (Some raw))"
  using decode_json_limits [OF assms] assms by (simp add: builder_inv_def new_copy_builder_def moved_out_def small_doc_def Let_def)

lemma moved_out_sources:
  assumes "moved_out v0 cs s" "\<forall>c \<in> set cs. decode_json (cr_value c) = Inr (source_of c)"
    "sorted_wrt (\<lambda>c d. pointers_apart (cr_path c) (cr_path d)) cs"
  shows "put_all pointer_put (put_backs cs) s = Some v0"
proof -
  from assms obtain xs where xs: "list_all2 (\<lambda>c x. cr_value c = write_json x \<and> small_doc x) cs xs"
    "put_all pointer_put (zip (map cr_path cs) xs) s = Some v0" by (auto simp: moved_out_def)
  from xs(1) assms(2) have "zip (map cr_path cs) xs = put_backs cs"
  proof (induction rule: list_all2_induct)
    case (Cons c cs x xs)
    then have "source_of c = x" using small_read [of x "source_of c"] by simp
    with Cons show ?case by (simp add: put_backs_def)
  qed (simp add: put_backs_def)
  with xs(2) show ?thesis by simp
qed

text \<open>
  C37. Whatever is marked with the builder's operations: when \<open>Build\<close> succeeds, hydrating its response
  gives back exactly the settings the builder started from.
\<close>

theorem builder_roundtrip:
  assumes "decode_json raw = Inr v0"
    and "build word_tbl conforms (fold apply_op opers (new_copy_builder (Some raw))) = Inr r"
  shows "hydrated_settings word_tbl conforms r = Inr (write_json v0)"
proof -
  define b where "b = fold apply_op opers (new_copy_builder (Some raw))"
  have inv: "builder_inv v0 b"
    unfolding b_def using start_inv [OF assms(1)] by (induction opers rule: rev_induct) (simp_all add: apply_op_inv)
  from assms(2) have err: "bu_err b = None" and val: "validate_response word_tbl conforms r = Inr ()"
    and r: "r = \<lparr>pr_version = 2, pr_settings = write_json (bu_settings b), pr_plan = Some (bu_plan b), pr_issues = []\<rparr>"
    unfolding b_def [symmetric] by (auto simp: build_def Let_def)
  have m: "moved_out v0 (cp_references (bu_plan b)) (bu_settings b)" using inv err by (simp add: builder_inv_def)
  obtain plan v where p: "pr_plan r = Some plan" "decode_json (pr_settings r) = Inr v"
    "sorted_wrt (\<lambda>c d. pointers_apart (cr_path c) (cr_path d)) (cp_references plan)"
    "\<forall>c \<in> set (cp_references plan). pointer_get (cr_path c) v = Some JNull \<and> decode_json (cr_value c) = Inr (source_of c) \<and> source_of c \<noteq> JNull"
    using valid_plan [OF val] .
  have plan: "plan = bu_plan b" using p(1) by (simp add: r)
  have "small_doc (bu_settings b)" using m by (simp add: moved_out_def)
  then have v: "v = bu_settings b" using small_read p(2) by (simp add: r)
  have "put_all pointer_put (put_backs (cp_references plan)) v = Some v0"
    unfolding plan v by (rule moved_out_sources [OF m]) (use p(3,4) in \<open>auto simp: plan\<close>)
  with val p(1,2) show ?thesis by (simp add: hydrated_settings_def hydrate_put_all [THEN iffD2])
qed

definition settings_example :: "json \<Rightarrow> json" where
  "settings_example x = JObj [(''a'', x), (''b'', JStr ''t'')]"

definition response_example :: copy_response where
  "response_example = \<lparr>pr_version = 2, pr_settings = write_json (settings_example JNull), pr_plan = Some
     \<lparr>cp_references = [\<lparr>cr_file = None, cr_path = ''/a'', cr_resource = \<lparr>se_kind = ''integrationResource'', se_source_key = ''k'',
        se_owner = [], se_value_type = []\<rparr>, cr_value = write_json (JStr ''x''), cr_read_as = ''value'', cr_write_as = ''value'',
        cr_access = [], cr_constraints = []\<rparr>], cp_templates = [''/b''], cp_implicit = []\<rparr>, pr_issues = []\<rparr>"

lemma example_reads:
  "decode_json (write_json (settings_example JNull)) = Inr (settings_example JNull)"
  "decode_json (write_json (settings_example (JStr ''x''))) = Inr (settings_example (JStr ''x''))"
  "decode_json (write_json (JStr ''x'')) = Inr (JStr ''x'')"
  by (rule decode_written;
    simp add: settings_example_def valid_utf8_def sorted_keys_def max_document_bytes_def quote_string_def escape_chunk_def)+

lemma example_pointers:
  "copy_pointer (settings_example x) ''/a'' rep = Inr (x, case rep of None \<Rightarrow> settings_example x | Some y \<Rightarrow> settings_example y)"
  "copy_pointer (settings_example x) ''/b'' None = Inr (JStr ''t'', settings_example x)"
  by (simp_all add: copy_pointer_def settings_example_def unescape_key_def escape_key_def replace_char_def Let_def child_def set_child_def
      split: option.split)

lemma example_template: "\<not> isl (parse_v1 (\<lambda>_. False) ''t'')"
  by code_simp

lemma response_example_valid: "validate_response (\<lambda>_. False) (\<lambda>_. None) response_example = Inr ()"
  by (simp add: validate_response_def opt_error_def validate_plan_def response_example_def example_reads check_path_def example_pointers
      validate_copy_file_def check_file_def reference_rule_def reference_semantics_def check_source_def overlap_def has_prefix_def
      example_template del: write_json.simps)

lemma hydration_total_witness:
  "\<exists>v w. hydrated_settings (\<lambda>_. False) (\<lambda>_. None) response_example = Inr (write_json w) \<and>
     decode_json (pr_settings response_example) = Inr v \<and> pointer_get ''/a'' v = Some JNull \<and> pointer_get ''/a'' w \<noteq> Some JNull"
  proof -
  obtain plan v w where p: "pr_plan response_example = Some plan" and h: "decode_json (pr_settings response_example) = Inr v"
    "hydrated_settings (\<lambda>_. False) (\<lambda>_. None) response_example = Inr (write_json w)"
    and l: "list_all (\<lambda>c. pointer_get (cr_path c) v = Some JNull \<and> pointer_get (cr_path c) w = Some (source_of c) \<and> source_of c \<noteq> JNull)
       (cp_references plan)"
    using hydration_total [OF response_example_valid] by blast
  from p obtain c where "cp_references plan = [c]" "cr_path c = ''/a''" by (auto simp: response_example_def)
  with l have "pointer_get ''/a'' v = Some JNull" "pointer_get ''/a'' w \<noteq> Some JNull" by auto
  with h show ?thesis by blast
qed

lemma builder_roundtrip_witness:
  "\<exists>r. build (\<lambda>_. False) (\<lambda>_. None) (fold apply_op [OpResource ''/a'' ''k'', OpTemplate ''/b'']
       (new_copy_builder (Some (write_json (settings_example (JStr ''x'')))))) = Inr r \<and>
     hydrated_settings (\<lambda>_. False) (\<lambda>_. None) r = Inr (write_json (settings_example (JStr ''x'')))"
proof -
  have "build (\<lambda>_. False) (\<lambda>_. None) (fold apply_op [OpResource ''/a'' ''k'', OpTemplate ''/b'']
       (new_copy_builder (Some (write_json (settings_example (JStr ''x'')))))) = Inr response_example"
  proof -
    have b0: "new_copy_builder (Some (write_json (settings_example (JStr ''x'')))) = \<lparr>bu_settings = settings_example (JStr ''x''),
        bu_plan = \<lparr>cp_references = [], cp_templates = [], cp_implicit = []\<rparr>, bu_err = None\<rparr>"
      by (simp add: new_copy_builder_def example_reads Let_def del: write_json.simps) (simp add: settings_example_def)
    have b1: "fold apply_op [OpResource ''/a'' ''k'', OpTemplate ''/b''] (new_copy_builder (Some (write_json (settings_example (JStr ''x''))))) =
        \<lparr>bu_settings = settings_example JNull, bu_plan = the (pr_plan response_example), bu_err = None\<rparr>"
      unfolding b0 by (simp add: add_resource_def add_reference_def example_pointers add_template_def response_example_def del: write_json.simps)
    have r: "response_example = \<lparr>pr_version = 2, pr_settings = write_json (settings_example JNull),
        pr_plan = Some (the (pr_plan response_example)), pr_issues = []\<rparr>" by (simp add: response_example_def)
    show ?thesis unfolding b1 build_def builder.simps r [symmetric] using response_example_valid by (simp add: opt_error_def)
  qed
  from this builder_roundtrip [OF example_reads(2) this] show ?thesis by blast
qed

end
