(* ===== verification/TransferSources.thy ===== *)
theory TransferSources
  imports CopyPlan
begin

text \<open>
  The catalog of resource sources of \<open>src/schemetransfer\<close>: the graph of their parameters
  (\<open>validateResourceSources\<close> in \<open>validation.go\<close>), the checks that rest on it (\<open>ValidateDeclaration\<close>,
  \<open>ValidateSources\<close> of \<open>copy_plan.go\<close>, \<open>copy_files.go\<close>) and the lookups (\<open>runtime.go\<close>, \<open>source_runtime.go\<close>).

  The verdicts of the JSON schemas are arguments: \<open>conforms\<close>, \<open>lookup_ok\<close>, ... for the embedded contract,
  \<open>compile\<close> and \<open>accepts\<close> for the schemas a source declares, \<open>has_type\<close> for \<open>{"type": ...}\<close>. Maps are lists in
  the order of their keys.
\<close>

subsection \<open>Sources\<close>

record resource_source =
  so_file_import :: "string option"
  so_value_type :: string
  so_identity_scope :: string
  so_supports :: "string list"
  so_parameters :: "(string \<times> bool \<times> string) list" \<comment> \<open>name, required, source key\<close>
  so_constraints :: string

type_synonym catalog = "(string \<times> resource_source) list"

text \<open>The source of a key, the zero value without one.\<close>

definition source_at :: "catalog \<Rightarrow> string \<Rightarrow> resource_source" where
  "source_at srcs k = (case map_of srcs k of Some s \<Rightarrow> s | None \<Rightarrow> \<lparr>so_file_import = None, so_value_type = [],
     so_identity_scope = [], so_supports = [], so_parameters = [], so_constraints = []\<rparr>)"

definition source_path :: "string \<Rightarrow> string" where
  "source_path k = pointer ''/resourceSources'' k"

record 's visits =
  vi_state :: "string \<Rightarrow> nat"
  vi_schemas :: "(string \<times> 's) list"

text \<open>The checks of one source after its parameters.\<close>

definition finish_source :: "(json \<Rightarrow> 's option) \<Rightarrow> string \<Rightarrow> resource_source \<Rightarrow> bool \<Rightarrow> 's visits \<Rightarrow> (contract_error, 's visits) go_result" where
  "finish_source compile k s has_required v =
     guardR (so_identity_scope s = ''parent'' \<and> \<not> has_required) (ContractError ''parentParameterRequired'' (source_path k))
    (guardR (\<not> list_ex (\<lambda>x. x = ''resolve'') (so_supports s)) (ContractError ''resolveRequired'' (source_path k))
    (bindR (if so_constraints s = [] then Inr (vi_schemas v)
        else bindR (decode_json (so_constraints s)) (\<lambda>j. case compile j of
            None \<Rightarrow> Inl (ContractError ''invalidConstraintsSchema'' (source_path k))
          | Some c \<Rightarrow> Inr (AList.update k c (vi_schemas v)))) (\<lambda>schemas.
      Inr (v\<lparr>vi_schemas := schemas, vi_state := (vi_state v)(k := 2)\<rparr>))))"

definition bad_file_import :: "resource_source \<Rightarrow> bool" where
  "bad_file_import s \<longleftrightarrow> so_file_import s \<noteq> None \<and> (so_identity_scope s \<noteq> ''project'' \<or> so_value_type s \<noteq> ''string'' \<or>
     so_parameters s \<noteq> [] \<or> \<not> list_ex (\<lambda>x. x = ''identify'') (so_supports s))"

text \<open>
  \<open>visit\<close> with a bound on the depth of its recursion, \<open>None\<close> beyond it; \<open>visit_parameters\<close> is its loop,
  which also returns whether a required parameter was seen.
\<close>

function (sequential) visit :: "(json \<Rightarrow> 's option) \<Rightarrow> catalog \<Rightarrow> nat \<Rightarrow> string \<Rightarrow> 's visits \<Rightarrow> (contract_error, 's visits) go_result option"
  and visit_parameters :: "(json \<Rightarrow> 's option) \<Rightarrow> catalog \<Rightarrow> nat \<Rightarrow> string \<Rightarrow> (string \<times> bool \<times> string) list \<Rightarrow> bool \<Rightarrow> 's visits \<Rightarrow>
    (contract_error, bool \<times> 's visits) go_result option" where
  "visit compile srcs 0 k v = None"
| "visit compile srcs (Suc n) k v =
     (if vi_state v k = 1 then Some (Inl (ContractError ''cyclicSourceDependencies'' (source_path k)))
      else if vi_state v k = 2 then Some (Inr v)
      else if bad_file_import (source_at srcs k) then Some (Inl (ContractError ''invalidFileImportSource'' (source_path k)))
      else (case visit_parameters compile srcs n k (so_parameters (source_at srcs k)) False (v\<lparr>vi_state := (vi_state v)(k := 1)\<rparr>) of
          None \<Rightarrow> None
        | Some (Inl e) \<Rightarrow> Some (Inl e)
        | Some (Inr (req, v)) \<Rightarrow> Some (finish_source compile k (source_at srcs k) req v)))"
| "visit_parameters compile srcs n k [] req v = Some (Inr (req, v))"
| "visit_parameters compile srcs n k ((p, required, dep) # ps) req v =
     (if map_of srcs dep = None then Some (Inl (ContractError ''unknownSource'' (source_path k)))
      else (case visit compile srcs n dep v of
          None \<Rightarrow> None
        | Some (Inl e) \<Rightarrow> Some (Inl e)
        | Some (Inr v) \<Rightarrow> visit_parameters compile srcs n k ps (req \<or> required) v))"
  by pat_completeness auto

termination
  by (relation "measures [\<lambda>x. case x of Inl (_, _, n, _) \<Rightarrow> 2 * n | Inr (_, _, n, _) \<Rightarrow> 2 * n + 1,
      \<lambda>x. case x of Inl _ \<Rightarrow> 0 | Inr (_, _, _, _, ps, _) \<Rightarrow> length ps]") auto

fun visit_all :: "(json \<Rightarrow> 's option) \<Rightarrow> catalog \<Rightarrow> string list \<Rightarrow> 's visits \<Rightarrow> (contract_error, 's visits) go_result option" where
  "visit_all compile srcs [] v = Some (Inr v)"
| "visit_all compile srcs (k # ks) v = (case visit compile srcs (length srcs + 1) k v of
     None \<Rightarrow> None
   | Some (Inl e) \<Rightarrow> Some (Inl e)
   | Some (Inr v) \<Rightarrow> visit_all compile srcs ks v)"

definition validate_resource_sources :: "(catalog \<Rightarrow> contract_error option) \<Rightarrow> (json \<Rightarrow> 's option) \<Rightarrow> catalog \<Rightarrow>
    (contract_error, (string \<times> 's) list) go_result option" where
  "validate_resource_sources conforms compile srcs = (case conforms srcs of
     Some e \<Rightarrow> Some (Inl e)
   | None \<Rightarrow> map_option (map_sum id vi_schemas) (visit_all compile srcs (map fst srcs) \<lparr>vi_state = (\<lambda>_. 0), vi_schemas = []\<rparr>))"

declare visit.simps [simp del] visit_parameters.simps(2) [simp del]

subsection \<open>What is accepted\<close>

text \<open>The parameters of a source as edges to the sources they come from, and the checks that do not need the graph.\<close>

definition depends :: "catalog \<Rightarrow> (string \<times> string) set" where
  "depends srcs = {(d, k). k \<in> fst ` set srcs \<and> d \<in> (\<lambda>(_, _, d). d) ` set (so_parameters (source_at srcs k))}"

definition source_ok :: "(json \<Rightarrow> 's option) \<Rightarrow> catalog \<Rightarrow> string \<Rightarrow> bool" where
  "source_ok compile srcs k \<longleftrightarrow> (let s = source_at srcs k in
     \<not> bad_file_import s \<and> list_all (\<lambda>(_, _, d). map_of srcs d \<noteq> None) (so_parameters s) \<and>
     (so_identity_scope s = ''parent'' \<longrightarrow> list_ex (\<lambda>(_, required, _). required) (so_parameters s)) \<and>
     ''resolve'' \<in> set (so_supports s) \<and>
     (so_constraints s = [] \<or> (\<exists>j. decode_json (so_constraints s) = Inr j \<and> compile j \<noteq> None)))"

lemma finish_source_Inr:
  "finish_source compile k s req v = Inr v' \<Longrightarrow> vi_state v' = (vi_state v)(k := 2) \<and>
     (so_identity_scope s = ''parent'' \<longrightarrow> req) \<and> ''resolve'' \<in> set (so_supports s) \<and>
     (so_constraints s = [] \<or> (\<exists>j. decode_json (so_constraints s) = Inr j \<and> compile j \<noteq> None))"
  by (auto simp: finish_source_def list_ex_iff split: if_splits option.splits)

lemma finish_source_Inl:
  "finish_source compile k s req v = Inl e \<Longrightarrow>
     \<not> ((so_identity_scope s = ''parent'' \<longrightarrow> req) \<and> ''resolve'' \<in> set (so_supports s) \<and>
       (so_constraints s = [] \<or> (\<exists>j. decode_json (so_constraints s) = Inr j \<and> compile j \<noteq> None)))"
  by (auto simp: finish_source_def guardR_def bindR_eq_Inl list_ex_iff split: if_splits option.splits)

text \<open>The recursion never goes deeper than there are sources not yet visited.\<close>

definition unvisited :: "catalog \<Rightarrow> 's visits \<Rightarrow> nat" where
  "unvisited srcs v = card {k \<in> fst ` set srcs. vi_state v k \<noteq> 1 \<and> vi_state v k \<noteq> 2}"

lemma unvisited_mark:
  assumes "k \<in> fst ` set srcs" "vi_state v k \<noteq> 1" "vi_state v k \<noteq> 2"
  shows "unvisited srcs (v\<lparr>vi_state := (vi_state v)(k := 1)\<rparr>) < unvisited srcs v"
proof -
  have "{j \<in> fst ` set srcs. ((vi_state v)(k := 1)) j \<noteq> 1 \<and> ((vi_state v)(k := 1)) j \<noteq> 2} \<subset>
      {j \<in> fst ` set srcs. vi_state v j \<noteq> 1 \<and> vi_state v j \<noteq> 2}"
    using assms by auto
  then show ?thesis unfolding unvisited_def by (simp add: psubset_card_mono)
qed

lemma unvisited_mono:
  "\<forall>j. vi_state v j = 1 \<or> vi_state v j = 2 \<longrightarrow> vi_state w j = 1 \<or> vi_state w j = 2 \<Longrightarrow> unvisited srcs w \<le> unvisited srcs v"
  unfolding unvisited_def by (rule card_mono) auto

text \<open>What a visit does to the marks: the sources under way stay, visited ones stay, its own is visited.\<close>

definition marks :: "'s visits \<Rightarrow> 's visits \<Rightarrow> bool" where
  "marks v w \<longleftrightarrow> (\<forall>j. (vi_state w j = 1 \<longleftrightarrow> vi_state v j = 1) \<and> (vi_state v j = 2 \<longrightarrow> vi_state w j = 2))"

lemma marks_refl [simp]: "marks v v"
  by (simp add: marks_def)

lemma marks_trans: "marks u v \<Longrightarrow> marks v w \<Longrightarrow> marks u w"
  by (simp add: marks_def)

lemma marks_unvisited: "marks v w \<Longrightarrow> unvisited srcs w \<le> unvisited srcs v"
  by (rule unvisited_mono) (simp add: marks_def)

definition grounded :: "(json \<Rightarrow> 's option) \<Rightarrow> catalog \<Rightarrow> 's visits \<Rightarrow> bool" where
  "grounded compile srcs v \<longleftrightarrow> (\<forall>j. vi_state v j = 2 \<longrightarrow> source_ok compile srcs j \<and> j \<in> Wellfounded.acc (depends srcs))"

lemma visit_SucE:
  assumes "visit compile srcs (Suc n) k v = Some (Inr w)"
  obtains (black) "vi_state v k = 2" "w = v"
  | (white) req u where "vi_state v k \<noteq> 1" "vi_state v k \<noteq> 2" "\<not> bad_file_import (source_at srcs k)"
      "visit_parameters compile srcs n k (so_parameters (source_at srcs k)) False (v\<lparr>vi_state := (vi_state v)(k := 1)\<rparr>) = Some (Inr (req, u))"
      "finish_source compile k (source_at srcs k) req u = Inr w"
  using assms by (auto simp: visit.simps split: if_splits option.splits sum.splits)

lemma visit_sound:
  fixes v w :: "'s visits"
  shows "visit compile srcs n k v = Some (Inr w) \<Longrightarrow> k \<in> fst ` set srcs \<Longrightarrow> grounded compile srcs v \<Longrightarrow>
     marks v w \<and> vi_state w k = 2 \<and> grounded compile srcs w"
    "visit_parameters compile srcs n k ps req v = Some (Inr (req', w)) \<Longrightarrow> grounded compile srcs v \<Longrightarrow>
     marks v w \<and> grounded compile srcs w \<and> list_all (\<lambda>(_, _, d). map_of srcs d \<noteq> None \<and> vi_state w d = 2) ps \<and>
     (req' \<longleftrightarrow> req \<or> list_ex (\<lambda>(_, required, _). required) ps)"
proof (induction compile srcs n k v and compile srcs n k ps req v arbitrary: w and req' w rule: visit_visit_parameters.induct)
  case (2 compile srcs n k v)
  from 2(2) show ?case
  proof (cases rule: visit_SucE)
    case black
    with 2(4) show ?thesis by simp
  next
    case (white req u)
    let ?v = "v\<lparr>vi_state := (vi_state v)(k := 1)\<rparr>"
    have "grounded compile srcs ?v" using 2(4) by (simp add: grounded_def)
    with 2(1) white have u: "marks ?v u" "grounded compile srcs u"
      "list_all (\<lambda>(_, _, d). map_of srcs d \<noteq> None \<and> vi_state u d = 2) (so_parameters (source_at srcs k))"
      "req \<longleftrightarrow> list_ex (\<lambda>(_, required, _). required) (so_parameters (source_at srcs k))"
      by simp_all
    note F = finish_source_Inr [OF white(5)]
    have ok: "source_ok compile srcs k"
      using F u(3,4) white(3) by (auto simp: source_ok_def Let_def list_all_iff)
    have "k \<in> Wellfounded.acc (depends srcs)"
    proof (rule accI)
      fix d assume "(d, k) \<in> depends srcs"
      then have "vi_state u d = 2" using u(3) by (auto simp: depends_def list_all_iff)
      with u(2) show "d \<in> Wellfounded.acc (depends srcs)" by (simp add: grounded_def)
    qed
    with ok u(2) F have "grounded compile srcs w" by (simp add: grounded_def)
    moreover have "marks v w" using u(1) F white(1,2) by (auto simp: marks_def split: if_splits)
    ultimately show ?thesis using F by simp
  qed
next
  case (4 compile srcs n k p required dep ps req v)
  from 4(3) obtain u where u: "map_of srcs dep \<noteq> None" "visit compile srcs n dep v = Some (Inr u)"
    "visit_parameters compile srcs n k ps (req \<or> required) u = Some (Inr (req', w))"
    by (auto simp: visit_parameters.simps(2) split: if_splits option.splits sum.splits)
  from u(1) have "dep \<in> fst ` set srcs" by (simp add: map_of_eq_None_iff)
  with 4(1) u(1,2) 4(4) have 1: "marks v u" "vi_state u dep = 2" "grounded compile srcs u" by auto
  from 4(2) [OF u(1,2) refl u(3) 1(3)] have 2: "marks u w" "grounded compile srcs w"
    "list_all (\<lambda>(_, _, d). map_of srcs d \<noteq> None \<and> vi_state w d = 2) ps"
    "req' \<longleftrightarrow> (req \<or> required) \<or> list_ex (\<lambda>(_, required, _). required) ps" by blast+
  from 2(1) 1(2) have "vi_state w dep = 2" by (simp add: marks_def)
  with 1 2 u(1) marks_trans show ?case by auto
qed (simp_all add: visit.simps)


text \<open>Conversely a refusal points at a faulty source or closes a cycle of the sources under way.\<close>

definition underway :: "catalog \<Rightarrow> 's visits \<Rightarrow> string \<Rightarrow> bool" where
  "underway srcs v k \<longleftrightarrow> (\<forall>g. vi_state v g = 1 \<longrightarrow> (k, g) \<in> (depends srcs)\<^sup>+)"

definition faulty :: "(json \<Rightarrow> 's option) \<Rightarrow> catalog \<Rightarrow> bool" where
  "faulty compile srcs \<longleftrightarrow> (\<exists>b \<in> fst ` set srcs. \<not> source_ok compile srcs b) \<or> \<not> acyclic (depends srcs)"

lemma faultyI: "b \<in> fst ` set srcs \<Longrightarrow> \<not> source_ok compile srcs b \<Longrightarrow> faulty compile srcs"
  by (auto simp: faulty_def)

lemma visit_complete:
  fixes v :: "'s visits"
  shows "visit compile srcs n k v = Some (Inl e) \<Longrightarrow> k \<in> fst ` set srcs \<Longrightarrow> grounded compile srcs v \<Longrightarrow> underway srcs v k \<Longrightarrow>
     faulty compile srcs"
    "visit_parameters compile srcs n k ps req v = Some (Inl e) \<Longrightarrow> k \<in> fst ` set srcs \<Longrightarrow> grounded compile srcs v \<Longrightarrow>
     set ps \<subseteq> set (so_parameters (source_at srcs k)) \<Longrightarrow> (\<And>d. (d, k) \<in> depends srcs \<Longrightarrow> underway srcs v d) \<Longrightarrow> faulty compile srcs"
proof (induction compile srcs n k v and compile srcs n k ps req v rule: visit_visit_parameters.induct)
  case (2 compile srcs n k v)
  let ?v = "v\<lparr>vi_state := (vi_state v)(k := 1)\<rparr>"
  consider (grey) "vi_state v k = 1" | (white) "vi_state v k \<noteq> 1" "vi_state v k \<noteq> 2" using 2(2) by (auto simp: visit.simps split: if_splits)
  then show ?case
  proof cases
    case grey
    then have "(k, k) \<in> (depends srcs)\<^sup>+" using 2(5) by (simp add: underway_def)
    then show ?thesis by (auto simp: faulty_def acyclic_def)
  next
    case white
    have g: "grounded compile srcs ?v" using 2(4) by (simp add: grounded_def)
    show ?thesis
    proof (rule ccontr)
      assume ok: "\<not> faulty compile srcs"
      then have so: "source_ok compile srcs k" using faultyI 2(3) by blast
      then have b: "\<not> bad_file_import (source_at srcs k)" by (simp add: source_ok_def Let_def)
      have "underway srcs ?v d" if "(d, k) \<in> depends srcs" for d
        using that 2(5) by (auto simp: underway_def intro: trancl_into_trancl2)
      from 2(1) [OF white b _ 2(3) g order_refl this] ok
      have "visit_parameters compile srcs n k (so_parameters (source_at srcs k)) False ?v \<noteq> Some (Inl e)" by blast
      then obtain req u where p: "visit_parameters compile srcs n k (so_parameters (source_at srcs k)) False ?v = Some (Inr (req, u))"
        "finish_source compile k (source_at srcs k) req u = Inl e"
        using 2(2) white b by (auto simp: visit.simps split: option.splits sum.splits)
      from visit_sound(2) [OF p(1) g] have "req \<longleftrightarrow> list_ex (\<lambda>(_, required, _). required) (so_parameters (source_at srcs k))" by simp
      with finish_source_Inl [OF p(2)] so show False by (auto simp: source_ok_def Let_def)
    qed
  qed
next
  case (4 compile srcs n k p required dep ps req v)
  have dep: "(dep, k) \<in> depends srcs" using 4(4,6) by (force simp: depends_def)
  show ?case
  proof (cases "map_of srcs dep")
    case None
    have "(p, required, dep) \<in> set (so_parameters (source_at srcs k))" using 4(6) by simp
    with None have "\<not> list_all (\<lambda>(_, _, d). map_of srcs d \<noteq> None) (so_parameters (source_at srcs k))" by (force simp: list_all_iff)
    then have "\<not> source_ok compile srcs k" by (simp add: source_ok_def Let_def)
    with 4(4) show ?thesis by (rule faultyI)
  next
    case (Some s)
    then have d: "map_of srcs dep \<noteq> None" "dep \<in> fst ` set srcs" by (simp, metis map_of_eq_None_iff option.distinct(1))
    show ?thesis
    proof (cases "visit compile srcs n dep v = Some (Inl e)")
      case True
      from 4(1) [OF d(1) True d(2) 4(5) 4(7) [OF dep]] show ?thesis .
    next
      case False
      then obtain u where u: "visit compile srcs n dep v = Some (Inr u)" "visit_parameters compile srcs n k ps (req \<or> required) u = Some (Inl e)"
        using 4(3) Some by (auto simp: visit_parameters.simps(2) split: option.splits sum.splits)
      from visit_sound(1) [OF u(1) d(2) 4(5)] have w: "marks v u" "grounded compile srcs u" by simp_all
      have "underway srcs u d'" if "(d', k) \<in> depends srcs" for d'
        using 4(7) [OF that] w(1) by (simp add: underway_def marks_def)
      from 4(2) [OF d(1) u(1) refl u(2) 4(4) w(2) _ this] 4(6) show ?thesis by simp
    qed
  qed
qed (simp_all add: visit.simps)

text \<open>With a bound above the number of unvisited sources the recursion ends.\<close>

lemma visit_returns:
  fixes v :: "'s visits"
  shows "unvisited srcs v < n \<Longrightarrow> k \<in> fst ` set srcs \<Longrightarrow> grounded compile srcs v \<Longrightarrow> visit compile srcs n k v \<noteq> None"
    "unvisited srcs v < n \<Longrightarrow> grounded compile srcs v \<Longrightarrow> visit_parameters compile srcs n k ps req v \<noteq> None"
proof (induction compile srcs n k v and compile srcs n k ps req v rule: visit_visit_parameters.induct)
  case (2 compile srcs n k v)
  show ?case
  proof (cases "vi_state v k = 1 \<or> vi_state v k = 2 \<or> bad_file_import (source_at srcs k)")
    case True
    then show ?thesis by (auto simp: visit.simps)
  next
    case False
    let ?v = "v\<lparr>vi_state := (vi_state v)(k := 1)\<rparr>"
    have "unvisited srcs ?v < n" using unvisited_mark [of k srcs v] False 2(2,3) by simp
    moreover have "grounded compile srcs ?v" using 2(4) by (simp add: grounded_def)
    ultimately show ?thesis using 2(1) False by (auto simp: visit.simps split: option.splits sum.splits)
  qed
next
  case (4 compile srcs n k p required dep ps req v)
  show ?case
  proof (cases "map_of srcs dep")
    case None
    then show ?thesis by (simp add: visit_parameters.simps(2))
  next
    case (Some s)
    then have d: "map_of srcs dep \<noteq> None" "dep \<in> fst ` set srcs" by (simp, metis map_of_eq_None_iff option.distinct(1))
    have r: "visit compile srcs n dep v \<noteq> None" by (rule 4(1) [OF d(1) 4(3) d(2) 4(4)])
    have "visit_parameters compile srcs n k ps (req \<or> required) u \<noteq> None" if u: "visit compile srcs n dep v = Some (Inr u)" for u
    proof -
      from visit_sound(1) [OF u d(2) 4(4)] have w: "marks v u" "grounded compile srcs u" by simp_all
      from marks_unvisited [OF w(1), of srcs] 4(3) have "unvisited srcs u < n" by simp
      from 4(2) [OF d(1) u refl this w(2)] show ?thesis .
    qed
    with r Some show ?thesis by (auto simp: visit_parameters.simps(2) split: option.split sum.split)
  qed
qed (simp_all add: visit.simps)

lemma visit_all_verdict:
  assumes "set ks \<subseteq> fst ` set srcs" "grounded compile srcs v" "\<forall>g. vi_state v g \<noteq> 1"
  shows "(\<exists>w. visit_all compile srcs ks v = Some (Inr w) \<and> grounded compile srcs w \<and> marks v w \<and> (\<forall>k \<in> set ks. vi_state w k = 2)) \<or>
    (\<exists>e. visit_all compile srcs ks v = Some (Inl e)) \<and> faulty compile srcs"
  using assms
proof (induction ks arbitrary: v)
  case (Cons k ks)
  have k: "k \<in> fst ` set srcs" and uw: "underway srcs v k" using Cons.prems by (simp_all add: underway_def)
  have "unvisited srcs v \<le> card (fst ` set srcs)" unfolding unvisited_def by (rule card_mono) auto
  also have "\<dots> \<le> length srcs" by (metis card_length list.set_map length_map)
  finally have "unvisited srcs v < length srcs + 1" by simp
  from visit_returns(1) [OF this k Cons.prems(2)]
  consider e where "visit compile srcs (length srcs + 1) k v = Some (Inl e)"
    | w where "visit compile srcs (length srcs + 1) k v = Some (Inr w)"
    by (metis not_None_eq sum.exhaust)
  then show ?case
  proof cases
    case 1
    with visit_complete(1) [OF 1 k Cons.prems(2) uw] show ?thesis by simp
  next
    case (2 w)
    from visit_sound(1) [OF 2 k Cons.prems(2)] have w: "marks v w" "vi_state w k = 2" "grounded compile srcs w" by simp_all
    with Cons.prems have "\<forall>g. vi_state w g \<noteq> 1" by (simp add: marks_def)
    from Cons.IH [OF _ w(3) this] Cons.prems(1) 2 w(1,2) show ?thesis
      by (auto intro: marks_trans simp: marks_def)
  qed
qed simp

subsection \<open>Declarations\<close>

text \<open>
  \<open>ValidateDeclaration\<close>: \<open>rules\<close> the blocks in the order of their keys with what \<open>json.Marshal\<close> makes of the
  rules (none for a block without rules), \<open>rules_ok\<close> the verdict of the \<open>copyRules\<close> contract.
\<close>

fun check_blocks :: "(string \<Rightarrow> contract_error option) \<Rightarrow> string \<Rightarrow> (string \<times> string option) list \<Rightarrow> contract_error option" where
  "check_blocks rules_ok validate_url [] = None"
| "check_blocks rules_ok validate_url ((key, None) # bs) = check_blocks rules_ok validate_url bs"
| "check_blocks rules_ok validate_url ((key, Some raw) # bs) = (case rules_ok raw of
     Some e \<Rightarrow> Some e
   | None \<Rightarrow> if validate_url = [] then Some (ContractError ''validatorEndpointRequired'' (pointer ''/blocks'' key))
       else check_blocks rules_ok validate_url bs)"

definition validate_declaration :: "(catalog \<Rightarrow> contract_error option) \<Rightarrow> (json \<Rightarrow> 's option) \<Rightarrow> (string \<Rightarrow> contract_error option) \<Rightarrow>
    catalog \<Rightarrow> (string \<times> string option) list \<Rightarrow> string \<Rightarrow> string \<Rightarrow> contract_error option option" where
  "validate_declaration conforms compile rules_ok srcs rules values_url validate_url =
     map_option (\<lambda>r. case r of Inl e \<Rightarrow> Some e
       | Inr _ \<Rightarrow> if srcs \<noteq> [] \<and> values_url = [] then Some (ContractError ''resourceValuesEndpointRequired'' ''/resourceValuesUrl'')
           else check_blocks rules_ok validate_url rules)
       (validate_resource_sources conforms compile srcs)"

fun check_plan_sources :: "('s \<Rightarrow> json \<Rightarrow> bool) \<Rightarrow> catalog \<Rightarrow> (string \<times> 's) list \<Rightarrow> copy_reference list \<Rightarrow> contract_error option" where
  "check_plan_sources accepts srcs schemas [] = None"
| "check_plan_sources accepts srcs schemas (c # cs) =
     (let k = se_source_key (cr_resource c) in
      if se_kind (cr_resource c) \<noteq> ''integrationResource'' then check_plan_sources accepts srcs schemas cs
      else if map_of srcs k = None then Some (ContractError ''unknownSource'' (cr_path c))
      else if cr_file c \<noteq> None \<and> so_file_import (source_at srcs k) = None then Some (ContractError ''fileImportSourceRequired'' (cr_path c))
      else if cr_constraints c = [] then check_plan_sources accepts srcs schemas cs
      else (case map_of schemas k of
          None \<Rightarrow> Some (ContractError ''constraintsSchemaRequired'' (cr_path c))
        | Some sch \<Rightarrow> (case decode_json (cr_constraints c) of
            Inl e \<Rightarrow> Some e
          | Inr v \<Rightarrow> if accepts sch v then check_plan_sources accepts srcs schemas cs
              else Some (ContractError ''invalidResourceConstraints'' (cr_path c)))))"

definition validate_plan_sources :: "(catalog \<Rightarrow> contract_error option) \<Rightarrow> (json \<Rightarrow> 's option) \<Rightarrow> ('s \<Rightarrow> json \<Rightarrow> bool) \<Rightarrow>
    catalog \<Rightarrow> copy_plan \<Rightarrow> contract_error option option" where
  "validate_plan_sources conforms compile accepts srcs plan =
     map_option (\<lambda>r. case r of Inl e \<Rightarrow> Some e | Inr schemas \<Rightarrow> check_plan_sources accepts srcs schemas (cp_references plan))
       (validate_resource_sources conforms compile srcs)"

subsection \<open>Importing copied files\<close>

record import_request =
  ir_protocol_version :: int
  ir_project_id :: string
  ir_integration_version :: int
  ir_import_id :: string
  ir_resource_key :: string
  ir_source_key :: string
  ir_media_file_id :: string

record resource_item =
  it_id :: string
  it_value :: string
  it_title :: string
  it_selectable :: bool
  it_reason :: string

definition validate_resource_item :: "resource_item \<Rightarrow> string \<Rightarrow> contract_error option" where
  "validate_resource_item it path =
     (if trim_space (it_id it) = [] \<or> trim_space (it_title it) = [] then Some (ContractError ''invalidResourceItem'' path)
      else if \<not> it_selectable it \<and> trim_space (it_reason it) = [] then Some (ContractError ''unselectableReasonRequired'' (pointer path ''reason''))
      else None)"

definition import_response_for :: "(import_request \<Rightarrow> contract_error option) \<Rightarrow> (resource_item \<Rightarrow> contract_error option) \<Rightarrow>
    resource_item \<Rightarrow> import_request \<Rightarrow> contract_error option" where
  "import_response_for request_ok response_ok it req = (case request_ok req of Some e \<Rightarrow> Some e
     | None \<Rightarrow> (case response_ok it of Some e \<Rightarrow> Some e
       | None \<Rightarrow> (case unmarshal_string (it_value it) of
           None \<Rightarrow> Some (ContractError ''invalidCopyFileValue'' ''/item/value'')
         | Some i \<Rightarrow> if i = [] then Some (ContractError ''invalidCopyFileValue'' ''/item/value'')
             else validate_resource_item it ''/item'')))"

text \<open>Go ranges over the catalog in any order here; the list is in the order visited.\<close>

definition validate_file_import_declaration :: "(catalog \<Rightarrow> contract_error option) \<Rightarrow> (json \<Rightarrow> 's option) \<Rightarrow> catalog \<Rightarrow> string \<Rightarrow>
    contract_error option option" where
  "validate_file_import_declaration conforms compile srcs import_url =
     map_option (\<lambda>r. case r of Inl e \<Rightarrow> Some e
       | Inr _ \<Rightarrow> map_option (\<lambda>(key, _). ContractError ''fileImportEndpointRequired'' (source_path key))
           (find (\<lambda>(_, s). so_file_import s \<noteq> None \<and> import_url = []) srcs))
       (validate_resource_sources conforms compile srcs)"

definition validate_file_import_source :: "(import_request \<Rightarrow> contract_error option) \<Rightarrow> (catalog \<Rightarrow> contract_error option) \<Rightarrow>
    (json \<Rightarrow> 's option) \<Rightarrow> catalog \<Rightarrow> import_request \<Rightarrow> contract_error option option" where
  "validate_file_import_source request_ok conforms compile srcs req = (case request_ok req of Some e \<Rightarrow> Some (Some e)
     | None \<Rightarrow> map_option (\<lambda>r. case r of Inl e \<Rightarrow> Some e
         | Inr _ \<Rightarrow> if map_of srcs (ir_source_key req) = None \<or> so_file_import (source_at srcs (ir_source_key req)) = None
             then Some (ContractError ''fileImportSourceRequired'' ''/sourceKey'') else None)
         (validate_resource_sources conforms compile srcs))"

subsection \<open>Lookups\<close>

text \<open>\<open>IDs\<close> and \<open>Values\<close> are \<open>None\<close> when nil.\<close>

record lookup_request =
  lq_mode :: string
  lq_project_id :: string
  lq_integration_version :: int
  lq_source_key :: string
  lq_query :: string
  lq_limit :: int
  lq_cursor :: string
  lq_ids :: "string list option"
  lq_values :: "string list option"
  lq_parameters :: "(string \<times> string) list"
  lq_constraints :: string

definition opt_list :: "'a list option \<Rightarrow> 'a list" where
  "opt_list xs = (case xs of None \<Rightarrow> [] | Some ys \<Rightarrow> ys)"

definition validate_lookup :: "(lookup_request \<Rightarrow> contract_error option) \<Rightarrow> lookup_request \<Rightarrow> contract_error option" where
  "validate_lookup request_ok r =
     (if (lq_mode r = ''search'' \<and> (lq_ids r \<noteq> None \<or> lq_values r \<noteq> None)) \<or>
         (lq_mode r = ''resolve'' \<and> lq_values r \<noteq> None) \<or> (lq_mode r = ''identify'' \<and> lq_ids r \<noteq> None)
      then Some (ContractError ''invalidLookupMode'' ''/mode'') else request_ok r)"

record lookup_response =
  ls_items :: "resource_item list"
  ls_next_cursor :: string

fun check_lookup_items :: "lookup_request \<Rightarrow> nat \<Rightarrow> string list \<Rightarrow> resource_item list \<Rightarrow> contract_error option" where
  "check_lookup_items req i seen [] = None"
| "check_lookup_items req i seen (it # its) =
     (let path = pointer ''/items'' (itoa i) in
      if it_id it \<in> set seen then Some (ContractError ''duplicateResourceIdentity'' (pointer path ''id''))
      else if lq_mode req = ''resolve'' \<and> it_id it \<notin> set (opt_list (lq_ids req)) then Some (ContractError ''unexpectedResourceIdentity'' (pointer path ''id''))
      else (case validate_resource_item it path of Some e \<Rightarrow> Some e
        | None \<Rightarrow> check_lookup_items req (i + 1) (it_id it # seen) its))"

definition lookup_response_for :: "(lookup_request \<Rightarrow> contract_error option) \<Rightarrow> (lookup_response \<Rightarrow> contract_error option) \<Rightarrow>
    lookup_response \<Rightarrow> lookup_request \<Rightarrow> contract_error option" where
  "lookup_response_for request_ok response_ok r req = (case validate_lookup request_ok req of Some e \<Rightarrow> Some e
     | None \<Rightarrow> if lq_mode req = ''identify'' then Some (ContractError ''invalidLookupMode'' ''/mode'')
       else (case response_ok r of Some e \<Rightarrow> Some e
         | None \<Rightarrow>
            if lq_mode req = ''resolve'' \<and> ls_next_cursor r \<noteq> [] then Some (ContractError ''unexpectedCursor'' ''/nextCursor'')
            else if (if lq_mode req = ''resolve'' then int (length (opt_list (lq_ids req)))
                else if 0 < lq_limit req then lq_limit req else 100) < int (length (ls_items r))
              then Some (ContractError ''tooManyItems'' ''/items'')
            else check_lookup_items req 0 [] (ls_items r)))"

record identify_match =
  ma_input_index :: int
  ma_status :: string
  ma_item :: "resource_item option"

fun check_matches :: "nat \<Rightarrow> nat \<Rightarrow> int list \<Rightarrow> identify_match list \<Rightarrow> contract_error option" where
  "check_matches n i seen [] = None"
| "check_matches n i seen (m # ms) =
     (let path = pointer ''/matches'' (itoa i) in
      if int n \<le> ma_input_index m \<or> ma_input_index m \<in> set seen then Some (ContractError ''invalidInputIndex'' (pointer path ''inputIndex''))
      else (case (case ma_item m of None \<Rightarrow> None | Some it \<Rightarrow> validate_resource_item it (pointer path ''item'')) of Some e \<Rightarrow> Some e
        | None \<Rightarrow> check_matches n (i + 1) (ma_input_index m # seen) ms))"

definition identify_response_for :: "(lookup_request \<Rightarrow> contract_error option) \<Rightarrow> (identify_match list \<Rightarrow> contract_error option) \<Rightarrow>
    identify_match list \<Rightarrow> lookup_request \<Rightarrow> contract_error option" where
  "identify_response_for request_ok response_ok ms req = (case validate_lookup request_ok req of Some e \<Rightarrow> Some e
     | None \<Rightarrow> if lq_mode req \<noteq> ''identify'' then Some (ContractError ''invalidLookupMode'' ''/mode'')
       else (case response_ok ms of Some e \<Rightarrow> Some e
         | None \<Rightarrow> if length ms \<noteq> length (opt_list (lq_values req)) then Some (ContractError ''incompleteIdentifyResponse'' ''/matches'')
           else check_matches (length (opt_list (lq_values req))) 0 [] ms))"

text \<open>\<open>ValidateResourceValue\<close>: \<open>has_type\<close> the verdict of the schema \<open>{"type": ...}\<close>.\<close>

definition validate_resource_value :: "(string \<Rightarrow> json \<Rightarrow> bool) \<Rightarrow> string \<Rightarrow> string \<Rightarrow> contract_error option" where
  "validate_resource_value has_type ty raw =
     (if \<not> list_ex (\<lambda>t. t = ty) [''string'', ''number'', ''integer'', ''boolean'', ''object'', ''array''] then Some (ContractError ''invalidResourceType'' [])
      else (case decode_json raw of Inl e \<Rightarrow> Some e
        | Inr v \<Rightarrow> if has_type ty v then None else Some (ContractError ''invalidResourceValue'' [])))"

fun check_parameters :: "(string \<Rightarrow> json \<Rightarrow> bool) \<Rightarrow> catalog \<Rightarrow> resource_source \<Rightarrow> (string \<times> string) list \<Rightarrow> contract_error option" where
  "check_parameters has_type srcs s [] = None"
| "check_parameters has_type srcs s ((name, raw) # ps) = (case map_of (so_parameters s) name of
     None \<Rightarrow> Some (ContractError ''unknownSourceParameter'' ''/parameters'')
   | Some (_, dep) \<Rightarrow> (case map_of srcs dep of
       None \<Rightarrow> Some (ContractError ''unknownSource'' ''/parameters'')
     | Some parent \<Rightarrow> if validate_resource_value has_type (so_value_type parent) raw \<noteq> None
         then Some (ContractError ''invalidSourceParameter'' ''/parameters'') else check_parameters has_type srcs s ps))"

text \<open>\<open>compile\<close> is \<open>compileResourceSchema\<close> after its decoding. Parameters in the order visited.\<close>

definition check_constraints :: "(json \<Rightarrow> 's option) \<Rightarrow> ('s \<Rightarrow> json \<Rightarrow> bool) \<Rightarrow> resource_source \<Rightarrow> string \<Rightarrow> contract_error option" where
  "check_constraints compile accepts s raw =
     (if raw = [] then None
      else if so_constraints s = [] then Some (ContractError ''constraintsNotSupported'' ''/constraints'')
      else (case decode_json raw of Inl e \<Rightarrow> Some e
        | Inr v \<Rightarrow> (case (case decode_json (so_constraints s) of Inl _ \<Rightarrow> None | Inr j \<Rightarrow> compile j) of
            None \<Rightarrow> Some (ContractError ''invalidConstraintsSchema'' ''/constraints'')
          | Some sch \<Rightarrow> if accepts sch v then None else Some (ContractError ''invalidResourceConstraints'' ''/constraints''))))"

definition validate_source_lookup :: "(lookup_request \<Rightarrow> contract_error option) \<Rightarrow> (string \<Rightarrow> json \<Rightarrow> bool) \<Rightarrow> (json \<Rightarrow> 's option) \<Rightarrow>
    ('s \<Rightarrow> json \<Rightarrow> bool) \<Rightarrow> catalog \<Rightarrow> lookup_request \<Rightarrow> contract_error option" where
  "validate_source_lookup request_ok has_type compile accepts srcs r = (case validate_lookup request_ok r of Some e \<Rightarrow> Some e
     | None \<Rightarrow> (case map_of srcs (lq_source_key r) of None \<Rightarrow> Some (ContractError ''unknownSource'' ''/sourceKey'')
       | Some s \<Rightarrow>
          if \<not> list_ex (\<lambda>x. x = lq_mode r) (so_supports s) then Some (ContractError ''unsupportedLookupMode'' ''/mode'')
          else (case check_parameters has_type srcs s (lq_parameters r) of Some e \<Rightarrow> Some e
            | None \<Rightarrow>
               if list_ex (\<lambda>(name, required, _). required \<and> map_of (lq_parameters r) name = None) (so_parameters s)
               then Some (ContractError ''sourceParameterRequired'' ''/parameters'')
               else (case check_constraints compile accepts s (lq_constraints r) of Some e \<Rightarrow> Some e
                 | None \<Rightarrow>
                    if lq_mode r = ''identify'' \<and> list_ex (\<lambda>v. validate_resource_value has_type (so_value_type s) v \<noteq> None) (opt_list (lq_values r))
                    then Some (ContractError ''invalidResourceValue'' ''/values'') else None))))"

subsection \<open>Validation results\<close>

record validation_result =
  va_status :: string
  va_issues :: "issue list"

fun expected_status :: "string \<Rightarrow> issue list \<Rightarrow> string" where
  "expected_status st [] = st"
| "expected_status st (i # is) =
     (if is_severity i = ''error'' then ''blocked''
      else expected_status (if is_severity i = ''review'' then ''needsReview'' else st) is)"

definition validate_result :: "(validation_result \<Rightarrow> contract_error option) \<Rightarrow> validation_result \<Rightarrow> contract_error option" where
  "validate_result result_ok r = (case result_ok r of Some e \<Rightarrow> Some e
     | None \<Rightarrow> if va_status r \<noteq> expected_status ''passed'' (va_issues r) then Some (ContractError ''inconsistentValidationStatus'' ''/status'') else None)"

datatype copy_operation = ImportCopyFile | ResourceValues | PrepareCopy | ValidateCopySettings | OtherOperation string

text \<open>\<open>ValidateCallbackRequest\<close>, \<open>validate\<close> the verdict of a named contract on the bytes.\<close>

definition validate_callback_request :: "(string \<Rightarrow> string \<Rightarrow> contract_error option) \<Rightarrow> copy_operation \<Rightarrow> string \<Rightarrow> contract_error option" where
  "validate_callback_request validate op raw = (case op of
     ImportCopyFile \<Rightarrow> validate ''importCopyFileRequest'' raw
   | ResourceValues \<Rightarrow> validate ''lookupRequest'' raw
   | PrepareCopy \<Rightarrow> validate ''prepareCopyRequest'' raw
   | ValidateCopySettings \<Rightarrow> validate ''validateCopySettingsRequest'' raw
   | OtherOperation _ \<Rightarrow> Some (ContractError ''unknownCopyOperation'' []))"

record prepare_request =
  pq_protocol_version :: int
  pq_project_id :: string
  pq_scheme_id :: string
  pq_integration_version :: int
  pq_block_key :: string
  pq_settings :: string

definition prepare_response_for :: "(nat \<Rightarrow> bool) \<Rightarrow> (prepare_request \<Rightarrow> contract_error option) \<Rightarrow> (copy_response \<Rightarrow> contract_error option) \<Rightarrow>
    copy_response \<Rightarrow> prepare_request \<Rightarrow> contract_error option" where
  "prepare_response_for word_tbl request_ok conforms r req = (case request_ok req of Some e \<Rightarrow> Some e
     | None \<Rightarrow> (case validate_response word_tbl conforms r of Inl e \<Rightarrow> Some e
       | Inr _ \<Rightarrow> if pq_protocol_version req \<noteq> pr_version r then Some (ContractError ''copyProtocolMismatch'' ''/protocolVersion'') else None))"

subsection \<open>Properties\<close>

lemma grounded_acyclic:
  assumes "\<forall>k \<in> fst ` set srcs. k \<in> Wellfounded.acc (depends srcs)"
  shows "acyclic (depends srcs)"
proof -
  have "k \<in> Wellfounded.acc (depends srcs)" for k
  proof (cases "k \<in> fst ` set srcs")
    case False
    show ?thesis by (rule accI) (use False in \<open>simp add: depends_def\<close>)
  qed (use assms in blast)
  then show ?thesis by (intro wf_acyclic acc_wfI) simp
qed

text \<open>C1. The catalog check always returns (its recursion ends on every graph of parameters, cyclic ones too), and
  it accepts exactly the catalogs that conform to the contract, whose sources each pass their own checks and
  whose parameters form no cycle.\<close>

theorem resource_sources_verdict:
  "\<exists>r. validate_resource_sources conforms compile srcs = Some r \<and>
     ((\<exists>schemas. r = Inr schemas) \<longleftrightarrow>
       conforms srcs = None \<and> list_all (source_ok compile srcs) (map fst srcs) \<and> acyclic (depends srcs))"
proof (cases "conforms srcs")
  case (Some e)
  then show ?thesis by (simp add: validate_resource_sources_def)
next
  case None
  let ?v = "\<lparr>vi_state = (\<lambda>_. 0), vi_schemas = []\<rparr>"
  have v: "grounded compile srcs ?v" "\<forall>g. vi_state ?v g \<noteq> 1" by (simp_all add: grounded_def)
  from visit_all_verdict [of "map fst srcs" srcs compile ?v] v
  consider w where "visit_all compile srcs (map fst srcs) ?v = Some (Inr w)" "grounded compile srcs w" "\<forall>k \<in> fst ` set srcs. vi_state w k = 2"
    | e where "visit_all compile srcs (map fst srcs) ?v = Some (Inl e)" "faulty compile srcs"
    by auto
  then show ?thesis
  proof cases
    case 1
    then have "\<forall>k \<in> fst ` set srcs. source_ok compile srcs k \<and> k \<in> Wellfounded.acc (depends srcs)" by (simp add: grounded_def)
    with 1(1) None grounded_acyclic [of srcs] show ?thesis by (simp add: validate_resource_sources_def list_all_iff)
  next
    case 2
    then have "\<not> (list_all (source_ok compile srcs) (map fst srcs) \<and> acyclic (depends srcs))"
      by (auto simp: faulty_def list_all_iff)
    with 2(1) None show ?thesis by (simp add: validate_resource_sources_def)
  qed
qed

lemma check_lookup_items_Cons:
  "check_lookup_items req i seen (it # its) = None \<longleftrightarrow> it_id it \<notin> set seen \<and>
     \<not> (lq_mode req = ''resolve'' \<and> it_id it \<notin> set (opt_list (lq_ids req))) \<and>
     validate_resource_item it (pointer ''/items'' (itoa i)) = None \<and> check_lookup_items req (i + 1) (it_id it # seen) its = None"
  unfolding check_lookup_items.simps Let_def by (cases "validate_resource_item it (pointer ''/items'' (itoa i))") simp_all

lemma check_lookup_items_None:
  "check_lookup_items req i seen its = None \<Longrightarrow> distinct (map it_id its) \<and> set (map it_id its) \<inter> set seen = {} \<and>
     (lq_mode req = ''resolve'' \<longrightarrow> set (map it_id its) \<subseteq> set (opt_list (lq_ids req)))"
proof (induction its arbitrary: i seen)
  case (Cons it its)
  note C = Cons.prems [unfolded check_lookup_items_Cons]
  from Cons.IH [of "i + 1" "it_id it # seen"] C show ?case by auto
qed simp

lemma check_matches_Cons:
  "check_matches n i seen (m # ms) = None \<longleftrightarrow> ma_input_index m < int n \<and> ma_input_index m \<notin> set seen \<and>
     (case ma_item m of None \<Rightarrow> None | Some it \<Rightarrow> validate_resource_item it (pointer (pointer ''/matches'' (itoa i)) ''item'')) = None \<and>
     check_matches n (i + 1) (ma_input_index m # seen) ms = None"
  unfolding check_matches.simps Let_def
  by (cases "case ma_item m of None \<Rightarrow> None | Some it \<Rightarrow> validate_resource_item it (pointer (pointer ''/matches'' (itoa i)) ''item'')") auto

lemma check_matches_None:
  "check_matches n i seen ms = None \<Longrightarrow> distinct (map ma_input_index ms) \<and> set (map ma_input_index ms) \<inter> set seen = {} \<and>
     list_all (\<lambda>m. ma_input_index m < int n) ms"
proof (induction ms arbitrary: i seen)
  case (Cons m ms)
  note C = Cons.prems [unfolded check_matches_Cons]
  from Cons.IH [of "i + 1" "ma_input_index m # seen"] C show ?case by auto
qed simp

lemma distinct_below:
  assumes "distinct xs" "list_all (\<lambda>x. 0 \<le> x \<and> x < int n) xs" "length xs = n"
  shows "set xs = int ` {0..<n}"
proof (rule card_subset_eq)
  show "set xs \<subseteq> int ` {0..<n}"
  proof
    fix x assume "x \<in> set xs"
    with assms(2) have "x = int (nat x)" "nat x < n" by (auto simp: list_all_iff)
    then show "x \<in> int ` {0..<n}" by (metis atLeastLessThan_iff imageI zero_le)
  qed
  show "card (set xs) = card (int ` {0..<n})" using assms(1,3) by (simp add: distinct_card card_image)
qed simp

text \<open>C1. An accepted identify response answers every input of its request exactly once; an accepted lookup
  response repeats no identity, and one to a resolve names only identities that were asked for.\<close>

theorem lookup_answers:
  assumes schema: "\<And>ms. response_ok ms = None \<Longrightarrow> list_all (\<lambda>m. 0 \<le> ma_input_index m) ms"
  shows "(identify_response_for request_ok response_ok ms req = None \<longrightarrow>
       distinct (map ma_input_index ms) \<and> set (map ma_input_index ms) = int ` {0..<length (opt_list (lq_values req))}) \<and>
     (lookup_response_for request_ok items_ok r req = None \<longrightarrow> distinct (map it_id (ls_items r)) \<and>
       (lq_mode req = ''resolve'' \<longrightarrow> set (map it_id (ls_items r)) \<subseteq> set (opt_list (lq_ids req))))"
proof -
  have "distinct (map ma_input_index ms) \<and> set (map ma_input_index ms) = int ` {0..<length (opt_list (lq_values req))}"
    if a: "identify_response_for request_ok response_ok ms req = None"
  proof -
    from a have b: "response_ok ms = None" "length ms = length (opt_list (lq_values req))"
      "check_matches (length (opt_list (lq_values req))) 0 [] ms = None"
      by (auto simp: identify_response_for_def split: option.splits if_splits)
    from check_matches_None [OF b(3)] schema [OF b(1)]
    have c: "distinct (map ma_input_index ms)"
      "list_all (\<lambda>x. 0 \<le> x \<and> x < int (length (opt_list (lq_values req)))) (map ma_input_index ms)" by (auto simp: list_all_iff)
    from distinct_below [OF c] b(2) c(1) show ?thesis by simp
  qed
  moreover have "check_lookup_items req 0 [] (ls_items r) = None" if "lookup_response_for request_ok items_ok r req = None"
    using that by (auto simp: lookup_response_for_def split: option.splits if_splits)
  ultimately show ?thesis using check_lookup_items_None by blast
qed

definition example_lookup :: lookup_request where
  "example_lookup = \<lparr>lq_mode = ''identify'', lq_project_id = ''p'', lq_integration_version = 1, lq_source_key = ''calendars'', lq_query = [],
     lq_limit = 0, lq_cursor = [], lq_ids = None, lq_values = Some [''1'', ''2''], lq_parameters = [], lq_constraints = []\<rparr>"

definition example_matches :: "identify_match list" where
  "example_matches = [\<lparr>ma_input_index = 1, ma_status = ''missing'', ma_item = None\<rparr>, \<lparr>ma_input_index = 0, ma_status = ''ambiguous'', ma_item = None\<rparr>]"

definition indices_ok :: "identify_match list \<Rightarrow> contract_error option" where
  "indices_ok ms = (if list_all (\<lambda>m. 0 \<le> ma_input_index m) ms then None else Some (ContractError ''invalidContract'' []))"

theorem lookup_answers_witness:
  "identify_response_for (\<lambda>_. None) indices_ok example_matches example_lookup = None \<and>
   set (map ma_input_index example_matches) = int ` {0..<length (opt_list (lq_values example_lookup))}"
proof -
  have "identify_response_for (\<lambda>_. None) indices_ok example_matches example_lookup = None" by code_simp
  moreover have "list_all (\<lambda>m. 0 \<le> ma_input_index m) ms" if "indices_ok ms = None" for ms
    using that by (simp add: indices_ok_def split: if_splits)
  ultimately show ?thesis
    using lookup_answers [of indices_ok "\<lambda>_. None" example_matches example_lookup "\<lambda>_. None" "\<lparr>ls_items = [], ls_next_cursor = []\<rparr>"] by simp
qed

end
