(* ===== verification/JsonDocs.thy ===== *)
theory JsonDocs
  imports TransferJson
begin

text \<open>
  JSON documents as Go programs hold them after \<open>json.Decoder\<close> into \<open>any\<close> with \<open>UseNumber\<close>: objects are maps
  (members in the order of their keys, the last of several with one key wins), and what \<open>json.Marshal\<close> writes
  of them is read back.
\<close>

interpretation utf8_text: readable_text valid_utf8
  by unfold_locales (rule parse_quoted)

subsection \<open>Maps\<close>

definition put_member :: "string \<Rightarrow> 'v \<Rightarrow> (string \<times> 'v) list \<Rightarrow> (string \<times> 'v) list" where
  "put_member k v ms = insert_member (k, v) (AList.delete k ms)"

lemma sorted_delete: "sorted_keys ms \<Longrightarrow> sorted_keys (AList.delete k ms)"
  unfolding sorted_keys_def AList.delete_eq sorted_wrt_map by (rule sorted_wrt_filter)

lemma map_of_insert_member: "map_of ms k = None \<Longrightarrow> map_of (insert_member (k, v) ms) = (map_of ms)(k \<mapsto> v)"
  by (induction ms) (auto split: if_splits)

lemma map_of_put [simp]: "map_of (put_member k v ms) = (map_of ms)(k \<mapsto> v)"
  by (simp add: put_member_def map_of_insert_member AList.delete_conv')

lemma sorted_put: "sorted_keys ms \<Longrightarrow> sorted_keys (put_member k v ms)"
  unfolding put_member_def by (rule sorted_insert [OF sorted_delete]) (simp_all add: AList.delete_conv')

lemma put_member_sub: "set (put_member k v ms) \<subseteq> insert (k, v) (set ms)"
  by (auto simp: put_member_def AList.delete_eq)

lemma sorted_keys_Cons: "sorted_keys (m # ms) \<longleftrightarrow> (\<forall>k \<in> fst ` set ms. str_less (fst m) k) \<and> sorted_keys ms"
  by (simp add: sorted_keys_def)

lemma sorted_keys_distinct: "sorted_keys ms \<Longrightarrow> distinct (map fst ms)"
  by (induction ms) (auto simp: sorted_keys_Cons)

text \<open>Two maps with the same entries are the same list.\<close>

lemma sorted_keys_ext: "sorted_keys ms \<Longrightarrow> sorted_keys ns \<Longrightarrow> map_of ms = map_of ns \<Longrightarrow> ms = ns"
proof (induction ms arbitrary: ns)
  case Nil
  then show ?case by (cases ns) (auto dest: fun_cong split: if_splits)
next
  case (Cons m ms)
  obtain k v where m: "m = (k, v)" by (cases m)
  from Cons.prems(3) have "map_of ns k = Some v" by (simp add: m fun_upd_def) (metis (mono_tags))
  then have kn: "(k, v) \<in> set ns" by (rule map_of_SomeD)
  then obtain n ns' where ns: "ns = n # ns'" by (cases ns) auto
  obtain k' v' where n: "n = (k', v')" by (cases n)
  have "map_of (m # ms) k' = Some v'" unfolding Cons.prems(3) by (simp add: ns n)
  then have mk: "(k', v') \<in> set (m # ms)" by (rule map_of_SomeD)
  have "k' = k"
  proof (rule ccontr)
    assume ne: "k' \<noteq> k"
    with kn have "str_less k' k" using Cons.prems(2) by (force simp: ns n sorted_keys_Cons)
    moreover from ne mk have "str_less k k'" using Cons.prems(1) by (force simp: m sorted_keys_Cons)
    ultimately show False using str_less_trans str_less_irrefl by blast
  qed
  moreover have "v' = v" using \<open>map_of ns k = Some v\<close> calculation by (simp add: ns n)
  moreover have "ms = ns'"
  proof (rule Cons.IH)
    show "sorted_keys ms" "sorted_keys ns'" using Cons.prems(1,2) by (simp_all add: ns sorted_keys_Cons)
    have "map_of ms k = None" "map_of ns' k = None"
      using sorted_keys_distinct [OF Cons.prems(1)] sorted_keys_distinct [OF Cons.prems(2)] calculation
      by (auto simp: m ns n map_of_eq_None_iff)
    then have "(map_of (m # ms))(k := None) = map_of ms" "(map_of (n # ns'))(k := None) = map_of ns'"
      unfolding m n calculation(1) map_of.simps fst_conv fun_upd_upd by (simp_all only: fun_upd_idem)
    then show "map_of ms = map_of ns'" using Cons.prems(3) unfolding ns by metis
  qed
  ultimately show ?case by (simp add: m ns n)
qed

subsection \<open>Decoding\<close>

text \<open>The values of a text with the objects as maps.\<close>

fun to_any :: "json \<Rightarrow> json" where
  "to_any (JArr vs) = JArr (map to_any vs)"
| "to_any (JObj ms) = JObj (foldl (\<lambda>acc m. put_member (fst m) (snd m) acc) [] (map (\<lambda>m. (fst m, to_any (snd m))) ms))"
| "to_any v = v"

definition decode_any :: "string \<Rightarrow> json option" where
  "decode_any raw = map_option to_any (parse_json raw)"

lemma parse_value_text:
  "parse_value n d s = Some (v, t) \<Longrightarrow> d \<le> max_depth \<Longrightarrow> json_over valid_utf8 v \<and> json_depth v + d \<le> max_depth"
  "parse_elems n d s = Some (vs, t) \<Longrightarrow> d \<le> max_depth \<Longrightarrow> list_all (\<lambda>v. json_over valid_utf8 v \<and> json_depth v + d \<le> max_depth) vs"
  "parse_members n d s = Some (ms, t) \<Longrightarrow> d \<le> max_depth \<Longrightarrow>
     list_all (\<lambda>m. valid_utf8 (fst m) \<and> json_over valid_utf8 (snd m) \<and> json_depth (snd m) + d \<le> max_depth) ms"
proof (induction n d s and n d s and n d s arbitrary: v t and vs t and ms t rule: parse_value_parse_elems_parse_members.induct)
  case IH: (2 n d s)
  from IH(3) obtain c r where s: "skip_ws s = c # r" by (auto split: list.splits)
  show ?case
  proof (cases "c = CHR 0x22")
    case True
    with IH(3,4) s show ?thesis by (auto dest: parse_string_utf8 split: option.splits)
  next
    case q: False
    show ?thesis
    proof (cases "c = CHR ''['' \<or> c = CHR ''{''")
      case True
      with q IH(3) s have d: "d < max_depth" by (auto split: if_splits)
      have bound: "foldr max ns 0 + Suc d \<le> max_depth" if "\<forall>n \<in> set ns. n + Suc d \<le> max_depth" for ns
        using that d foldr_max_bound [of ns "max_depth - Suc d"] by fastforce
      from True show ?thesis
      proof
        assume c: "c = CHR ''[''"
        with IH(3) s d consider (none) "v = JArr []" | (more) x y vs where "skip_ws r = x # y" "x \<noteq> CHR '']''" "parse_elems n (d + 1) r = Some (vs, t)" "v = JArr vs"
          by (auto split: list.splits if_splits option.splits)
        then show ?thesis
        proof cases
          case (more x y vs)
          with IH(1) [OF s q c _ more(1,2,3)] d have "list_all (\<lambda>v. json_over valid_utf8 v \<and> json_depth v + Suc d \<le> max_depth) vs" by simp
          with more(4) bound [of "map json_depth vs"] show ?thesis by (auto simp: list_all_iff)
        qed (use d in simp)
      next
        assume c: "c = CHR ''{''"
        with IH(3) s d consider (none) "v = JObj []" | (more) x y ms where "skip_ws r = x # y" "x \<noteq> CHR ''}''" "parse_members n (d + 1) r = Some (ms, t)" "v = JObj ms"
          by (auto split: list.splits if_splits option.splits)
        then show ?thesis
        proof cases
          case (more x y ms)
          with IH(2) [OF s q _ c _ more(1,2,3)] d c have "list_all (\<lambda>m. valid_utf8 (fst m) \<and> json_over valid_utf8 (snd m) \<and> json_depth (snd m) + Suc d \<le> max_depth) ms" by simp
          with more(4) bound [of "map (\<lambda>m. json_depth (snd m)) ms"] show ?thesis by (auto simp: list_all_iff)
        qed (use d in simp)
      qed
    next
      case False
      with q IH(3) s have "literal ''true'' (JBool True) (c # r) = Some (v, t) \<or> literal ''false'' (JBool False) (c # r) = Some (v, t) \<or>
          literal ''null'' JNull (c # r) = Some (v, t) \<or> parse_number (c # r) = Some (v, t)" by (auto split: if_splits)
      with IH(4) show ?thesis
        by (auto dest!: literal_some simp: parse_number_def Let_def list_all_iff split: if_splits dest: set_takeWhileD)
    qed
  qed
next
  case (4 n d s)
  from 4(3) obtain v t' c u where p: "parse_value n d s = Some (v, t')" "skip_ws t' = c # u"
    by (auto split: option.splits list.splits)
  from 4(1) [OF p(1) 4(4)] have v: "json_over valid_utf8 v \<and> json_depth v + d \<le> max_depth" .
  show ?case
  proof (cases "c = CHR '']''")
    case True
    with 4(3) p v show ?thesis by auto
  next
    case False
    with 4(3) p obtain ws w where e: "c = CHR '',''" "parse_elems n d u = Some (ws, w)" "vs = v # ws"
      by (auto split: option.splits if_splits)
    from 4(2) [OF p(1) refl p(2) False e(1,2) 4(4)] v e(3) show ?thesis by simp
  qed
next
  case (6 n d s)
  from 6(3) obtain r k t1 t2 v t3 e t4 where p: "skip_ws s = CHR 0x22 # r" "parse_string (length r) r = Some (k, t1)"
    "skip_ws t1 = CHR '':'' # t2" "parse_value n d t2 = Some (v, t3)" "skip_ws t3 = e # t4"
    by (auto split: option.splits list.splits if_splits)
  have v: "json_over valid_utf8 v \<and> json_depth v + d \<le> max_depth" using 6(1) [OF p(1) _ p(2) refl p(3) _ p(4) 6(4)] by simp
  note k = parse_string_utf8 [OF p(2)]
  show ?case
  proof (cases "e = CHR ''}''")
    case True
    with 6(3) p v k show ?thesis by auto
  next
    case False
    with 6(3) p obtain ns w where e: "e = CHR '',''" "parse_members n d t4 = Some (ns, w)" "ms = (k, v) # ns"
      by (auto split: option.splits if_splits)
    from 6(2) [OF p(1) _ p(2) refl p(3) _ p(4) refl p(5) False e(1,2) 6(4)] v k e(3) show ?thesis by simp
  qed
qed simp_all

lemma parse_json_text: "parse_json s = Some v \<Longrightarrow> json_over valid_utf8 v \<and> json_depth v \<le> max_depth"
  using parse_value_text(1) [of "2 * length s + 2" 0 s] by (auto simp: parse_json_def simp del: parse_value.simps split: option.splits if_splits)

text \<open>Maps: sorted keys, and text inside.\<close>

lemma foldl_put_inv:
  assumes "P acc" "\<And>k v acc. (k, v) \<in> set ms \<Longrightarrow> P acc \<Longrightarrow> P (put_member k v acc)"
  shows "P (foldl (\<lambda>acc m. put_member (fst m) (snd m) acc) acc ms)"
  using assms by (induction ms arbitrary: acc) auto

lemma to_any_doc: "json_over valid_utf8 v \<Longrightarrow> doc_json (to_any v)"
proof (induction v)
  case (JObj ms)
  define P where "P acc \<longleftrightarrow> sorted_keys acc \<and> list_all (\<lambda>m. valid_utf8 (fst m) \<and> doc_json (snd m)) acc" for acc :: "(string \<times> json) list"
  have "P (foldl (\<lambda>acc m. put_member (fst m) (snd m) acc) [] (map (\<lambda>m. (fst m, to_any (snd m))) ms))"
  proof (rule foldl_put_inv)
    show "P []" by (simp add: P_def sorted_keys_def)
    fix k v acc assume kv: "(k, v) \<in> set (map (\<lambda>m. (fst m, to_any (snd m))) ms)" and P: "P acc"
    then obtain m where m: "m \<in> set ms" "k = fst m" "v = to_any (snd m)" by auto
    with JObj have "valid_utf8 k" "doc_json v" by (auto simp: list_all_iff snds.simps)
    with P show "P (put_member k v acc)"
      using put_member_sub [of k v acc] by (auto simp: P_def list_all_iff intro: sorted_put)
  qed
  then show ?case by (simp add: P_def)
qed (auto simp: list_all_iff)

lemma to_any_depth: "json_depth (to_any v) \<le> json_depth v"
proof (induction v)
  case (JArr vs)
  then show ?case by (auto simp: foldr_max_bound intro: order_trans [OF _ foldr_max_le])
next
  case (JObj ms)
  let ?b = "foldr max (map (\<lambda>m. json_depth (snd m)) ms) 0"
  define P where "P acc \<longleftrightarrow> (\<forall>m \<in> set acc. json_depth (snd m) \<le> ?b)" for acc :: "(string \<times> json) list"
  have "P (foldl (\<lambda>acc m. put_member (fst m) (snd m) acc) [] (map (\<lambda>m. (fst m, to_any (snd m))) ms))"
  proof (rule foldl_put_inv)
    fix k v acc assume kv: "(k, v) \<in> set (map (\<lambda>m. (fst m, to_any (snd m))) ms)" and P: "P acc"
    then obtain m where m: "m \<in> set ms" "v = to_any (snd m)" by auto
    then have "json_depth v \<le> ?b"
      using JObj [of m "snd m"] foldr_max_le [OF m(1), of "\<lambda>m. json_depth (snd m)"] by (auto simp: snds.simps)
    with P show "P (put_member k v acc)" using put_member_sub [of k v acc] by (auto simp: P_def)
  qed (simp add: P_def)
  then show ?case by (simp add: P_def foldr_max_bound)
qed auto

lemma decode_any_doc: "decode_any s = Some v \<Longrightarrow> doc_json v \<and> json_depth v \<le> max_depth"
  unfolding decode_any_def using to_any_doc to_any_depth parse_json_text by (fastforce intro: order_trans)

subsection \<open>What is written is read back\<close>

lemma valid_exp_chars: "valid_exp s \<Longrightarrow> list_all number_char s"
  by (auto simp: valid_exp_def number_char_def list_all_iff Let_def split: list.splits if_splits)

lemma valid_number_chars:
  assumes "valid_number s"
  shows "list_all number_char s"
proof -
  have d: "list_all number_char (takeWhile is_digit r)" for r
    by (auto simp: list_all_iff number_char_def dest: set_takeWhileD)
  have f: "list_all number_char r" if "valid_frac_exp r" for r
  proof (cases r)
    case (Cons c r')
    show ?thesis
    proof (cases "c = CHR ''.''")
      case True
      with that Cons have "valid_exp (dropWhile is_digit r')" by (simp add: valid_frac_exp_def)
      from valid_exp_chars [OF this] d [of r'] have "list_all number_char (takeWhile is_digit r' @ dropWhile is_digit r')" by (simp del: takeWhile_dropWhile_id)
      then show ?thesis by (simp add: Cons True number_char_def)
    qed (use that Cons valid_exp_chars [of "c # r'"] in \<open>simp add: valid_frac_exp_def\<close>)
  qed simp
  have "valid_frac_exp (dropWhile is_digit (strip_minus s))" using assms by (simp add: valid_number_def Let_def)
  with d [of "strip_minus s"] f have "list_all number_char (takeWhile is_digit (strip_minus s) @ dropWhile is_digit (strip_minus s))"
    by (simp del: takeWhile_dropWhile_id)
  then have "list_all number_char (strip_minus s)" by simp
  then show ?thesis by (auto simp: strip_minus_def number_char_def split: list.splits if_splits)
qed

lemma doc_json_over: "doc_json v \<Longrightarrow> json_over valid_utf8 v"
  by (induction v) (auto simp: list_all_iff snds.simps dest: valid_number_chars [unfolded list_all_iff])

lemma foldl_put_sorted:
  "sorted_keys (acc @ ms) \<Longrightarrow> foldl (\<lambda>acc m. put_member (fst m) (snd m) acc) acc ms = acc @ ms"
proof (induction ms arbitrary: acc)
  case (Cons m ms)
  have less: "\<forall>k \<in> fst ` set acc. str_less k (fst m)" using Cons.prems by (auto simp: sorted_keys_def sorted_wrt_append)
  then have "fst m \<notin> fst ` set acc" using str_less_irrefl by blast
  with less have "put_member (fst m) (snd m) acc = acc @ [m]" using insert_member_last [of acc "fst m" "snd m"] by (simp add: put_member_def)
  with Cons show ?case by simp
qed simp

lemma to_any_id: "doc_json v \<Longrightarrow> to_any v = v"
proof (induction v)
  case (JObj ms)
  then have "map (\<lambda>m. (fst m, to_any (snd m))) ms = ms"
    by (intro map_idI) (auto simp: list_all_iff snds.simps)
  with JObj show ?case using foldl_put_sorted [of "[]" ms] by simp
qed (auto simp: list_all_iff intro: map_idI)

lemma decode_any_written:
  assumes "doc_json v" "json_depth v \<le> max_depth"
  shows "decode_any (write_json v) = Some v"
  using utf8_text.parse_written [OF doc_json_over [OF assms(1)] assms(2)] to_any_id [OF assms(1)] by (simp add: decode_any_def)

end
