(* ===== verification/BlockAuthoring.thy ===== *)
theory BlockAuthoring
  imports JsonDocs
begin

text \<open>
  \<open>src/integration/blockauthoring.go\<close>: the settings of a block under preparation, given whole or as a merge
  patch of the settings it has. \<open>merge_patch\<close> is the text of RFC 7396, field by field.
\<close>

subsection \<open>The code\<close>

record authoring_request =
  ar_scheme_id :: string
  ar_block_key :: string
  ar_integration_version :: int
  ar_settings :: string
  ar_base_settings :: string
  ar_changes :: string

definition max_authoring_bytes :: nat where "max_authoring_bytes = 65536"

text \<open>The closure \<open>decode\<close>; \<open>null\<close> decodes into a nil map.\<close>

definition decode_authoring :: "string \<Rightarrow> (string \<times> json) list option" where
  "decode_authoring raw =
     (if raw = [] \<or> max_authoring_bytes < length raw then None
      else (case decode_any raw of Some (JObj ms) \<Rightarrow> Some ms | _ \<Rightarrow> None))"

definition target_object :: "json option \<Rightarrow> (string \<times> json) list" where
  "target_object v = (case v of Some (JObj ms) \<Rightarrow> ms | _ \<Rightarrow> [])"

text \<open>Go visits the members of the patch in any order; here they come sorted.\<close>

function (sequential) merge_authoring_object :: "(string \<times> json) list \<Rightarrow> (string \<times> json) list \<Rightarrow> (string \<times> json) list" where
  "merge_authoring_object base [] = base"
| "merge_authoring_object base ((key, JNull) # patch) = merge_authoring_object (AList.delete key base) patch"
| "merge_authoring_object base ((key, JObj object) # patch) =
     merge_authoring_object (put_member key (JObj (merge_authoring_object (target_object (map_of base key)) object)) base) patch"
| "merge_authoring_object base ((key, v) # patch) = merge_authoring_object (put_member key v base) patch"
  by pat_completeness auto

termination
  by (relation "measure (\<lambda>(_, patch). size_list (size_prod (\<lambda>_. 0) size) patch)") auto

definition authoring_settings :: "authoring_request \<Rightarrow> string option" where
  "authoring_settings req =
     (if ar_base_settings req = [] \<and> ar_changes req = [] then
        (case decode_authoring (ar_settings req) of None \<Rightarrow> None | Some _ \<Rightarrow> Some (ar_settings req))
      else if ar_settings req \<noteq> [] then None
      else (case decode_authoring (ar_base_settings req) of None \<Rightarrow> None
        | Some base \<Rightarrow> (case decode_authoring (ar_changes req) of None \<Rightarrow> None
          | Some patch \<Rightarrow>
             let result = write_json (JObj (merge_authoring_object base patch)) in
             if max_authoring_bytes < length result then None else Some result)))"

subsection \<open>RFC 7396\<close>

text \<open>
  \<open>rfc7396 t p r\<close>: patching \<open>t\<close> with \<open>p\<close> gives \<open>r\<close>. A patch that is no object replaces; an object keeps the fields
  it does not name, removes those it names with null, patches the others (a target that is no object is empty).
\<close>

definition object_of :: "json \<Rightarrow> (string \<times> json) list" where
  "object_of v = (case v of JObj ms \<Rightarrow> ms | _ \<Rightarrow> [])"

definition field_of :: "json \<Rightarrow> string \<Rightarrow> json" where
  "field_of v k = (case map_of (object_of v) k of None \<Rightarrow> JNull | Some x \<Rightarrow> x)"

inductive rfc7396 :: "json \<Rightarrow> json \<Rightarrow> json \<Rightarrow> bool" where
  replace: "\<forall>ps. p \<noteq> JObj ps \<Longrightarrow> rfc7396 t p p"
| object: "sorted_keys ms \<Longrightarrow> \<forall>k. map_of ps k = None \<longrightarrow> map_of ms k = map_of (object_of t) k \<Longrightarrow>
    \<forall>k. map_of ps k = Some JNull \<longrightarrow> map_of ms k = None \<Longrightarrow>
    \<forall>k p. map_of ps k = Some p \<longrightarrow> p \<noteq> JNull \<longrightarrow> (\<exists>x. map_of ms k = Some x \<and> rfc7396 (field_of t k) p x) \<Longrightarrow>
    rfc7396 t (JObj ps) (JObj ms)"

inductive_cases rfc_objectE: "rfc7396 t (JObj ps) r"

lemma rfc7396_unique: "rfc7396 t p r \<Longrightarrow> rfc7396 t p r' \<Longrightarrow> r = r'"
proof (induction arbitrary: r' rule: rfc7396.induct)
  case (replace p t)
  from replace(2) show ?case by cases (use replace(1) in auto)
next
  case (object ms ps t)
  from object.prems obtain ns where ns: "r' = JObj ns" "sorted_keys ns"
    "\<forall>k. map_of ps k = None \<longrightarrow> map_of ns k = map_of (object_of t) k"
    "\<forall>k. map_of ps k = Some JNull \<longrightarrow> map_of ns k = None"
    "\<forall>k p. map_of ps k = Some p \<longrightarrow> p \<noteq> JNull \<longrightarrow> (\<exists>x. map_of ns k = Some x \<and> rfc7396 (field_of t k) p x)"
    by (auto elim: rfc_objectE)
  have "map_of ms k = map_of ns k" for k
  proof (cases "map_of ps k")
    case (Some p)
    show ?thesis
    proof (cases "p = JNull")
      case False
      from object.IH Some False obtain x where x: "map_of ms k = Some x" "\<forall>r'. rfc7396 (field_of t k) p r' \<longrightarrow> x = r'" by blast
      from ns(5) Some False obtain y where "map_of ns k = Some y" "rfc7396 (field_of t k) p y" by blast
      with x show ?thesis by simp
    qed (use Some object.hyps ns(4) in simp)
  qed (use object.hyps ns(3) in simp)
  then have "map_of ms = map_of ns" by (rule ext)
  from sorted_keys_ext [OF object.hyps(1) ns(2) this] ns(1) show ?case by simp
qed

subsection \<open>The merge field by field\<close>

definition merge_value :: "json \<Rightarrow> json \<Rightarrow> json" where
  "merge_value t p = (case p of JObj ps \<Rightarrow> JObj (merge_authoring_object (object_of t) ps) | _ \<Rightarrow> p)"

lemma merge_value_simps [simp]:
  "merge_value t (JObj ps) = JObj (merge_authoring_object (object_of t) ps)"
  "\<forall>ps. p \<noteq> JObj ps \<Longrightarrow> merge_value t p = p"
  by (simp_all add: merge_value_def split: json.split)

lemma target_object_field: "target_object (map_of base k) = object_of (field_of (JObj base) k)"
  by (simp add: target_object_def object_of_def field_of_def split: option.split json.split)

lemma merge_Cons:
  "merge_authoring_object base ((k, v) # patch) =
     merge_authoring_object (if v = JNull then AList.delete k base else put_member k (merge_value (field_of (JObj base) k) v) base) patch"
  by (cases v) (simp_all add: target_object_field)

lemma merge_sorted: "sorted_keys base \<Longrightarrow> sorted_keys (merge_authoring_object base patch)"
proof (induction patch arbitrary: base)
  case (Cons m patch)
  then show ?case by (cases m) (auto simp: merge_Cons intro!: Cons.IH sorted_put sorted_delete)
qed simp

lemma merge_field:
  "distinct (map fst patch) \<Longrightarrow> map_of (merge_authoring_object base patch) k = (case map_of patch k of
     None \<Rightarrow> map_of base k
   | Some v \<Rightarrow> if v = JNull then None else Some (merge_value (field_of (JObj base) k) v))"
proof (induction patch arbitrary: base)
  case (Cons m patch)
  obtain j v where m: "m = (j, v)" by (cases m)
  define b where "b = (if v = JNull then AList.delete j base else put_member j (merge_value (field_of (JObj base) j) v) base)"
  have step: "merge_authoring_object base (m # patch) = merge_authoring_object b patch" by (simp add: m merge_Cons b_def)
  have IH: "map_of (merge_authoring_object b patch) k = (case map_of patch k of None \<Rightarrow> map_of b k
      | Some v \<Rightarrow> if v = JNull then None else Some (merge_value (field_of (JObj b) k) v))"
    using Cons by simp
  show ?case
  proof (cases "k = j")
    case True
    then have "map_of patch k = None" using Cons.prems by (simp add: m map_of_eq_None_iff)
    with IH True show ?thesis unfolding step by (simp add: m b_def AList.delete_conv')
  next
    case False
    then have "map_of b k = map_of base k" by (simp add: b_def AList.delete_conv')
    moreover from this have "field_of (JObj b) k = field_of (JObj base) k" by (simp add: field_of_def object_of_def)
    ultimately show ?thesis unfolding step using IH False by (simp add: m split: option.split)
  qed
qed simp

text \<open>A document merged with a document.\<close>

lemma doc_objD: "doc_json (JObj ms) \<Longrightarrow> sorted_keys ms \<and> (\<forall>(k, v) \<in> set ms. valid_utf8 k \<and> doc_json v)"
  by (auto simp: list_all_iff)

lemma doc_object_of: "doc_json v \<Longrightarrow> doc_json (JObj (object_of v))"
  by (cases v) (simp_all add: object_of_def sorted_keys_def)

lemma doc_field_of: "doc_json v \<Longrightarrow> doc_json (field_of v k)"
  using doc_object_of [of v] by (auto simp: field_of_def list_all_iff split: option.split dest!: map_of_SomeD)

lemma merge_memberE:
  assumes "sorted_keys base" "sorted_keys patch" "(k, x) \<in> set (merge_authoring_object base patch)"
  obtains (old) "(k, x) \<in> set base"
  | (patched) v where "(k, v) \<in> set patch" "v \<noteq> JNull" "x = merge_value (field_of (JObj base) k) v"
proof -
  have "map_of (merge_authoring_object base patch) k = Some x"
    using assms(3) sorted_keys_distinct [OF merge_sorted [OF assms(1)]] by simp
  then show thesis
    using that merge_field [OF sorted_keys_distinct [OF assms(2)], of base k]
    by (auto split: option.splits if_splits dest: map_of_SomeD)
qed

lemma merge_rfc: "doc_json p \<Longrightarrow> doc_json t \<Longrightarrow> rfc7396 t p (merge_value t p)"
proof (induction p arbitrary: t)
  case (JObj ps)
  note p = doc_objD [OF JObj.prems(1)] and t = doc_objD [OF doc_object_of [OF JObj.prems(2)]]
  note field = merge_field [OF sorted_keys_distinct [OF conjunct1 [OF p]], of "object_of t"]
  have "rfc7396 t (JObj ps) (JObj (merge_authoring_object (object_of t) ps))"
  proof (rule rfc7396.object)
    show "sorted_keys (merge_authoring_object (object_of t) ps)" using t merge_sorted by blast
    show "\<forall>k p. map_of ps k = Some p \<longrightarrow> p \<noteq> JNull \<longrightarrow>
        (\<exists>x. map_of (merge_authoring_object (object_of t) ps) k = Some x \<and> rfc7396 (field_of t k) p x)"
    proof (intro allI impI)
      fix k p assume k: "map_of ps k = Some p" "p \<noteq> JNull"
      then have "(k, p) \<in> set ps" by (simp add: map_of_SomeD)
      with p JObj.IH [of "(k, p)" p "field_of t k"] doc_field_of [OF JObj.prems(2)]
      have "rfc7396 (field_of t k) p (merge_value (field_of t k) p)" by (auto simp: snds.simps)
      moreover have "field_of (JObj (object_of t)) k = field_of t k" by (simp add: field_of_def object_of_def)
      ultimately show "\<exists>x. map_of (merge_authoring_object (object_of t) ps) k = Some x \<and> rfc7396 (field_of t k) p x"
        using field [of k] k by simp
    qed
  qed (simp_all add: field)
  then show ?case by simp
qed (simp_all add: rfc7396.replace)

lemma object_of_field [simp]: "field_of (JObj (object_of t)) k = field_of t k"
  by (simp add: field_of_def object_of_def)

lemma merge_doc: "doc_json p \<Longrightarrow> doc_json t \<Longrightarrow> doc_json (merge_value t p)"
proof (induction p arbitrary: t)
  case (JObj ps)
  note p = doc_objD [OF JObj.prems(1)] and t = doc_objD [OF doc_object_of [OF JObj.prems(2)]]
  have "valid_utf8 k \<and> doc_json x" if kx: "(k, x) \<in> set (merge_authoring_object (object_of t) ps)" for k x
  proof (cases rule: merge_memberE [OF conjunct1 [OF t] conjunct1 [OF p] kx])
    case (2 v)
    then have "doc_json (merge_value (field_of t k) v)"
      using JObj.IH [of "(k, v)" v "field_of t k"] p doc_field_of [OF JObj.prems(2), of k] by (auto simp: snds.simps)
    with 2 p show ?thesis by auto
  qed (use t in auto)
  then show ?case using merge_sorted [OF conjunct1 [OF t], of ps] by (auto simp: list_all_iff)
qed simp_all

lemma depth_member: "(k, x) \<in> set ms \<Longrightarrow> json_depth x < json_depth (JObj ms)"
  using foldr_max_le [of "(k, x)" ms "\<lambda>m. json_depth (snd m)"] by simp

lemma depth_object_of: "(k, x) \<in> set (object_of t) \<Longrightarrow> json_depth x < json_depth t"
  using depth_member [of k x] by (cases t) (simp_all add: object_of_def)

lemma depth_field_of: "json_depth (field_of t k) \<le> json_depth t"
  by (auto simp: field_of_def split: option.split dest!: map_of_SomeD depth_object_of)

lemma merge_depth: "doc_json p \<Longrightarrow> doc_json t \<Longrightarrow> json_depth (merge_value t p) \<le> max (json_depth t) (json_depth p)"
proof (induction p arbitrary: t)
  case (JObj ps)
  note p = doc_objD [OF JObj.prems(1)] and t = doc_objD [OF doc_object_of [OF JObj.prems(2)]]
  have "json_depth x < max (json_depth t) (json_depth (JObj ps))" if kx: "(k, x) \<in> set (merge_authoring_object (object_of t) ps)" for k x
  proof (cases rule: merge_memberE [OF conjunct1 [OF t] conjunct1 [OF p] kx])
    case 1
    then show ?thesis using depth_object_of by (simp add: less_max_iff_disj)
  next
    case (2 v)
    then have "json_depth x \<le> max (json_depth (field_of t k)) (json_depth v)"
      using JObj.IH [of "(k, v)" v "field_of t k"] p doc_field_of [OF JObj.prems(2), of k] by (auto simp: snds.simps)
    moreover have "json_depth v < json_depth (JObj ps)" using 2(1) by (rule depth_member)
    moreover have "field_of t k = JNull \<or> json_depth (field_of t k) < json_depth t"
      by (auto simp: field_of_def split: option.split dest!: map_of_SomeD depth_object_of)
    ultimately show ?thesis by auto
  qed
  then have "\<forall>m \<in> set (merge_authoring_object (object_of t) ps). json_depth (snd m) \<le> max (json_depth t) (json_depth (JObj ps)) - 1"
    by fastforce
  then have "foldr max (map (\<lambda>m. json_depth (snd m)) (merge_authoring_object (object_of t) ps)) 0 \<le> max (json_depth t) (json_depth (JObj ps)) - 1"
    by (simp only: foldr_max_bound set_map) auto
  then show ?case by simp
qed simp_all

lemma merge_again: "doc_json p \<Longrightarrow> doc_json t \<Longrightarrow> merge_value (merge_value t p) p = merge_value t p"
proof (induction p arbitrary: t)
  case (JObj ps)
  note p = doc_objD [OF JObj.prems(1)] and t = doc_objD [OF doc_object_of [OF JObj.prems(2)]]
  let ?m = "merge_authoring_object (object_of t) ps"
  note field = merge_field [OF sorted_keys_distinct [OF conjunct1 [OF p]]]
  have m: "sorted_keys ?m" using merge_sorted t by blast
  have "map_of (merge_authoring_object ?m ps) k = map_of ?m k" for k
  proof (cases "map_of ps k")
    case (Some v)
    show ?thesis
    proof (cases "v = JNull")
      case False
      have "field_of (JObj ?m) k = merge_value (field_of t k) v"
        using Some False field [of "object_of t" k] by (simp add: field_of_def object_of_def)
      moreover from Some have "(k, v) \<in> set ps" by (simp add: map_of_SomeD)
      with p JObj.IH [of "(k, v)" v "field_of t k"] doc_field_of [OF JObj.prems(2), of k]
      have "merge_value (merge_value (field_of t k) v) v = merge_value (field_of t k) v" by (auto simp: snds.simps)
      ultimately show ?thesis using Some False field [of ?m k] field [of "object_of t" k] by simp
    qed (use Some field in simp)
  qed (simp add: field)
  then have "merge_authoring_object ?m ps = ?m" using sorted_keys_ext [OF merge_sorted [OF m] m] by (simp add: fun_eq_iff)
  then show ?case by (simp add: object_of_def)
qed simp_all

lemma decode_authoring_Some:
  "decode_authoring raw = Some ms \<Longrightarrow> raw \<noteq> [] \<and> length raw \<le> max_authoring_bytes \<and> doc_json (JObj ms) \<and> json_depth (JObj ms) \<le> max_depth"
  using decode_any_doc [of raw] by (auto simp: decode_authoring_def simp del: doc_json.simps json_depth.simps split: if_splits option.splits json.splits)

lemma decode_authoring_written:
  assumes "doc_json (JObj ms)" "json_depth (JObj ms) \<le> max_depth" "length (write_json (JObj ms)) \<le> max_authoring_bytes"
  shows "decode_authoring (write_json (JObj ms)) = Some ms"
  using decode_any_written [OF assms(1,2)] assms(3) unfolding decode_authoring_def by simp

text \<open>C1. Settings given whole come back byte for byte. Changes are applied as RFC 7396 says, and what is returned
  decodes to exactly the patched settings; the same changes applied to the result give the same bytes again.\<close>

theorem authoring_follows_rfc:
  assumes "authoring_settings req = Some raw"
  shows "if ar_base_settings req = [] \<and> ar_changes req = [] then raw = ar_settings req
    else \<exists>base patch result. decode_authoring (ar_base_settings req) = Some base \<and>
      decode_authoring (ar_changes req) = Some patch \<and> decode_authoring raw = Some result \<and>
      rfc7396 (JObj base) (JObj patch) (JObj result) \<and>
      authoring_settings (req\<lparr>ar_base_settings := raw\<rparr>) = Some raw"
proof (cases "ar_base_settings req = [] \<and> ar_changes req = []")
  case True
  with assms show ?thesis by (auto simp: authoring_settings_def split: option.splits)
next
  case False
  let ?m = "\<lambda>b p. JObj (merge_authoring_object b p)"
  from assms False obtain b p where d: "ar_settings req = []" "decode_authoring (ar_base_settings req) = Some b"
    "decode_authoring (ar_changes req) = Some p" and raw: "raw = write_json (?m b p)" "length raw \<le> max_authoring_bytes"
    by (auto simp: authoring_settings_def Let_def simp del: write_json.simps split: if_splits option.splits)
  from decode_authoring_Some [OF d(2)] decode_authoring_Some [OF d(3)]
  have doc: "doc_json (JObj b)" "doc_json (JObj p)" and depth: "json_depth (JObj b) \<le> max_depth" "json_depth (JObj p) \<le> max_depth"
    and ne: "ar_changes req \<noteq> []" by blast+
  have v: "merge_value (JObj b) (JObj p) = ?m b p" by (simp add: object_of_def)
  from merge_doc [OF doc(2,1)] merge_depth [OF doc(2,1)] depth
  have m: "doc_json (?m b p)" "json_depth (?m b p) \<le> max_depth" unfolding v by (blast, linarith)
  have r: "decode_authoring raw = Some (merge_authoring_object b p)"
    unfolding raw(1) by (rule decode_authoring_written [OF m]) (use raw in simp)
  moreover have "merge_authoring_object (merge_authoring_object b p) p = merge_authoring_object b p"
    using merge_again [OF doc(2,1)] unfolding v by (simp add: object_of_def)
  then have "authoring_settings (req\<lparr>ar_base_settings := raw\<rparr>) = Some raw"
    unfolding authoring_settings_def using d(1,3) r ne raw by simp
  moreover have "rfc7396 (JObj b) (JObj p) (?m b p)" using merge_rfc [OF doc(2,1)] unfolding v .
  ultimately show ?thesis unfolding if_not_P [OF False] using d(2,3) by blast
qed

definition base_example :: json where
  "base_example = JObj [(''a'', JObj [(''x'', JNum ''1''), (''y'', JNum ''2'')])]"

definition changes_example :: json where
  "changes_example = JObj [(''a'', JObj [(''x'', JNull)])]"

definition merged_example :: json where
  "merged_example = JObj [(''a'', JObj [(''y'', JNum ''2'')])]"

definition authoring_example :: authoring_request where
  "authoring_example = \<lparr>ar_scheme_id = ''s'', ar_block_key = ''b'', ar_integration_version = 1, ar_settings = [], ar_base_settings = write_json base_example, ar_changes = write_json changes_example\<rparr>"

lemma examples_decode:
  "decode_authoring (write_json base_example) = Some [(''a'', JObj [(''x'', JNum ''1''), (''y'', JNum ''2'')])]"
  "decode_authoring (write_json changes_example) = Some [(''a'', JObj [(''x'', JNull)])]"
  unfolding base_example_def changes_example_def
  by (rule decode_authoring_written;
    simp add: valid_utf8_def sorted_keys_def max_authoring_bytes_def max_depth_def quote_string_def escape_chunk_def
      valid_number_def strip_minus_def is_digit_def valid_frac_exp_def)+

lemma example_merged:
  "JObj (merge_authoring_object [(''a'', JObj [(''x'', JNum ''1''), (''y'', JNum ''2'')])] [(''a'', JObj [(''x'', JNull)])]) = merged_example"
  by (simp add: merged_example_def target_object_def put_member_def)

theorem authoring_follows_rfc_witness:
  "authoring_settings authoring_example = Some (write_json merged_example) \<and>
   (\<exists>base patch result. rfc7396 (JObj base) (JObj patch) (JObj result) \<and> decode_authoring (write_json merged_example) = Some result)"
proof -
  have l: "length (write_json merged_example) = 13" "ar_changes authoring_example \<noteq> []"
    by (simp_all add: merged_example_def authoring_example_def changes_example_def quote_string_def escape_chunk_def)
  have "authoring_settings authoring_example = Some (write_json merged_example)"
    using l unfolding authoring_settings_def authoring_example_def
    by (simp add: examples_decode example_merged max_authoring_bytes_def del: write_json.simps merge_authoring_object.simps)
  with l(2) show ?thesis using authoring_follows_rfc [of authoring_example] by fastforce
qed

end
