(* ===== verification/DocPackage.thy ===== *)
theory DocPackage
  imports Sign JsonStrings "HOL-Library.Multiset" "HOL-Library.Char_ord" "HOL-Library.List_Lexorder" "HOL-Library.Product_Lexorder"
begin

text \<open>
  \<open>src/documentation/contracts.go\<close> and \<open>package.go\<close>: knowledge packages and their canonical form. Strings are
  compared byte by byte (\<open>Char_ord\<close>, \<open>List_Lexorder\<close>), as \<open>slices.Sort\<close> and \<open>strings.Compare\<close> do.
\<close>

subsection \<open>Data\<close>

record doc_contract =
  dk_provider :: string
  dk_revision :: string

record document =
  do_key :: string
  do_topic :: string
  do_locale :: string
  do_title :: string
  do_summary :: string
  do_common :: string
  do_human :: string
  do_agent :: string
  do_related :: "string list"
  do_requires :: "doc_contract list"
  do_kind :: string
  do_block :: string

record doc_package =
  dp_format :: int
  dp_provider :: string
  dp_revision :: string
  dp_source :: string
  dp_documents :: "document list"

datatype package_error =
    PackageIdentity
  | PackageDocuments
  | DocumentRelation
  | DocumentIdentity nat
  | DocumentText
  | DocumentLimits string
  | TooManyTopics
  | BadTopic
  | TooManyRequires
  | BadRequire
  | DuplicateDocument
  | PackageTooLarge

subsection \<open>Identifiers\<close>

definition lower_letter :: "char \<Rightarrow> bool" where
  "lower_letter c \<longleftrightarrow> 97 \<le> byte c \<and> byte c \<le> 122"

definition alnum :: "char \<Rightarrow> bool" where
  "alnum c \<longleftrightarrow> is_digit c \<or> lower_letter c \<or> (65 \<le> byte c \<and> byte c \<le> 90)"

text \<open>The regular expressions, matched on the parts between their separators.\<close>

definition valid_key :: "string \<Rightarrow> bool" where
  "valid_key s \<longleftrightarrow> length s \<le> 160 \<and> list_all (\<lambda>p. case p of [] \<Rightarrow> False
     | c # r \<Rightarrow> alnum c \<and> list_all (\<lambda>x. alnum x \<or> x \<in> {CHR ''.'', CHR ''_'', CHR ''-''}) r) (split_on CHR ''/'' s)"

definition valid_locale :: "string \<Rightarrow> bool" where
  "valid_locale s \<longleftrightarrow> length s \<le> 32 \<and> (case split_on CHR ''-'' s of [] \<Rightarrow> False
     | p # ps \<Rightarrow> length p \<in> {2, 3} \<and> list_all lower_letter p \<and> list_all (\<lambda>q. 2 \<le> length q \<and> length q \<le> 8 \<and> list_all alnum q) ps)"

definition valid_source_revision :: "string \<Rightarrow> bool" where
  "valid_source_revision s \<longleftrightarrow> length s \<in> {40, 64} \<and> list_all lower_hex_char s"

definition valid_package_digest :: "string \<Rightarrow> bool" where
  "valid_package_digest s \<longleftrightarrow> length s = 64 \<and> list_all lower_hex_char s"

definition integration_provider_id :: "string \<Rightarrow> string option" where
  "integration_provider_id provider =
     (if has_prefix ''integration/'' provider \<and> uuid_regexp (drop 12 provider) \<and> drop 12 provider \<noteq> zero_uuid
      then Some (drop 12 provider) else None)"

definition valid_document_relation :: "string \<Rightarrow> string \<Rightarrow> bool" where
  "valid_document_relation kind block =
     (if kind = [] \<or> kind = ''overview'' then block = []
      else if kind = ''blockGuide'' then valid_key block
      else if kind = ''reference'' then block = [] \<or> valid_key block
      else False)"

subsection \<open>The canonical form\<close>

definition unix_lines :: "string \<Rightarrow> string" where
  "unix_lines s = map (\<lambda>c. if c = CHR 0x0D then CHR 0x0A else c) (replace_pair CHR 0x0D CHR 0x0A [CHR 0x0A] s)"

definition doc_texts :: "document \<Rightarrow> string list" where
  "doc_texts d = [do_title d, do_summary d, do_common d, do_human d, do_agent d]"

definition with_unix_lines :: "document \<Rightarrow> document" where
  "with_unix_lines d = d\<lparr>do_title := unix_lines (do_title d), do_summary := unix_lines (do_summary d),
     do_common := unix_lines (do_common d), do_human := unix_lines (do_human d), do_agent := unix_lines (do_agent d)\<rparr>"

definition text_ok :: "string \<Rightarrow> bool" where
  "text_ok s \<longleftrightarrow> valid_utf8 s \<and> CHR 0x00 \<notin> set s"

definition limits_ok :: "document \<Rightarrow> bool" where
  "limits_ok d \<longleftrightarrow> trim_space (do_title d) \<noteq> [] \<and> length (do_title d) \<le> 512 \<and>
     trim_space (do_summary d) \<noteq> [] \<and> length (do_summary d) \<le> 2048 \<and> trim_space (do_common d) \<noteq> []"

text \<open>One round of the loop; \<open>distinct_adj\<close> is the comparison with the previous element.\<close>

definition canonical_document :: "nat \<Rightarrow> document \<Rightarrow> (package_error, document) go_result" where
  "canonical_document i d =
     guardR (\<not> valid_document_relation (do_kind d) (do_block d)) DocumentRelation
    (guardR (\<not> (valid_key (do_key d) \<and> valid_key (do_topic d) \<and> valid_locale (do_locale d))) (DocumentIdentity i)
    (guardR (\<not> list_all text_ok (doc_texts d)) DocumentText
    (let d = with_unix_lines d; topics = sort (do_related d); requires = sort_key dk_provider (do_requires d) in
     guardR (\<not> limits_ok d) (DocumentLimits (do_key d))
    (guardR (32 < length topics) TooManyTopics
    (guardR (\<not> (list_all valid_key topics \<and> distinct_adj topics)) BadTopic
    (guardR (16 < length requires) TooManyRequires
    (guardR (\<not> (list_all (\<lambda>c. valid_key (dk_provider c) \<and> valid_key (dk_revision c)) requires \<and> distinct_adj (map dk_provider requires))) BadRequire
    (Inr (d\<lparr>do_related := topics, do_requires := requires\<rparr>)))))))))"

definition contract_json :: "doc_contract \<Rightarrow> json" where
  "contract_json c = JObj [(''providerKey'', JStr (dk_provider c)), (''contractRevision'', JStr (dk_revision c))]"

definition optional_str :: "string \<Rightarrow> string \<Rightarrow> (string \<times> json) list" where
  "optional_str name s = (if s = [] then [] else [(name, JStr s)])"

definition document_json :: "document \<Rightarrow> json" where
  "document_json d = JObj ([(''documentKey'', JStr (do_key d)), (''topicKey'', JStr (do_topic d)), (''locale'', JStr (do_locale d)),
     (''title'', JStr (do_title d)), (''summary'', JStr (do_summary d)), (''commonMarkdown'', JStr (do_common d)),
     (''humanAppendixMarkdown'', JStr (do_human d)), (''agentAppendixMarkdown'', JStr (do_agent d)),
     (''relatedTopics'', JArr (map JStr (do_related d))), (''requires'', JArr (map contract_json (do_requires d)))] @
     optional_str ''kind'' (do_kind d) @ optional_str ''blockKey'' (do_block d))"

definition package_json :: "doc_package \<Rightarrow> json" where
  "package_json p = JObj [(''formatVersion'', JNum (format_int (dp_format p))), (''providerKey'', JStr (dp_provider p)),
     (''contractRevision'', JStr (dp_revision p)), (''sourceRevision'', JStr (dp_source p)),
     (''documents'', JArr (map document_json (dp_documents p)))]"

definition doc_identity :: "document \<Rightarrow> string \<times> string" where
  "doc_identity d = (do_key d, do_locale d)"

definition canonical_package :: "doc_package \<Rightarrow> (package_error, doc_package \<times> string) go_result" where
  "canonical_package p =
     guardR (\<not> (dp_format p = 1 \<and> valid_key (dp_provider p) \<and> valid_key (dp_revision p) \<and> valid_source_revision (dp_source p))) PackageIdentity
    (guardR (dp_documents p = [] \<or> 64 < length (dp_documents p)) PackageDocuments
    (bindR (mapR (\<lambda>(i, d). canonical_document i d) (enumerate 0 (dp_documents p))) (\<lambda>ds.
      let ds = sort_key doc_identity ds; q = p\<lparr>dp_documents := ds\<rparr>; raw = write_json (package_json q) in
      guardR (\<not> distinct_adj (map doc_identity ds)) DuplicateDocument
     (guardR (2097152 < length raw) PackageTooLarge
     (Inr (q, raw))))))"

definition render_document :: "document \<Rightarrow> string \<Rightarrow> string option" where
  "render_document d audience =
     (case (if audience = ''human'' then Some (do_human d) else if audience = ''agent'' then Some (do_agent d) else None) of
        None \<Rightarrow> None
      | Some appendix \<Rightarrow> Some (if appendix = [] then do_common d else do_common d @ [CHR 0x0A, CHR 0x0A] @ appendix))"

subsection \<open>Line ends\<close>

lemma unix_lines_Nil [simp]: "unix_lines [] = []"
  by (simp add: unix_lines_def)

lemma unix_lines_Cons:
  "unix_lines (c # s) = (if c = CHR 0x0D \<and> s \<noteq> [] \<and> hd s = CHR 0x0A then unix_lines s
     else (if c = CHR 0x0D then CHR 0x0A else c) # unix_lines s)"
proof (cases s)
  case (Cons x t)
  have "replace_pair CHR 0x0D CHR 0x0A r (CHR 0x0A # t) = CHR 0x0A # replace_pair CHR 0x0D CHR 0x0A r t" for r by (cases t) simp_all
  with Cons show ?thesis by (simp add: unix_lines_def)
qed (simp add: unix_lines_def)

lemma unix_lines_no_cr: "CHR 0x0D \<notin> set (unix_lines s)"
  by (auto simp: unix_lines_def)

lemma unix_lines_id: "CHR 0x0D \<notin> set s \<Longrightarrow> unix_lines s = s"
  by (induction s) (auto simp: unix_lines_Cons)

lemma unix_lines_idem [simp]: "unix_lines (unix_lines s) = unix_lines s"
  by (rule unix_lines_id [OF unix_lines_no_cr])

lemma unix_lines_append: "CHR 0x0D \<notin> set b \<Longrightarrow> unix_lines (b @ s) = b @ unix_lines s"
  by (induction b) (auto simp: unix_lines_Cons)

lemma valid_utf8_ascii: "byte c < 0x80 \<Longrightarrow> valid_utf8 (c # s) \<longleftrightarrow> valid_utf8 s"
  by (simp add: valid_utf8_def)

text \<open>A text in UTF-8 consists of ASCII characters and of sequences of bytes beyond ASCII.\<close>

lemma utf8_induct [consumes 1, case_names Nil ascii high]:
  assumes "valid_utf8 s" "P []"
    and ascii: "\<And>c s. byte c < 0x80 \<Longrightarrow> valid_utf8 s \<Longrightarrow> P s \<Longrightarrow> P (c # s)"
    and high: "\<And>b s. valid_utf8 b \<Longrightarrow> \<forall>c \<in> set b. 0x80 \<le> byte c \<Longrightarrow> valid_utf8 s \<Longrightarrow> P s \<Longrightarrow> P (b @ s)"
  shows "P s"
  using assms(1)
proof (induction s rule: chunks.induct)
  case (1 s)
  show ?case
  proof (cases s)
    case (Cons c t)
    show ?thesis
    proof (cases "byte c < 0x80")
      case True
      then have "valid_utf8 t" using "1.prems" Cons by (simp add: valid_utf8_ascii)
      moreover have "P t" using 1(1) True Cons calculation by simp
      ultimately show ?thesis unfolding Cons using ascii [OF True] by blast
    next
      case False
      obtain r w where d: "decode_rune s = (r, w)" by (cases "decode_rune s")
      have ne: "s \<noteq> []" by (simp add: Cons)
      have ch: "chunks s = (r, take w s) # chunks (drop w s)" by (subst chunks.simps) (simp add: ne d)
      from decode_rune_width [OF ne] d have w: "0 < w" "w \<le> length s" by simp_all
      from 1(2) ch w have ok: "\<not> (r = 0xFFFD \<and> w = 1)" "valid_utf8 (drop w s)" by (auto simp: valid_utf8_def)
      from valid_chunk [OF d ne ok(1), of "[]"] have "decode_rune (take w s) = (r, w)" by simp
      then have "valid_utf8 (take w s)" using w ok(1) by (intro valid_utf8_one [of _ r]) auto
      moreover have "\<forall>x \<in> set (take w s). 0x80 \<le> byte x"
        using decode_rune_high [where r = t and ?c0.0 = c] False d unfolding Cons by auto
      moreover have "P (drop w s)" using 1(1) d ne ok(2) by auto
      ultimately have "P (take w s @ drop w s)" using high ok(2) by blast
      then show ?thesis by simp
    qed
  qed (use assms(2) in simp)
qed

lemma unix_lines_utf8: "valid_utf8 s \<Longrightarrow> valid_utf8 (unix_lines s)"
proof (induction s rule: utf8_induct)
  case (ascii c s)
  then show ?case by (auto simp: unix_lines_Cons valid_utf8_ascii)
next
  case (high b s)
  then have "CHR 0x0D \<notin> set b" by fastforce
  with high show ?case by (simp add: unix_lines_append valid_utf8_append)
qed (simp add: valid_utf8_def)

lemma unix_lines_text_ok: "text_ok s \<Longrightarrow> text_ok (unix_lines s)"
proof -
  have "set (unix_lines s) \<subseteq> insert (CHR 0x0A) (set s)" for s
    by (induction s) (auto simp: unix_lines_Cons)
  then show "text_ok s \<Longrightarrow> text_ok (unix_lines s)" by (fastforce simp: text_ok_def unix_lines_utf8)
qed

subsection \<open>Canonical forms are fixed points\<close>

lemma sort_key_sorted: "sorted (map f xs) \<Longrightarrow> sort_key f xs = xs"
  by (rule properties_for_sort_key) simp_all

lemma sort_key_idem [simp]: "sort_key f (sort_key f xs) = sort_key f xs"
  by (rule sort_key_sorted) simp

lemma sorted_distinct_adj: "sorted xs \<Longrightarrow> distinct_adj xs \<Longrightarrow> distinct xs"
proof (induction xs)
  case (Cons x xs)
  show ?case
  proof (cases xs)
    case (Cons y ys)
    then have "x < y" using Cons.prems by (simp add: order.strict_iff_order)
    moreover have "\<forall>z \<in> set xs. y \<le> z" using Cons.prems Cons by auto
    ultimately show ?thesis using Cons.IH Cons.prems Cons by fastforce
  qed simp
qed simp

text \<open>What an accepted document satisfies, without the index in the error.\<close>

definition document_ok :: "document \<Rightarrow> bool" where
  "document_ok d \<longleftrightarrow> valid_document_relation (do_kind d) (do_block d) \<and>
     (valid_key (do_key d) \<and> valid_key (do_topic d) \<and> valid_locale (do_locale d)) \<and> list_all text_ok (doc_texts d) \<and>
     limits_ok (with_unix_lines d) \<and> length (do_related d) \<le> 32 \<and>
     (list_all valid_key (sort (do_related d)) \<and> distinct_adj (sort (do_related d))) \<and> length (do_requires d) \<le> 16 \<and>
     (list_all (\<lambda>c. valid_key (dk_provider c) \<and> valid_key (dk_revision c)) (sort_key dk_provider (do_requires d)) \<and>
     distinct_adj (map dk_provider (sort_key dk_provider (do_requires d))))"

definition normal_document :: "document \<Rightarrow> document" where
  "normal_document d = (with_unix_lines d)\<lparr>do_related := sort (do_related d), do_requires := sort_key dk_provider (do_requires d)\<rparr>"

lemma with_unix_lines_other [simp]:
  "do_key (with_unix_lines d) = do_key d" "do_topic (with_unix_lines d) = do_topic d" "do_locale (with_unix_lines d) = do_locale d"
  "do_related (with_unix_lines d) = do_related d" "do_requires (with_unix_lines d) = do_requires d"
  "do_kind (with_unix_lines d) = do_kind d" "do_block (with_unix_lines d) = do_block d"
  by (simp_all add: with_unix_lines_def)

lemma canonical_document_Inr: "canonical_document i d = Inr e \<longleftrightarrow> document_ok d \<and> e = normal_document d"
  unfolding canonical_document_def document_ok_def normal_document_def Let_def guardR_eq_Inr not_not not_less length_sort
    with_unix_lines_other sum.inject by blast

lemma normal_document_again: "document_ok d \<Longrightarrow> document_ok (normal_document d) \<and> normal_document (normal_document d) = normal_document d"
proof -
  assume ok: "document_ok d"
  let ?e = "normal_document d"
  have l: "with_unix_lines ?e = ?e" by (simp add: normal_document_def with_unix_lines_def)
  have s: "sort (do_related ?e) = do_related ?e" "sort_key dk_provider (do_requires ?e) = do_requires ?e"
    by (simp_all add: normal_document_def)
  from ok have t: "list_all text_ok (doc_texts ?e)"
    by (simp add: document_ok_def normal_document_def with_unix_lines_def doc_texts_def unix_lines_text_ok)
  have f: "do_related ?e = sort (do_related d)" "do_requires ?e = sort_key dk_provider (do_requires d)" "do_kind ?e = do_kind d"
    "do_block ?e = do_block d" "do_key ?e = do_key d" "do_topic ?e = do_topic d" "do_locale ?e = do_locale d"
    by (simp_all add: normal_document_def)
  have "limits_ok ?e" using ok by (simp add: document_ok_def normal_document_def limits_ok_def)
  then have "document_ok ?e"
    unfolding document_ok_def [of ?e] l s using t ok unfolding f document_ok_def by simp
  moreover have "normal_document ?e = ?e" unfolding normal_document_def [of ?e] l s by simp
  ultimately show ?thesis by simp
qed

lemma canonical_documents:
  "mapR (\<lambda>(i, d). canonical_document i d) (enumerate n ds) = Inr es \<longleftrightarrow> list_all document_ok ds \<and> es = map normal_document ds"
  by (induction ds arbitrary: n es) (auto simp: canonical_document_Inr)

lemma canonical_package_Inr:
  "canonical_package p = Inr (q, raw) \<longleftrightarrow>
     (dp_format p = 1 \<and> valid_key (dp_provider p) \<and> valid_key (dp_revision p) \<and> valid_source_revision (dp_source p)) \<and>
     (dp_documents p \<noteq> [] \<and> length (dp_documents p) \<le> 64) \<and> list_all document_ok (dp_documents p) \<and>
     distinct_adj (map doc_identity (dp_documents q)) \<and> length raw \<le> 2097152 \<and>
     q = p\<lparr>dp_documents := sort_key doc_identity (map normal_document (dp_documents p))\<rparr> \<and> raw = write_json (package_json q)"
  unfolding canonical_package_def Let_def guardR_eq_Inr bindR_eq_Inr canonical_documents not_not de_Morgan_disj not_less sum.inject
  by (auto simp del: write_json.simps)

lemma canonical_package_fixed:
  assumes "canonical_package p = Inr (q, raw)"
  shows "canonical_package q = Inr (q, raw)"
proof -
  let ?es = "map normal_document (dp_documents p)"
  note A = assms [unfolded canonical_package_Inr]
  from A have q: "q = p\<lparr>dp_documents := sort_key doc_identity ?es\<rparr>" and ok: "list_all document_ok (dp_documents p)" by blast+
  have docs: "dp_documents q = sort_key doc_identity ?es" by (simp add: q)
  have again: "map normal_document (dp_documents q) = dp_documents q"
    using ok normal_document_again by (intro map_idI) (auto simp: docs list_all_iff)
  have okq: "list_all document_ok (dp_documents q)"
    using ok normal_document_again by (auto simp: docs list_all_iff)
  have sorted: "sort_key doc_identity (map normal_document (dp_documents q)) = dp_documents q" unfolding again by (simp add: docs)
  have len: "length (dp_documents q) = length (dp_documents p)" by (simp add: docs)
  have others: "dp_format q = dp_format p" "dp_provider q = dp_provider p" "dp_revision q = dp_revision p" "dp_source q = dp_source p"
    by (simp_all add: q)
  have ne: "dp_documents q = [] \<longleftrightarrow> dp_documents p = []" and self: "q = q\<lparr>dp_documents := dp_documents q\<rparr>"
    using len by auto
  from A okq self show ?thesis
    unfolding canonical_package_Inr sorted others len ne by blast
qed

lemma canonical_package_permuted:
  assumes "canonical_package p = Inr (q, raw)" "mset ds = mset (dp_documents p)"
  shows "canonical_package (p\<lparr>dp_documents := ds\<rparr>) = Inr (q, raw)"
proof -
  let ?es = "map normal_document (dp_documents p)"
  note A = assms(1) [unfolded canonical_package_Inr]
  from A have q: "q = p\<lparr>dp_documents := sort_key doc_identity ?es\<rparr>" and adj: "distinct_adj (map doc_identity (dp_documents q))" by blast+
  have docs: "dp_documents q = sort_key doc_identity ?es" by (simp add: q)
  have "sorted (map doc_identity (dp_documents q))" by (simp add: docs)
  from sorted_distinct_adj [OF this adj] have inj: "inj_on doc_identity (set ?es)" by (simp add: docs distinct_map)
  have "mset ?es = mset (map normal_document ds)" using assms(2) by simp
  then have s: "sort_key doc_identity (map normal_document ds) = sort_key doc_identity ?es"
    using sort_key_eq_sort_key [of ?es "map normal_document ds" doc_identity] inj by simp
  have "set ds = set (dp_documents p)" "length ds = length (dp_documents p)"
    using assms(2) by (metis set_mset_mset, metis size_mset)
  with A show ?thesis unfolding canonical_package_Inr using s by (auto simp: list_all_iff simp del: write_json.simps)
qed

text \<open>
  C28. A canonical package is its own canonical form, with the same bytes (and so the same digest), and the order
  of the documents given in does not matter.\<close>

theorem canonical_package_normal:
  assumes "canonical_package p = Inr (q, raw)"
  shows "canonical_package q = Inr (q, raw) \<and>
    (\<forall>ds. mset ds = mset (dp_documents p) \<longrightarrow> canonical_package (p\<lparr>dp_documents := ds\<rparr>) = Inr (q, raw))"
  using assms by (simp add: canonical_package_fixed canonical_package_permuted)

definition document_example :: document where
  "document_example = \<lparr>do_key = ''guide'', do_topic = ''start'', do_locale = ''en'', do_title = ''T'', do_summary = ''S'',
     do_common = [CHR ''a'', CHR 0x0D, CHR 0x0A, CHR ''b''], do_human = [], do_agent = ''x'', do_related = [], do_requires = [],
     do_kind = ''overview'', do_block = []\<rparr>"

definition package_example :: doc_package where
  "package_example = \<lparr>dp_format = 1, dp_provider = ''p'', dp_revision = ''r'', dp_source = replicate 40 CHR ''0'', dp_documents = [document_example]\<rparr>"

lemma example_ok:
  "document_ok document_example"
  "normal_document document_example = document_example\<lparr>do_common := [CHR ''a'', CHR 0x0A, CHR ''b'']\<rparr>"
  by (simp_all add: document_ok_def normal_document_def document_example_def valid_document_relation_def valid_key_def valid_locale_def alnum_def
      lower_letter_def is_digit_def doc_texts_def text_ok_def valid_utf8_def limits_ok_def with_unix_lines_def unix_lines_Cons
      trim_space_def is_space_rune_def)

lemma package_example_canonical:
  "canonical_package package_example = Inr (package_example\<lparr>dp_documents := [document_example\<lparr>do_common := [CHR ''a'', CHR 0x0A, CHR ''b'']\<rparr>]\<rparr>,
     write_json (package_json (package_example\<lparr>dp_documents := [document_example\<lparr>do_common := [CHR ''a'', CHR 0x0A, CHR ''b'']\<rparr>]\<rparr>)))"
proof -
  have "length (quote_string [CHR ''a'', CHR 0x0A, CHR ''b'']) = 6" by (simp add: quote_string_def escape_chunk_def)
  then have "length (write_json (package_json (package_example\<lparr>dp_documents := [document_example\<lparr>do_common := [CHR ''a'', CHR 0x0A, CHR ''b'']\<rparr>]\<rparr>))) \<le> 2097152"
    by (simp add: package_json_def document_json_def package_example_def document_example_def optional_str_def quote_plain plain_def plain_char_def
        format_int_def list_all_iff itoa.simps [of "Suc 0"] digit_char_def)
  moreover have "valid_key ''p''" "valid_key ''r''" "valid_source_revision (replicate 40 CHR ''0'')"
    by (simp_all add: valid_key_def alnum_def lower_letter_def is_digit_def valid_source_revision_def lower_hex_char_def list_all_iff)
  ultimately show ?thesis
    unfolding canonical_package_Inr by (simp add: package_example_def example_ok doc_identity_def del: write_json.simps)
qed

theorem canonical_package_normal_witness:
  "\<exists>q raw. canonical_package package_example = Inr (q, raw) \<and> canonical_package q = Inr (q, raw) \<and> q \<noteq> package_example"
proof -
  have "package_example\<lparr>dp_documents := [document_example\<lparr>do_common := [CHR ''a'', CHR 0x0A, CHR ''b'']\<rparr>]\<rparr> \<noteq> package_example"
    by (simp add: package_example_def document_example_def)
  with canonical_package_normal [OF package_example_canonical] package_example_canonical show ?thesis by blast
qed

end
