(* ===== verification/DocPublish.thy ===== *)
theory DocPublish
  imports DocPackage
begin

text \<open>
  \<open>src/documentation/publish.go\<close> with the methods of \<open>client.go\<close> it uses: the publication of one immutable package.

  The service behind the HTTP calls is an argument, a record of functions on its state: each call gives an error or
  what the JSON of the answer decodes to, and a new state (which other publishers may have changed as well). SHA-256
  is an argument.
\<close>

subsection \<open>The service\<close>

datatype api_error = ApiStatus int string | ApiFailed

record doc_channel =
  ch_provider :: string
  ch_contract :: string
  ch_digest :: string
  ch_revision :: int
  ch_updated_at :: time

record doc_receipt =
  re_operation :: string
  re_channel :: doc_channel
  re_current :: "doc_channel option"

record doc_catalog =
  ca_channel :: doc_channel
  ca_source_revision :: string

record catalog_request =
  cq_provider :: string
  cq_contract :: string
  cq_locale :: string
  cq_limit :: int

record current_catalog_request =
  cc_provider :: string
  cc_locale :: string
  cc_limit :: int

record activate_request =
  aq_digest :: string
  aq_contract :: string
  aq_expected :: int
  aq_operation :: string
  aq_expected_current :: "int option"

record upload_result =
  ur_provider :: string
  ur_digest :: string
  ur_contract :: string

record 's doc_api =
  api_receipt :: "string \<Rightarrow> 's \<Rightarrow> (api_error, doc_receipt) go_result \<times> 's"
  api_upload :: "string \<Rightarrow> 's \<Rightarrow> (api_error, upload_result) go_result \<times> 's"
  api_catalog :: "catalog_request \<Rightarrow> 's \<Rightarrow> (api_error, doc_catalog) go_result \<times> 's"
  api_current :: "current_catalog_request \<Rightarrow> 's \<Rightarrow> (api_error, doc_catalog) go_result \<times> 's"
  api_activate :: "activate_request \<Rightarrow> 's \<Rightarrow> (api_error, doc_receipt) go_result \<times> 's"

record publication =
  pb_provider :: string
  pb_source :: string
  pb_sequence :: int

text \<open>Sequencing with an early return on an error, and the wrapping of an error.\<close>

definition bindS :: "('s \<Rightarrow> ('e, 'a) go_result \<times> 's) \<Rightarrow> ('a \<Rightarrow> 's \<Rightarrow> ('e, 'b) go_result \<times> 's) \<Rightarrow> 's \<Rightarrow> ('e, 'b) go_result \<times> 's" where
  "bindS m k s = (case m s of (Inl e, s) \<Rightarrow> (Inl e, s) | (Inr a, s) \<Rightarrow> k a s)"

definition wrapS :: "('e \<Rightarrow> 'f) \<Rightarrow> ('s \<Rightarrow> ('e, 'a) go_result \<times> 's) \<Rightarrow> 's \<Rightarrow> ('f, 'a) go_result \<times> 's" where
  "wrapS w m s = (case m s of (Inl e, s) \<Rightarrow> (Inl (w e), s) | (Inr a, s) \<Rightarrow> (Inr a, s))"

definition returnS :: "('e, 'a) go_result \<Rightarrow> 's \<Rightarrow> ('e, 'a) go_result \<times> 's" where
  "returnS r s = (r, s)"

subsection \<open>Publishing\<close>

datatype publish_error =
    PackageRefused package_error
  | PublicationDiffers
  | InvalidOperation
  | IntegrationRequired
  | ReceiptMismatch
  | ReceiptMode
  | VerifyActive api_error
  | NotActive
  | CurrentReceiptMismatch
  | VerifyCurrent api_error
  | NotCurrent
  | RecoverFailed api_error
  | UploadFailed api_error
  | UploadMismatch
  | ReadChannel api_error
  | ChannelMismatch
  | ReadCurrent api_error
  | CurrentMismatch
  | ActivationUnconfirmed api_error

definition api_status :: "api_error \<Rightarrow> int \<Rightarrow> bool" where
  "api_status e st = (case e of ApiStatus s _ \<Rightarrow> s = st | ApiFailed \<Rightarrow> False)"

definition valid_operation :: "string \<Rightarrow> bool" where
  "valid_operation oper \<longleftrightarrow> valid_key oper \<and> CHR ''/'' \<notin> set oper"

definition check_publication_package :: "publication option \<Rightarrow> doc_package \<Rightarrow> bool" where
  "check_publication_package pub p \<longleftrightarrow> (case pub of None \<Rightarrow> True
     | Some b \<Rightarrow> pb_provider b = dp_provider p \<and> pb_source b = dp_source p)"

definition client_receipt :: "'s doc_api \<Rightarrow> string \<Rightarrow> 's \<Rightarrow> (api_error, doc_receipt) go_result \<times> 's" where
  "client_receipt api oper = (if \<not> valid_operation oper then returnS (Inl ApiFailed) else api_receipt api oper)"

definition client_upload :: "(string \<Rightarrow> string) \<Rightarrow> publication option \<Rightarrow> 's doc_api \<Rightarrow> doc_package \<Rightarrow> 's \<Rightarrow> (publish_error, upload_result) go_result \<times> 's" where
  "client_upload sha pub api p = (case canonical_package p of
     Inl e \<Rightarrow> returnS (Inl (PackageRefused e))
   | Inr (q, raw) \<Rightarrow>
      if \<not> check_publication_package pub q then returnS (Inl PublicationDiffers)
      else bindS (wrapS UploadFailed (api_upload api raw)) (\<lambda>out. returnS
        (if ur_provider out \<noteq> dp_provider q \<or> ur_contract out \<noteq> dp_revision q \<or> ur_digest out \<noteq> hex_string (sha raw)
         then Inl UploadMismatch else Inr out)))"

definition catalog_of :: "doc_package \<Rightarrow> catalog_request" where
  "catalog_of p = \<lparr>cq_provider = dp_provider p, cq_contract = dp_revision p, cq_locale = do_locale (hd (dp_documents p)), cq_limit = 1\<rparr>"

definition current_catalog_of :: "doc_package \<Rightarrow> current_catalog_request" where
  "current_catalog_of p = \<lparr>cc_provider = dp_provider p, cc_locale = do_locale (hd (dp_documents p)), cc_limit = 1\<rparr>"

definition same_channel :: "doc_package \<Rightarrow> string \<Rightarrow> doc_channel \<Rightarrow> bool" where
  "same_channel p digest ch \<longleftrightarrow> ch_provider ch = dp_provider p \<and> ch_contract ch = dp_revision p \<and> ch_digest ch = digest"

text \<open>The closure \<open>check\<close>: the receipt is ours, and what it activated is what the catalogs serve.\<close>

definition check_receipt :: "'s doc_api \<Rightarrow> bool \<Rightarrow> doc_package \<Rightarrow> string \<Rightarrow> string \<Rightarrow> doc_receipt \<Rightarrow> 's \<Rightarrow> (publish_error, doc_receipt) go_result \<times> 's" where
  "check_receipt api current p digest oper receipt =
     (if re_operation receipt \<noteq> oper \<or> \<not> same_channel p digest (re_channel receipt) \<or> ch_revision (re_channel receipt) < 1
      then returnS (Inl ReceiptMismatch)
      else if (re_current receipt \<noteq> None) \<noteq> current then returnS (Inl ReceiptMode)
      else bindS (wrapS VerifyActive (api_catalog api (catalog_of p))) (\<lambda>catalog.
        if \<not> same_channel p digest (ca_channel catalog) \<or> ch_revision (ca_channel catalog) \<noteq> ch_revision (re_channel receipt) \<or>
           ca_source_revision catalog \<noteq> dp_source p
        then returnS (Inl NotActive)
        else (case re_current receipt of
            None \<Rightarrow> returnS (Inr receipt)
          | Some ch \<Rightarrow>
              if \<not> same_channel p digest ch \<or> ch_revision ch < 1 then returnS (Inl CurrentReceiptMismatch)
              else bindS (wrapS VerifyCurrent (api_current api (current_catalog_of p))) (\<lambda>active. returnS
                (if \<not> same_channel p digest (ca_channel active) \<or> ch_revision (ca_channel active) \<noteq> ch_revision ch \<or>
                    ca_source_revision active \<noteq> dp_source p
                 then Inl NotCurrent else Inr receipt)))))"

text \<open>The revision a channel has before the activation, 0 without a channel.\<close>

definition channel_revision :: "(api_error \<Rightarrow> publish_error) \<Rightarrow> publish_error \<Rightarrow> (doc_channel \<Rightarrow> bool) \<Rightarrow> ('s \<Rightarrow> (api_error, doc_catalog) go_result \<times> 's) \<Rightarrow>
    's \<Rightarrow> (publish_error, int) go_result \<times> 's" where
  "channel_revision unread mismatch ok read s = (case read s of
     (Inr catalog, s) \<Rightarrow> if \<not> ok (ca_channel catalog) \<or> ch_revision (ca_channel catalog) < 1 \<or> \<not> valid_package_digest (ch_digest (ca_channel catalog))
       then (Inl mismatch, s) else (Inr (ch_revision (ca_channel catalog)), s)
   | (Inl e, s) \<Rightarrow> if api_status e 404 then (Inr 0, s) else (Inl (unread e), s))"

definition activate_package :: "'s doc_api \<Rightarrow> bool \<Rightarrow> doc_package \<Rightarrow> string \<Rightarrow> string \<Rightarrow> 's \<Rightarrow> (publish_error, doc_receipt) go_result \<times> 's" where
  "activate_package api current p digest oper =
     bindS (channel_revision ReadChannel ChannelMismatch
         (\<lambda>ch. ch_provider ch = dp_provider p \<and> ch_contract ch = dp_revision p) (api_catalog api (catalog_of p))) (\<lambda>expected.
     bindS (if current then (\<lambda>s. case channel_revision ReadCurrent CurrentMismatch
           (\<lambda>ch. ch_provider ch = dp_provider p \<and> valid_key (ch_contract ch)) (api_current api (current_catalog_of p)) s of
              (r, s) \<Rightarrow> (map_sum id Some r, s)) else returnS (Inr None)) (\<lambda>expected_current.
     (\<lambda>s. case api_activate api \<lparr>aq_digest = digest, aq_contract = dp_revision p, aq_expected = expected, aq_operation = oper,
            aq_expected_current = expected_current\<rparr> s of
        (Inr receipt, s) \<Rightarrow> check_receipt api current p digest oper receipt s
      | (Inl e, s) \<Rightarrow> (case client_receipt api oper s of
           (Inr recovered, s) \<Rightarrow> check_receipt api current p digest oper recovered s
         | (Inl _, s) \<Rightarrow> (Inl (ActivationUnconfirmed e), s)))))"

definition publish_package :: "(string \<Rightarrow> string) \<Rightarrow> publication option \<Rightarrow> 's doc_api \<Rightarrow> bool \<Rightarrow> bool \<Rightarrow> doc_package \<Rightarrow> string \<Rightarrow>
    's \<Rightarrow> (publish_error, doc_receipt) go_result \<times> 's" where
  "publish_package sha pub api upload current p oper s = (case canonical_package p of
     Inl e \<Rightarrow> (Inl (PackageRefused e), s)
   | Inr (p, raw) \<Rightarrow>
      if \<not> check_publication_package pub p then (Inl PublicationDiffers, s)
      else if \<not> valid_operation oper then (Inl InvalidOperation, s)
      else if current \<and> integration_provider_id (dp_provider p) = None then (Inl IntegrationRequired, s)
      else let digest = hex_string (sha raw) in
        (case client_receipt api oper s of
           (Inr receipt, s) \<Rightarrow> check_receipt api current p digest oper receipt s
         | (Inl e, s) \<Rightarrow>
             if \<not> api_status e 404 then (Inl (RecoverFailed e), s)
             else if upload then bindS (client_upload sha pub api p) (\<lambda>_. activate_package api current p digest oper) s
             else activate_package api current p digest oper s))"

subsection \<open>The calls a publication makes\<close>

datatype api_call =
    CallReceipt string
  | CallUpload string
  | CallCatalog catalog_request
  | CallCurrent current_catalog_request
  | CallActivate activate_request

text \<open>The service with a log of the calls.\<close>

definition logging :: "'c \<Rightarrow> ('s \<Rightarrow> 'r \<times> 's) \<Rightarrow> 's \<times> 'c list \<Rightarrow> 'r \<times> 's \<times> 'c list" where
  "logging c f = (\<lambda>(s, l). case f s of (r, s) \<Rightarrow> (r, s, l @ [c]))"

definition logged :: "'s doc_api \<Rightarrow> ('s \<times> api_call list) doc_api" where
  "logged api = \<lparr>api_receipt = (\<lambda>oper. logging (CallReceipt oper) (api_receipt api oper)),
     api_upload = (\<lambda>raw. logging (CallUpload raw) (api_upload api raw)),
     api_catalog = (\<lambda>q. logging (CallCatalog q) (api_catalog api q)),
     api_current = (\<lambda>q. logging (CallCurrent q) (api_current api q)),
     api_activate = (\<lambda>a. logging (CallActivate a) (api_activate api a))\<rparr>"

fun activations :: "api_call list \<Rightarrow> activate_request list" where
  "activations [] = []"
| "activations (CallActivate a # cs) = a # activations cs"
| "activations (_ # cs) = activations cs"

fun uploads :: "api_call list \<Rightarrow> string list" where
  "uploads [] = []"
| "uploads (CallUpload raw # cs) = raw # uploads cs"
| "uploads (_ # cs) = uploads cs"

lemma activations_append [simp]: "activations (cs @ ds) = activations cs @ activations ds"
  by (induction cs rule: activations.induct) simp_all

lemma uploads_append [simp]: "uploads (cs @ ds) = uploads cs @ uploads ds"
  by (induction cs rule: uploads.induct) simp_all

text \<open>\<open>performs m P\<close>: every run of \<open>m\<close> appends calls to the log that satisfy \<open>P\<close> together with the result.\<close>

definition performs :: "('s \<times> 'c list \<Rightarrow> 'r \<times> 's \<times> 'c list) \<Rightarrow> ('c list \<Rightarrow> 'r \<Rightarrow> bool) \<Rightarrow> bool" where
  "performs m P \<longleftrightarrow> (\<forall>s l r s' l'. m (s, l) = (r, s', l') \<longrightarrow> (\<exists>cs. l' = l @ cs \<and> P cs r))"

named_theorems perform

lemma performs_mono: "performs m P \<Longrightarrow> (\<And>cs r. P cs r \<Longrightarrow> Q cs r) \<Longrightarrow> performs m Q"
  unfolding performs_def by blast

lemma performs_run: "performs m P \<Longrightarrow> m (s, l) = (r, s', l') \<Longrightarrow> \<exists>cs. l' = l @ cs \<and> P cs r"
  unfolding performs_def by blast

lemma performs_return [perform]: "P [] r \<Longrightarrow> performs (returnS r) P"
  by (simp add: performs_def returnS_def)

lemma performs_logging: "(\<And>s r s'. f s = (r, s') \<Longrightarrow> P [c] r) \<Longrightarrow> performs (logging c f) P"
  by (auto simp: performs_def logging_def split: prod.split)

lemma performs_wrap:
  assumes "performs m (\<lambda>cs r. P cs (map_sum w id r))"
  shows "performs (wrapS w m) P"
  unfolding performs_def
proof (intro allI impI)
  fix s l r s' l'
  assume run: "wrapS w m (s, l) = (r, s', l')"
  obtain r1 s1 l1 where 1: "m (s, l) = (r1, s1, l1)" by (cases "m (s, l)")
  with run have "r = map_sum w id r1" "l' = l1" by (auto simp: wrapS_def split: sum.splits)
  with performs_run [OF assms 1] show "\<exists>cs. l' = l @ cs \<and> P cs r" by blast
qed

lemma performs_bind:
  assumes "performs m (\<lambda>cs r. case r of Inl e \<Rightarrow> P cs (Inl e) | Inr a \<Rightarrow> performs (k a) (\<lambda>ds. P (cs @ ds)))"
  shows "performs (bindS m k) P"
  unfolding performs_def
proof (intro allI impI)
  fix s l r s' l'
  assume run: "bindS m k (s, l) = (r, s', l')"
  obtain r1 s1 l1 where 1: "m (s, l) = (r1, s1, l1)" by (cases "m (s, l)")
  from performs_run [OF assms 1] obtain cs where cs: "l1 = l @ cs"
    "case r1 of Inl e \<Rightarrow> P cs (Inl e) | Inr a \<Rightarrow> performs (k a) (\<lambda>ds. P (cs @ ds))" by blast
  show "\<exists>cs. l' = l @ cs \<and> P cs r"
  proof (cases r1)
    case (Inl e)
    with run 1 cs show ?thesis by (auto simp: bindS_def)
  next
    case (Inr a)
    with run 1 have "k a (s1, l1) = (r, s', l')" by (simp add: bindS_def)
    moreover have "performs (k a) (\<lambda>ds. P (cs @ ds))" using cs Inr by simp
    ultimately obtain ds where "l' = l1 @ ds" "P (cs @ ds) r" using performs_run [of "k a"] by meson
    with cs(1) show ?thesis by auto
  qed
qed

subsection \<open>Safety\<close>

text \<open>What a confirmed publication rests on: the catalogs answered with the channel of the receipt.\<close>

definition served :: "('q \<Rightarrow> 's \<Rightarrow> (api_error, doc_catalog) go_result \<times> 's) \<Rightarrow> 'q \<Rightarrow> doc_package \<Rightarrow> string \<Rightarrow> doc_channel \<Rightarrow> bool" where
  "served call q p digest ch \<longleftrightarrow> (\<exists>s s' catalog. call q s = (Inr catalog, s') \<and> same_channel p digest (ca_channel catalog) \<and>
     ch_revision (ca_channel catalog) = ch_revision ch \<and> ca_source_revision catalog = dp_source p)"

definition confirmed :: "'s doc_api \<Rightarrow> bool \<Rightarrow> doc_package \<Rightarrow> string \<Rightarrow> string \<Rightarrow> doc_receipt \<Rightarrow> bool" where
  "confirmed api current p digest oper receipt \<longleftrightarrow> re_operation receipt = oper \<and> same_channel p digest (re_channel receipt) \<and>
     1 \<le> ch_revision (re_channel receipt) \<and> served (api_catalog api) (catalog_of p) p digest (re_channel receipt) \<and>
     (case re_current receipt of None \<Rightarrow> \<not> current
      | Some ch \<Rightarrow> current \<and> same_channel p digest ch \<and> served (api_current api) (current_catalog_of p) p digest ch)"

definition quiet :: "api_call list \<Rightarrow> bool" where
  "quiet cs \<longleftrightarrow> activations cs = [] \<and> uploads cs = []"

lemma quiet_simps [simp]:
  "quiet []" "quiet (cs @ ds) \<longleftrightarrow> quiet cs \<and> quiet ds" "quiet [CallReceipt oper]" "quiet [CallCatalog q]" "quiet [CallCurrent c]"
  by (auto simp: quiet_def)

lemma logged_simps [simp]:
  "api_receipt (logged api) oper = logging (CallReceipt oper) (api_receipt api oper)"
  "api_upload (logged api) raw = logging (CallUpload raw) (api_upload api raw)"
  "api_catalog (logged api) q = logging (CallCatalog q) (api_catalog api q)"
  "api_current (logged api) c = logging (CallCurrent c) (api_current api c)"
  "api_activate (logged api) a = logging (CallActivate a) (api_activate api a)"
  by (simp_all add: logged_def)

lemma performs_call:
  "performs (logging c f) (\<lambda>cs r. cs = [c] \<and> (\<forall>a. r = Inr a \<longrightarrow> (\<exists>s s'. f s = (Inr a, s'))))"
  by (rule performs_logging) auto

lemma performs_bind_call:
  fixes f :: "'s \<Rightarrow> ('e, 'a) go_result \<times> 's" and w :: "'e \<Rightarrow> 'f"
  assumes "\<And>e. P [c] (Inl (w e))" "\<And>a s s'. f s = (Inr a, s') \<Longrightarrow> performs (k a) (\<lambda>ds. P (c # ds))"
  shows "performs (bindS (wrapS w (logging c f)) k) P"
proof (rule performs_bind, rule performs_wrap, rule performs_mono [OF performs_call])
  fix cs and r :: "('e, 'a) go_result"
  assume "cs = [c] \<and> (\<forall>a. r = Inr a \<longrightarrow> (\<exists>s s'. f s = (Inr a, s')))"
  with assms show "case map_sum w id r of Inl e \<Rightarrow> P cs (Inl e) | Inr a \<Rightarrow> performs (k a) (\<lambda>ds. P (cs @ ds))"
    by (cases r) auto
qed

lemma check_receipt_performs:
  "performs (check_receipt (logged api) current p digest oper receipt)
     (\<lambda>cs r. quiet cs \<and> (\<forall>re. r = Inr re \<longrightarrow> re = receipt \<and> confirmed api current p digest oper receipt))" (is "performs _ ?P")
proof (cases "re_operation receipt \<noteq> oper \<or> \<not> same_channel p digest (re_channel receipt) \<or> ch_revision (re_channel receipt) < 1 \<or>
    (re_current receipt \<noteq> None) \<noteq> current")
  case True
  then show ?thesis by (auto simp: check_receipt_def intro: performs_return)
next
  case False
  let ?A = "\<lambda>catalog. \<not> same_channel p digest (ca_channel catalog) \<or> ch_revision (ca_channel catalog) \<noteq> ch_revision (re_channel receipt) \<or>
    ca_source_revision catalog \<noteq> dp_source p"
  let ?B = "\<lambda>ch active. \<not> same_channel p digest (ca_channel active) \<or> ch_revision (ca_channel active) \<noteq> ch_revision ch \<or>
    ca_source_revision active \<noteq> dp_source p"
  have last: "performs (bindS (wrapS VerifyCurrent (logging (CallCurrent c) (api_current api c))) (\<lambda>active. returnS
      (if ?B ch active then Inl NotCurrent else Inr receipt))) (\<lambda>ds. ?P (CallCatalog q # ds))"
    if "served (api_current api) c p digest ch \<Longrightarrow> confirmed api current p digest oper receipt" for c q ch
    by (rule performs_bind_call; (intro performs_return)?) (use that in \<open>auto simp: quiet_def served_def\<close>)
  have inner: "performs (if ?A catalog then returnS (Inl NotActive) else (case re_current receipt of
            None \<Rightarrow> returnS (Inr receipt)
          | Some ch \<Rightarrow> if \<not> same_channel p digest ch \<or> ch_revision ch < 1 then returnS (Inl CurrentReceiptMismatch)
              else bindS (wrapS VerifyCurrent (logging (CallCurrent (current_catalog_of p)) (api_current api (current_catalog_of p))))
                (\<lambda>active. returnS (if ?B ch active then Inl NotCurrent else Inr receipt)))) (\<lambda>ds. ?P (CallCatalog q # ds))"
    if "api_catalog api (catalog_of p) s = (Inr catalog, s')" for catalog s s' q
  proof (cases "?A catalog")
    case True
    show ?thesis unfolding if_P [OF True] by (rule performs_return) (simp add: quiet_def)
  next
    case B: False
    then have "served (api_catalog api) (catalog_of p) p digest (re_channel receipt)" using that unfolding served_def by blast
    then have c: "confirmed api current p digest oper receipt" if "re_current receipt = None \<or> (\<exists>ch. re_current receipt = Some ch \<and>
        same_channel p digest ch \<and> served (api_current api) (current_catalog_of p) p digest ch)"
      using False that by (auto simp: confirmed_def)
    show ?thesis
    proof (cases "re_current receipt")
      case None
      with c show ?thesis unfolding if_not_P [OF B] by (simp add: performs_return quiet_def)
    next
      case (Some ch)
      show ?thesis
      proof (cases "same_channel p digest ch \<and> \<not> ch_revision ch < 1")
        case True
        then have ok: "\<not> (\<not> same_channel p digest ch \<or> ch_revision ch < 1)" by blast
        from c Some True have "performs (bindS (wrapS VerifyCurrent (logging (CallCurrent (current_catalog_of p)) (api_current api (current_catalog_of p))))
            (\<lambda>active. returnS (if ?B ch active then Inl NotCurrent else Inr receipt))) (\<lambda>ds. ?P (CallCatalog q # ds))"
          by (intro last) blast
        then show ?thesis unfolding if_not_P [OF B] Some option.case if_not_P [OF ok] .
      next
        case False
        then show ?thesis unfolding if_not_P [OF B] Some by (auto simp: performs_return quiet_def)
      qed
    qed
  qed
  have first: "\<not> (re_operation receipt \<noteq> oper \<or> \<not> same_channel p digest (re_channel receipt) \<or> ch_revision (re_channel receipt) < 1)"
    and mode: "\<not> (re_current receipt \<noteq> None) \<noteq> current"
    using False by blast+
  show ?thesis
    unfolding check_receipt_def logged_simps if_not_P [OF first] if_not_P [OF mode]
    by (rule performs_bind_call, simp add: quiet_def, rule inner)
qed

text \<open>What an activation asks for, and the calls of a run that activates at most once and uploads nothing.\<close>

definition requests :: "bool \<Rightarrow> doc_package \<Rightarrow> string \<Rightarrow> string \<Rightarrow> activate_request \<Rightarrow> bool" where
  "requests current p digest oper a \<longleftrightarrow> aq_digest a = digest \<and> aq_contract a = dp_revision p \<and> aq_operation a = oper \<and> 0 \<le> aq_expected a \<and>
     (case aq_expected_current a of None \<Rightarrow> \<not> current | Some n \<Rightarrow> current \<and> 0 \<le> n)"

definition at_most :: "('a \<Rightarrow> bool) \<Rightarrow> 'a list \<Rightarrow> bool" where
  "at_most P xs \<longleftrightarrow> xs = [] \<or> (\<exists>a. xs = [a] \<and> P a)"

lemma performs_channel_revision:
  assumes "\<And>e. P [c] (Inl e)" "\<And>n. 0 \<le> n \<Longrightarrow> P [c] (Inr n)"
  shows "performs (channel_revision u m ok (logging c f)) P"
  unfolding performs_def
proof (intro allI impI)
  fix s l r s' l'
  assume run: "channel_revision u m ok (logging c f) (s, l) = (r, s', l')"
  obtain r1 s1 where "f s = (r1, s1)" by (cases "f s")
  with run have "l' = l @ [c] \<and> (case r of Inl e \<Rightarrow> True | Inr n \<Rightarrow> 0 \<le> n)"
    by (auto simp: channel_revision_def logging_def split: sum.splits if_splits)
  with assms show "\<exists>cs. l' = l @ cs \<and> P cs r" by (cases r) auto
qed

definition activation_run :: "'s doc_api \<Rightarrow> bool \<Rightarrow> doc_package \<Rightarrow> string \<Rightarrow> string \<Rightarrow> api_call list \<Rightarrow> (publish_error, doc_receipt) go_result \<Rightarrow> bool" where
  "activation_run api current p digest oper cs r \<longleftrightarrow> uploads cs = [] \<and> at_most (requests current p digest oper) (activations cs) \<and>
     (\<forall>re. r = Inr re \<longrightarrow> confirmed api current p digest oper re)"

lemma activation_run_first:
  "c \<in> {CallCatalog q, CallCurrent w} \<Longrightarrow> activation_run api current p digest oper (c # cs) = activation_run api current p digest oper cs"
  by (auto simp: activation_run_def fun_eq_iff)

lemma activate_call_performs:
  assumes "requests current p digest oper a"
  shows "performs (\<lambda>s. case api_activate (logged api) a s of
        (Inr receipt, s) \<Rightarrow> check_receipt (logged api) current p digest oper receipt s
      | (Inl e, s) \<Rightarrow> (case client_receipt (logged api) oper s of
           (Inr recovered, s) \<Rightarrow> check_receipt (logged api) current p digest oper recovered s
         | (Inl _, s) \<Rightarrow> (Inl (ActivationUnconfirmed e), s))) (activation_run api current p digest oper)"
  unfolding performs_def
proof (intro allI impI)
  fix s l r s' l'
  assume run: "(case api_activate (logged api) a (s, l) of
        (Inr receipt, s) \<Rightarrow> check_receipt (logged api) current p digest oper receipt s
      | (Inl e, s) \<Rightarrow> (case client_receipt (logged api) oper s of
           (Inr recovered, s) \<Rightarrow> check_receipt (logged api) current p digest oper recovered s
         | (Inl _, s) \<Rightarrow> (Inl (ActivationUnconfirmed e), s))) = (r, s', l')"
  obtain r1 s1 where 1: "api_activate (logged api) a (s, l) = (r1, s1, l @ [CallActivate a])"
    by (cases "api_activate api a s") (auto simp: logging_def)
  have checked: "\<exists>cs. l' = k @ cs \<and> quiet cs \<and> (\<forall>re. r = Inr re \<longrightarrow> confirmed api current p digest oper re)"
    if "check_receipt (logged api) current p digest oper receipt (x, k) = (r, s', l')" for receipt x k
    using performs_run [OF check_receipt_performs that] by blast
  show "\<exists>cs. l' = l @ cs \<and> activation_run api current p digest oper cs r"
  proof (cases r1)
    case (Inr receipt)
    with run 1 have "check_receipt (logged api) current p digest oper receipt (s1, l @ [CallActivate a]) = (r, s', l')"
      by (simp del: logged_simps)
    from checked [OF this] obtain cs where "l' = (l @ [CallActivate a]) @ cs" "quiet cs"
      "\<forall>re. r = Inr re \<longrightarrow> confirmed api current p digest oper re" by blast
    then show ?thesis using assms by (intro exI [of _ "CallActivate a # cs"]) (simp add: activation_run_def quiet_def at_most_def)
  next
    case (Inl e)
    obtain r2 s2 k2 where 2: "client_receipt (logged api) oper (s1, l @ [CallActivate a]) = (r2, s2, (l @ [CallActivate a]) @ k2)" "quiet k2"
    proof (cases "valid_operation oper")
      case True
      then show ?thesis using that [of _ _ "[CallReceipt oper]"]
        by (cases "api_receipt api oper s1") (auto simp: client_receipt_def logging_def)
    next
      case False
      then show ?thesis using that [of _ _ "[]"] by (auto simp: client_receipt_def returnS_def)
    qed
    show ?thesis
    proof (cases r2)
      case (Inr recovered)
      with run 1 2 Inl have "check_receipt (logged api) current p digest oper recovered (s2, (l @ [CallActivate a]) @ k2) = (r, s', l')"
        by (simp del: logged_simps)
      from checked [OF this] obtain cs where "l' = ((l @ [CallActivate a]) @ k2) @ cs" "quiet cs"
        "\<forall>re. r = Inr re \<longrightarrow> confirmed api current p digest oper re" by blast
      then show ?thesis using assms 2
        by (intro exI [of _ "CallActivate a # k2 @ cs"]) (simp add: activation_run_def quiet_def at_most_def)
    next
      case (Inl e2)
      with run 1 2 \<open>r1 = Inl e\<close> show ?thesis using assms
        by (intro exI [of _ "CallActivate a # k2"]) (auto simp: activation_run_def quiet_def at_most_def)
    qed
  qed
qed

lemma performs_map:
  assumes "performs m (\<lambda>cs r. P cs (h r))"
  shows "performs (\<lambda>s. case m s of (r, s) \<Rightarrow> (h r, s)) P"
  unfolding performs_def
proof (intro allI impI)
  fix s l r s' l'
  assume run: "(case m (s, l) of (r, s) \<Rightarrow> (h r, s)) = (r, s', l')"
  obtain r1 s1 l1 where 1: "m (s, l) = (r1, s1, l1)" by (cases "m (s, l)")
  with run have "r = h r1" "l' = l1" by auto
  with performs_run [OF assms 1] show "\<exists>cs. l' = l @ cs \<and> P cs r" by blast
qed

lemma activation_run_error: "activation_run api current p digest oper [CallCatalog q] (Inl e)"
  "activation_run api current p digest oper [CallCatalog q, CallCurrent w] (Inl e)"
  by (simp_all add: activation_run_def at_most_def)

lemma activate_package_performs:
  "performs (activate_package (logged api) current p digest oper) (activation_run api current p digest oper)"
proof -
  let ?call = "\<lambda>n m. (\<lambda>s. case api_activate (logged api) \<lparr>aq_digest = digest, aq_contract = dp_revision p, aq_expected = n, aq_operation = oper,
            aq_expected_current = m\<rparr> s of
        (Inr receipt, s) \<Rightarrow> check_receipt (logged api) current p digest oper receipt s
      | (Inl e, s) \<Rightarrow> (case client_receipt (logged api) oper s of
           (Inr recovered, s) \<Rightarrow> check_receipt (logged api) current p digest oper recovered s
         | (Inl _, s) \<Rightarrow> (Inl (ActivationUnconfirmed e), s)))"
  have call: "performs (?call n m) (\<lambda>ds. activation_run api current p digest oper (cs @ ds))"
    if "0 \<le> n" "case m of None \<Rightarrow> \<not> current | Some k \<Rightarrow> current \<and> 0 \<le> k" "cs = [CallCatalog q] \<or> cs = [CallCatalog q, CallCurrent w]"
    for n m cs q w
  proof -
    have "activation_run api current p digest oper (cs @ ds) = activation_run api current p digest oper ds" for ds
      using that(3) by (auto simp: activation_run_first)
    moreover have "performs (?call n m) (activation_run api current p digest oper)"
      by (rule activate_call_performs) (use that in \<open>simp add: requests_def\<close>)
    ultimately show ?thesis by simp
  qed
  show ?thesis
    unfolding activate_package_def
  proof (rule performs_bind, unfold logged_simps(3), rule performs_channel_revision; unfold sum.case)
    fix e show "activation_run api current p digest oper [CallCatalog (catalog_of p)] (Inl e)" by (rule activation_run_error)
  next
    fix n :: "int"
    assume n: "0 \<le> n"
    show "performs (bindS (if current then (\<lambda>s. case channel_revision ReadCurrent CurrentMismatch
           (\<lambda>ch. ch_provider ch = dp_provider p \<and> valid_key (ch_contract ch)) (api_current (logged api) (current_catalog_of p)) s of
              (r, s) \<Rightarrow> (map_sum id Some r, s)) else returnS (Inr None)) (\<lambda>m. ?call n m))
        (\<lambda>ds. activation_run api current p digest oper ([CallCatalog (catalog_of p)] @ ds))"
    proof (cases current)
      case True
      show ?thesis
        unfolding if_P [OF True]
      proof (rule performs_bind, rule performs_map, unfold logged_simps(4), rule performs_channel_revision; unfold map_sum.simps sum.case id_apply)
        fix e
        show "activation_run api current p digest oper ([CallCatalog (catalog_of p)] @ [CallCurrent (current_catalog_of p)]) (Inl e)"
          by (simp add: activation_run_error)
      next
        fix k :: "int"
        assume k: "0 \<le> k"
        then show "performs (?call n (Some k)) (\<lambda>ds. activation_run api current p digest oper
            ([CallCatalog (catalog_of p)] @ [CallCurrent (current_catalog_of p)] @ ds))"
          using call [OF n, of "Some k" "[CallCatalog (catalog_of p), CallCurrent (current_catalog_of p)]"] True by simp
      qed
    next
      case False
      show ?thesis unfolding if_not_P [OF False]
        by (rule performs_bind, rule performs_return, unfold sum.case append_Nil, rule call) (use n False in auto)
    qed
  qed
qed

lemma client_upload_performs:
  fixes sha :: "string \<Rightarrow> string"
  assumes "canonical_package q = Inr (q, raw)"
  shows "performs (client_upload sha pub (logged api) q) (\<lambda>cs r. activations cs = [] \<and> at_most (\<lambda>b. b = raw) (uploads cs) \<and> (isl r \<or> uploads cs \<noteq> []))"
  unfolding client_upload_def assms sum.case prod.case logged_simps
  by (auto intro!: performs_return performs_bind_call simp: at_most_def)

lemma published_performs:
  fixes sha :: "string \<Rightarrow> string"
  assumes "canonical_package q = Inr (q, raw)"
  defines "digest \<equiv> hex_string (sha raw)"
  shows "performs (\<lambda>s. if upload then bindS (client_upload sha pub (logged api) q) (\<lambda>_. activate_package (logged api) current q digest oper) s
      else activate_package (logged api) current q digest oper s)
    (\<lambda>cs r. at_most (requests current q digest oper) (activations cs) \<and> at_most (\<lambda>b. upload \<and> b = raw) (uploads cs) \<and>
      (activations cs = [] \<or> (upload \<longleftrightarrow> uploads cs \<noteq> [])) \<and> (\<forall>re. r = Inr re \<longrightarrow> confirmed api current q digest oper re))"
proof (cases upload)
  case True
  have "performs (bindS (client_upload sha pub (logged api) q) (\<lambda>_. activate_package (logged api) current q digest oper))
    (\<lambda>cs r. at_most (requests current q digest oper) (activations cs) \<and> at_most (\<lambda>b. b = raw) (uploads cs) \<and>
      (activations cs = [] \<or> uploads cs \<noteq> []) \<and> (\<forall>re. r = Inr re \<longrightarrow> confirmed api current q digest oper re))"
    by (rule performs_bind, rule performs_mono [OF client_upload_performs [OF assms(1)]])
      (auto simp: activation_run_def at_most_def split: sum.split intro!: performs_mono [OF activate_package_performs])
  with True show ?thesis by simp
next
  case False
  have "performs (activate_package (logged api) current q digest oper)
    (\<lambda>cs r. at_most (requests current q digest oper) (activations cs) \<and> uploads cs = [] \<and> (\<forall>re. r = Inr re \<longrightarrow> confirmed api current q digest oper re))"
    by (rule performs_mono [OF activate_package_performs]) (simp add: activation_run_def)
  with False show ?thesis by (auto elim!: performs_mono simp: at_most_def)
qed


definition sha_example :: "string \<Rightarrow> string" where
  "sha_example raw = replicate 32 CHR 0x00"

text \<open>A service with one channel, which keeps no receipts.\<close>

definition service_example :: "doc_channel option doc_api" where
  "service_example = \<lparr>api_receipt = (\<lambda>oper s. (Inl (ApiStatus 404 []), s)),
     api_upload = (\<lambda>raw s. (Inr \<lparr>ur_provider = ''p'', ur_digest = hex_string (sha_example raw), ur_contract = ''r''\<rparr>, s)),
     api_catalog = (\<lambda>q s. (case s of None \<Rightarrow> Inl (ApiStatus 404 [])
       | Some ch \<Rightarrow> Inr \<lparr>ca_channel = ch, ca_source_revision = replicate 40 CHR ''0''\<rparr>, s)),
     api_current = (\<lambda>q s. (Inl ApiFailed, s)),
     api_activate = (\<lambda>a s. let ch = \<lparr>ch_provider = ''p'', ch_contract = aq_contract a, ch_digest = aq_digest a,
         ch_revision = aq_expected a + 1, ch_updated_at = zero_time\<rparr> in
       (Inr \<lparr>re_operation = aq_operation a, re_channel = ch, re_current = None\<rparr>, Some ch))\<rparr>"


end
