(* ===== verification/DocClient.thy ===== *)
theory DocClient
  imports DocPublish LifecycleHttp
begin

text \<open>
  \<open>src/documentation/client.go\<close> and \<open>library.go\<close>: the construction of a client, one request to the service and the
  checks of what it reads. \<open>url.Parse\<close>, \<open>net.ParseIP\<close>, the HTTP exchange and what the JSON of an answer decodes to
  are arguments.
\<close>

subsection \<open>The client\<close>

record doc_config =
  dg_base :: string
  dg_disable_timeout :: bool
  dg_timeout :: duration
  dg_loopback_http :: bool
  dg_publication :: "publication option"

record doc_client =
  dc_base :: string
  dc_timeout :: duration
  dc_publication :: "publication option"

datatype doc_config_error = InvalidBase | HttpsRequired | InvalidTimeout | InvalidPublication

definition doc_new :: "(string \<Rightarrow> url option) \<Rightarrow> (string \<Rightarrow> bool) \<Rightarrow> doc_config \<Rightarrow> (doc_config_error, doc_client) go_result" where
  "doc_new parse_url loopback_ip cfg = (case parse_url (dg_base cfg) of
     None \<Rightarrow> Inl InvalidBase
   | Some u \<Rightarrow>
      guardR (u_host u = [] \<or> u_user u \<or> u_raw_query u \<noteq> [] \<or> u_fragment u \<noteq> []) InvalidBase
     (let loopback = u_hostname u = ''localhost'' \<or> loopback_ip (u_hostname u) in
      guardR (u_scheme u \<noteq> ''https'' \<and> \<not> (dg_loopback_http cfg \<and> loopback \<and> u_scheme u = ''http'')) HttpsRequired
     (guardR (dg_timeout cfg < 0) InvalidTimeout
     (let timeout = (if dg_disable_timeout cfg then 0 else if dg_timeout cfg = 0 then 10 * second else dg_timeout cfg) in
      guardR (case dg_publication cfg of None \<Rightarrow> False
        | Some b \<Rightarrow> \<not> valid_key (pb_provider b) \<or> \<not> valid_source_revision (pb_source b) \<or> pb_sequence b < 1) InvalidPublication
     (Inr \<lparr>dc_base = trim_right_char CHR ''/'' (dg_base cfg), dc_timeout = timeout, dc_publication = dg_publication cfg\<rparr>)))))"

datatype token_answer = NoTokenProvider | TokenFails | TokenIs string

datatype request_error =
    RequestTooLarge
  | BadRequestUrl
  | TokenProviderRequired
  | TokenProviderFailed
  | EmptyPublisherToken
  | ExchangeFailed
  | AnswerTooLarge
  | ApiProblem int string
  | DecodeAnswer
  | AnswerMismatch

record doc_http =
  dh_method :: string
  dh_url :: string
  dh_headers :: "(string \<times> string) list"
  dh_body :: string

definition publication_headers :: "publication option \<Rightarrow> (string \<times> string) list" where
  "publication_headers pub = (case pub of None \<Rightarrow> []
     | Some b \<Rightarrow> [(''X-Documentation-Provider'', pb_provider b), (''X-Documentation-Source-Revision'', pb_source b),
         (''X-Documentation-Release-Sequence'', format_int (pb_sequence b))])"

definition publisher_headers :: "doc_client \<Rightarrow> token_answer \<Rightarrow> (request_error, (string \<times> string) list) go_result" where
  "publisher_headers c tok = (case tok of
     NoTokenProvider \<Rightarrow> Inl TokenProviderRequired
   | TokenFails \<Rightarrow> Inl TokenProviderFailed
   | TokenIs t \<Rightarrow> if t = [] then Inl EmptyPublisherToken
       else Inr ((''Authorization'', ''Bearer '' @ t) # publication_headers (dc_publication c)))"

text \<open>The first half of \<open>request\<close>: what is sent. \<open>url_ok\<close> is whether \<open>http.NewRequest\<close> accepts the address.\<close>

definition doc_outgoing :: "(string \<Rightarrow> bool) \<Rightarrow> doc_client \<Rightarrow> token_answer \<Rightarrow> string \<Rightarrow> string \<Rightarrow> string \<Rightarrow> bool \<Rightarrow> (request_error, doc_http) go_result" where
  "doc_outgoing url_ok c tok http_method path content publish =
     guardR (2097152 < length content) RequestTooLarge
    (guardR (\<not> url_ok (dc_base c @ path)) BadRequestUrl
    (bindR (if publish then publisher_headers c tok else Inr []) (\<lambda>hs.
     Inr \<lparr>dh_method = http_method, dh_url = dc_base c @ path, dh_headers = (''Content-Type'', ''application/json'') # hs, dh_body = content\<rparr>)))"

text \<open>The second half: what comes back, \<open>None\<close> when the exchange or the reading of its body fails. \<open>problem\<close> is the code in the
  JSON of an error, the empty string without one.\<close>

definition response_limit :: "string \<Rightarrow> nat" where
  "response_limit path = (if path = ''/public/knowledge/library/read'' then 6 * 2097152 + 65536 else 3 * 1048576)"

definition doc_answer :: "(string \<Rightarrow> string) \<Rightarrow> (string \<Rightarrow> 'a option) \<Rightarrow> string \<Rightarrow> (int \<times> string) option \<Rightarrow> (request_error, 'a) go_result" where
  "doc_answer problem decode path answer = (case answer of
     None \<Rightarrow> Inl ExchangeFailed
   | Some (status, whole) \<Rightarrow>
      let raw = take (response_limit path + 1) whole in
      guardR (response_limit path < length raw) AnswerTooLarge
     (guardR (status < 200 \<or> 300 \<le> status) (ApiProblem status (problem raw))
     (case decode raw of None \<Rightarrow> Inl DecodeAnswer | Some a \<Rightarrow> Inr a)))"

definition doc_request :: "(string \<Rightarrow> bool) \<Rightarrow> (string \<Rightarrow> string) \<Rightarrow> (string \<Rightarrow> 'a option) \<Rightarrow> (doc_http \<Rightarrow> (int \<times> string) option) \<Rightarrow>
    doc_client \<Rightarrow> token_answer \<Rightarrow> string \<Rightarrow> string \<Rightarrow> string \<Rightarrow> bool \<Rightarrow> (request_error, 'a) go_result" where
  "doc_request url_ok problem decode send c tok http_method path content publish =
     bindR (doc_outgoing url_ok c tok http_method path content publish) (\<lambda>rq. doc_answer problem decode path (send rq))"

subsection \<open>Reading\<close>

record document_ref =
  rf_provider :: string
  rf_digest :: string
  rf_key :: string
  rf_locale :: string

record document_summary =
  ds_ref :: document_ref
  ds_topic :: string
  ds_title :: string
  ds_summary :: string
  ds_content :: string
  ds_related :: "string list"
  ds_requires :: "doc_contract list"
  ds_kind :: string
  ds_block :: string

record read_result =
  rr_fallback :: bool
  rr_document :: document_summary
  rr_contract :: string
  rr_source :: string
  rr_audience :: string
  rr_markdown :: string
  rr_content :: string

record library_ref =
  lf_source :: string
  lf_article :: string
  lf_revision :: int
  lf_package :: "document_ref option"

record library_document =
  ly_ref :: library_ref
  ly_provider :: string
  ly_topic :: string
  ly_locale :: string
  ly_title :: string
  ly_summary :: string
  ly_content :: string
  ly_requires :: "doc_contract list"
  ly_source :: string
  ly_integration :: string
  ly_kind :: string
  ly_block :: string

record library_result =
  lb_document :: library_document
  lb_audience :: string
  lb_markdown :: string
  lb_content :: string
  lb_fallback :: bool

definition content_hash :: "(string \<Rightarrow> string) \<Rightarrow> string \<Rightarrow> string" where
  "content_hash sha raw = hex_string (sha raw)"

definition check_read :: "(string \<Rightarrow> string) \<Rightarrow> document_ref \<Rightarrow> string \<Rightarrow> (request_error, read_result) go_result \<Rightarrow> (request_error, read_result) go_result" where
  "check_read sha ref audience res = bindR res (\<lambda>out.
     guardR (ds_ref (rr_document out) \<noteq> ref \<or> rr_audience out \<noteq> audience \<or> rr_content out \<noteq> content_hash sha (rr_markdown out)) AnswerMismatch (Inr out))"

definition check_library_read :: "(string \<Rightarrow> string) \<Rightarrow> library_ref \<Rightarrow> string \<Rightarrow> (request_error, library_result) go_result \<Rightarrow> (request_error, library_result) go_result" where
  "check_library_read sha ref audience res = bindR res (\<lambda>out.
     guardR (ly_ref (lb_document out) \<noteq> ref \<or> lb_audience out \<noteq> audience \<or> lb_content out \<noteq> content_hash sha (lb_markdown out)) AnswerMismatch (Inr out))"

definition check_bootstrap :: "(string \<Rightarrow> string) \<Rightarrow> string \<Rightarrow> (request_error, library_result list) go_result \<Rightarrow> (request_error, library_result list) go_result" where
  "check_bootstrap sha audience res = bindR res (\<lambda>out.
     guardR (list_ex (\<lambda>d. lb_audience d \<noteq> audience \<or> lb_content d \<noteq> content_hash sha (lb_markdown d)) out) AnswerMismatch (Inr out))"

text \<open>Which requests carry the publisher's token, and where they go.\<close>

lemma doc_outgoing_credentials:
  assumes "doc_outgoing url_ok c tok http_method path content publish = Inr rq"
  shows "dh_url rq = dc_base c @ path \<and> (\<forall>t. (''Authorization'', t) \<in> set (dh_headers rq) \<longrightarrow>
    publish \<and> (\<exists>v. tok = TokenIs v \<and> v \<noteq> [] \<and> t = ''Bearer '' @ v))"
  using assms by (auto simp: doc_outgoing_def publisher_headers_def publication_headers_def guardR_eq_Inr bindR_eq_Inr
      split: if_splits token_answer.splits option.splits)

lemma doc_new_secure:
  assumes "doc_new parse_url loopback_ip cfg = Inr c"
  shows "\<exists>u. parse_url (dg_base cfg) = Some u \<and> (u_scheme u = ''https'' \<or> dg_loopback_http cfg \<and>
    (u_hostname u = ''localhost'' \<or> loopback_ip (u_hostname u))) \<and> (dc_timeout c = 0 \<longleftrightarrow> dg_disable_timeout cfg)"
  using assms by (auto simp: doc_new_def guardR_eq_Inr Let_def second_def split: option.splits if_splits)

lemma read_matches:
  "check_read sha ref audience res = Inr out \<Longrightarrow> res = Inr out \<and> ds_ref (rr_document out) = ref \<and> rr_audience out = audience \<and>
    rr_content out = content_hash sha (rr_markdown out)"
  by (auto simp: check_read_def guardR_eq_Inr bindR_eq_Inr)

end
