(* ===== verification/Outbound.thy ===== *)
theory Outbound
  imports OAuthClient JsonDocs
begin

text \<open>
  The calls an integration makes with the tokens of \<open>OAuthClient\<close>: \<open>src/integration/execution_oauth.go\<close>, \<open>steps.go\<close>,
  \<open>triggers.go\<close>.

  Arguments are: the tokens and the answers of the at most two exchanges of a call (\<open>answers\<close>), \<open>url.Parse\<close>, the encoding of
  query parameters, \<open>mime.ParseMediaType\<close> (\<open>outside\<close>) and what \<open>json.Unmarshal\<close> makes of an answer (\<open>decode\<close>). A
  \<open>json.RawMessage\<close> and a value of type \<open>any\<close> are the JSON they are written as.
\<close>

subsection \<open>One exchange\<close>

record outside =
  ow_fold :: "nat \<Rightarrow> nat"
  ow_url :: "string \<Rightarrow> url option"
  ow_media :: "string \<Rightarrow> string option"
  ow_encode :: "string \<Rightarrow> (string \<times> string) list \<Rightarrow> string" \<comment> \<open>the raw query with these parameters set\<close>

record answers =
  an_token1 :: "(oauth_error, token) go_result"
  an_reply1 :: "(bool, http_reply) go_result"
  an_token2 :: "(oauth_error, token) go_result"
  an_reply2 :: "(bool, http_reply) go_result"

datatype outbound_error =
    OutRequest \<comment> \<open>\<open>integrationoauth.ErrRequest\<close>\<close>
  | OutClient client_error
  | OutStatus int \<comment> \<open>\<open>APIError\<close>\<close>
  | OutAnswer \<comment> \<open>the error of an invalid response\<close>
  | OutInput string \<comment> \<open>an argument the method refuses\<close>
  | OutNoOAuth
  | OutNoKey
  | OutUpload

type_synonym 'a outcome = "(outbound_error, 'a) go_result \<times> call_effect list"

definition refuse :: "outbound_error \<Rightarrow> 'a outcome" where
  "refuse e = (Inl e, [])"

definition then_reply :: "'a outcome \<Rightarrow> ('a \<Rightarrow> (outbound_error, 'b) go_result) \<Rightarrow> 'b outcome" where
  "then_reply m f = (case m of (r, es) \<Rightarrow> (bindR r f, es))"

definition integration_oauth_uuid :: "string \<Rightarrow> bool" where
  "integration_oauth_uuid s \<longleftrightarrow> length s = 36 \<and> uuid_chars 0 s \<and> s \<noteq> zero_uuid"

definition json_headers :: "bool \<Rightarrow> (string \<times> string list) list" where
  "json_headers has_body = (''Accept'', [''application/json'']) # (if has_body then [(''Content-Type'', [''application/json''])] else [])"

text \<open>\<open>http.NewRequest\<close>: an empty body is none.\<close>

definition resource_body :: "string option \<Rightarrow> body" where
  "resource_body content = (case content of None \<Rightarrow> NoBody | Some b \<Rightarrow> if b = [] then NoBody else Body b (Some (Some b)))"

definition exchange :: "outside \<Rightarrow> client \<Rightarrow> bool \<Rightarrow> string \<Rightarrow> url option \<Rightarrow> (string \<times> string list) list \<Rightarrow> string option \<Rightarrow> answers \<Rightarrow> http_reply outcome" where
  "exchange W c idem http_method addr headers content an = (case addr of
     None \<Rightarrow> refuse OutRequest
   | Some u \<Rightarrow>
      let r = \<lparr>rq_method = http_method, rq_url = Some u, rq_host = u_host u, rq_headers = headers, rq_body = resource_body content\<rparr> in
      (case (if idem then do_idempotent else do_request) (ow_fold W) c (Some r) (an_token1 an) (an_reply1 an) (an_token2 an) (an_reply2 an) of
         (Inl e, es) \<Rightarrow> (Inl (OutClient e), es)
       | (Inr a, es) \<Rightarrow> (Inr a, es)))"

text \<open>The checks of an answer: a status in the 200s that is one of the expected, then the body.\<close>

definition expect_status :: "int list \<Rightarrow> http_reply \<Rightarrow> (outbound_error, http_reply) go_result" where
  "expect_status statuses a =
     (if hr_status a < 200 \<or> 300 \<le> hr_status a then Inl (OutStatus (hr_status a))
      else if hr_status a \<notin> set statuses then Inl OutAnswer else Inr a)"

definition json_answer :: "outside \<Rightarrow> nat \<Rightarrow> (string \<Rightarrow> 'a option) \<Rightarrow> http_reply \<Rightarrow> (outbound_error, 'a) go_result" where
  "json_answer W limit decode a =
     (if ow_media W (hr_content_type a) \<noteq> Some ''application/json'' \<or> limit < length (hr_body a) \<or> trim_space (hr_body a) = ''null''
      then Inl OutAnswer
      else case decode (hr_body a) of None \<Rightarrow> Inl OutAnswer | Some x \<Rightarrow> Inr x)"

record installation_binding =
  ib_project :: string
  ib_installation :: string

definition scoped_client :: "outside \<Rightarrow> string \<Rightarrow> string \<Rightarrow> installation_binding \<Rightarrow> string list \<Rightarrow> (outbound_error, client) go_result" where
  "scoped_client W base audience b scopes =
     (case new_client (ow_url W) base \<lparr>tr_project = ib_project b, tr_installation = ib_installation b, tr_audience = audience, tr_scopes = scopes\<rparr> of
        Inl e \<Rightarrow> Inl (OutClient e) | Inr c \<Rightarrow> Inr c)"

subsection \<open>Execution: steps and triggers\<close>

record execution_oauth =
  xo_project :: string
  xo_base :: string
  xo_resolve :: client
  xo_resolve_variables :: client
  xo_triggers :: client

definition new_execution_oauth :: "outside \<Rightarrow> string \<Rightarrow> installation_binding option \<Rightarrow> (outbound_error, execution_oauth option) go_result" where
  "new_execution_oauth W base cfg = (case cfg of None \<Rightarrow> Inr None
     | Some b \<Rightarrow>
        bindR (scoped_client W base ''execution'' b [''integration.resolve'']) (\<lambda>r.
        bindR (scoped_client W base ''execution'' b [''integration.resolve'', ''variables.write'']) (\<lambda>rv.
        bindR (scoped_client W base ''execution'' b [''triggers.activate'']) (\<lambda>t.
        Inr (Some \<lparr>xo_project = ib_project b, xo_base = trim_right_char CHR ''/'' base, xo_resolve = r, xo_resolve_variables = rv, xo_triggers = t\<rparr>)))))"

definition execution_send :: "outside \<Rightarrow> execution_oauth \<Rightarrow> client \<Rightarrow> string \<Rightarrow> string \<Rightarrow> (string \<times> string) list \<Rightarrow> string option \<Rightarrow> bool \<Rightarrow> int \<Rightarrow>
    answers \<Rightarrow> http_reply outcome" where
  "execution_send W x c http_method path query content idem expected an =
     then_reply (exchange W c idem http_method
         (map_option (\<lambda>u. u\<lparr>u_raw_query := ow_encode W (u_raw_query u) query\<rparr>) (ow_url W (xo_base x @ path)))
         (json_headers (content \<noteq> None)) content an)
       (expect_status [expected])"

record execution_context =
  ec_id :: string
  ec_version :: int
  ec_input_key :: "string option"
  ec_subject :: string
  ec_project :: string
  ec_scheme :: string
  ec_branch :: string
  ec_step :: string
  ec_campaign :: string
  ec_metadata :: "json option"

record resolve_options =
  ro_key :: string
  ro_metadata :: "json option"

definition omit_empty :: "string \<Rightarrow> string \<Rightarrow> (string \<times> json) list" where
  "omit_empty name s = (if s = [] then [] else [(name, JStr s)])"

definition omit_nil :: "string \<Rightarrow> json option \<Rightarrow> (string \<times> json) list" where
  "omit_nil name j = (case j of None \<Rightarrow> [] | Some v \<Rightarrow> [(name, v)])"

text \<open>\<open>resolveBody\<close>; a map is written in the order of its keys.\<close>

definition resolve_body :: "execution_context \<Rightarrow> string \<Rightarrow> (string \<times> json) list \<Rightarrow> string \<Rightarrow> string \<Rightarrow> resolve_options \<Rightarrow> string" where
  "resolve_body ec out vars reactivate step opts = write_json (JObj (
     [(''executionContextId'', JStr (ec_id ec)), (''contextVersion'', JNum (format_int (ec_version ec))), (''output'', JStr out)] @
     (if vars = [] then [] else [(''variables'', JObj (foldr insert_member vars []))]) @
     omit_empty ''mode'' reactivate @ omit_empty ''stepId'' step @ omit_empty ''idempotencyKey'' (ro_key opts) @ omit_nil ''metadata'' (ro_metadata opts)))"

definition validate_resolve_options :: "(string \<times> json) list \<Rightarrow> resolve_options \<Rightarrow> (outbound_error, unit) go_result" where
  "validate_resolve_options vars opts =
     (if ro_key opts = [] then Inr ()
      else guardR (trim_space (ro_key opts) = []) (OutInput ''blank key'')
          (guardR (256 < length (ro_key opts)) (OutInput ''long key'')
          (guardR (vars \<noteq> []) (OutInput ''variables with a key'') (Inr ()))))"

definition resolve_step :: "outside \<Rightarrow> execution_oauth \<Rightarrow> execution_context \<Rightarrow> string \<Rightarrow> bool \<Rightarrow> resolve_options \<Rightarrow> answers \<Rightarrow> unit outcome" where
  "resolve_step W x ec content variables opts an =
     (if ec_project ec \<noteq> [] \<and> ec_project ec \<noteq> xo_project x then refuse OutRequest
      else then_reply (execution_send W x (if variables then xo_resolve_variables x else xo_resolve x) ''POST'' ''/integrations/resolve'' [] (Some content)
        (ro_key opts \<noteq> []) 202 an) (\<lambda>_. Inr ()))"

definition resolve_with_options :: "outside \<Rightarrow> execution_oauth option \<Rightarrow> execution_context \<Rightarrow> string \<Rightarrow> (string \<times> json) list \<Rightarrow> resolve_options \<Rightarrow>
    answers \<Rightarrow> unit outcome" where
  "resolve_with_options W xo ec out vars opts an =
     (if ec_id ec = [] then refuse (OutInput ''ExecutionContext.ID'')
      else if out = [] then refuse (OutInput ''output'')
      else case validate_resolve_options vars opts of Inl e \<Rightarrow> refuse e
      | Inr _ \<Rightarrow> (case xo of None \<Rightarrow> refuse OutNoOAuth
          | Some x \<Rightarrow> resolve_step W x ec (resolve_body ec out vars [] [] opts) (vars \<noteq> []) opts an))"

definition reactivate_with_options :: "outside \<Rightarrow> execution_oauth option \<Rightarrow> execution_context \<Rightarrow> string \<Rightarrow> (string \<times> json) list \<Rightarrow> resolve_options \<Rightarrow>
    answers \<Rightarrow> unit outcome" where
  "reactivate_with_options W xo ec out vars opts an =
     (if ec_id ec = [] then refuse (OutInput ''ExecutionContext.ID'')
      else if ec_step ec = [] then refuse (OutInput ''ExecutionContext.StepID'')
      else if out = [] then refuse (OutInput ''output'')
      else case validate_resolve_options vars opts of Inl e \<Rightarrow> refuse e
      | Inr _ \<Rightarrow> (case xo of None \<Rightarrow> refuse OutNoOAuth
          | Some x \<Rightarrow> resolve_step W x ec (resolve_body ec out vars ''reactivate'' (ec_step ec) opts) (vars \<noteq> []) opts an))"

record activate_params =
  ap_project :: string
  ap_key :: string
  ap_subject :: string
  ap_external_type :: string
  ap_external_id :: string
  ap_event :: "json option"
  ap_metadata :: "json option"
  ap_idempotency :: string

definition activate_body :: "activate_params \<Rightarrow> string" where
  "activate_body p = write_json (JObj (
     [(''projectId'', JStr (ap_project p)), (''activationKey'', JStr (ap_key p))] @ omit_empty ''subjectId'' (ap_subject p) @
     omit_empty ''integrationSubjectType'' (ap_external_type p) @ omit_empty ''integrationSubjectId'' (ap_external_id p) @
     omit_nil ''event'' (ap_event p) @ omit_nil ''metadata'' (ap_metadata p) @ omit_empty ''idempotencyKey'' (ap_idempotency p)))"

record activation_result =
  at_contexts :: "string list option"
  at_matched :: int
  at_skipped_once :: int
  at_skipped_duplicate :: int

definition activate_detailed :: "outside \<Rightarrow> (string \<Rightarrow> activation_result option) \<Rightarrow> execution_oauth option \<Rightarrow> activate_params \<Rightarrow> answers \<Rightarrow>
    activation_result outcome" where
  "activate_detailed W decode xo p an =
     (if ap_project p = [] then refuse (OutInput ''ProjectID'')
      else if ap_key p = [] then refuse (OutInput ''ActivationKey'')
      else if (ap_subject p \<noteq> []) = (ap_external_id p \<noteq> []) then refuse (OutInput ''exactly one of SubjectID or IntegrationSubjectID'')
      else case xo of None \<Rightarrow> refuse OutNoOAuth
      | Some x \<Rightarrow>
         if ap_project p \<noteq> xo_project x then refuse OutRequest
         else then_reply (execution_send W x (xo_triggers x) ''POST'' ''/integrations/triggers/activate'' [] (Some (activate_body p)) False 202 an)
           (\<lambda>a. bindR (json_answer W 1048576 decode a) (\<lambda>out. if at_contexts out = None then Inl OutAnswer else Inr out)))"

record trigger_instance =
  ti_scheme :: string
  ti_step :: string
  ti_block :: string
  ti_settings :: "json option"
  ti_activations :: "(string \<times> string) list"

record trigger_listing =
  tl_version :: int
  tl_triggers :: "trigger_instance list option"

definition list_triggers :: "outside \<Rightarrow> (string \<Rightarrow> trigger_listing option) \<Rightarrow> execution_oauth option \<Rightarrow> string \<Rightarrow> string \<Rightarrow> answers \<Rightarrow> trigger_listing outcome" where
  "list_triggers W decode xo project block an =
     (if project = [] then refuse (OutInput ''projectID'')
      else if block = [] then refuse (OutInput ''blockKey'')
      else case xo of None \<Rightarrow> refuse OutNoOAuth
      | Some x \<Rightarrow>
         if project \<noteq> xo_project x then refuse OutRequest
         else then_reply (execution_send W x (xo_triggers x) ''GET'' ''/integrations/triggers'' [(''projectId'', project), (''blockKey'', block)] None False 200 an)
           (\<lambda>a. bindR (json_answer W 1048576 decode a) (\<lambda>out. if tl_triggers out = None \<or> tl_version out < 0 then Inl OutAnswer else Inr out)))"

subsection \<open>What an exchange sends\<close>

text \<open>Every request sent is the one asked for, with a token put on it, confined to the base of the client; only what may be
  repeated is sent a second time.\<close>

definition repeatable :: "bool \<Rightarrow> string \<Rightarrow> bool" where
  "repeatable idem http_method \<longleftrightarrow> idem \<or> http_method \<in> {''GET'', ''HEAD'', []}"

definition sends_only :: "outside \<Rightarrow> client \<Rightarrow> bool \<Rightarrow> string \<Rightarrow> url option \<Rightarrow> string option \<Rightarrow> call_effect list \<Rightarrow> bool" where
  "sends_only W c idem http_method addr content es \<longleftrightarrow>
     list_all (\<lambda>q. (\<exists>t. confined (ow_fold W) c t q) \<and> rq_method q = http_method \<and> rq_url q = addr \<and> rq_body q = resource_body content)
       (sent_requests es) \<and>
     length (sent_requests es) \<le> (if repeatable idem http_method then 2 else 1)"

lemma replay_body: "replay r = Some q \<Longrightarrow> rq_body r = resource_body content \<Longrightarrow> q = r"
  by (auto simp: replay_def resource_body_def split: body.splits option.splits if_splits)

lemma sends_only_Nil [simp]: "sends_only W c idem http_method addr content []"
  by (simp add: sends_only_def)

lemma client_do_sends:
  assumes "client_do (ow_fold W) c (Some r) retry token1 reply1 token2 reply2 = (res, es)" "rq_body r = resource_body content"
    "retry \<longleftrightarrow> repeatable idem (rq_method r)"
  shows "sends_only W c idem (rq_method r) (rq_url r) content es"
  using assms(1)
proof (cases rule: client_do_cases)
  case (once r' t)
  then show ?thesis using accepted_confined [of "ow_fold W" c r r t] assms(2) by (auto simp: sends_only_def bearer_def)
next
  case (unauthorized r' t more)
  then show ?thesis using accepted_confined [of "ow_fold W" c r r t] assms(2) by (auto simp: sends_only_def bearer_def)
next
  case (again r' t a q t2)
  then have "q = r" using replay_body assms(2) by auto
  moreover have "confined (ow_fold W) c t (bearer t r)" "confined (ow_fold W) c t2 (bearer t2 r)"
    using again(1,2) accepted_confined [of "ow_fold W" c r r] by auto
  ultimately show ?thesis using again assms(2,3) by (auto simp: sends_only_def bearer_def split: sum.splits if_splits)
qed (auto simp: sends_only_def)

lemma exchange_sends:
  assumes "exchange W c idem http_method addr headers content an = (res, es)"
  shows "sends_only W c idem http_method addr content es"
proof (cases addr)
  case (Some u)
  let ?r = "\<lparr>rq_method = http_method, rq_url = Some u, rq_host = u_host u, rq_headers = headers, rq_body = resource_body content\<rparr>"
  obtain r1 where "client_do (ow_fold W) c (Some ?r) (repeatable idem http_method) (an_token1 an) (an_reply1 an) (an_token2 an) (an_reply2 an) = (r1, es)"
    using assms Some by (auto simp: exchange_def do_idempotent_def do_request_def repeatable_def split: prod.splits sum.splits if_splits)
  from client_do_sends [OF this, of content idem] show ?thesis using Some by simp
qed (use assms in \<open>simp add: exchange_def refuse_def\<close>)

lemma exchange_answer:
  "exchange W c idem http_method addr headers content an = (Inr a, es) \<Longrightarrow> Inr a \<in> {an_reply1 an, an_reply2 an}"
  "exchange W c idem http_method addr headers content an = (r, []) \<Longrightarrow> isl r"
  by (auto simp: exchange_def do_idempotent_def do_request_def client_do_def refuse_def split: option.splits prod.splits sum.splits if_splits)

lemma then_reply_effects: "then_reply m f = (res, es) \<longleftrightarrow> (\<exists>r. m = (r, es) \<and> res = bindR r f)"
  by (cases m) (auto simp: then_reply_def)

text \<open>The request a client asks tokens for.\<close>

definition grant :: "client \<Rightarrow> installation_binding \<Rightarrow> string \<Rightarrow> string list \<Rightarrow> bool" where
  "grant c b audience scopes \<longleftrightarrow> cl_application c = None \<and>
     cl_request c = \<lparr>tr_project = ib_project b, tr_installation = ib_installation b, tr_audience = audience, tr_scopes = scopes\<rparr>"

lemma scoped_client_grant: "scoped_client W base audience b scopes = Inr c \<Longrightarrow> grant c b audience scopes \<and> Some (cl_base c) = ow_url W base"
  by (auto simp: scoped_client_def new_client_def resource_base_def grant_def split: sum.splits option.splits if_splits)

lemma new_execution_grants:
  assumes "new_execution_oauth W base (Some b) = Inr (Some x)"
  shows "xo_project x = ib_project b" "xo_base x = trim_right_char CHR ''/'' base" "grant (xo_resolve x) b ''execution'' [''integration.resolve'']"
    "grant (xo_resolve_variables x) b ''execution'' [''integration.resolve'', ''variables.write'']"
    "grant (xo_triggers x) b ''execution'' [''triggers.activate'']"
  using assms by (auto simp: new_execution_oauth_def bindR_eq_Inr dest: scoped_client_grant)

lemma expect_status_Inr: "expect_status ss a = Inr b \<longleftrightarrow> b = a \<and> hr_status a \<in> set ss \<and> 200 \<le> hr_status a \<and> hr_status a < 300"
  by (auto simp: expect_status_def)

lemma then_reply_Inr: "then_reply m f = (Inr b, es) \<longleftrightarrow> (\<exists>a. m = (Inr a, es) \<and> f a = Inr b)"
  by (cases m) (auto simp: then_reply_def bindR_eq_Inr)

lemma isl_bindR: "isl r \<Longrightarrow> isl (bindR r f)"
  by (cases r) (simp_all add: bindR_def)

lemma execution_send_answer:
  "execution_send W x c http_method path query content idem expected an = (Inr a, es) \<Longrightarrow> hr_status a = expected \<and> Inr a \<in> {an_reply1 an, an_reply2 an}"
  "execution_send W x c http_method path query content idem expected an = (r, []) \<Longrightarrow> isl r"
  unfolding execution_send_def
  by (auto simp: then_reply_Inr expect_status_Inr dest: exchange_answer(1)) (auto simp: then_reply_effects intro: isl_bindR dest: exchange_answer(2))

lemma execution_send_sends:
  assumes "execution_send W x c http_method path query content idem expected an = (res, es)"
  shows "\<exists>addr. sends_only W c idem http_method addr content es"
  using assms by (auto simp: execution_send_def then_reply_effects dest: exchange_sends)


definition outside_example :: outside where
  "outside_example = \<lparr>ow_fold = id, ow_url = (\<lambda>s. Some \<lparr>u_scheme = ''https'', u_user = False, u_host = ''api'', u_hostname = ''api'',
     u_opaque = [], u_path = (if s = ''https://api/x'' then ''/x'' else ''/x/integrations/resolve''), u_raw_path = [], u_raw_query = [],
     u_force_query = False, u_fragment = []\<rparr>), ow_media = (\<lambda>_. Some ''application/json''), ow_encode = (\<lambda>_ _. [])\<rparr>"

definition binding_example :: installation_binding where
  "binding_example = \<lparr>ib_project = ''00000000-0000-0000-0000-000000000001'', ib_installation = ''00000000-0000-0000-0000-000000000002''\<rparr>"

definition answers_example :: answers where
  "answers_example = \<lparr>an_token1 = Inr \<lparr>tk_value = ''a'', tk_expires = 1, tk_scope = []\<rparr>, an_reply1 = Inr \<lparr>hr_status = 202, hr_content_type = [], hr_body = []\<rparr>,
     an_token2 = Inl ErrConfig, an_reply2 = Inl False\<rparr>"

definition context_example :: execution_context where
  "context_example = \<lparr>ec_id = ''c'', ec_version = 1, ec_input_key = None, ec_subject = [], ec_project = ib_project binding_example, ec_scheme = [],
     ec_branch = [], ec_step = [], ec_campaign = [], ec_metadata = None\<rparr>"

definition address_example :: url where
  "address_example = \<lparr>u_scheme = ''https'', u_user = False, u_host = ''api'', u_hostname = ''api'',
     u_opaque = [], u_path = ''/x'', u_raw_path = [], u_raw_query = [], u_force_query = False, u_fragment = []\<rparr>"

definition client_for :: "string \<Rightarrow> string list \<Rightarrow> client" where
  "client_for audience scopes = \<lparr>cl_application = None, cl_base = address_example, cl_request = \<lparr>tr_project = ib_project binding_example,
     tr_installation = ib_installation binding_example, tr_audience = audience, tr_scopes = scopes\<rparr>\<rparr>"

definition execution_example :: execution_oauth where
  "execution_example = \<lparr>xo_project = ib_project binding_example, xo_base = ''https://api/x'', xo_resolve = client_for ''execution'' [''integration.resolve''],
     xo_resolve_variables = client_for ''execution'' [''integration.resolve'', ''variables.write''], xo_triggers = client_for ''execution'' [''triggers.activate'']\<rparr>"

lemma base_ok: "resource_base (ow_url outside_example) ''https://api/x'' = Some address_example"
proof -
  have "clean_resource_path address_example" by code_simp
  then show ?thesis by (simp add: resource_base_def outside_example_def address_example_def https_url_def)
qed

lemma scoped_example:
  "\<not> isl (request_key \<lparr>tr_project = ib_project binding_example, tr_installation = ib_installation binding_example, tr_audience = audience, tr_scopes = scopes\<rparr>) \<Longrightarrow>
   scoped_client outside_example ''https://api/x'' audience binding_example scopes = Inr (client_for audience scopes)"
  by (auto simp: scoped_client_def new_client_def base_ok client_for_def split: sum.splits)

lemmas key_simps = request_key_def canonical_uuid_def binding_example_def zero_uuid_def normalize_scopes_def sorted_strings_def guardR_def bindR_def
  lower_hex_char_def is_space_rune_def control_rune_def valid_utf8_def ascii_identifier_def is_digit_def

definition target_example :: url where
  "target_example = address_example\<lparr>u_path := ''/x/integrations/resolve''\<rparr>"

lemma accepted_example:
  "accepts id (client_for audience scopes) (Some \<lparr>rq_method = http_method, rq_url = Some target_example, rq_host = ''api'', rq_headers = json_headers True, rq_body = b\<rparr>)"
proof -
  have "clean_resource_path target_example" "within_base (u_path address_example) (u_path target_example)"
    "\<not> list_ex (\<lambda>(k, _). lower_key k \<in> set credential_headers) (json_headers True)" by code_simp+
  then show ?thesis by (simp add: accepts_def client_for_def target_example_def address_example_def https_url_def equal_fold_def)
qed

lemma new_execution_example:
  "new_execution_oauth outside_example ''https://api/x'' (Some binding_example) = Inr (Some execution_example)"
proof -
  have "scoped_client outside_example ''https://api/x'' ''execution'' binding_example [''integration.resolve''] = Inr (client_for ''execution'' [''integration.resolve''])"
    by (rule scoped_example) (simp add: key_simps)
  moreover have "scoped_client outside_example ''https://api/x'' ''execution'' binding_example [''integration.resolve'', ''variables.write''] =
      Inr (client_for ''execution'' [''integration.resolve'', ''variables.write''])" by (rule scoped_example) (simp add: key_simps)
  moreover have "scoped_client outside_example ''https://api/x'' ''execution'' binding_example [''triggers.activate''] = Inr (client_for ''execution'' [''triggers.activate''])"
    by (rule scoped_example) (simp add: key_simps)
  ultimately show ?thesis by (simp add: new_execution_oauth_def execution_example_def bindR_def trim_right_char_def)
qed


end
