(* ===== verification/Platform.thy ===== *)
theory Platform
  imports Outbound DocPackage
begin

text \<open>
  \<open>src/platform/client.go\<close>, \<open>auth.go\<close>, \<open>authoring.go\<close> (\<open>requestJSON\<close>): the client that acts for a user. What a call
  meets outside is an argument (\<open>user_env\<close>): the state of the context, the token of the provider, the clock, the answer
  over HTTP. Requests are values; the result of a call comes with the requests it sent.
\<close>

subsection \<open>User tokens\<close>

record access_token =
  ax_value :: string
  ax_expires :: time

datatype platform_error =
    PfConfig
  | PfInput
  | PfContext
  | PfExpired
  | PfCredential
  | PfTransport
  | PfResponse
  | PfTooLarge
  | PfApi string int string

definition token_part :: "string \<Rightarrow> bool" where
  "token_part p \<longleftrightarrow> p \<noteq> [] \<and> \<not> list_ex (\<lambda>c. c = CHR 0x0D \<or> c = CHR 0x0A) p \<and> b64_decode True True p \<noteq> None"

definition new_access_token :: "string \<Rightarrow> time \<Rightarrow> (platform_error, access_token) go_result" where
  "new_access_token raw expires =
     guardR (16384 < length raw) PfCredential
    (guardR (length (split_on CHR ''.'' raw) \<noteq> 3 \<or> \<not> list_all token_part (split_on CHR ''.'' raw)) PfCredential
    (Inr \<lparr>ax_value = raw, ax_expires = expires\<rparr>))"

text \<open>What a provider answers: a token, \<open>ErrTokenExpired\<close> in its chain of errors, or another error.\<close>

datatype provider_answer = ProvidedToken access_token | ProviderExpired | ProviderFailed

definition static_token :: "access_token \<Rightarrow> bool \<Rightarrow> provider_answer" where
  "static_token t ctx_err = (if ctx_err then ProviderFailed else ProvidedToken t)"

subsection \<open>The client\<close>

record platform_config =
  pg_base :: string
  pg_provider :: bool \<comment> \<open>a provider is given\<close>
  pg_disable_timeout :: bool
  pg_timeout :: duration
  pg_max_response :: int
  pg_loopback_http :: bool

record platform_client =
  pl_base :: url
  pl_timeout :: duration
  pl_max_response :: int

definition platform_loopback :: "(nat \<Rightarrow> nat) \<Rightarrow> (string \<Rightarrow> bool) \<Rightarrow> string \<Rightarrow> bool" where
  "platform_loopback sf loopback_ip host \<longleftrightarrow> equal_fold sf host ''localhost'' \<or> loopback_ip host"

definition platform_new :: "outside \<Rightarrow> (string \<Rightarrow> bool) \<Rightarrow> platform_config \<Rightarrow> (platform_error, platform_client) go_result" where
  "platform_new W loopback_ip cfg =
     (let base = (if pg_base cfg = [] then ''https://aheron.pro/api'' else pg_base cfg) in
      case ow_url W base of None \<Rightarrow> Inl PfConfig
      | Some u \<Rightarrow>
         guardR (u_hostname u = [] \<or> u_user u \<or> u_opaque u \<noteq> [] \<or> u_raw_query u \<noteq> [] \<or> u_force_query u \<or> CHR ''#'' \<in> set base \<or>
           u_raw_path u \<noteq> [] \<or> CHR 0x5C \<in> set (u_path u) \<or> \<not> pg_provider cfg) PfConfig
        (guardR (u_scheme u \<noteq> ''https'' \<and> \<not> (u_scheme u = ''http'' \<and> pg_loopback_http cfg \<and> platform_loopback (ow_fold W) loopback_ip (u_hostname u))) PfConfig
        (guardR (list_ex (\<lambda>s. s = ''.'' \<or> s = ''..'') (split_on CHR ''/'' (u_path u))) PfConfig
        (guardR (pg_timeout cfg < 0 \<or> pg_max_response cfg < 0) PfConfig
        (let timeout = (if pg_disable_timeout cfg then 0 else if pg_timeout cfg = 0 then 30 * second else pg_timeout cfg);
             limit = (if pg_max_response cfg = 0 then 4194304 else pg_max_response cfg) in
         guardR (67108864 < limit) PfConfig
        (Inr \<lparr>pl_base = u\<lparr>u_path := trim_right_char CHR ''/'' (u_path u)\<rparr>, pl_timeout = timeout, pl_max_response = limit\<rparr>))))))"

record user_env =
  ue_ctx_before :: bool \<comment> \<open>the context is done when the call starts\<close>
  ue_ctx_after :: bool \<comment> \<open>it is done when the provider or the exchange has failed\<close>
  ue_token :: provider_answer
  ue_now :: time
  ue_reply :: "http_reply option" \<comment> \<open>\<open>None\<close> when the exchange fails\<close>
  ue_unread :: bool \<comment> \<open>the body of the answer cannot be read\<close>

definition clean_path :: "string \<Rightarrow> bool" where
  "clean_path p \<longleftrightarrow> has_prefix ''/'' p \<and> path_clean p = p"

definition platform_accepts :: "platform_client \<Rightarrow> resource_request option \<Rightarrow> bool" where
  "platform_accepts c req = (case req of None \<Rightarrow> False | Some r \<Rightarrow> (case rq_url r of None \<Rightarrow> False | Some u \<Rightarrow>
     \<not> (u_scheme u \<noteq> u_scheme (pl_base c) \<or> u_host u \<noteq> u_host (pl_base c) \<or> u_user u \<or> u_opaque u \<noteq> [] \<or>
       u_fragment u \<noteq> [] \<or> u_raw_path u \<noteq> [] \<or> CHR 0x5C \<in> set (u_path u) \<or>
       \<not> clean_path (u_path u) \<or> \<not> has_prefix (u_path (pl_base c) @ ''/'') (u_path u) \<or>
       (rq_host r \<noteq> [] \<and> rq_host r \<noteq> u_host (pl_base c)))))"

text \<open>The headers of the request are under their canonical keys.\<close>

definition user_request :: "string \<Rightarrow> resource_request \<Rightarrow> resource_request" where
  "user_request value r = r\<lparr>rq_headers := AList.update ''Authorization'' [''Bearer '' @ value] (AList.delete ''Cookie'' (rq_headers r))\<rparr>"

definition platform_do :: "platform_client \<Rightarrow> resource_request option \<Rightarrow> user_env \<Rightarrow> (platform_error, http_reply) go_result \<times> resource_request list" where
  "platform_do c req E =
     (if \<not> platform_accepts c req then (Inl PfInput, [])
      else if ue_ctx_before E then (Inl PfContext, [])
      else case ue_token E of
        ProviderExpired \<Rightarrow> (Inl (if ue_ctx_after E then PfContext else PfExpired), [])
      | ProviderFailed \<Rightarrow> (Inl (if ue_ctx_after E then PfContext else PfCredential), [])
      | ProvidedToken t \<Rightarrow> (case new_access_token (ax_value t) (ax_expires t) of
          Inl e \<Rightarrow> (Inl e, [])
        | Inr _ \<Rightarrow>
            if ax_expires t \<noteq> zero_time \<and> \<not> ue_now E < ax_expires t then (Inl PfExpired, [])
            else let sent = [user_request (ax_value t) (the req)] in
              (case ue_reply E of
                 None \<Rightarrow> (Inl (if ue_ctx_after E then PfContext else PfTransport), sent)
               | Some a \<Rightarrow> (Inr a, sent))))"

text \<open>\<open>requestJSON\<close>. \<open>problem\<close> is what the first JSON value of a text has under \<open>code\<close> and \<open>error.code\<close>.\<close>

definition conflict_code :: "(string \<Rightarrow> (string \<times> string option) option) \<Rightarrow> string \<Rightarrow> string \<Rightarrow> string" where
  "conflict_code problem path raw = (case problem (take 4096 raw) of None \<Rightarrow> []
     | Some (code, nested) \<Rightarrow>
         if has_prefix ''/analytics/'' path \<and> nested = Some ''individual_value_disabled'' then ''individual_value_disabled''
         else if code = ''contract_revision_mismatch'' then code else [])"

definition read_answer :: "outside \<Rightarrow> platform_client \<Rightarrow> (string \<Rightarrow> 'a option) \<Rightarrow> http_reply \<Rightarrow> user_env \<Rightarrow> (platform_error, 'a) go_result" where
  "read_answer W c decode a E =
     guardR (ow_media W (hr_content_type a) \<noteq> Some ''application/json'') PfResponse
    (guardR (ue_unread E) (if ue_ctx_after E then PfContext else PfTransport)
    (guardR (pl_max_response c < int (length (hr_body a))) PfTooLarge
    (guardR (trim_space (hr_body a) = ''null'') PfResponse
    (case decode (hr_body a) of None \<Rightarrow> Inl PfResponse | Some x \<Rightarrow> Inr x))))"

definition json_request :: "outside \<Rightarrow> platform_client \<Rightarrow> string \<Rightarrow> string \<Rightarrow> (string \<times> string) list \<Rightarrow> string option \<Rightarrow> resource_request" where
  "json_request W c http_method path query input =
     \<lparr>rq_method = http_method, rq_url = Some ((pl_base c)\<lparr>u_path := u_path (pl_base c) @ path, u_raw_query := ow_encode W [] query\<rparr>),
      rq_host = u_host (pl_base c), rq_headers = json_headers (input \<noteq> None), rq_body = resource_body input\<rparr>"

definition user_send :: "outside \<Rightarrow> (string \<Rightarrow> (string \<times> string option) option) \<Rightarrow> platform_client \<Rightarrow> string \<Rightarrow> string \<Rightarrow> string \<Rightarrow> (string \<times> string) list \<Rightarrow>
    string option \<Rightarrow> user_env \<Rightarrow> (platform_error, http_reply) go_result \<times> resource_request list" where
  "user_send W problem c operation http_method path query input E =
     (if (case input of None \<Rightarrow> False | Some b \<Rightarrow> 2097152 < length b) then (Inl PfInput, [])
      else case platform_do c (Some (json_request W c http_method path query input)) E of
        (Inl e, sent) \<Rightarrow> (Inl e, sent)
      | (Inr a, sent) \<Rightarrow>
          if hr_status a < 200 \<or> 300 \<le> hr_status a
          then (Inl (PfApi operation (hr_status a) (if hr_status a = 409 then conflict_code problem path (hr_body a) else [])), sent)
          else (Inr a, sent))"

type_synonym 'a user_result = "(platform_error, 'a) go_result \<times> resource_request list"

definition user_request_json :: "outside \<Rightarrow> (string \<Rightarrow> (string \<times> string option) option) \<Rightarrow> platform_client \<Rightarrow> string \<Rightarrow> string \<Rightarrow> string \<Rightarrow> (string \<times> string) list \<Rightarrow>
    string option \<Rightarrow> (string \<Rightarrow> 'a option) \<Rightarrow> user_env \<Rightarrow> 'a user_result" where
  "user_request_json W problem c operation http_method path query input decode E =
     (case user_send W problem c operation http_method path query input E of
        (Inl e, sent) \<Rightarrow> (Inl e, sent)
      | (Inr a, sent) \<Rightarrow> (read_answer W c decode a E, sent))"

subsection \<open>What is sent\<close>

definition user_confined :: "platform_client \<Rightarrow> resource_request \<Rightarrow> bool" where
  "user_confined c q \<longleftrightarrow> (\<exists>u more. rq_url q = Some u \<and> u_scheme u = u_scheme (pl_base c) \<and> u_host u = u_host (pl_base c) \<and>
     rq_host q \<in> {[], u_host (pl_base c)} \<and> \<not> u_user u \<and>
     clean_stack [] (split_on CHR ''/'' (u_path u)) = path_elements (u_path (pl_base c)) @ more \<and> path_clean (u_path u) = u_path u)"

definition user_token :: "time \<Rightarrow> access_token \<Rightarrow> bool" where
  "user_token now t \<longleftrightarrow> new_access_token (ax_value t) (ax_expires t) = Inr t \<and> (ax_expires t = zero_time \<or> now < ax_expires t)"

lemma clean_path_elements_of:
  assumes "clean_path p"
  shows "clean_stack [] (split_on CHR ''/'' p) = path_elements p"
proof -
  define st where "st = clean_stack [] (split_on CHR ''/'' p)"
  have p: "p = CHR ''/'' # join ''/'' st" using assms by (simp add: clean_path_def path_clean_def st_def)
  have "\<forall>s \<in> set st. path_element s"
  proof
    fix s assume s: "s \<in> set st"
    with clean_stack_set [of "[]" "split_on CHR ''/'' p"] have "s \<in> set (split_on CHR ''/'' p)" by (auto simp: st_def)
    then have "CHR ''/'' \<notin> set s" by (rule split_on_part)
    moreover from clean_stack_proper [of "[]" "\<lambda>s. s \<noteq> [] \<and> s \<noteq> ''.'' \<and> s \<noteq> ''..''", OF _ s [unfolded st_def]]
    have "s \<noteq> [] \<and> s \<noteq> ''.'' \<and> s \<noteq> ''..''" by simp
    ultimately show "path_element s" by (simp add: path_element_def)
  qed
  then have "split_on CHR ''/'' (join ''/'' st) = (if st = [] then [[]] else st)" "filter (\<lambda>s. s \<noteq> []) st = st"
    using split_elements [of st] by (auto simp: path_element_def filter_id_conv)
  then have "path_elements p = st" unfolding path_elements_def by (subst p) auto
  then show ?thesis by (simp add: st_def)
qed

lemma platform_accepts_confined:
  assumes "platform_accepts c (Some r)" "rq_url q = rq_url r" "rq_host q = rq_host r"
  shows "user_confined c q"
proof -
  from assms(1) obtain u where u: "rq_url r = Some u" "u_scheme u = u_scheme (pl_base c)" "u_host u = u_host (pl_base c)" "\<not> u_user u"
    "clean_path (u_path u)" "has_prefix (u_path (pl_base c) @ ''/'') (u_path u)" "rq_host r = [] \<or> rq_host r = u_host (pl_base c)"
    by (auto simp: platform_accepts_def split: option.splits)
  from u(6) obtain t where "u_path u = u_path (pl_base c) @ CHR ''/'' # t" by (auto simp: has_prefix_conv)
  with clean_path_elements_of [OF u(5)] have "clean_stack [] (split_on CHR ''/'' (u_path u)) = path_elements (u_path (pl_base c)) @ path_elements t"
    by (simp add: path_elements_append)
  with u assms(2,3) show ?thesis
    unfolding user_confined_def by (intro exI [of _ u] exI [of _ "path_elements t"]) (auto simp: clean_path_def)
qed

lemma user_request_fields [simp]:
  "rq_url (user_request v r) = rq_url r" "rq_host (user_request v r) = rq_host r" "rq_method (user_request v r) = rq_method r" "rq_body (user_request v r) = rq_body r"
  by (simp_all add: user_request_def)

lemma json_headers_credentials:
  "credentials (user_request v (json_request W c http_method path query input)) = [(''Authorization'', [''Bearer '' @ v])]"
proof -
  have "lower_key ''Accept'' = ''accept''" "lower_key ''Content-Type'' = ''content-type''" "lower_key ''Authorization'' = ''authorization''" by code_simp+
  then show ?thesis
    by (cases input) (simp_all add: credentials_def user_request_def json_request_def json_headers_def credential_headers_def)
qed

text \<open>Everything a run of the client sends for a user with what the provider gave.\<close>

definition sent_for :: "platform_client \<Rightarrow> user_env \<Rightarrow> resource_request \<Rightarrow> bool" where
  "sent_for c E q \<longleftrightarrow> user_confined c q \<and>
     (\<exists>t. ue_token E = ProvidedToken t \<and> user_token (ue_now E) t \<and> credentials q = [(''Authorization'', [''Bearer '' @ ax_value t])])"

lemma platform_do_sent:
  assumes "platform_do c (Some r) E = (res, sent)" and "\<And>v. credentials (user_request v r) = [(''Authorization'', [''Bearer '' @ v])]"
  shows "length sent \<le> 1 \<and> list_all (\<lambda>q. sent_for c E q \<and> rq_method q = rq_method r \<and> rq_url q = rq_url r \<and> rq_body q = rq_body r) sent \<and> (isl res \<or> sent \<noteq> [])"
proof (cases "platform_accepts c (Some r) \<and> \<not> ue_ctx_before E \<and> (\<exists>t. ue_token E = ProvidedToken t \<and> user_token (ue_now E) t)")
  case True
  then obtain t where t: "ue_token E = ProvidedToken t" "user_token (ue_now E) t" by blast
  with True assms(1) have "sent = [user_request (ax_value t) r]" "isl res \<or> sent \<noteq> []"
    by (auto simp: platform_do_def user_token_def Let_def split: sum.splits option.splits if_splits)
  moreover have "user_confined c (user_request (ax_value t) r)" using True by (intro platform_accepts_confined [of c r]) simp_all
  ultimately show ?thesis using t assms(2) by (simp add: sent_for_def)
next
  case False
  then have "sent = [] \<and> isl res"
    using assms(1) by (auto simp: platform_do_def user_token_def Let_def new_access_token_def guardR_eq_Inr split: provider_answer.splits sum.splits option.splits if_splits)
  then show ?thesis by simp
qed

lemma user_send_sent:
  assumes "user_send W problem c operation http_method path query input E = (res, sent)"
  shows "length sent \<le> 1 \<and> list_all (\<lambda>q. sent_for c E q \<and> rq_method q = http_method \<and> rq_url q = Some ((pl_base c)\<lparr>u_path := u_path (pl_base c) @ path, u_raw_query := ow_encode W [] query\<rparr>) \<and>
    rq_body q = resource_body input) sent \<and> (isl res \<or> sent \<noteq> [])"
proof (cases "case input of None \<Rightarrow> False | Some b \<Rightarrow> 2097152 < length b")
  case True
  with assms show ?thesis by (auto simp: user_send_def split: option.splits)
next
  case False
  obtain r1 s1 where 1: "platform_do c (Some (json_request W c http_method path query input)) E = (r1, s1)" by fastforce
  with False assms have "sent = s1" "isl res \<or> \<not> isl r1" by (auto simp: user_send_def split: option.splits sum.splits if_splits)
  with platform_do_sent [OF 1 json_headers_credentials] show ?thesis by (auto simp: json_request_def)
qed

text \<open>
  C14. A call for a user sends at most one request, over HTTPS (or to a loopback address where the configuration allows plain
  HTTP), to the host of the client and below its base path also after normalisation, with one credential: an unexpired token of
  three parts in base64url that the provider gave for this call. Without a request there is no success.
\<close>

theorem user_requests_confined:
  assumes "platform_new W loopback_ip cfg = Inr c"
    and "user_request_json W problem c operation http_method path query input decode E = (res, sent)"
  shows "length sent \<le> 1 \<and> (isl res \<or> sent \<noteq> []) \<and>
    list_all (\<lambda>q. sent_for c E q \<and> rq_method q = http_method \<and> rq_body q = resource_body input \<and>
      (\<exists>u. rq_url q = Some u \<and> u_path u = u_path (pl_base c) @ path \<and>
        (u_scheme u = ''https'' \<or> u_scheme u = ''http'' \<and> pg_loopback_http cfg \<and> platform_loopback (ow_fold W) loopback_ip (u_hostname u)))) sent"
proof -
  obtain r1 where 1: "user_send W problem c operation http_method path query input E = (r1, sent)" "isl r1 \<Longrightarrow> isl res"
    using assms(2) by (auto simp: user_request_json_def isl_def split: prod.splits sum.splits)
  have base: "u_scheme (pl_base c) = ''https'' \<or> u_scheme (pl_base c) = ''http'' \<and> pg_loopback_http cfg \<and>
      platform_loopback (ow_fold W) loopback_ip (u_hostname (pl_base c))"
    using assms(1) by (auto simp: platform_new_def Let_def guardR_eq_Inr split: option.splits)
  show ?thesis using user_send_sent [OF 1(1)] 1(2) base by (auto simp: list_all_iff)
qed

definition platform_example :: platform_client where
  "platform_example = \<lparr>pl_base = address_example, pl_timeout = 30 * second, pl_max_response = 4194304\<rparr>"

definition user_example :: user_env where
  "user_example = \<lparr>ue_ctx_before = False, ue_ctx_after = False, ue_token = ProvidedToken \<lparr>ax_value = ''YQ.YQ.YQ'', ax_expires = 2\<rparr>, ue_now = 1,
     ue_reply = Some \<lparr>hr_status = 200, hr_content_type = [], hr_body = ''{}''\<rparr>, ue_unread = False\<rparr>"

lemma platform_new_example:
  "platform_new outside_example (\<lambda>_. False) \<lparr>pg_base = ''https://api/x'', pg_provider = True, pg_disable_timeout = False, pg_timeout = 0, pg_max_response = 0,
     pg_loopback_http = False\<rparr> = Inr platform_example"
  by (simp add: platform_new_def outside_example_def platform_example_def address_example_def guardR_def Let_def trim_right_char_def)

theorem user_requests_confined_witness:
  "\<exists>sent. user_request_json outside_example (\<lambda>_. None) platform_example ''op'' ''GET'' ''/projects'' [] None (\<lambda>_. Some ()) user_example = (Inr (), sent) \<and>
     length sent = 1 \<and> list_all (sent_for platform_example user_example) sent"
proof -
  have "b64_decode True True ''YQ'' = Some ''a''" by code_simp
  then have tok: "new_access_token ''YQ.YQ.YQ'' 2 = Inr \<lparr>ax_value = ''YQ.YQ.YQ'', ax_expires = 2\<rparr>"
    by (simp add: new_access_token_def token_part_def guardR_def)
  have "clean_path ''/x/projects''" by code_simp
  then have acc: "platform_accepts platform_example (Some (json_request outside_example platform_example ''GET'' ''/projects'' [] None))"
    by (simp add: platform_accepts_def json_request_def platform_example_def address_example_def has_prefix_conv)
  have body: "trim_space ''{}'' = ''{}''" by (simp add: trim_space_def is_space_rune_def)
  obtain sent where "platform_do platform_example (Some (json_request outside_example platform_example ''GET'' ''/projects'' [] None)) user_example =
      (Inr \<lparr>hr_status = 200, hr_content_type = [], hr_body = ''{}''\<rparr>, sent)"
    by (simp add: platform_do_def acc user_example_def tok zero_time_def Let_def)
  then have r: "user_request_json outside_example (\<lambda>_. None) platform_example ''op'' ''GET'' ''/projects'' [] None (\<lambda>_. Some ()) user_example = (Inr (), sent)"
    by (simp add: user_request_json_def user_send_def read_answer_def guardR_def body) (simp add: outside_example_def user_example_def platform_example_def)
  from user_requests_confined [OF platform_new_example r] have "length sent \<le> 1" "sent \<noteq> []" "list_all (sent_for platform_example user_example) sent"
    by (auto simp: list_all_iff)
  with r show ?thesis by (intro exI [of _ sent]) (simp add: le_Suc_eq)
qed

end
