(* ===== verification/PlatformResources.thy ===== *)
theory PlatformResources
  imports Platform
begin

text \<open>
  The resources of a user under \<open>src/platform\<close>: \<open>projects.go\<close>, \<open>schemes.go\<close>, \<open>scheme_mutations.go\<close>, \<open>graph.go\<close>,
  \<open>authoring.go\<close>, \<open>runtime_contracts.go\<close>, \<open>files.go\<close>, \<open>integrations.go\<close>, \<open>documentation.go\<close>. Each method checks its arguments,
  sends one request (\<open>Platform\<close>) and checks that the answer is about what was asked for.
\<close>

subsection \<open>Sessions\<close>

record user_session =
  us_outside :: outside
  us_problem :: "string \<Rightarrow> (string \<times> string option) option"
  us_client :: platform_client
  us_env :: user_env
  us_time :: "time \<Rightarrow> string" \<comment> \<open>\<open>RFC3339Nano\<close> in UTC\<close>

definition user_json :: "user_session \<Rightarrow> string \<Rightarrow> string \<Rightarrow> string \<Rightarrow> (string \<times> string) list \<Rightarrow> json option \<Rightarrow> (string \<Rightarrow> 'a option) \<Rightarrow> 'a user_result" where
  "user_json U operation http_method path query input decode =
     user_request_json (us_outside U) (us_problem U) (us_client U) operation http_method path query (map_option write_json input) decode (us_env U)"

definition user_get :: "user_session \<Rightarrow> string \<Rightarrow> string \<Rightarrow> (string \<Rightarrow> 'a option) \<Rightarrow> 'a user_result" where
  "user_get U operation path decode = user_json U operation ''GET'' path [] None decode"

definition user_delete :: "user_session \<Rightarrow> string \<Rightarrow> string \<Rightarrow> unit user_result" where
  "user_delete U operation path =
     (case user_send (us_outside U) (us_problem U) (us_client U) operation ''DELETE'' path [] None (us_env U) of
        (Inl e, sent) \<Rightarrow> (Inl e, sent) | (Inr _, sent) \<Rightarrow> (Inr (), sent))"

definition answer_if :: "('a \<Rightarrow> bool) \<Rightarrow> 'a user_result \<Rightarrow> 'a user_result" where
  "answer_if ok m = (case m of (Inr x, sent) \<Rightarrow> (if ok x then Inr x else Inl PfResponse, sent) | (Inl e, sent) \<Rightarrow> (Inl e, sent))"

definition bad_input :: "'a user_result" where
  "bad_input = (Inl PfInput, [])"

definition hex_any :: "char \<Rightarrow> bool" where
  "hex_any c \<longleftrightarrow> is_digit c \<or> (97 \<le> byte c \<and> byte c \<le> 102) \<or> (65 \<le> byte c \<and> byte c \<le> 70)"

definition resource_id :: "string \<Rightarrow> bool" where
  "resource_id s \<longleftrightarrow> map length (split_on CHR ''-'' s) = [8, 4, 4, 4, 12] \<and> list_all (list_all hex_any) (split_on CHR ''-'' s)"

definition same_id :: "user_session \<Rightarrow> string \<Rightarrow> string \<Rightarrow> bool" where
  "same_id U a b = equal_fold (ow_fold (us_outside U)) a b"

subsection \<open>Projects and schemes\<close>

record project =
  pj_id :: string
  pj_owner :: string
  pj_name :: string
  pj_slug :: "string option"
  pj_description :: "string option"
  pj_settings :: json
  pj_metadata :: json

definition list_projects :: "user_session \<Rightarrow> (string \<Rightarrow> project list option) \<Rightarrow> project list user_result" where
  "list_projects U decode = answer_if (list_all (\<lambda>p. resource_id (pj_id p))) (user_get U ''list projects'' ''/projects'' decode)"

definition get_project :: "user_session \<Rightarrow> (string \<Rightarrow> project option) \<Rightarrow> string \<Rightarrow> project user_result" where
  "get_project U decode project =
     (if \<not> resource_id project then bad_input
      else answer_if (\<lambda>p. same_id U (pj_id p) project) (user_get U ''get project'' (''/projects/'' @ project) decode))"

record scheme =
  sm_status :: string
  sm_id :: string
  sm_project :: string
  sm_name :: string
  sm_description :: "string option"

definition schemes_path :: "string \<Rightarrow> string" where
  "schemes_path project = ''/projects/'' @ project @ ''/schemes''"

definition scheme_path :: "string \<Rightarrow> string \<Rightarrow> string" where
  "scheme_path project scheme = schemes_path project @ ''/'' @ scheme"

definition list_schemes :: "user_session \<Rightarrow> (string \<Rightarrow> scheme list option) \<Rightarrow> string \<Rightarrow> scheme list user_result" where
  "list_schemes U decode project =
     (if \<not> resource_id project then bad_input
      else answer_if (list_all (\<lambda>s. resource_id (sm_id s) \<and> same_id U (sm_project s) project)) (user_get U ''list schemes'' (schemes_path project) decode))"

definition get_scheme :: "user_session \<Rightarrow> (string \<Rightarrow> scheme option) \<Rightarrow> string \<Rightarrow> string \<Rightarrow> scheme user_result" where
  "get_scheme U decode project scheme =
     (if \<not> resource_id project \<or> \<not> resource_id scheme then bad_input
      else answer_if (\<lambda>s. same_id U (sm_id s) scheme \<and> same_id U (sm_project s) project) (user_get U ''get scheme'' (scheme_path project scheme) decode))"

definition optional_field :: "string \<Rightarrow> string option \<Rightarrow> (string \<times> json) list" where
  "optional_field name v = (case v of None \<Rightarrow> [] | Some s \<Rightarrow> [(name, JStr s)])"

definition create_scheme :: "user_session \<Rightarrow> (string \<Rightarrow> scheme option) \<Rightarrow> string \<Rightarrow> string \<Rightarrow> string option \<Rightarrow> scheme user_result" where
  "create_scheme U decode project name description =
     (if \<not> resource_id project \<or> trim_space name = [] then bad_input
      else answer_if (\<lambda>s. same_id U (sm_project s) project \<and> resource_id (sm_id s))
        (user_json U ''create scheme'' ''POST'' (schemes_path project) [] (Some (JObj ((''name'', JStr name) # optional_field ''description'' description))) decode))"

definition update_scheme :: "user_session \<Rightarrow> (string \<Rightarrow> scheme option) \<Rightarrow> string \<Rightarrow> string \<Rightarrow> string option \<Rightarrow> string option \<Rightarrow> scheme user_result" where
  "update_scheme U decode project scheme name description =
     (if \<not> resource_id project \<or> \<not> resource_id scheme \<or> (name = None \<and> description = None) \<or>
         (case name of None \<Rightarrow> False | Some n \<Rightarrow> trim_space n = []) then bad_input
      else answer_if (\<lambda>s. same_id U (sm_project s) project \<and> same_id U (sm_id s) scheme)
        (user_json U ''update scheme'' ''PATCH'' (scheme_path project scheme) []
          (Some (JObj (optional_field ''name'' name @ optional_field ''description'' description))) decode))"

definition delete_scheme :: "user_session \<Rightarrow> string \<Rightarrow> string \<Rightarrow> unit user_result" where
  "delete_scheme U project scheme =
     (if \<not> resource_id project \<or> \<not> resource_id scheme then bad_input else user_delete U ''delete scheme'' (scheme_path project scheme))"

subsection \<open>Graphs\<close>

record graph_step =
  gs_id :: string
  gs_scheme :: string
  gs_type :: string
  gs_name :: "string option"
  gs_settings :: json
  gs_position :: json
  gs_integration :: "string option"
  gs_version :: "int option"
  gs_block :: "string option"
  gs_copy_setup :: "(string \<times> string) list"

record graph_branch =
  gb_id :: string
  gb_scheme :: string
  gb_key :: string
  gb_role :: string
  gb_name :: "string option"
  gb_settings :: json

record graph_edge =
  ge_id :: string
  ge_scheme :: string
  ge_from :: string
  ge_to :: string
  ge_output :: string
  ge_input :: string
  ge_branch :: string
  ge_settings :: json

record scheme_graph =
  sg_scheme :: string
  sg_revision :: int
  sg_steps :: "graph_step list option"
  sg_branches :: "graph_branch list option"
  sg_edges :: "graph_edge list option"

text \<open>One of the three loops: the ids seen so far, in lower case, are a list; \<open>None\<close> when an item is refused.\<close>

fun check_idents :: "('a \<Rightarrow> string) \<Rightarrow> ('a \<Rightarrow> bool) \<Rightarrow> string list \<Rightarrow> 'a list \<Rightarrow> string list option" where
  "check_idents ident ok seen [] = Some seen"
| "check_idents ident ok seen (x # xs) =
     (if \<not> resource_id (ident x) \<or> \<not> ok x \<or> lower_key (ident x) \<in> set seen then None
      else check_idents ident ok (lower_key (ident x) # seen) xs)"

definition check_graph :: "user_session \<Rightarrow> string \<Rightarrow> scheme_graph \<Rightarrow> bool" where
  "check_graph U scheme g =
     (if \<not> same_id U (sg_scheme g) scheme \<or> sg_revision g < 0 then False
      else (case (sg_steps g, sg_branches g, sg_edges g) of
        (Some steps, Some branches, Some edges) \<Rightarrow>
          (case check_idents gs_id (\<lambda>s. same_id U (gs_scheme s) scheme) [] steps of None \<Rightarrow> False | Some ss \<Rightarrow>
          (case check_idents gb_id (\<lambda>b. same_id U (gb_scheme b) scheme) [] branches of None \<Rightarrow> False | Some bs \<Rightarrow>
           check_idents ge_id (\<lambda>e. same_id U (ge_scheme e) scheme \<and> lower_key (ge_from e) \<in> set ss \<and> lower_key (ge_to e) \<in> set ss \<and>
             lower_key (ge_branch e) \<in> set bs) [] edges \<noteq> None))
      | _ \<Rightarrow> False))"

definition get_graph :: "user_session \<Rightarrow> (string \<Rightarrow> scheme_graph option) \<Rightarrow> string \<Rightarrow> string \<Rightarrow> scheme_graph user_result" where
  "get_graph U decode project scheme =
     (if \<not> resource_id project \<or> \<not> resource_id scheme then bad_input
      else answer_if (check_graph U scheme) (user_get U ''get scheme graph'' (scheme_path project scheme @ ''/graph'') decode))"

definition get_step :: "user_session \<Rightarrow> (string \<Rightarrow> graph_step option) \<Rightarrow> string \<Rightarrow> string \<Rightarrow> string \<Rightarrow> graph_step user_result" where
  "get_step U decode project scheme step =
     (if \<not> resource_id project \<or> \<not> resource_id scheme \<or> \<not> resource_id step then bad_input
      else answer_if (\<lambda>s. same_id U (gs_id s) step \<and> same_id U (gs_scheme s) scheme)
        (user_get U ''get scheme step'' (scheme_path project scheme @ ''/steps/'' @ step) decode))"

subsection \<open>Graph commands\<close>

record graph_edit =
  gd_kind :: string
  gd_action :: string
  gd_entity :: string
  gd_data :: "json option"
  gd_cascade :: bool

record graph_command =
  gc_contract :: string
  gc_operation :: string
  gc_session :: string
  gc_base :: int
  gc_type :: string
  gc_edits :: "graph_edit list"
  gc_reverses :: "int option"

record graph_operation =
  go_scheme :: string
  go_revision :: int
  go_operation :: string
  go_actor :: string
  go_session :: string
  go_type :: string
  go_payload_version :: int
  go_payload :: json
  go_base :: int
  go_reverses :: "int option"

definition operations_path :: "string \<Rightarrow> string \<Rightarrow> string" where
  "operations_path project scheme = scheme_path project scheme @ ''/operations''"

definition list_operations :: "user_session \<Rightarrow> (string \<Rightarrow> graph_operation list option) \<Rightarrow> string \<Rightarrow> string \<Rightarrow> int \<Rightarrow> graph_operation list user_result" where
  "list_operations U decode project scheme after =
     (if \<not> resource_id project \<or> \<not> resource_id scheme \<or> after < 0 then bad_input
      else answer_if (list_all (\<lambda>o1. same_id U (go_scheme o1) scheme \<and> after < go_revision o1 \<and> resource_id (go_operation o1)))
        (user_json U ''list graph operations'' ''GET'' (operations_path project scheme) [(''afterRevision'', format_int after)] None decode))"

definition edit_json :: "graph_edit \<Rightarrow> json" where
  "edit_json e = JObj ([(''entityKind'', JStr (gd_kind e)), (''action'', JStr (gd_action e))] @ omit_empty ''entityId'' (gd_entity e) @
     omit_nil ''data'' (gd_data e) @ [(''cascade'', JBool (gd_cascade e))])"

definition command_json :: "graph_command \<Rightarrow> json" where
  "command_json c = JObj (omit_empty ''expectedNativeContractRevision'' (gc_contract c) @
     [(''operationId'', JStr (gc_operation c)), (''editorSessionId'', JStr (gc_session c)), (''baseRevision'', JNum (format_int (gc_base c))),
      (''commandType'', JStr (gc_type c)), (''edits'', JArr (map edit_json (gc_edits c)))] @
     omit_nil ''reversesRevision'' (map_option (\<lambda>n. JNum (format_int n)) (gc_reverses c)))"

definition apply_graph_command :: "user_session \<Rightarrow> (string \<Rightarrow> graph_operation option) \<Rightarrow> string \<Rightarrow> string \<Rightarrow> graph_command \<Rightarrow> graph_operation user_result" where
  "apply_graph_command U decode project scheme c =
     (if (gc_contract c \<noteq> [] \<and> \<not> valid_key (gc_contract c)) \<or> \<not> resource_id project \<or> \<not> resource_id scheme \<or> \<not> resource_id (gc_operation c) \<or>
         \<not> resource_id (gc_session c) \<or> gc_base c < 0 \<or> gc_edits c = [] \<or> 1000 < length (gc_edits c) \<or> gc_type c = [] \<or> 80 < length (gc_type c)
      then bad_input
      else answer_if (\<lambda>o1. same_id U (go_scheme o1) scheme \<and> same_id U (go_operation o1) (gc_operation c) \<and> 1 \<le> go_revision o1)
        (user_json U ''apply graph command'' ''POST'' (operations_path project scheme) [] (Some (command_json c)) decode))"

record native_block =
  nb_provider :: string
  nb_contract :: string
  nb_topic :: string
  nb_type :: string
  nb_description :: string
  nb_schema :: json

definition native_block_ok :: "string \<Rightarrow> native_block \<Rightarrow> bool" where
  "native_block_ok revision b \<longleftrightarrow> nb_contract b = revision \<and>
     (nb_contract b = [] \<and> nb_provider b = [] \<and> nb_topic b = [] \<or>
      nb_provider b = ''platform/execution'' \<and> valid_key (nb_contract b) \<and> valid_key (nb_topic b))"

definition native_blocks :: "user_session \<Rightarrow> (string \<Rightarrow> native_block list option) \<Rightarrow> string \<Rightarrow> native_block list user_result" where
  "native_blocks U decode project =
     (if \<not> resource_id project then bad_input
      else answer_if (\<lambda>bs. list_all (native_block_ok (if bs = [] then [] else nb_contract (hd bs))) bs)
        (user_get U ''describe native blocks'' (''/projects/'' @ project @ ''/native-blocks'') decode))"

record prepared_block =
  pb_contract :: string
  pb_type :: string
  pb_settings :: "json option" \<comment> \<open>\<open>None\<close> when they are not JSON\<close>
  pb_inputs :: "string list"
  pb_outputs :: "string list"

text \<open>\<open>read_text\<close> gives the JSON of a text, \<open>None\<close> when \<open>json.Valid\<close> refuses it.\<close>

definition prepare_native_block :: "user_session \<Rightarrow> (string \<Rightarrow> json option) \<Rightarrow> (string \<Rightarrow> prepared_block option) \<Rightarrow> string \<Rightarrow> string \<Rightarrow> string \<Rightarrow> string \<Rightarrow>
    prepared_block user_result" where
  "prepare_native_block U read_text decode project step_type settings expected =
     (if \<not> resource_id project \<or> step_type = [] \<or> 80 < length step_type \<or> 65536 < length settings then bad_input
      else case read_text settings of None \<Rightarrow> bad_input
      | Some j \<Rightarrow> answer_if (\<lambda>b. pb_type b = step_type \<and> pb_settings b \<noteq> None \<and> (expected = [] \<or> pb_contract b = expected))
          (user_json U ''prepare native block'' ''POST'' (''/projects/'' @ project @ ''/native-blocks/prepare'') []
            (Some (JObj ([(''type'', JStr step_type), (''settings'', j)] @ omit_empty ''expectedContractRevision'' expected))) decode))"

definition prepare_native_block_at_contract :: "user_session \<Rightarrow> (string \<Rightarrow> json option) \<Rightarrow> (string \<Rightarrow> prepared_block option) \<Rightarrow> string \<Rightarrow> string \<Rightarrow> string \<Rightarrow> string \<Rightarrow>
    prepared_block user_result" where
  "prepare_native_block_at_contract U read_text decode project step_type settings expected =
     (if \<not> valid_key expected then bad_input else prepare_native_block U read_text decode project step_type settings expected)"

subsection \<open>Runtime contracts\<close>

record runtime_contracts =
  rc_contracts :: "doc_contract list option"
  rc_unavailable :: "string list option"

text \<open>The loops over the providers, with those seen so far.\<close>

fun check_providers :: "string list \<Rightarrow> string list \<Rightarrow> string list option" where
  "check_providers seen [] = Some seen"
| "check_providers seen (p # ps) = (if \<not> valid_key p \<or> p \<in> set seen then None else check_providers (p # seen) ps)"

definition contracts_ok :: "runtime_contracts \<Rightarrow> bool" where
  "contracts_ok r = (case (rc_contracts r, rc_unavailable r) of
     (Some cs, Some us) \<Rightarrow> length cs + length us \<le> 32 \<and> list_all (\<lambda>c. valid_key (dk_revision c)) cs \<and>
       (case check_providers [] (map dk_provider cs @ us) of None \<Rightarrow> False
        | Some seen \<Rightarrow> ''platform/execution'' \<in> set seen \<and> ''platform/code-execution'' \<in> set seen)
   | _ \<Rightarrow> False)"

definition observe_runtime_contracts :: "user_session \<Rightarrow> (string \<Rightarrow> runtime_contracts option) \<Rightarrow> string \<Rightarrow> runtime_contracts user_result" where
  "observe_runtime_contracts U decode project =
     (if \<not> resource_id project then bad_input
      else answer_if contracts_ok (user_get U ''observe runtime contracts'' (''/projects/'' @ project @ ''/runtime-contracts'') decode))"

lemma check_providers_Some:
  "check_providers seen ps = Some ys \<longleftrightarrow> list_all valid_key ps \<and> distinct ps \<and> set ps \<inter> set seen = {} \<and> ys = rev ps @ seen"
  by (induction ps arbitrary: seen) auto

lemma contracts_ok_iff:
  "contracts_ok r \<longleftrightarrow> (\<exists>cs us. rc_contracts r = Some cs \<and> rc_unavailable r = Some us \<and> length cs + length us \<le> 32 \<and>
     list_all (\<lambda>c. valid_key (dk_revision c)) cs \<and> list_all valid_key (map dk_provider cs @ us) \<and> distinct (map dk_provider cs @ us) \<and>
     {''platform/execution'', ''platform/code-execution''} \<subseteq> set (map dk_provider cs @ us))"
proof (cases "rc_contracts r = None \<or> rc_unavailable r = None")
  case True
  then show ?thesis by (auto simp: contracts_ok_def split: option.split)
next
  case False
  then obtain cs us where r: "rc_contracts r = Some cs" "rc_unavailable r = Some us" by auto
  show ?thesis
  proof (cases "check_providers [] (map dk_provider cs @ us)")
    case None
    then have "\<not> (list_all valid_key (map dk_provider cs @ us) \<and> distinct (map dk_provider cs @ us))"
      using check_providers_Some [of "[]" "map dk_provider cs @ us"] by fastforce
    with None r show ?thesis unfolding contracts_ok_def by (simp del: map_append distinct_append list_all_append) blast
  next
    case (Some seen)
    then have "contracts_ok r \<longleftrightarrow> length cs + length us \<le> 32 \<and> list_all (\<lambda>c. valid_key (dk_revision c)) cs \<and>
        ''platform/execution'' \<in> set seen \<and> ''platform/code-execution'' \<in> set seen" by (simp add: contracts_ok_def r)
    moreover have "list_all valid_key (map dk_provider cs @ us)" "distinct (map dk_provider cs @ us)" "set seen = set (map dk_provider cs @ us)"
      using Some by (auto simp: check_providers_Some simp del: map_append)
    ultimately show ?thesis using r by simp
  qed
qed

subsection \<open>Files\<close>

record user_file =
  uf_id :: string
  uf_namespace :: string
  uf_name :: string
  uf_mime :: string
  uf_size :: int
  uf_kind :: string
  uf_url :: string

record file_usage =
  fu_project :: string
  fu_stored :: int
  fu_namespaces :: "(string \<times> int) list"

definition files_path :: "string \<Rightarrow> string" where
  "files_path project = ''/projects/'' @ project @ ''/files''"

definition list_files :: "user_session \<Rightarrow> (string \<Rightarrow> user_file list option) \<Rightarrow> string \<Rightarrow> time option \<Rightarrow> int \<Rightarrow> user_file list user_result" where
  "list_files U decode project earlier limit =
     (if \<not> resource_id project \<or> limit < 0 \<or> 200 < limit then bad_input
      else user_json U ''list files'' ''GET'' (files_path project)
        ((if 0 < limit then [(''limit'', format_int limit)] else []) @ (case earlier of None \<Rightarrow> [] | Some t \<Rightarrow> [(''before'', us_time U t)])) None decode)"

definition file_request :: "user_session \<Rightarrow> (string \<Rightarrow> user_file option) \<Rightarrow> string \<Rightarrow> string \<Rightarrow> string \<Rightarrow> string \<Rightarrow> json option \<Rightarrow> user_file user_result" where
  "file_request U decode http_method operation project file input =
     (if \<not> resource_id project \<or> \<not> resource_id file then bad_input
      else answer_if (\<lambda>f. same_id U (uf_id f) file) (user_json U operation http_method (files_path project @ ''/'' @ file) [] input decode))"

definition get_file :: "user_session \<Rightarrow> (string \<Rightarrow> user_file option) \<Rightarrow> string \<Rightarrow> string \<Rightarrow> user_file user_result" where
  "get_file U decode project file = file_request U decode ''GET'' ''get file'' project file None"

definition rename_file :: "user_session \<Rightarrow> (string \<Rightarrow> user_file option) \<Rightarrow> string \<Rightarrow> string \<Rightarrow> string \<Rightarrow> user_file user_result" where
  "rename_file U decode project file name =
     (if trim_space name = [] \<or> 255 < length name then bad_input
      else file_request U decode ''PATCH'' ''rename file'' project file (Some (JObj [(''fileName'', JStr name)])))"

definition delete_file :: "user_session \<Rightarrow> string \<Rightarrow> string \<Rightarrow> unit user_result" where
  "delete_file U project file =
     (if \<not> resource_id project \<or> \<not> resource_id file then bad_input else user_delete U ''delete file'' (files_path project @ ''/'' @ file))"

definition usage_of_files :: "user_session \<Rightarrow> (string \<Rightarrow> file_usage option) \<Rightarrow> string \<Rightarrow> file_usage user_result" where
  "usage_of_files U decode project =
     (if \<not> resource_id project then bad_input
      else answer_if (\<lambda>f. same_id U (fu_project f) project) (user_get U ''file usage'' (files_path project @ ''/usage'') decode))"

subsection \<open>Integrations\<close>

record installation_row =
  ir_installation :: string
  ir_access :: int
  ir_project :: string
  ir_integration :: string
  ir_status :: string

definition list_installations :: "user_session \<Rightarrow> (string \<Rightarrow> installation_row list option) \<Rightarrow> string \<Rightarrow> installation_row list user_result" where
  "list_installations U decode project =
     (if \<not> resource_id project then bad_input
      else answer_if (list_all (\<lambda>r. ir_project r = project \<and> resource_id (ir_integration r) \<and> ir_status r \<noteq> []))
        (user_get U ''list integration installations'' (''/projects/'' @ project @ ''/integrations'') decode))"

record mcp_provider =
  mp_integration :: string
  mp_installation :: string
  mp_slug :: string
  mp_name :: string
  mp_version :: int
  mp_url :: string

record mcp_connection =
  mn_provider :: mcp_provider
  mn_token :: string
  mn_expires :: time

definition valid_mcp_provider :: "user_session \<Rightarrow> mcp_provider \<Rightarrow> bool" where
  "valid_mcp_provider U p \<longleftrightarrow> resource_id (mp_integration p) \<and> resource_id (mp_installation p) \<and> 0 < mp_version p \<and>
     (case ow_url (us_outside U) (mp_url p) of None \<Rightarrow> False
      | Some u \<Rightarrow> u_scheme u = ''https'' \<and> u_hostname u \<noteq> [] \<and> \<not> u_user u \<and> u_raw_query u = [] \<and> u_fragment u = [] \<and> u_opaque u = [])"

definition list_mcp :: "user_session \<Rightarrow> (string \<Rightarrow> mcp_provider list option) \<Rightarrow> string \<Rightarrow> mcp_provider list user_result" where
  "list_mcp U decode project =
     (if \<not> resource_id project then bad_input
      else answer_if (list_all (valid_mcp_provider U)) (user_get U ''list integration MCP'' (''/projects/'' @ project @ ''/integration-mcp'') decode))"

text \<open>\<open>now\<close> is the clock when the answer is checked.\<close>

definition connect_mcp :: "user_session \<Rightarrow> (string \<Rightarrow> mcp_connection option) \<Rightarrow> time \<Rightarrow> string \<Rightarrow> string \<Rightarrow> mcp_connection user_result" where
  "connect_mcp U decode now project integration =
     (if \<not> resource_id project \<or> \<not> resource_id integration then bad_input
      else answer_if (\<lambda>c. valid_mcp_provider U (mn_provider c) \<and> mp_integration (mn_provider c) = integration \<and> mn_token c \<noteq> [] \<and>
          length (mn_token c) \<le> 8192 \<and> now < mn_expires c)
        (user_json U ''connect integration MCP'' ''POST'' (''/projects/'' @ project @ ''/integration-mcp/'' @ integration @ ''/connection'') []
          (Some (JObj [])) decode))"

subsection \<open>Documentation\<close>

record doc_folder =
  fo_id :: string
  fo_kind :: string
  fo_owner :: "string option"

record doc_article =
  ar_id :: string
  ar_folder :: string
  ar_revision :: int
  ar_published :: "int option"

record article_document =
  ad_folder :: doc_folder
  ad_article :: doc_article

record folder_params =
  fp_parent :: "string option"
  fp_path :: string
  fp_name :: string
  fp_description :: "string option"

definition new_documentation :: "outside \<Rightarrow> (string \<Rightarrow> bool) \<Rightarrow> platform_config \<Rightarrow> (platform_error, platform_client) go_result" where
  "new_documentation W loopback_ip cfg = platform_new W loopback_ip
     (cfg\<lparr>pg_base := (if pg_base cfg = [] then ''https://docs.aheron.pro/api/documentation'' else pg_base cfg),
          pg_max_response := (if pg_max_response cfg = 0 then 16777216 else pg_max_response cfg)\<rparr>)"

definition list_folders :: "user_session \<Rightarrow> (string \<Rightarrow> doc_folder list option) \<Rightarrow> doc_folder list user_result" where
  "list_folders U decode = user_get U ''list documentation folders'' ''/folders'' decode"

definition create_folder :: "user_session \<Rightarrow> (string \<Rightarrow> doc_folder option) \<Rightarrow> folder_params \<Rightarrow> doc_folder user_result" where
  "create_folder U decode p =
     (if trim_space (fp_name p) = [] \<or> (case fp_parent p of None \<Rightarrow> False | Some f \<Rightarrow> \<not> resource_id f \<or> fp_path p \<noteq> []) then bad_input
      else answer_if (\<lambda>f. resource_id (fo_id f)) (user_json U ''create documentation folder'' ''POST'' ''/folders'' []
        (Some (JObj (optional_field ''parentId'' (fp_parent p) @ omit_empty ''path'' (fp_path p) @ [(''name'', JStr (fp_name p))] @
          optional_field ''description'' (fp_description p)))) decode))"

definition provision_folder :: "user_session \<Rightarrow> (string \<Rightarrow> (doc_folder \<times> bool) option) \<Rightarrow> string \<Rightarrow> (doc_folder \<times> bool) user_result" where
  "provision_folder U decode integration =
     (if \<not> resource_id integration then bad_input
      else answer_if (\<lambda>(f, _). resource_id (fo_id f) \<and> fo_kind f = ''integration'' \<and> (case fo_owner f of None \<Rightarrow> False | Some r \<Rightarrow> same_id U r integration))
        (user_json U ''provision documentation integration folder'' ''POST'' ''/integration-folders'' [] (Some (JObj [(''integrationId'', JStr integration)])) decode))"

definition list_articles :: "user_session \<Rightarrow> (string \<Rightarrow> doc_article list option) \<Rightarrow> string \<Rightarrow> doc_article list user_result" where
  "list_articles U decode folder =
     (if \<not> resource_id folder then bad_input
      else answer_if (list_all (\<lambda>a. resource_id (ar_id a) \<and> same_id U (ar_folder a) folder))
        (user_get U ''list documentation articles'' (''/folders/'' @ folder @ ''/articles'') decode))"

definition get_article :: "user_session \<Rightarrow> (string \<Rightarrow> article_document option) \<Rightarrow> string \<Rightarrow> article_document user_result" where
  "get_article U decode article =
     (if \<not> resource_id article then bad_input
      else answer_if (\<lambda>d. same_id U (ar_id (ad_article d)) article \<and> resource_id (fo_id (ad_folder d)) \<and>
          same_id U (ar_folder (ad_article d)) (fo_id (ad_folder d)) \<and> 1 \<le> ar_revision (ad_article d))
        (user_get U ''get documentation article'' (''/articles/'' @ article) decode))"

definition create_article :: "user_session \<Rightarrow> (string \<Rightarrow> doc_article option) \<Rightarrow> string \<Rightarrow> string \<Rightarrow> json \<Rightarrow> doc_article user_result" where
  "create_article U decode folder title params =
     (if \<not> resource_id folder \<or> trim_space title = [] then bad_input
      else answer_if (\<lambda>a. resource_id (ar_id a) \<and> same_id U (ar_folder a) folder \<and> ar_revision a = 1 \<and> ar_published a = None)
        (user_json U ''create documentation article'' ''POST'' (''/folders/'' @ folder @ ''/articles'') [] (Some params) decode))"

definition update_article :: "user_session \<Rightarrow> (string \<Rightarrow> doc_article option) \<Rightarrow> string \<Rightarrow> int \<Rightarrow> string \<Rightarrow> string \<Rightarrow> json \<Rightarrow> doc_article user_result" where
  "update_article U decode article expected title slug params =
     (if \<not> resource_id article \<or> expected < 1 \<or> trim_space title = [] \<or> trim_space slug = [] then bad_input
      else answer_if (\<lambda>a. same_id U (ar_id a) article \<and> ar_revision a = wrap64 (expected + 1))
        (user_json U ''update documentation article'' ''PUT'' (''/articles/'' @ article) [] (Some params) decode))"

definition change_publication :: "user_session \<Rightarrow> (string \<Rightarrow> doc_article option) \<Rightarrow> string \<Rightarrow> int \<Rightarrow> string \<Rightarrow> doc_article user_result" where
  "change_publication U decode article revision action =
     (if \<not> resource_id article \<or> revision < 1 then bad_input
      else answer_if (\<lambda>a. same_id U (ar_id a) article \<and> ar_revision a = revision \<and>
          \<not> (action = ''publish'' \<and> ar_published a \<noteq> Some revision) \<and> \<not> (action = ''unpublish'' \<and> ar_published a \<noteq> None))
        (user_json U (action @ '' documentation article'') ''POST'' (''/articles/'' @ article @ ''/'' @ action) []
          (Some (JObj [(''expectedRevision'', JNum (format_int revision))])) decode))"

definition publish_article :: "user_session \<Rightarrow> (string \<Rightarrow> doc_article option) \<Rightarrow> string \<Rightarrow> int \<Rightarrow> doc_article user_result" where
  "publish_article U decode article revision = change_publication U decode article revision ''publish''"

definition unpublish_article :: "user_session \<Rightarrow> (string \<Rightarrow> doc_article option) \<Rightarrow> string \<Rightarrow> int \<Rightarrow> doc_article user_result" where
  "unpublish_article U decode article revision = change_publication U decode article revision ''unpublish''"

subsection \<open>Well-formed graphs\<close>

text \<open>What the graph given out satisfies: every reference of an edge has a target, ids are unique up to case, everything is of the
  scheme asked for.\<close>

definition unique_ids :: "('a \<Rightarrow> string) \<Rightarrow> 'a list \<Rightarrow> bool" where
  "unique_ids ident xs \<longleftrightarrow> list_all (resource_id \<circ> ident) xs \<and> distinct (map (lower_key \<circ> ident) xs)"

definition among :: "('a \<Rightarrow> string) \<Rightarrow> 'a list \<Rightarrow> string \<Rightarrow> bool" where
  "among ident xs s \<longleftrightarrow> list_ex (\<lambda>x. lower_key (ident x) = lower_key s) xs"

definition well_formed_graph :: "user_session \<Rightarrow> string \<Rightarrow> scheme_graph \<Rightarrow> bool" where
  "well_formed_graph U scheme g \<longleftrightarrow> same_id U (sg_scheme g) scheme \<and> 0 \<le> sg_revision g \<and>
     (\<exists>steps branches edges. sg_steps g = Some steps \<and> sg_branches g = Some branches \<and> sg_edges g = Some edges \<and>
        unique_ids gs_id steps \<and> unique_ids gb_id branches \<and> unique_ids ge_id edges \<and>
        list_all (\<lambda>s. same_id U (gs_scheme s) scheme) steps \<and> list_all (\<lambda>b. same_id U (gb_scheme b) scheme) branches \<and>
        list_all (\<lambda>e. same_id U (ge_scheme e) scheme \<and> among gs_id steps (ge_from e) \<and> among gs_id steps (ge_to e) \<and> among gb_id branches (ge_branch e)) edges)"

lemma check_idents_Some:
  "check_idents ident ok seen xs = Some ys \<longleftrightarrow> list_all (resource_id \<circ> ident) xs \<and> list_all ok xs \<and>
     distinct (map (lower_key \<circ> ident) xs) \<and> set (map (lower_key \<circ> ident) xs) \<inter> set seen = {} \<and> ys = rev (map (lower_key \<circ> ident) xs) @ seen"
  by (induction xs arbitrary: seen) auto

lemma check_idents_eq:
  "check_idents ident ok [] xs = (if unique_ids ident xs \<and> list_all ok xs then Some (rev (map (lower_key \<circ> ident) xs)) else None)"
proof (cases "check_idents ident ok [] xs")
  case None
  then show ?thesis using check_idents_Some [of ident ok "[]" xs] by (auto simp: unique_ids_def)
qed (auto simp: check_idents_Some unique_ids_def)

lemma among_conv: "lower_key s \<in> (\<lambda>x. lower_key (ident x)) ` set xs \<longleftrightarrow> among ident xs s"
  by (force simp: among_def list_ex_iff)

lemma check_graph_iff: "check_graph U scheme g \<longleftrightarrow> well_formed_graph U scheme g"
proof (cases "sg_steps g = None \<or> sg_branches g = None \<or> sg_edges g = None")
  case True
  then show ?thesis by (auto simp: check_graph_def well_formed_graph_def split: option.split)
next
  case False
  then obtain steps branches edges where g: "sg_steps g = Some steps" "sg_branches g = Some branches" "sg_edges g = Some edges" by auto
  show ?thesis
    unfolding check_graph_def well_formed_graph_def g prod.case option.case check_idents_eq option.inject
    by (auto simp: among_conv list_all_iff not_less)
qed

text \<open>
  C31. The draft of a scheme is given out exactly when the ids asked for are ids and the answer is a well-formed graph of that scheme.
\<close>

theorem graph_answers_well_formed:
  "get_graph U decode project scheme = (Inr g, sent) \<longleftrightarrow> resource_id project \<and> resource_id scheme \<and>
     user_get U ''get scheme graph'' (scheme_path project scheme @ ''/graph'') decode = (Inr g, sent) \<and> well_formed_graph U scheme g"
  by (auto simp: get_graph_def bad_input_def answer_if_def check_graph_iff split: prod.splits sum.splits if_splits)

end
