(* ===== verification/Transport.thy ===== *)
theory Transport
  imports Platform
begin

text \<open>
  The transport of \<open>src/internal/httpclient/httpclient.go\<close>, which the clients with an API key use: its configuration, when \<open>resty\<close>
  is told to try again, the outcome of a call. What \<open>resty\<close> ends with is an argument.
\<close>

subsection \<open>Configuration\<close>

record transport_config =
  tc_base :: string
  tc_disable_timeout :: bool
  tc_timeout :: duration
  tc_retry_count :: int
  tc_retry_min :: duration
  tc_retry_max :: duration

definition new_transport :: "transport_config \<Rightarrow> transport_config" where
  "new_transport cfg = cfg\<lparr>
     tc_base := trim_right_char CHR ''/'' (tc_base cfg),
     tc_timeout := (if tc_disable_timeout cfg then 0 else if tc_timeout cfg \<le> 0 then 30 * second else tc_timeout cfg),
     tc_retry_count := (if tc_retry_count cfg < 0 then 0 else if tc_retry_count cfg = 0 then 2 else tc_retry_count cfg),
     tc_retry_min := (if tc_retry_min cfg \<le> 0 then 500 * millisecond else tc_retry_min cfg),
     tc_retry_max := (if tc_retry_max cfg \<le> 0 then 5 * second else tc_retry_max cfg)\<rparr>"

record sdk_request =
  hq_method :: string
  hq_path :: string
  hq_query :: "(string \<times> string) list"
  hq_headers :: "(string \<times> string) list"
  hq_body :: "string option"
  hq_idempotent :: bool

record sdk_response =
  sp_status :: int
  sp_body :: string

subsection \<open>A call\<close>

text \<open>The condition under which resty tries again: \<open>failed\<close> is an error of the exchange, the status is that of the response
  object (\<open>None\<close> without one).\<close>

definition retry_condition :: "sdk_request \<Rightarrow> bool \<Rightarrow> int option \<Rightarrow> bool" where
  "retry_condition r failed status = (case status of None \<Rightarrow> False
     | Some st \<Rightarrow> hq_idempotent r \<and> (failed \<or> st \<in> {502, 503, 504}))"

definition extract_message :: "(string \<Rightarrow> (string \<times> string) option) \<Rightarrow> string \<Rightarrow> string" where
  "extract_message envelope content =
     (if content = [] then []
      else case envelope content of
        Some (e, msg) \<Rightarrow> if e \<noteq> [] then e else if msg \<noteq> [] then msg else trim_space content
      | None \<Rightarrow> trim_space content)"

text \<open>\<open>Do\<close>: what \<open>resty\<close> ends with is the argument \<open>final\<close>, \<open>None\<close> when the exchange failed.\<close>

definition with_content_type :: "sdk_request \<Rightarrow> (string \<times> string) list" where
  "with_content_type r = (if hq_body r \<noteq> None \<and> map_of (hq_headers r) ''Content-Type'' = None
     then (''Content-Type'', ''application/json'') # hq_headers r else hq_headers r)"

datatype sdk_error =
    SdkCall outbound_error
  | SdkUser platform_error
  | SdkTransport
  | SdkDecode \<comment> \<open>the answer to an API key cannot be decoded\<close>
  | SdkContext \<comment> \<open>\<open>ctx.Err()\<close>\<close>
  | SdkStorage "int option" \<comment> \<open>an upload to storage that failed, with its status\<close>

definition transport_do :: "sdk_request \<Rightarrow> (int \<times> string) option \<Rightarrow> (sdk_error, sdk_response) go_result" where
  "transport_do r final = (case final of None \<Rightarrow> Inl SdkTransport
     | Some (st, content) \<Rightarrow>
         if st < 200 \<or> 300 \<le> st then Inl (SdkCall (OutStatus st)) else Inr \<lparr>sp_status = st, sp_body = content\<rparr>)"

text \<open>The address of a request below the base of a client, with its query parameters set.\<close>

definition request_address :: "outside \<Rightarrow> string \<Rightarrow> sdk_request \<Rightarrow> url option" where
  "request_address W base r = map_option (\<lambda>u. u\<lparr>u_raw_query := ow_encode W (u_raw_query u) (hq_query r)\<rparr>) (ow_url W (base @ hq_path r))"

subsection \<open>Paths below a project\<close>

definition project_path :: "string \<Rightarrow> string list \<Rightarrow> string" where
  "project_path project segs = ''/projects/'' @ project @ concat (map (\<lambda>s. ''/'' @ s) segs)"

lemma uuid_no_slash: "integration_oauth_uuid s \<Longrightarrow> CHR ''/'' \<notin> set s"
proof -
  have "uuid_chars i s \<Longrightarrow> CHR ''/'' \<notin> set s" for i
    by (induction i s rule: uuid_chars.induct) (auto simp: lower_hex_char_def is_digit_def split: if_splits)
  from this [of 0] show "integration_oauth_uuid s \<Longrightarrow> CHR ''/'' \<notin> set s" by (simp add: integration_oauth_uuid_def)
qed

lemma uuid_not_nil: "integration_oauth_uuid s \<Longrightarrow> s \<noteq> []"
  by (auto simp: integration_oauth_uuid_def)

lemma split_project_path:
  assumes "CHR ''/'' \<notin> set project" "list_all (\<lambda>s. CHR ''/'' \<notin> set s) segs" "segs \<noteq> []"
  shows "split_on CHR ''/'' (case project_path project segs of CHR ''/'' # p \<Rightarrow> p | p \<Rightarrow> p) = ''projects'' # project # segs"
proof -
  have *: "split_on CHR ''/'' (a @ concat (map (\<lambda>s. ''/'' @ s) segs)) = a # segs" if "CHR ''/'' \<notin> set a" for a
    using that assms(2)
  proof (induction segs arbitrary: a)
    case (Cons s ss)
    then show ?case using split_on_append [of "CHR ''/''" a "s @ concat (map (\<lambda>s. ''/'' @ s) ss)"] by simp
  qed simp
  have "split_on CHR ''/'' (''projects'' @ CHR ''/'' # (project @ concat (map (\<lambda>s. ''/'' @ s) segs))) = ''projects'' # project # segs"
    using split_on_append [of "CHR ''/''" "''projects''"] * [OF assms(1)] by simp
  then show ?thesis by (simp add: project_path_def)
qed

end
