(* ===== verification/CrmClient.thy ===== *)
theory CrmClient
  imports Transport
begin

text \<open>
  The CRM of \<open>src/integration\<close>: \<open>crm.go\<close>, \<open>crm_audience.go\<close>, \<open>crm_subject_search.go\<close>, \<open>crm_oauth.go\<close>, \<open>crm_user.go\<close>, over the
  transport of \<open>src/internal/httpclient\<close>. A client speaks for a user, for an installation or with an API key; what it sends
  is recorded as effects. What \<open>json.Unmarshal\<close> makes of an answer is an argument; values of type \<open>any\<close> are the JSON they are
  written as.
\<close>

subsection \<open>Three identities\<close>

record crm_oauth =
  co_project :: string
  co_base :: string
  co_backend :: string
  co_read :: client
  co_write :: client
  co_variables :: client
  co_write_variables :: client
  co_sources :: client

definition new_crm_oauth :: "outside \<Rightarrow> string \<Rightarrow> string \<Rightarrow> installation_binding option \<Rightarrow> (outbound_error, crm_oauth option) go_result" where
  "new_crm_oauth W base backend cfg = (case cfg of None \<Rightarrow> Inr None
     | Some b \<Rightarrow>
        let backend = (if trim_right_char CHR ''/'' backend = [] then ''https://aheron.pro/api'' else trim_right_char CHR ''/'' backend) in
        bindR (scoped_client W backend ''backend'' b [''crm.read'']) (\<lambda>sources.
        bindR (scoped_client W base ''crm'' b [''crm.read'']) (\<lambda>r.
        bindR (scoped_client W base ''crm'' b [''crm.write'']) (\<lambda>w.
        bindR (scoped_client W base ''crm'' b [''variables.write'']) (\<lambda>v.
        bindR (scoped_client W base ''crm'' b [''crm.write'', ''variables.write'']) (\<lambda>wv.
        Inr (Some \<lparr>co_project = ib_project b, co_base = trim_right_char CHR ''/'' base, co_backend = backend, co_read = r, co_write = w,
          co_variables = v, co_write_variables = wv, co_sources = sources\<rparr>)))))))"

datatype crm_access = CrmRead | CrmWrite | CrmVariables | CrmWriteVariables

definition crm_client :: "crm_oauth \<Rightarrow> crm_access \<Rightarrow> client" where
  "crm_client c a = (case a of CrmRead \<Rightarrow> co_read c | CrmWrite \<Rightarrow> co_write c | CrmVariables \<Rightarrow> co_variables c | CrmWriteVariables \<Rightarrow> co_write_variables c)"

text \<open>The fields that an upsert creates and updates, as the classification reads them back from its body; \<open>None\<close> when it cannot.\<close>

definition upsert_access :: "string list \<Rightarrow> crm_access" where
  "upsert_access names = (if list_all (\<lambda>f. f \<in> {''displayName'', ''display_name'', ''description''}) names then CrmWrite else CrmWriteVariables)"

text \<open>\<open>operation\<close>: the inventory of methods, by method and path. \<open>upsert_fields\<close> reads a body.\<close>

definition crm_shape :: "string list \<Rightarrow> string list option" where
  "crm_shape tail = (case tail of
     kind # i # rest \<Rightarrow>
       if kind = ''subjects'' \<or> kind = ''integrations'' \<or> (rest = [] \<and> (kind = ''tags'' \<or> kind = ''variable-definitions''))
       then (if integration_oauth_uuid i then Some (kind # ''{id}'' # rest) else None)
       else Some tail
   | _ \<Rightarrow> Some tail)"

definition crm_inventory :: "(string \<Rightarrow> string list option) \<Rightarrow> string \<Rightarrow> string list \<Rightarrow> string option \<Rightarrow> (crm_access \<times> int list) option" where
  "crm_inventory upsert_fields http_method tail content =
     (if tail = [''subjects'', ''search'', ''count''] \<and> http_method = ''POST'' then Some (CrmRead, [200])
      else if tail = [''subjects'', ''batch''] \<and> http_method = ''POST'' then Some (CrmRead, [200])
      else if tail = [''subjects'', ''search''] \<and> http_method = ''POST'' then Some (CrmRead, [200])
      else if tail = [''subjects'', ''upsert''] \<and> http_method = ''POST'' then
        map_option (\<lambda>fs. (upsert_access fs, [200, 201])) (upsert_fields (case content of None \<Rightarrow> [] | Some b \<Rightarrow> b))
      else (case crm_shape tail of None \<Rightarrow> None
        | Some shape \<Rightarrow>
            let op = (http_method, shape) in
            if op \<in> {(''GET'', [''subjects'', ''{id}'']), (''GET'', [''subjects'', ''{id}'', ''variable-values'']), (''GET'', [''subjects'', ''{id}'', ''tags'']),
               (''GET'', [''variable-definitions'']), (''GET'', [''variable-definitions'', ''{id}'']), (''GET'', [''tags''])} then Some (CrmRead, [200])
            else if op \<in> {(''PUT'', [''subjects'', ''{id}'', ''variable-values'']), (''PATCH'', [''variable-definitions'', ''{id}''])} then Some (CrmVariables, [200])
            else if op \<in> {(''POST'', [''variable-definitions'']), (''POST'', [''integrations'', ''{id}'', ''variable-definitions''])} then Some (CrmVariables, [201])
            else if op = (''DELETE'', [''variable-definitions'', ''{id}'']) then Some (CrmVariables, [204])
            else if op = (''POST'', [''tags'']) then Some (CrmWrite, [201])
            else if op \<in> {(''PATCH'', [''tags'', ''{id}'']), (''PATCH'', [''subjects'', ''{id}'', ''tags''])} then Some (CrmWrite, [200])
            else if op = (''DELETE'', [''tags'', ''{id}'']) then Some (CrmWrite, [204])
            else None))"

definition crm_operation :: "(string \<Rightarrow> string list option) \<Rightarrow> string \<Rightarrow> sdk_request \<Rightarrow> (crm_access \<times> int list) option" where
  "crm_operation upsert_fields project r =
     (case split_on CHR ''/'' (case hq_path r of CHR ''/'' # p \<Rightarrow> p | p \<Rightarrow> p) of
        a # p # tail \<Rightarrow>
          if tail = [] \<or> a \<noteq> ''projects'' \<or> p \<noteq> project then None else crm_inventory upsert_fields (hq_method r) tail (hq_body r)
      | _ \<Rightarrow> None)"

datatype crm_effect =
    ByOAuth crm_access "call_effect list"
  | ByUser "resource_request list"
  | ByKey sdk_request

type_synonym 'a crm_result = "(sdk_error, 'a) go_result \<times> crm_effect list"

text \<open>What the calls meet outside.\<close>

record crm_env =
  ce_outside :: outside
  ce_fields :: "string \<Rightarrow> string list option" \<comment> \<open>the fields under \<open>create\<close> and \<open>update\<close> of a body\<close>
  ce_valid :: "string \<Rightarrow> bool" \<comment> \<open>\<open>json.Valid\<close>\<close>
  ce_answers :: answers
  ce_user :: user_env
  ce_final :: "(int \<times> string) option"

record crm_api =
  ca_user :: "(platform_client \<times> string) option"
  ca_oauth :: "crm_oauth option"
  ca_key :: string

definition crm_with_key :: "string \<Rightarrow> crm_api \<Rightarrow> crm_api" where
  "crm_with_key key c = c\<lparr>ca_key := key\<rparr>"

text \<open>The checks of an answer; \<open>invalid\<close> is the error of an invalid one.\<close>

definition crm_answer :: "crm_env \<Rightarrow> sdk_error \<Rightarrow> int list \<Rightarrow> http_reply \<Rightarrow> (sdk_error, sdk_response) go_result" where
  "crm_answer X invalid statuses a =
     (if hr_status a < 200 \<or> 300 \<le> hr_status a then Inl (SdkCall (OutStatus (hr_status a)))
      else if hr_status a \<notin> set statuses then Inl invalid
      else if hr_status a = 204 then Inr \<lparr>sp_status = 204, sp_body = []\<rparr>
      else if ow_media (ce_outside X) (hr_content_type a) \<noteq> Some ''application/json'' then Inl invalid
      else if 1048576 < length (hr_body a) \<or> \<not> ce_valid X (hr_body a) \<or> trim_space (hr_body a) = ''null'' then Inl invalid
      else Inr \<lparr>sp_status = hr_status a, sp_body = hr_body a\<rparr>)"

definition crm_oauth_do :: "crm_env \<Rightarrow> crm_oauth \<Rightarrow> sdk_request \<Rightarrow> sdk_response crm_result" where
  "crm_oauth_do X c r = (case crm_operation (ce_fields X) (co_project c) r of
     None \<Rightarrow> (Inl (SdkCall OutRequest), [])
   | Some (access, statuses) \<Rightarrow>
      (case exchange (ce_outside X) (crm_client c access) (access = CrmRead) (hq_method r) (request_address (ce_outside X) (co_base c) r)
           (json_headers (hq_body r \<noteq> None)) (hq_body r) (ce_answers X) of
         (Inl e, es) \<Rightarrow> (Inl (SdkCall e), [ByOAuth access es])
       | (Inr a, es) \<Rightarrow> (crm_answer X (SdkCall OutAnswer) statuses a, [ByOAuth access es])))"

definition crm_user_do :: "crm_env \<Rightarrow> platform_client \<Rightarrow> string \<Rightarrow> sdk_request \<Rightarrow> sdk_response crm_result" where
  "crm_user_do X c base r =
     (case split_on CHR ''/'' (case hq_path r of CHR ''/'' # p \<Rightarrow> p | p \<Rightarrow> p) of
        _ # p # _ # _ \<Rightarrow>
          if \<not> integration_oauth_uuid p then (Inl (SdkUser PfInput), [])
          else (case crm_operation (ce_fields X) p r of
            None \<Rightarrow> (Inl (SdkUser PfInput), [])
          | Some (_, statuses) \<Rightarrow> (case request_address (ce_outside X) (trim_right_char CHR ''/'' base) r of
              None \<Rightarrow> (Inl (SdkUser PfInput), [])
            | Some u \<Rightarrow>
               (case platform_do c (Some \<lparr>rq_method = hq_method r, rq_url = Some u, rq_host = u_host u, rq_headers = json_headers (hq_body r \<noteq> None),
                    rq_body = resource_body (hq_body r)\<rparr>) (ce_user X) of
                  (Inl e, sent) \<Rightarrow> (Inl (SdkUser e), [ByUser sent])
                | (Inr a, sent) \<Rightarrow> (crm_answer X (SdkUser PfResponse) statuses a, [ByUser sent]))))
      | _ \<Rightarrow> (Inl (SdkUser PfInput), []))"

definition bearer_request :: "crm_api \<Rightarrow> string \<Rightarrow> string \<Rightarrow> (string \<times> string) list \<Rightarrow> string option \<Rightarrow> bool \<Rightarrow> (outbound_error, sdk_request) go_result" where
  "bearer_request c http_method path query content idem =
     (if ca_oauth c \<noteq> None \<or> ca_user c \<noteq> None
      then Inr \<lparr>hq_method = http_method, hq_path = path, hq_query = query, hq_headers = [], hq_body = content, hq_idempotent = False\<rparr>
      else if ca_key c = [] then Inl OutNoKey
      else Inr \<lparr>hq_method = http_method, hq_path = path, hq_query = query, hq_headers = [(''Authorization'', ''Bearer '' @ ca_key c)], hq_body = content,
        hq_idempotent = idem\<rparr>)"

definition crm_do :: "crm_env \<Rightarrow> crm_api \<Rightarrow> sdk_request \<Rightarrow> sdk_response crm_result" where
  "crm_do X c r = (case ca_user c of Some (p, base) \<Rightarrow> crm_user_do X p base r
     | None \<Rightarrow> (case ca_oauth c of Some x \<Rightarrow> crm_oauth_do X x r
       | None \<Rightarrow> (transport_do r (ce_final X), [ByKey r])))"

text \<open>The steps that every method has in common, and the decoding of the answer.\<close>

definition crm_call :: "crm_env \<Rightarrow> crm_api \<Rightarrow> string \<Rightarrow> string \<Rightarrow> (string \<times> string) list \<Rightarrow> string option \<Rightarrow> bool \<Rightarrow> sdk_response crm_result" where
  "crm_call X c http_method path query content idem = (case bearer_request c http_method path query content idem of
     Inl e \<Rightarrow> (Inl (SdkCall e), []) | Inr r \<Rightarrow> crm_do X c r)"

definition crm_decode :: "crm_api \<Rightarrow> (string \<Rightarrow> 'a option) \<Rightarrow> sdk_response crm_result \<Rightarrow> 'a crm_result" where
  "crm_decode c decode m = (case m of (Inl e, es) \<Rightarrow> (Inl e, es)
     | (Inr a, es) \<Rightarrow> (case decode (sp_body a) of
         None \<Rightarrow> (Inl (if ca_oauth c \<noteq> None \<or> ca_user c \<noteq> None then SdkCall OutAnswer else SdkDecode), es)
       | Some x \<Rightarrow> (Inr x, es)))"

definition crm_refuse :: "string \<Rightarrow> 'a crm_result" where
  "crm_refuse what = (Inl (SdkCall (OutInput what)), [])"

subsection \<open>Subjects\<close>

record subject =
  sj_id :: string
  sj_project :: string
  sj_name :: "string option"
  sj_description :: "string option"

record variable_row =
  vr_subject :: string
  vr_project :: string
  vr_definition :: string
  vr_value :: json
  vr_default :: bool

record tag_row =
  tg_project :: string
  tg_subject :: string
  tg_tag :: string

record upsert_params =
  up_find :: "(string \<times> json) list"
  up_create :: "(string \<times> json) list"
  up_update :: "(string \<times> json) list"
  up_on_multiple :: string
  up_integration :: string

definition fields_to_wire :: "(string \<times> json) list \<Rightarrow> json option" where
  "fields_to_wire fs = (if fs = [] then None else Some (JArr (map (\<lambda>(f, v). JObj [(''field'', JStr f), (''value'', v)]) fs)))"

text \<open>A nil slice without \<open>omitempty\<close> is written as null.\<close>

definition upsert_body :: "upsert_params \<Rightarrow> string" where
  "upsert_body p = write_json (JObj ([(''find'', case fields_to_wire (up_find p) of None \<Rightarrow> JNull | Some j \<Rightarrow> j)] @
     omit_nil ''create'' (fields_to_wire (up_create p)) @ omit_nil ''update'' (fields_to_wire (up_update p)) @
     omit_empty ''onMultiple'' (up_on_multiple p) @ omit_empty ''integrationId'' (up_integration p)))"

definition upsert_subject :: "crm_env \<Rightarrow> crm_api \<Rightarrow> (string \<Rightarrow> 'a option) \<Rightarrow> string \<Rightarrow> upsert_params \<Rightarrow> 'a crm_result" where
  "upsert_subject X c decode project p =
     (if project = [] then crm_refuse ''projectID''
      else crm_decode c decode (crm_call X c ''POST'' (project_path project [''subjects'', ''upsert'']) [] (Some (upsert_body p)) False))"

definition get_subject :: "crm_env \<Rightarrow> crm_api \<Rightarrow> (string \<Rightarrow> subject option) \<Rightarrow> string \<Rightarrow> string \<Rightarrow> subject crm_result" where
  "get_subject X c decode project i =
     (if project = [] \<or> i = [] then crm_refuse ''projectID and subjectID''
      else crm_decode c decode (crm_call X c ''GET'' (project_path project [''subjects'', i]) [] None True))"

definition list_subject_variables :: "crm_env \<Rightarrow> crm_api \<Rightarrow> (string \<Rightarrow> variable_row list option) \<Rightarrow> string \<Rightarrow> string \<Rightarrow> variable_row list crm_result" where
  "list_subject_variables X c decode project i =
     (if project = [] \<or> i = [] then crm_refuse ''projectID and subjectID''
      else crm_decode c decode (crm_call X c ''GET'' (project_path project [''subjects'', i, ''variable-values'']) [] None True))"

definition list_subject_tags :: "crm_env \<Rightarrow> crm_api \<Rightarrow> (string \<Rightarrow> tag_row list option) \<Rightarrow> string \<Rightarrow> string \<Rightarrow> tag_row list crm_result" where
  "list_subject_tags X c decode project i =
     (if project = [] \<or> i = [] then crm_refuse ''projectID and subjectID''
      else crm_decode c decode (crm_call X c ''GET'' (project_path project [''subjects'', i, ''tags'']) [] None True))"

definition nil_strings :: "string list option \<Rightarrow> json" where
  "nil_strings ss = (case ss of None \<Rightarrow> JNull | Some xs \<Rightarrow> JArr (map JStr xs))"

definition update_subject_tags :: "crm_env \<Rightarrow> crm_api \<Rightarrow> (string \<Rightarrow> tag_row list option) \<Rightarrow> string \<Rightarrow> string \<Rightarrow> string list option \<Rightarrow> string list option \<Rightarrow>
    tag_row list crm_result" where
  "update_subject_tags X c decode project i adds removes =
     (if project = [] \<or> i = [] then crm_refuse ''projectID and subjectID''
      else crm_decode c decode (crm_call X c ''PATCH'' (project_path project [''subjects'', i, ''tags'']) []
        (Some (write_json (JObj [(''addTags'', nil_strings adds), (''removeTags'', nil_strings removes)]))) True))"

definition set_subject_variables :: "crm_env \<Rightarrow> crm_api \<Rightarrow> (string \<Rightarrow> variable_row list option) \<Rightarrow> string \<Rightarrow> string \<Rightarrow> (string \<times> json) list \<Rightarrow>
    variable_row list crm_result" where
  "set_subject_variables X c decode project i vs =
     (if project = [] \<or> i = [] then crm_refuse ''projectID and subjectID''
      else crm_decode c (\<lambda>b. if b = [] then Some [] else decode b)
        (crm_call X c ''PUT'' (project_path project [''subjects'', i, ''variable-values'']) []
          (Some (write_json (JArr (map (\<lambda>(d, v). JObj [(''variableDefinitionId'', JStr d), (''value'', v)]) vs)))) True))"

text \<open>\<open>input\<close> is the JSON of the request.\<close>

definition count_subjects :: "crm_env \<Rightarrow> crm_api \<Rightarrow> (string \<Rightarrow> int option option) \<Rightarrow> string \<Rightarrow> json \<Rightarrow> int crm_result" where
  "count_subjects X c decode project input =
     (if \<not> integration_oauth_uuid project then crm_refuse ''a UUID projectID''
      else (case crm_decode c decode (crm_call X c ''POST'' (project_path project [''subjects'', ''search'', ''count'']) [] (Some (write_json input)) True) of
          (Inr (Some n), es) \<Rightarrow> (if n < 0 then Inl SdkDecode else Inr n, es)
        | (Inr None, es) \<Rightarrow> (Inl SdkDecode, es)
        | (Inl e, es) \<Rightarrow> (Inl e, es)))"

definition search_subjects :: "crm_env \<Rightarrow> crm_api \<Rightarrow> (string \<Rightarrow> 'a option) \<Rightarrow> string \<Rightarrow> json \<Rightarrow> 'a crm_result" where
  "search_subjects X c decode project input =
     (if \<not> integration_oauth_uuid project then crm_refuse ''a UUID projectID''
      else crm_decode c decode (crm_call X c ''POST'' (project_path project [''subjects'', ''search'']) [] (Some (write_json input)) True))"

definition get_subjects :: "crm_env \<Rightarrow> crm_api \<Rightarrow> (string \<Rightarrow> subject list option) \<Rightarrow> string \<Rightarrow> string list \<Rightarrow> subject list crm_result" where
  "get_subjects X c decode project ids =
     (if \<not> integration_oauth_uuid project \<or> 200 < length ids then (Inl (SdkCall OutRequest), [])
      else if ids = [] then (Inr [], [])
      else if \<not> list_all integration_oauth_uuid ids then (Inl (SdkCall OutRequest), [])
      else (case crm_call X c ''POST'' (project_path project [''subjects'', ''batch'']) [] (Some (write_json (JObj [(''ids'', JArr (map JStr ids))]))) True of
          (Inl e, es) \<Rightarrow> (Inl e, es)
        | (Inr a, es) \<Rightarrow> (case decode (sp_body a) of None \<Rightarrow> (Inl (SdkCall OutAnswer), es) | Some ss \<Rightarrow> (Inr ss, es))))"

subsection \<open>Variable definitions and tags\<close>

record variable_definition =
  vd_id :: string
  vd_project :: string
  vd_name :: string
  vd_key :: string
  vd_type :: string
  vd_description :: "string option"
  vd_default :: "json option"
  vd_owner :: string
  vd_integration :: "string option"

record create_definition =
  cd_name :: string
  cd_key :: string
  cd_type :: string
  cd_description :: "string option"
  cd_default :: "json option"

record update_definition =
  ud_name :: "string option"
  ud_key :: "string option"
  ud_type :: "string option"
  ud_description :: "string option"
  ud_default :: "json option"

definition omit_none :: "string \<Rightarrow> string option \<Rightarrow> (string \<times> json) list" where
  "omit_none name v = omit_nil name (map_option JStr v)"

definition create_definition_body :: "create_definition \<Rightarrow> string" where
  "create_definition_body p = write_json (JObj ([(''name'', JStr (cd_name p)), (''key'', JStr (cd_key p))] @ omit_empty ''type'' (cd_type p) @
     omit_none ''description'' (cd_description p) @ omit_nil ''defaultValue'' (cd_default p)))"

definition update_definition_body :: "update_definition \<Rightarrow> string" where
  "update_definition_body p = write_json (JObj (omit_none ''name'' (ud_name p) @ omit_none ''key'' (ud_key p) @ omit_none ''type'' (ud_type p) @
     omit_none ''description'' (ud_description p) @ omit_nil ''defaultValue'' (ud_default p)))"

definition list_variable_definitions :: "crm_env \<Rightarrow> crm_api \<Rightarrow> (string \<Rightarrow> variable_definition list option) \<Rightarrow> string \<Rightarrow> string \<Rightarrow> string \<Rightarrow>
    variable_definition list crm_result" where
  "list_variable_definitions X c decode project owner integration =
     (if project = [] then crm_refuse ''projectID''
      else crm_decode c decode (crm_call X c ''GET'' (project_path project [''variable-definitions''])
        ((if owner = [] then [] else [(''ownerType'', owner)]) @ (if integration = [] then [] else [(''integrationId'', integration)])) None True))"

definition get_variable_definition :: "crm_env \<Rightarrow> crm_api \<Rightarrow> (string \<Rightarrow> variable_definition option) \<Rightarrow> string \<Rightarrow> string \<Rightarrow> variable_definition crm_result" where
  "get_variable_definition X c decode project d =
     (if project = [] \<or> d = [] then crm_refuse ''projectID and definitionID''
      else crm_decode c decode (crm_call X c ''GET'' (project_path project [''variable-definitions'', d]) [] None True))"

definition create_variable_definition :: "crm_env \<Rightarrow> crm_api \<Rightarrow> (string \<Rightarrow> variable_definition option) \<Rightarrow> string \<Rightarrow> create_definition \<Rightarrow>
    variable_definition crm_result" where
  "create_variable_definition X c decode project p =
     (if project = [] then crm_refuse ''projectID''
      else if cd_name p = [] \<or> cd_key p = [] then crm_refuse ''name and key''
      else crm_decode c decode (crm_call X c ''POST'' (project_path project [''variable-definitions'']) [] (Some (create_definition_body p)) False))"

definition update_variable_definition :: "crm_env \<Rightarrow> crm_api \<Rightarrow> (string \<Rightarrow> variable_definition option) \<Rightarrow> string \<Rightarrow> string \<Rightarrow> update_definition \<Rightarrow>
    variable_definition crm_result" where
  "update_variable_definition X c decode project d p =
     (if project = [] \<or> d = [] then crm_refuse ''projectID and definitionID''
      else crm_decode c decode (crm_call X c ''PATCH'' (project_path project [''variable-definitions'', d]) [] (Some (update_definition_body p)) True))"

definition delete_variable_definition :: "crm_env \<Rightarrow> crm_api \<Rightarrow> string \<Rightarrow> string \<Rightarrow> unit crm_result" where
  "delete_variable_definition X c project d =
     (if project = [] \<or> d = [] then crm_refuse ''projectID and definitionID''
      else crm_decode c (\<lambda>_. Some ()) (crm_call X c ''DELETE'' (project_path project [''variable-definitions'', d]) [] None True))"

definition ensure :: "'a crm_result \<Rightarrow> unit crm_result" where
  "ensure m = (case m of (Inl e, es) \<Rightarrow> (if e = SdkCall (OutStatus 409) then Inr () else Inl e, es) | (Inr _, es) \<Rightarrow> (Inr (), es))"

definition ensure_variable_definition :: "crm_env \<Rightarrow> crm_api \<Rightarrow> (string \<Rightarrow> variable_definition option) \<Rightarrow> string \<Rightarrow> create_definition \<Rightarrow> unit crm_result" where
  "ensure_variable_definition X c decode project p = ensure (create_variable_definition X c decode project p)"

definition create_integration_variable_definition :: "crm_env \<Rightarrow> crm_api \<Rightarrow> (string \<Rightarrow> variable_definition option) \<Rightarrow> string \<Rightarrow> string \<Rightarrow> create_definition \<Rightarrow>
    variable_definition crm_result" where
  "create_integration_variable_definition X c decode project integration p =
     (if project = [] \<or> integration = [] then crm_refuse ''projectID and integrationID''
      else if cd_name p = [] \<or> cd_key p = [] then crm_refuse ''name and key''
      else crm_decode c decode (crm_call X c ''POST'' (project_path project [''integrations'', integration, ''variable-definitions'']) []
        (Some (create_definition_body p)) False))"

definition ensure_integration_variable_definition :: "crm_env \<Rightarrow> crm_api \<Rightarrow> (string \<Rightarrow> variable_definition option) \<Rightarrow> string \<Rightarrow> string \<Rightarrow> create_definition \<Rightarrow>
    unit crm_result" where
  "ensure_integration_variable_definition X c decode project integration p =
     ensure (create_integration_variable_definition X c decode project integration p)"

record crm_tag =
  ct_id :: string
  ct_project :: string
  ct_name :: string
  ct_description :: "string option"

definition list_tags :: "crm_env \<Rightarrow> crm_api \<Rightarrow> (string \<Rightarrow> crm_tag list option) \<Rightarrow> string \<Rightarrow> crm_tag list crm_result" where
  "list_tags X c decode project =
     (if project = [] then crm_refuse ''projectID'' else crm_decode c decode (crm_call X c ''GET'' (project_path project [''tags'']) [] None True))"

definition create_tag :: "crm_env \<Rightarrow> crm_api \<Rightarrow> (string \<Rightarrow> crm_tag option) \<Rightarrow> string \<Rightarrow> string \<Rightarrow> string option \<Rightarrow> crm_tag crm_result" where
  "create_tag X c decode project name description =
     (if project = [] then crm_refuse ''projectID'' else if name = [] then crm_refuse ''name''
      else crm_decode c decode (crm_call X c ''POST'' (project_path project [''tags'']) []
        (Some (write_json (JObj ((''name'', JStr name) # omit_none ''description'' description)))) False))"

definition update_tag :: "crm_env \<Rightarrow> crm_api \<Rightarrow> (string \<Rightarrow> crm_tag option) \<Rightarrow> string \<Rightarrow> string \<Rightarrow> string option \<Rightarrow> string option \<Rightarrow> crm_tag crm_result" where
  "update_tag X c decode project t name description =
     (if project = [] \<or> t = [] then crm_refuse ''projectID and tagID''
      else crm_decode c decode (crm_call X c ''PATCH'' (project_path project [''tags'', t]) []
        (Some (write_json (JObj (omit_none ''name'' name @ omit_none ''description'' description)))) True))"

definition delete_tag :: "crm_env \<Rightarrow> crm_api \<Rightarrow> string \<Rightarrow> string \<Rightarrow> unit crm_result" where
  "delete_tag X c project t =
     (if project = [] \<or> t = [] then crm_refuse ''projectID and tagID''
      else crm_decode c (\<lambda>_. Some ()) (crm_call X c ''DELETE'' (project_path project [''tags'', t]) [] None True))"

subsection \<open>Least privilege\<close>

definition access_scopes :: "crm_access \<Rightarrow> string list" where
  "access_scopes a = (case a of CrmRead \<Rightarrow> [''crm.read''] | CrmWrite \<Rightarrow> [''crm.write''] | CrmVariables \<Rightarrow> [''variables.write'']
     | CrmWriteVariables \<Rightarrow> [''crm.write'', ''variables.write''])"

text \<open>A call by a token of the installation with exactly these scopes, to the project; only a read may be repeated.\<close>

definition authorized_call :: "crm_env \<Rightarrow> installation_binding \<Rightarrow> crm_access \<Rightarrow> string \<Rightarrow> string list \<Rightarrow> 'a crm_result \<Rightarrow> bool" where
  "authorized_call X b access http_method segs m \<longleftrightarrow> (\<exists>c base q content es. snd m = [ByOAuth access es] \<and>
     grant c b ''crm'' (access_scopes access) \<and>
     sends_only (ce_outside X) c (access = CrmRead) http_method
       (request_address (ce_outside X) base \<lparr>hq_method = http_method, hq_path = project_path (ib_project b) segs, hq_query = q, hq_headers = [],
          hq_body = content, hq_idempotent = False\<rparr>) content es)"

lemma new_crm_grants:
  assumes "new_crm_oauth W base backend (Some b) = Inr (Some x)"
  shows "co_project x = ib_project b" "grant (crm_client x access) b ''crm'' (access_scopes access)"
  using assms by (auto simp: new_crm_oauth_def bindR_eq_Inr Let_def crm_client_def access_scopes_def split: crm_access.split dest: scoped_client_grant)

lemma snd_crm_decode [simp]: "snd (crm_decode c decode m) = snd m"
  by (auto simp: crm_decode_def split: prod.split sum.split option.split)

lemma crm_call_authorized:
  assumes x: "new_crm_oauth (ce_outside X) base backend (Some b) = Inr (Some x)" and c: "ca_oauth c = Some x" "ca_user c = None"
    and p: "integration_oauth_uuid (ib_project b)" "list_all (\<lambda>s. CHR ''/'' \<notin> set s) segs" "segs \<noteq> []"
    and op: "crm_operation (ce_fields X) (ib_project b) \<lparr>hq_method = http_method, hq_path = project_path (ib_project b) segs, hq_query = q, hq_headers = [],
        hq_body = content, hq_idempotent = False\<rparr> = Some (access, statuses)"
  shows "authorized_call X b access http_method segs (crm_call X c http_method (project_path (ib_project b) segs) q content idem)"
proof -
  let ?r = "\<lparr>hq_method = http_method, hq_path = project_path (ib_project b) segs, hq_query = q, hq_headers = [], hq_body = content, hq_idempotent = False\<rparr>"
  have call: "crm_call X c http_method (project_path (ib_project b) segs) q content idem = crm_oauth_do X x ?r"
    by (simp add: crm_call_def bearer_request_def c crm_do_def)
  obtain res es where e: "exchange (ce_outside X) (crm_client x access) (access = CrmRead) http_method (request_address (ce_outside X) (co_base x) ?r)
      (json_headers (content \<noteq> None)) content (ce_answers X) = (res, es)" by fastforce
  then have "snd (crm_oauth_do X x ?r) = [ByOAuth access es]"
    by (simp add: crm_oauth_do_def new_crm_grants(1) [OF x] op split: sum.split)
  with exchange_sends [OF e] new_crm_grants(2) [OF x] show ?thesis
    unfolding authorized_call_def call by blast
qed

lemma crm_operation_path:
  assumes "CHR ''/'' \<notin> set project" "list_all (\<lambda>s. CHR ''/'' \<notin> set s) segs" "segs \<noteq> []" "hq_path r = project_path project segs"
  shows "crm_operation rd project r = crm_inventory rd (hq_method r) segs (hq_body r)"
  using assms(3) by (simp add: crm_operation_def assms(4) split_project_path [OF assms(1-3)])

lemma crm_method_authorized:
  assumes "new_crm_oauth (ce_outside X) base backend (Some b) = Inr (Some x)" "ca_oauth c = Some x" "ca_user c = None"
    and p: "integration_oauth_uuid (ib_project b)" "list_all (\<lambda>s. CHR ''/'' \<notin> set s) segs" "segs \<noteq> []"
    and "crm_inventory (ce_fields X) http_method segs content = Some (access, statuses)"
  shows "authorized_call X b access http_method segs (crm_call X c http_method (project_path (ib_project b) segs) q content idem)"
  by (rule crm_call_authorized [OF assms(1-6), where statuses = statuses], subst crm_operation_path)
    (use assms(7) p(2,3) uuid_no_slash [OF p(1)] in simp_all)

lemma authorized_decode [simp]: "authorized_call X b access http_method segs (crm_decode c decode m) = authorized_call X b access http_method segs m"
  by (simp add: authorized_call_def)

lemma authorized_ensure [simp]: "authorized_call X b access http_method segs (ensure m) = authorized_call X b access http_method segs m"
  by (cases m; cases "fst m") (auto simp: authorized_call_def ensure_def)

lemma crm_shape_id: "integration_oauth_uuid i \<Longrightarrow> crm_shape (''subjects'' # i # rest) = Some (''subjects'' # ''{id}'' # rest)"
  "integration_oauth_uuid i \<Longrightarrow> crm_shape (''integrations'' # i # rest) = Some (''integrations'' # ''{id}'' # rest)"
  "integration_oauth_uuid i \<Longrightarrow> crm_shape [''tags'', i] = Some [''tags'', ''{id}'']"
  "integration_oauth_uuid i \<Longrightarrow> crm_shape [''variable-definitions'', i] = Some [''variable-definitions'', ''{id}'']"
  "crm_shape [k] = Some [k]"
  by (simp_all add: crm_shape_def)

lemma uuid_not_word: "integration_oauth_uuid i \<Longrightarrow> i \<noteq> ''search'' \<and> i \<noteq> ''batch'' \<and> i \<noteq> ''upsert''"
  by (auto simp: integration_oauth_uuid_def)

lemmas crm_methods = get_subject_def list_subject_variables_def list_subject_tags_def search_subjects_def list_variable_definitions_def
  get_variable_definition_def list_tags_def update_subject_tags_def set_subject_variables_def ensure_variable_definition_def create_variable_definition_def
  update_variable_definition_def delete_variable_definition_def ensure_integration_variable_definition_def create_integration_variable_definition_def
  create_tag_def update_tag_def delete_tag_def upsert_subject_def


definition crm_example :: crm_oauth where
  "crm_example = \<lparr>co_project = ib_project binding_example, co_base = ''https://api/x'', co_backend = ''https://api/x'', co_read = client_for ''crm'' [''crm.read''],
     co_write = client_for ''crm'' [''crm.write''], co_variables = client_for ''crm'' [''variables.write''],
     co_write_variables = client_for ''crm'' [''crm.write'', ''variables.write''], co_sources = client_for ''backend'' [''crm.read'']\<rparr>"

lemma new_crm_example:
  "new_crm_oauth outside_example ''https://api/x'' ''https://api/x'' (Some binding_example) = Inr (Some crm_example)"
proof -
  have "scoped_client outside_example ''https://api/x'' ''backend'' binding_example [''crm.read''] = Inr (client_for ''backend'' [''crm.read''])"
    by (rule scoped_example) (simp add: key_simps)
  moreover have "scoped_client outside_example ''https://api/x'' ''crm'' binding_example [''crm.read''] = Inr (client_for ''crm'' [''crm.read''])"
    by (rule scoped_example) (simp add: key_simps)
  moreover have "scoped_client outside_example ''https://api/x'' ''crm'' binding_example [''crm.write''] = Inr (client_for ''crm'' [''crm.write''])"
    by (rule scoped_example) (simp add: key_simps)
  moreover have "scoped_client outside_example ''https://api/x'' ''crm'' binding_example [''variables.write''] = Inr (client_for ''crm'' [''variables.write''])"
    by (rule scoped_example) (simp add: key_simps)
  moreover have "scoped_client outside_example ''https://api/x'' ''crm'' binding_example [''crm.write'', ''variables.write''] =
      Inr (client_for ''crm'' [''crm.write'', ''variables.write''])"
    by (rule scoped_example) (simp add: key_simps)
  ultimately show ?thesis by (simp add: new_crm_oauth_def crm_example_def bindR_def trim_right_char_def Let_def)
qed

definition crm_env_example :: crm_env where
  "crm_env_example = \<lparr>ce_outside = outside_example, ce_fields = (\<lambda>_. Some [''displayName'']), ce_valid = (\<lambda>_. True), ce_answers = answers_example,
     ce_user = user_example, ce_final = None\<rparr>"

definition crm_api_example :: crm_api where
  "crm_api_example = \<lparr>ca_user = None, ca_oauth = Some crm_example, ca_key = ''key''\<rparr>"

definition upsert_example :: upsert_params where
  "upsert_example = \<lparr>up_find = [(''externalId'', JStr ''1'')], up_create = [(''displayName'', JStr ''a'')], up_update = [], up_on_multiple = [], up_integration = []\<rparr>"


end
