(* ===== verification/FilesClient.thy ===== *)
theory FilesClient
  imports Transport Tokens PlatformResources
begin

text \<open>
  The media files of a project: \<open>src/integration/files.go\<close>, \<open>files_oauth.go\<close>. An upload is a sequence of three exchanges: a target is
  asked for, the bytes go to storage without any credential, the upload is finalized. The number of a call indexes its answers.
  A stored file is a \<open>user_file\<close>, the usage a \<open>file_usage\<close> (the types are those of \<open>src/platform/files.go\<close>); dates of requests are given
  as formatted.
\<close>

subsection \<open>The grant of an installation\<close>

datatype files_access = FilesRead | FilesWrite

record files_oauth =
  fo_project :: string
  fo_base :: string
  fo_read :: client
  fo_write :: client
  fo_upload_timeout :: duration

text \<open>The timeout of the client for storage, given the one configured; it has no cookies and follows no redirect.\<close>

definition upload_timeout :: "duration option \<Rightarrow> duration" where
  "upload_timeout cfg = (let t = (case cfg of None \<Rightarrow> 0 | Some t \<Rightarrow> t) in if t \<le> 0 \<or> 300 * second < t then 300 * second else t)"

definition new_files_oauth :: "outside \<Rightarrow> string \<Rightarrow> (installation_binding \<times> duration option) option \<Rightarrow> (outbound_error, files_oauth option) go_result" where
  "new_files_oauth W base cfg = (case cfg of None \<Rightarrow> Inr None
     | Some (b, t) \<Rightarrow>
        bindR (scoped_client W base ''media'' b [''files.read'']) (\<lambda>r.
        bindR (scoped_client W base ''media'' b [''files.write'']) (\<lambda>w.
        Inr (Some \<lparr>fo_project = ib_project b, fo_base = trim_right_char CHR ''/'' base, fo_read = r, fo_write = w, fo_upload_timeout = upload_timeout t\<rparr>))))"

definition files_client_of :: "files_oauth \<Rightarrow> files_access \<Rightarrow> client" where
  "files_client_of x a = (case a of FilesRead \<Rightarrow> fo_read x | FilesWrite \<Rightarrow> fo_write x)"

text \<open>\<open>operation\<close>: the inventory of methods.\<close>

definition files_shape :: "string \<Rightarrow> string option" where
  "files_shape p = (case split_on CHR ''/'' (trim_prefix ''/'' p) of
     a # i # rest \<Rightarrow>
       if a = ''files'' \<and> i \<noteq> ''purge'' \<and> i \<noteq> ''upload-url''
       then (if integration_oauth_uuid i then Some (''/'' @ join ''/'' (a # ''{id}'' # rest)) else None)
       else Some p
   | _ \<Rightarrow> Some p)"

definition files_operation :: "sdk_request \<Rightarrow> (files_access \<times> int list) option" where
  "files_operation r = (case files_shape (hq_path r) of None \<Rightarrow> None
     | Some shape \<Rightarrow>
        let op = hq_method r @ '' '' @ shape in
        if op \<in> {''GET /files'', ''GET /files/{id}'', ''GET /usage''} then Some (FilesRead, [200])
        else if op = ''POST /files'' then Some (FilesWrite, [201])
        else if op \<in> {''POST /files/upload-url'', ''POST /files/purge'', ''POST /files/{id}/content'', ''PATCH /files/{id}'', ''DELETE /files/{id}''}
        then Some (FilesWrite, [200]) else None)"

subsection \<open>A call\<close>

record storage_request =
  st_method :: string
  st_url :: url
  st_headers :: "(string \<times> string) list"
  st_body :: string

datatype files_effect =
    FilesByOAuth files_access "call_effect list"
  | FilesByKey sdk_request
  | ToStorage storage_request

type_synonym 'a files_result = "(sdk_error, 'a) go_result \<times> files_effect list"

record files_env =
  fe_outside :: outside
  fe_valid :: "string \<Rightarrow> bool"
  fe_answers :: "nat \<Rightarrow> answers"
  fe_final :: "nat \<Rightarrow> (int \<times> string) option"
  fe_md5 :: "string \<Rightarrow> string" \<comment> \<open>the sixteen bytes of \<open>md5.Sum\<close>\<close>
  fe_storage :: "(bool, int) go_result" \<comment> \<open>the status of storage, or whether the context ended\<close>

record files_api =
  fc_oauth :: "files_oauth option"
  fc_key :: string

definition files_with_key :: "string \<Rightarrow> files_api \<Rightarrow> files_api" where
  "files_with_key key c = c\<lparr>fc_key := key\<rparr>"

definition files_bearer :: "files_api \<Rightarrow> string \<Rightarrow> string \<Rightarrow> (string \<times> string) list \<Rightarrow> string option \<Rightarrow> bool \<Rightarrow> (sdk_error, sdk_request) go_result" where
  "files_bearer c http_method path query content idem =
     (if fc_oauth c = None \<and> fc_key c = [] then Inl (SdkCall OutNoKey)
      else Inr \<lparr>hq_method = http_method, hq_path = path, hq_query = query,
        hq_headers = (if fc_oauth c \<noteq> None then [] else [(''Authorization'', ''Bearer '' @ fc_key c)]), hq_body = content, hq_idempotent = idem\<rparr>)"

definition files_answer :: "files_env \<Rightarrow> int list \<Rightarrow> http_reply \<Rightarrow> (sdk_error, sdk_response) go_result" where
  "files_answer X statuses a =
     (if hr_status a < 200 \<or> 300 \<le> hr_status a then Inl (SdkCall (OutStatus (hr_status a)))
      else if hr_status a \<notin> set statuses then Inl (SdkCall OutAnswer)
      else if ow_media (fe_outside X) (hr_content_type a) \<noteq> Some ''application/json'' then Inl (SdkCall OutAnswer)
      else if 1048576 < length (hr_body a) \<or> \<not> fe_valid X (hr_body a) \<or> trim_space (hr_body a) = ''null'' then Inl (SdkCall OutAnswer)
      else Inr \<lparr>sp_status = hr_status a, sp_body = hr_body a\<rparr>)"

definition files_oauth_do :: "files_env \<Rightarrow> nat \<Rightarrow> files_oauth \<Rightarrow> sdk_request \<Rightarrow> sdk_response files_result" where
  "files_oauth_do X n x r = (case files_operation r of
     None \<Rightarrow> (Inl (SdkCall OutRequest), [])
   | Some (access, statuses) \<Rightarrow>
      (case exchange (fe_outside X) (files_client_of x access) False (hq_method r) (request_address (fe_outside X) (fo_base x) r)
           (json_headers (hq_body r \<noteq> None)) (hq_body r) (fe_answers X n) of
         (Inl e, es) \<Rightarrow> (Inl (SdkCall e), [FilesByOAuth access es])
       | (Inr a, es) \<Rightarrow> (files_answer X statuses a, [FilesByOAuth access es])))"

definition files_do :: "files_env \<Rightarrow> nat \<Rightarrow> files_api \<Rightarrow> sdk_request \<Rightarrow> sdk_response files_result" where
  "files_do X n c r = (case fc_oauth c of Some x \<Rightarrow> files_oauth_do X n x r
     | None \<Rightarrow> (transport_do r (fe_final X n), [FilesByKey r]))"

text \<open>Sequences of calls, and the steps that every method has in common.\<close>

definition andthen :: "'a files_result \<Rightarrow> ('a \<Rightarrow> 'b files_result) \<Rightarrow> 'b files_result" where
  "andthen m f = (case m of (Inl e, es) \<Rightarrow> (Inl e, es) | (Inr a, es) \<Rightarrow> (case f a of (r, fs) \<Rightarrow> (r, es @ fs)))"

definition files_refuse :: "outbound_error \<Rightarrow> 'a files_result" where
  "files_refuse e = (Inl (SdkCall e), [])"

definition files_call :: "files_env \<Rightarrow> nat \<Rightarrow> files_api \<Rightarrow> string \<Rightarrow> string \<Rightarrow> (string \<times> string) list \<Rightarrow> string option \<Rightarrow> bool \<Rightarrow> sdk_response files_result" where
  "files_call X n c http_method path query content idem = (case files_bearer c http_method path query content idem of
     Inl e \<Rightarrow> (Inl e, []) | Inr r \<Rightarrow> files_do X n c r)"

definition files_decode :: "files_api \<Rightarrow> (string \<Rightarrow> 'a option) \<Rightarrow> sdk_response \<Rightarrow> 'a files_result" where
  "files_decode c decode a = (case decode (sp_body a) of
     None \<Rightarrow> (Inl (if fc_oauth c \<noteq> None then SdkCall OutAnswer else SdkDecode), []) | Some x \<Rightarrow> (Inr x, []))"

subsection \<open>Uploads\<close>

record upload_target =
  ut_key :: string
  ut_url :: string
  ut_method :: string

definition validate_upload_target :: "outside \<Rightarrow> files_oauth \<Rightarrow> upload_target \<Rightarrow> url option" where
  "validate_upload_target W x t =
     (let key_prefix = ''tmp/'' @ fo_project x @ ''/'' in
      case ow_url W (ut_url t) of None \<Rightarrow> None
      | Some u \<Rightarrow>
         if u_scheme u \<noteq> ''https'' \<or> u_hostname u = [] \<or> u_user u \<or> u_opaque u \<noteq> [] \<or> CHR ''#'' \<in> set (ut_url t) \<or> ut_method t \<noteq> ''PUT'' \<or>
            \<not> has_prefix key_prefix (ut_key t) \<or> \<not> integration_oauth_uuid (trim_prefix key_prefix (ut_key t)) then None else Some u)"

definition md5_base64 :: "files_env \<Rightarrow> string \<Rightarrow> string" where
  "md5_base64 X content = b64std (fe_md5 X content)"

definition storage_put :: "files_env \<Rightarrow> string \<Rightarrow> url \<Rightarrow> string \<Rightarrow> string \<Rightarrow> storage_request" where
  "storage_put X http_method u content mime = \<lparr>st_method = http_method, st_url = u,
     st_headers = (''Content-Md5'', md5_base64 X content) # (if mime = [] then [] else [(''Content-Type'', mime)]), st_body = content\<rparr>"

text \<open>\<open>validMethod\<close> of \<open>net/http\<close>.\<close>

definition http_token :: "string \<Rightarrow> bool" where
  "http_token s \<longleftrightarrow> s \<noteq> [] \<and> list_all (\<lambda>c. is_digit c \<or> (CHR ''a'' \<le> c \<and> c \<le> CHR ''z'') \<or> (CHR ''A'' \<le> c \<and> c \<le> CHR ''Z'') \<or>
     c \<in> set ''!#$%&+-.^_`|~*'' \<or> c = CHR 0x27) s"

definition put_object :: "files_env \<Rightarrow> files_api \<Rightarrow> upload_target \<Rightarrow> string \<Rightarrow> string \<Rightarrow> unit files_result" where
  "put_object X c t content mime = (case fc_oauth c of
     Some x \<Rightarrow> (case validate_upload_target (fe_outside X) x t of None \<Rightarrow> files_refuse OutAnswer
       | Some u \<Rightarrow> (case fe_storage X of
           Inl ended \<Rightarrow> (Inl (if ended then SdkContext else SdkCall OutUpload), [ToStorage (storage_put X ''PUT'' u content mime)])
         | Inr status \<Rightarrow> (if status = 200 \<or> status = 204 then Inr () else Inl (SdkCall OutUpload), [ToStorage (storage_put X ''PUT'' u content mime)])))
   | None \<Rightarrow>
       let http_method = (if ut_method t = [] then ''PUT'' else ut_method t) in
       (case (if http_token http_method then ow_url (fe_outside X) (ut_url t) else None) of None \<Rightarrow> (Inl (SdkStorage None), [])
       | Some u \<Rightarrow> (case fe_storage X of
           Inl _ \<Rightarrow> (Inl (SdkStorage None), [ToStorage (storage_put X http_method u content mime)])
         | Inr status \<Rightarrow> (if status < 200 \<or> 300 \<le> status then Inl (SdkStorage (Some status)) else Inr (),
             [ToStorage (storage_put X http_method u content mime)]))))"

definition create_upload_url :: "files_env \<Rightarrow> files_api \<Rightarrow> (string \<Rightarrow> upload_target option) \<Rightarrow> upload_target files_result" where
  "create_upload_url X c decode =
     andthen (files_call X 0 c ''POST'' ''/files/upload-url'' [] None True) (\<lambda>a.
     andthen (files_decode c decode a) (\<lambda>t.
       case fc_oauth c of
         Some x \<Rightarrow> (case validate_upload_target (fe_outside X) x t of None \<Rightarrow> files_refuse OutAnswer
           | Some _ \<Rightarrow> if ut_url t = [] \<or> ut_key t = [] then files_refuse (OutInput ''empty upload target'') else (Inr t, []))
       | None \<Rightarrow> if ut_url t = [] \<or> ut_key t = [] then files_refuse (OutInput ''empty upload target'') else (Inr t, [])))"

text \<open>The steps that \<open>UploadToNamespace\<close> and \<open>Replace\<close> share; \<open>path\<close> and \<open>content_of\<close> are those of the last call.\<close>

definition upload_then :: "files_env \<Rightarrow> files_api \<Rightarrow> (string \<Rightarrow> upload_target option) \<Rightarrow> (string \<Rightarrow> user_file option) \<Rightarrow> string \<Rightarrow> string \<Rightarrow>
    string \<Rightarrow> (string \<Rightarrow> string) \<Rightarrow> user_file files_result" where
  "upload_then X c decode_target decode content mime path body_of =
     andthen (create_upload_url X c decode_target) (\<lambda>t.
     andthen (put_object X c t content mime) (\<lambda>_.
     andthen (files_call X 1 c ''POST'' path [] (Some (body_of (ut_key t))) False) (files_decode c decode)))"

definition finalize_body :: "string \<Rightarrow> string \<Rightarrow> string \<Rightarrow> string \<Rightarrow> string" where
  "finalize_body namespace name mime key = write_json (JObj ([(''uploadKey'', JStr key), (''fileName'', JStr name), (''mimeType'', JStr mime)] @
     omit_empty ''namespace'' namespace))"

definition upload_to_namespace :: "files_env \<Rightarrow> files_api \<Rightarrow> (string \<Rightarrow> upload_target option) \<Rightarrow> (string \<Rightarrow> user_file option) \<Rightarrow> string \<Rightarrow> string \<Rightarrow>
    string \<Rightarrow> string \<Rightarrow> user_file files_result" where
  "upload_to_namespace X c decode_target decode namespace name mime content =
     (if content = [] then files_refuse (OutInput ''content'')
      else if fc_oauth c = None \<and> fc_key c = [] then files_refuse OutNoKey
      else upload_then X c decode_target decode content mime ''/files'' (finalize_body namespace name mime))"

definition upload_file :: "files_env \<Rightarrow> files_api \<Rightarrow> (string \<Rightarrow> upload_target option) \<Rightarrow> (string \<Rightarrow> user_file option) \<Rightarrow> string \<Rightarrow> string \<Rightarrow> string \<Rightarrow>
    user_file files_result" where
  "upload_file X c decode_target decode name mime content = upload_to_namespace X c decode_target decode [] name mime content"

definition replace_body :: "string \<Rightarrow> string \<Rightarrow> string" where
  "replace_body mime key = write_json (JObj [(''uploadKey'', JStr key), (''mimeType'', JStr mime)])"

definition replace_file :: "files_env \<Rightarrow> files_api \<Rightarrow> (string \<Rightarrow> upload_target option) \<Rightarrow> (string \<Rightarrow> user_file option) \<Rightarrow> string \<Rightarrow> string \<Rightarrow> string \<Rightarrow>
    user_file files_result" where
  "replace_file X c decode_target decode i mime content =
     (if fc_oauth c \<noteq> None \<and> \<not> integration_oauth_uuid i then files_refuse OutRequest
      else if i = [] \<or> content = [] then files_refuse (OutInput ''fileID and content'')
      else if fc_oauth c = None \<and> fc_key c = [] then files_refuse OutNoKey
      else upload_then X c decode_target decode content mime (''/files/'' @ i @ ''/content'') (replace_body mime))"

subsection \<open>The other methods\<close>

definition list_project_files :: "files_env \<Rightarrow> files_api \<Rightarrow> (string \<Rightarrow> user_file list option) \<Rightarrow> string \<Rightarrow> string option \<Rightarrow> int \<Rightarrow> user_file list files_result" where
  "list_project_files X c decode namespace created_before limit =
     andthen (files_call X 0 c ''GET'' ''/files''
       ((if namespace = [] then [] else [(''namespace'', namespace)]) @ (case created_before of None \<Rightarrow> [] | Some d \<Rightarrow> [(''before'', d)]) @
        (if 0 < limit then [(''limit'', format_int limit)] else [])) None True) (files_decode c decode)"

definition get_project_file :: "files_env \<Rightarrow> files_api \<Rightarrow> (string \<Rightarrow> user_file option) \<Rightarrow> string \<Rightarrow> user_file files_result" where
  "get_project_file X c decode i =
     (if i = [] then files_refuse (OutInput ''fileID'')
      else andthen (files_call X 0 c ''GET'' (''/files/'' @ i) [] None True) (files_decode c decode))"

definition rename_project_file :: "files_env \<Rightarrow> files_api \<Rightarrow> (string \<Rightarrow> user_file option) \<Rightarrow> string \<Rightarrow> string \<Rightarrow> user_file files_result" where
  "rename_project_file X c decode i name =
     (if i = [] \<or> name = [] then files_refuse (OutInput ''fileID and name'')
      else andthen (files_call X 0 c ''PATCH'' (''/files/'' @ i) [] (Some (write_json (JObj [(''fileName'', JStr name)]))) False) (files_decode c decode))"

definition delete_project_file :: "files_env \<Rightarrow> files_api \<Rightarrow> string \<Rightarrow> unit files_result" where
  "delete_project_file X c i =
     (if i = [] then files_refuse (OutInput ''fileID'')
      else andthen (files_call X 0 c ''DELETE'' (''/files/'' @ i) [] None False) (\<lambda>_. (Inr (), [])))"

definition purge_namespace :: "files_env \<Rightarrow> files_api \<Rightarrow> (string \<Rightarrow> int option) \<Rightarrow> string \<Rightarrow> string option \<Rightarrow> int files_result" where
  "purge_namespace X c decode namespace used_before =
     (if namespace = [] then files_refuse (OutInput ''namespace'')
      else andthen (files_call X 0 c ''POST'' ''/files/purge'' []
        (Some (write_json (JObj ((''namespace'', JStr namespace) # omit_nil ''lastUsedBefore'' (map_option JStr used_before))))) False) (files_decode c decode))"

definition project_usage :: "files_env \<Rightarrow> files_api \<Rightarrow> (string \<Rightarrow> file_usage option) \<Rightarrow> file_usage files_result" where
  "project_usage X c decode =
     andthen (files_call X 0 c ''GET'' ''/usage'' [] None True) (\<lambda>a.
     andthen (files_decode c decode a) (\<lambda>u.
       case fc_oauth c of Some x \<Rightarrow> (if fu_project u \<noteq> fo_project x then files_refuse OutAnswer else (Inr u, [])) | None \<Rightarrow> (Inr u, [])))"

subsection \<open>What an upload does\<close>

text \<open>A call to the media service by a token for writing files, of the project, sent at most once.\<close>

definition write_call :: "files_env \<Rightarrow> installation_binding \<Rightarrow> string \<Rightarrow> string option \<Rightarrow> files_effect \<Rightarrow> bool" where
  "write_call X b path content e \<longleftrightarrow> (\<exists>c base es. e = FilesByOAuth FilesWrite es \<and> grant c b ''media'' [''files.write''] \<and>
     sends_only (fe_outside X) c False ''POST'' (request_address (fe_outside X) base \<lparr>hq_method = ''POST'', hq_path = path, hq_query = [],
       hq_headers = [], hq_body = content, hq_idempotent = False\<rparr>) content es)"

text \<open>Bytes to an address of storage that was given out for this project, without any credential.\<close>

definition storage_call :: "files_env \<Rightarrow> string \<Rightarrow> string \<Rightarrow> string \<Rightarrow> upload_target \<Rightarrow> files_effect \<Rightarrow> bool" where
  "storage_call X project content mime t e \<longleftrightarrow> (\<exists>q. e = ToStorage q \<and> st_method q = ''PUT'' \<and> st_body q = content \<and>
     ow_url (fe_outside X) (ut_url t) = Some (st_url q) \<and> u_scheme (st_url q) = ''https'' \<and> \<not> u_user (st_url q) \<and>
     list_all (\<lambda>(k, v). k = ''Content-Md5'' \<and> v = md5_base64 X content \<or> k = ''Content-Type'' \<and> v = mime) (st_headers q) \<and>
     (\<exists>i. ut_key t = ''tmp/'' @ project @ ''/'' @ i \<and> integration_oauth_uuid i))"

lemma trim_prefix_split: "has_prefix p s \<Longrightarrow> s = p @ trim_prefix p s"
  by (metis append_take_drop_id has_prefix_def trim_prefix_def)

lemma valid_target_key:
  assumes "validate_upload_target W x t = Some u"
  shows "ow_url W (ut_url t) = Some u \<and> u_scheme u = ''https'' \<and> \<not> u_user u \<and>
    (\<exists>i. ut_key t = ''tmp/'' @ fo_project x @ ''/'' @ i \<and> integration_oauth_uuid i)"
proof -
  let ?p = "''tmp/'' @ fo_project x @ ''/''"
  have u: "ow_url W (ut_url t) = Some u \<and> u_scheme u = ''https'' \<and> \<not> u_user u \<and> has_prefix ?p (ut_key t) \<and>
      integration_oauth_uuid (trim_prefix ?p (ut_key t))"
    using assms by (auto simp: validate_upload_target_def Let_def split: option.splits if_splits)
  then have "ut_key t = ''tmp/'' @ fo_project x @ ''/'' @ trim_prefix ?p (ut_key t)" using trim_prefix_split [of ?p "ut_key t"] by simp
  with u show ?thesis by blast
qed

lemma new_files_grants:
  assumes "new_files_oauth W base (Some (b, t)) = Inr (Some x)"
  shows "fo_project x = ib_project b" "grant (fo_write x) b ''media'' [''files.write'']"
  using assms by (auto simp: new_files_oauth_def bindR_eq_Inr dest: scoped_client_grant)

lemma files_call_write:
  assumes x: "new_files_oauth (fe_outside X) base (Some (b, tmo)) = Inr (Some x)" and c: "fc_oauth c = Some x"
    and op: "\<And>hs q i. files_operation \<lparr>hq_method = ''POST'', hq_path = path, hq_query = q, hq_headers = hs, hq_body = content, hq_idempotent = i\<rparr> = Some (FilesWrite, ss)"
    and call: "files_call X n c ''POST'' path [] content idem = (r, es)"
  shows "\<exists>e. es = [e] \<and> write_call X b path content e"
proof -
  let ?r = "\<lparr>hq_method = ''POST'', hq_path = path, hq_query = [], hq_headers = [], hq_body = content, hq_idempotent = idem\<rparr>"
  have do: "files_oauth_do X n x ?r = (r, es)"
    using call by (simp add: files_call_def files_bearer_def files_do_def c)
  obtain res fs where e: "exchange (fe_outside X) (fo_write x) False ''POST'' (request_address (fe_outside X) (fo_base x) ?r)
      (json_headers (content \<noteq> None)) content (fe_answers X n) = (res, fs)" by fastforce
  then have "es = [FilesByOAuth FilesWrite fs]"
    using do by (auto simp: files_oauth_do_def op files_client_of_def split: sum.splits)
  moreover have "request_address (fe_outside X) (fo_base x) ?r = request_address (fe_outside X) (fo_base x) (?r\<lparr>hq_idempotent := False\<rparr>)"
    by (simp add: request_address_def)
  ultimately show ?thesis using exchange_sends [OF e] new_files_grants(2) [OF x] unfolding write_call_def by fastforce
qed

lemma put_object_calls:
  assumes x: "new_files_oauth (fe_outside X) base (Some (b, tmo)) = Inr (Some x)" and c: "fc_oauth c = Some x"
    and "put_object X c t content mime = (r, es)" "validate_upload_target (fe_outside X) x t = Some u"
  shows "\<exists>e. es = [e] \<and> storage_call X (ib_project b) content mime t e \<and> (\<not> isl r \<longrightarrow> fe_storage X \<in> {Inr 200, Inr 204})"
  using assms(3,4) valid_target_key [OF assms(4)] new_files_grants(1) [OF x] c
  by (auto simp: put_object_def storage_call_def storage_put_def split: sum.splits if_splits)

lemma andthen_eq: "andthen m f = (r, es) \<longleftrightarrow>
  (\<exists>e. m = (Inl e, es) \<and> r = Inl e) \<or> (\<exists>a xs ys. m = (Inr a, xs) \<and> f a = (r, ys) \<and> es = xs @ ys)"
  by (auto simp: andthen_def split: prod.splits sum.splits)

lemma files_decode_silent: "snd (files_decode c decode a) = []"
  by (simp add: files_decode_def split: option.split)

lemma create_upload_calls:
  assumes x: "new_files_oauth (fe_outside X) base (Some (b, tmo)) = Inr (Some x)" and c: "fc_oauth c = Some x"
    and "create_upload_url X c decode = (r, es)"
  shows "\<exists>e. es = [e] \<and> write_call X b ''/files/upload-url'' None e"
    and "r = Inr t \<Longrightarrow> \<exists>u. validate_upload_target (fe_outside X) x t = Some u"
proof -
  have op: "files_operation \<lparr>hq_method = ''POST'', hq_path = ''/files/upload-url'', hq_query = q, hq_headers = hs, hq_body = None, hq_idempotent = i\<rparr> =
      Some (FilesWrite, [200])" for q hs i
    by (simp add: files_operation_def files_shape_def trim_prefix_def has_prefix_def)
  obtain r1 es1 where call: "files_call X 0 c ''POST'' ''/files/upload-url'' [] None True = (r1, es1)" by fastforce
  then have e1: "\<exists>e. es1 = [e] \<and> write_call X b ''/files/upload-url'' None e" by (rule files_call_write [OF x c op])
  have rest: "\<And>a r2 es2. andthen (files_decode c decode a) (\<lambda>t.
       case fc_oauth c of
         Some x \<Rightarrow> (case validate_upload_target (fe_outside X) x t of None \<Rightarrow> files_refuse OutAnswer
           | Some _ \<Rightarrow> if ut_url t = [] \<or> ut_key t = [] then files_refuse (OutInput ''empty upload target'') else (Inr t, []))
       | None \<Rightarrow> if ut_url t = [] \<or> ut_key t = [] then files_refuse (OutInput ''empty upload target'') else (Inr t, [])) = (r2, es2) \<Longrightarrow>
      es2 = [] \<and> (r2 = Inr t \<longrightarrow> (\<exists>u. validate_upload_target (fe_outside X) x t = Some u))"
    using files_decode_silent [of c decode]
    by (auto simp: andthen_eq files_refuse_def c split: option.splits if_splits) (metis snd_conv)+
  from assms(3) have "es = es1 \<and> (r = Inr t \<longrightarrow> (\<exists>u. validate_upload_target (fe_outside X) x t = Some u))"
    unfolding create_upload_url_def call andthen_eq [of "(r1, es1)"] using rest by fastforce
  with e1 show "\<exists>e. es = [e] \<and> write_call X b ''/files/upload-url'' None e" "r = Inr t \<Longrightarrow> \<exists>u. validate_upload_target (fe_outside X) x t = Some u"
    by simp_all
qed

text \<open>The calls of an upload, in their order; any of them may be the last one.\<close>

definition upload_calls :: "files_env \<Rightarrow> installation_binding \<Rightarrow> string \<Rightarrow> string \<Rightarrow> string \<Rightarrow> (string \<Rightarrow> string) \<Rightarrow> files_effect list \<Rightarrow> bool" where
  "upload_calls X b content mime path body_of es \<longleftrightarrow> (\<exists>ask more. es = ask # more \<and> write_call X b ''/files/upload-url'' None ask \<and>
     (more = [] \<or> (\<exists>t put last. more = put # last \<and> storage_call X (ib_project b) content mime t put \<and>
       (last = [] \<or> (\<exists>fin. last = [fin] \<and> fe_storage X \<in> {Inr 200, Inr 204} \<and> write_call X b path (Some (body_of (ut_key t))) fin)))))"

lemma upload_then_calls:
  assumes x: "new_files_oauth (fe_outside X) base (Some (b, tmo)) = Inr (Some x)" and c: "fc_oauth c = Some x"
    and op: "\<And>hs q i content. files_operation \<lparr>hq_method = ''POST'', hq_path = path, hq_query = q, hq_headers = hs, hq_body = content, hq_idempotent = i\<rparr> =
      Some (FilesWrite, ss)"
    and up: "upload_then X c decode_target decode content mime path body_of = (r, es)"
  shows "upload_calls X b content mime path body_of es \<and> (\<not> isl r \<longrightarrow> length es = 3)"
proof -
  obtain r1 es1 where cr: "create_upload_url X c decode_target = (r1, es1)" by fastforce
  from create_upload_calls(1) [OF x c cr] obtain ask where ask: "es1 = [ask]" "write_call X b ''/files/upload-url'' None ask" by blast
  show ?thesis
  proof (cases r1)
    case (Inl e)
    then have "es = es1 \<and> isl r" using up cr by (auto simp: upload_then_def andthen_def)
    then show ?thesis using ask by (simp add: upload_calls_def)
  next
    case (Inr t)
    obtain r2 es2 where pt: "put_object X c t content mime = (r2, es2)" by fastforce
    from create_upload_calls(2) [OF x c cr Inr] obtain u where u: "validate_upload_target (fe_outside X) x t = Some u" by blast
    from put_object_calls [OF x c pt u] obtain put where put: "es2 = [put]" "storage_call X (ib_project b) content mime t put"
      "\<not> isl r2 \<longrightarrow> fe_storage X \<in> {Inr 200, Inr 204}" by blast
    show ?thesis
    proof (cases r2)
      case r2: (Inl e)
      then have "es = es1 @ es2 \<and> isl r" using up cr pt Inr by (auto simp: upload_then_def andthen_def)
      then show ?thesis using ask put(1,2) by (fastforce simp: upload_calls_def)
    next
      case r2: (Inr v)
      obtain r3 es3 where fin: "files_call X 1 c ''POST'' path [] (Some (body_of (ut_key t))) False = (r3, es3)" by fastforce
      from files_call_write [OF x c op fin] obtain e where e: "es3 = [e]" "write_call X b path (Some (body_of (ut_key t))) e" by blast
      have "es = es1 @ es2 @ es3" using up cr pt Inr r2 fin files_decode_silent [of c decode]
        by (auto simp: upload_then_def andthen_def split: sum.splits prod.splits) (metis snd_conv)+
      then have es: "es = [ask, put, e]" using ask(1) put(1) e(1) by simp
      then show ?thesis using ask(2) put(2,3) e(2) r2 unfolding upload_calls_def by auto
    qed
  qed
qed

lemma uuid_path: "integration_oauth_uuid i \<Longrightarrow> CHR ''/'' \<notin> set i \<and> i \<noteq> ''purge'' \<and> i \<noteq> ''upload-url''"
  using uuid_no_slash [of i] by (auto simp: integration_oauth_uuid_def)

lemma replace_operation:
  assumes "integration_oauth_uuid i"
  shows "files_operation \<lparr>hq_method = ''POST'', hq_path = ''/files/'' @ i @ ''/content'', hq_query = q, hq_headers = hs, hq_body = content, hq_idempotent = m\<rparr> =
    Some (FilesWrite, [200])"
proof -
  have "split_on CHR ''/'' (i @ CHR ''/'' # ''content'') = [i, ''content'']"
    using split_on_append [of "CHR ''/''" i "''content''"] uuid_path [OF assms] by simp
  then have "split_on CHR ''/'' (trim_prefix ''/'' (''/files/'' @ i @ ''/content'')) = [''files'', i, ''content'']"
    by (simp add: trim_prefix_def has_prefix_def)
  then have "files_shape (''/files/'' @ i @ ''/content'') = Some ''/files/{id}/content''"
    using assms uuid_path [OF assms] by (simp add: files_shape_def)
  then show ?thesis by (simp add: files_operation_def)
qed


definition files_example :: files_oauth where
  "files_example = \<lparr>fo_project = ib_project binding_example, fo_base = ''https://api/x'', fo_read = client_for ''media'' [''files.read''],
     fo_write = client_for ''media'' [''files.write''], fo_upload_timeout = 300 * second\<rparr>"

lemma new_files_example:
  "new_files_oauth outside_example ''https://api/x'' (Some (binding_example, None)) = Inr (Some files_example)"
proof -
  have "scoped_client outside_example ''https://api/x'' ''media'' binding_example [''files.read''] = Inr (client_for ''media'' [''files.read''])"
    by (rule scoped_example) (simp add: key_simps)
  moreover have "scoped_client outside_example ''https://api/x'' ''media'' binding_example [''files.write''] = Inr (client_for ''media'' [''files.write''])"
    by (rule scoped_example) (simp add: key_simps)
  ultimately show ?thesis by (simp add: new_files_oauth_def files_example_def bindR_def trim_right_char_def upload_timeout_def)
qed

definition files_env_example :: files_env where
  "files_env_example = \<lparr>fe_outside = outside_example, fe_valid = (\<lambda>_. True),
     fe_answers = (\<lambda>n. answers_example\<lparr>an_reply1 := Inr \<lparr>hr_status = (if n = 0 then 200 else 201), hr_content_type = [], hr_body = ''{}''\<rparr>\<rparr>),
     fe_final = (\<lambda>_. None), fe_md5 = (\<lambda>_. []), fe_storage = Inr 200\<rparr>"

definition upload_target_example :: upload_target where
  "upload_target_example = \<lparr>ut_key = ''tmp/'' @ ib_project binding_example @ ''/'' @ ib_installation binding_example, ut_url = ''https://s'', ut_method = ''PUT''\<rparr>"

definition stored_example :: user_file where
  "stored_example = \<lparr>uf_id = ''f'', uf_namespace = [], uf_name = ''n'', uf_mime = [], uf_size = 1, uf_kind = [], uf_url = []\<rparr>"

lemma target_example_valid: "\<exists>u. validate_upload_target outside_example files_example upload_target_example = Some u"
  by (simp add: validate_upload_target_def outside_example_def files_example_def upload_target_example_def binding_example_def has_prefix_def trim_prefix_def
      integration_oauth_uuid_def zero_uuid_def lower_hex_char_def is_digit_def)

lemma accepted_call:
  "accepts id (client_for audience scopes) (Some \<lparr>rq_method = http_method, rq_url = Some target_example, rq_host = ''api'', rq_headers = json_headers h, rq_body = b\<rparr>)"
proof -
  have "clean_resource_path target_example" "within_base (u_path address_example) (u_path target_example)"
    "\<not> list_ex (\<lambda>(k, _). lower_key k \<in> set credential_headers) (json_headers True)"
    "\<not> list_ex (\<lambda>(k, _). lower_key k \<in> set credential_headers) (json_headers False)" by code_simp+
  then show ?thesis by (cases h) (simp_all add: accepts_def client_for_def target_example_def address_example_def https_url_def equal_fold_def)
qed

lemma exchange_example:
  assumes "an_token1 an = Inr t" "an_reply1 an = Inr a" "hr_status a \<noteq> 401"
  shows "\<exists>es. exchange outside_example (client_for audience scopes) False ''POST'' (Some target_example) (json_headers h) content an = (Inr a, es)"
  using accepted_call [of audience scopes "''POST''" h "resource_body content"] assms
  by (simp add: exchange_def do_request_def client_do_def outside_example_def target_example_def address_example_def)

lemma write_example:
  assumes "\<And>hs. files_operation \<lparr>hq_method = ''POST'', hq_path = path, hq_query = [], hq_headers = hs, hq_body = content, hq_idempotent = idem\<rparr> = Some (FilesWrite, ss)"
    and "fo_base files_example @ path \<noteq> ''https://api/x''" "set ss = {if n = 0 then 200 else 201}"
  shows "\<exists>es. files_call files_env_example n \<lparr>fc_oauth = Some files_example, fc_key = ''k''\<rparr> ''POST'' path [] content idem =
    (Inr \<lparr>sp_status = (if n = 0 then 200 else 201), sp_body = ''{}''\<rparr>, es)"
proof -
  let ?r = "\<lparr>hq_method = ''POST'', hq_path = path, hq_query = [], hq_headers = [], hq_body = content, hq_idempotent = idem\<rparr>"
  let ?a = "\<lparr>hr_status = (if n = 0 then 200 else 201), hr_content_type = [], hr_body = ''{}''\<rparr>"
  have addr: "request_address outside_example (fo_base files_example) ?r = Some target_example"
    using assms(2) by (simp add: request_address_def outside_example_def target_example_def address_example_def)
  obtain es where e: "exchange outside_example (client_for ''media'' [''files.write'']) False ''POST'' (Some target_example) (json_headers (content \<noteq> None)) content
      (fe_answers files_env_example n) = (Inr ?a, es)"
    using exchange_example [of "fe_answers files_env_example n" _ ?a] by (force simp: files_env_example_def answers_example_def)
  have ans: "files_answer files_env_example ss ?a = Inr \<lparr>sp_status = (if n = 0 then 200 else 201), sp_body = ''{}''\<rparr>"
    using assms(3) by (simp add: files_answer_def files_env_example_def outside_example_def trim_space_def is_space_rune_def)
  have "files_oauth_do files_env_example n files_example ?r = (Inr \<lparr>sp_status = (if n = 0 then 200 else 201), sp_body = ''{}''\<rparr>, [FilesByOAuth FilesWrite es])"
    using addr e ans by (simp add: files_oauth_do_def assms(1) files_client_of_def files_env_example_def files_example_def)
  then show ?thesis by (simp add: files_call_def files_bearer_def files_do_def)
qed


end
