(* ===== verification/LinksClient.thy ===== *)
theory LinksClient
  imports Transport Tokens
begin

text \<open>
  Short links: \<open>src/integration/links.go\<close>, \<open>links_oauth.go\<close>, and the calls of the application itself, \<open>application_oauth.go\<close>.
  What an OAuth call decodes is an option: nothing is decoded from an answer 204. Dates of requests are given as formatted.
\<close>

subsection \<open>The calls of the application\<close>

record application_oauth =
  ao_client :: client
  ao_base :: string
  ao_audience :: string

text \<open>\<open>None\<close>: no configuration.\<close>

definition new_application_oauth :: "outside \<Rightarrow> string \<Rightarrow> string \<Rightarrow> unit option \<Rightarrow> (outbound_error, application_oauth option) go_result" where
  "new_application_oauth W base audience cfg = (case cfg of None \<Rightarrow> Inr None
     | Some _ \<Rightarrow> (case new_application_client (ow_url W) base audience of
         Inl e \<Rightarrow> Inl (OutClient e)
       | Inr c \<Rightarrow> Inr (Some \<lparr>ao_client = c, ao_base = trim_right_char CHR ''/'' base, ao_audience = audience\<rparr>)))"

definition alnum_char :: "char \<Rightarrow> bool" where
  "alnum_char c \<longleftrightarrow> is_digit c \<or> (65 \<le> byte c \<and> byte c \<le> 90) \<or> (97 \<le> byte c \<and> byte c \<le> 122)"

definition application_endpoint_key :: "string \<Rightarrow> bool" where
  "application_endpoint_key s \<longleftrightarrow> s \<noteq> [] \<and> length s \<le> 64 \<and> list_all (\<lambda>c. alnum_char c \<or> c = CHR ''_'' \<or> c = CHR ''-'') s"

definition callbacks_prefix :: string where
  "callbacks_prefix = ''/integrations/self/link-callbacks/''"

definition application_call :: "outside \<Rightarrow> application_oauth \<Rightarrow> string \<Rightarrow> string \<Rightarrow> string \<Rightarrow> (string \<Rightarrow> 'a option) \<Rightarrow> answers \<Rightarrow> 'a outcome" where
  "application_call W x http_method path content decode an =
     (if \<not> (ao_audience x = ''catalog'' \<and> http_method = ''POST'' \<and> path = ''/integrations/self/sync'' \<or>
            ao_audience x = ''links'' \<and> http_method = ''PUT'' \<and> has_prefix callbacks_prefix path \<and>
              application_endpoint_key (trim_prefix callbacks_prefix path))
      then refuse OutRequest
      else then_reply (exchange W (ao_client x) True http_method (ow_url W (ao_base x @ path)) (json_headers True) (Some content) an)
        (\<lambda>a. bindR (expect_status [200] a) (json_answer W 1048576 decode)))"

subsection \<open>The grant of an installation\<close>

datatype links_access = LinksRead | LinksWrite

record links_oauth =
  lo_project :: string
  lo_base :: string
  lo_read :: client
  lo_write :: client

definition new_links_oauth :: "outside \<Rightarrow> string \<Rightarrow> installation_binding option \<Rightarrow> (outbound_error, links_oauth option) go_result" where
  "new_links_oauth W base cfg = (case cfg of None \<Rightarrow> Inr None
     | Some b \<Rightarrow>
        bindR (scoped_client W base ''links'' b [''links.read'']) (\<lambda>r.
        bindR (scoped_client W base ''links'' b [''links.write'']) (\<lambda>w.
        Inr (Some \<lparr>lo_project = ib_project b, lo_base = trim_right_char CHR ''/'' base, lo_read = r, lo_write = w\<rparr>))))"

definition links_client_of :: "links_oauth \<Rightarrow> links_access \<Rightarrow> client" where
  "links_client_of x a = (case a of LinksRead \<Rightarrow> lo_read x | LinksWrite \<Rightarrow> lo_write x)"

definition link_id :: "string \<Rightarrow> bool" where
  "link_id s \<longleftrightarrow> length s = 16 \<and> list_all alnum_char s"

definition link_uuid :: "string \<Rightarrow> bool" where
  "link_uuid s \<longleftrightarrow> length s = 36 \<and> uuid_chars 0 s"

text \<open>\<open>operation\<close>: who may call it, the status expected, whether it may be repeated.\<close>

definition links_operation :: "string \<Rightarrow> string \<Rightarrow> url \<Rightarrow> (links_access \<times> int \<times> bool) option" where
  "links_operation project http_method u =
     (let parts = split_on CHR ''/'' (trim_prefix ''/'' (u_path u)) in
      if length parts < 3 \<or> parts ! 0 \<noteq> ''projects'' \<or> parts ! 1 \<noteq> project \<or> parts ! 2 \<noteq> ''links'' \<or> u_scheme u \<noteq> [] \<or> u_host u \<noteq> [] \<or>
         u_fragment u \<noteq> [] \<or> u_raw_path u \<noteq> [] then None
      else if 3 < length parts \<and> \<not> link_id (parts ! 3) then None
      else if http_method = ''GET'' \<and> (length parts = 3 \<or> length parts = 4 \<or> length parts = 5 \<and> parts ! 4 = ''deliveries'') then Some (LinksRead, 200, False)
      else if u_raw_query u \<noteq> [] \<or> u_force_query u then None
      else if http_method = ''POST'' \<and> length parts = 3 then Some (LinksWrite, 201, True)
      else if http_method = ''DELETE'' \<and> length parts = 4 then Some (LinksWrite, 204, False)
      else if http_method = ''POST'' \<and> length parts = 7 \<and> parts ! 4 = ''deliveries'' \<and> integration_oauth_uuid (parts ! 5) \<and> parts ! 6 = ''replay''
      then Some (LinksWrite, 204, False) else None)"

definition bad_idempotency_key :: "string \<Rightarrow> bool" where
  "bad_idempotency_key key \<longleftrightarrow> key = [] \<or> 128 < length key \<or> list_ex (\<lambda>c. c = CHR 0x0D \<or> c = CHR 0x0A) key"

datatype links_effect =
    LinksByOAuth links_access "call_effect list"
  | LinksByApplication "call_effect list"
  | LinksByKey sdk_request

type_synonym 'a links_result = "(sdk_error, 'a) go_result \<times> links_effect list"

record links_env =
  le_outside :: outside
  le_answers :: answers
  le_final :: "(int \<times> string) option"

record links_api =
  lc_application :: "application_oauth option"
  lc_oauth :: "links_oauth option"
  lc_key :: string

definition links_with_key :: "string \<Rightarrow> links_api \<Rightarrow> links_api" where
  "links_with_key key c = c\<lparr>lc_key := key\<rparr>"

definition links_headers :: "string \<Rightarrow> string option \<Rightarrow> (string \<times> string list) list" where
  "links_headers key content = json_headers (content \<noteq> None) @ (if key = [] then [] else [(''Idempotency-Key'', [key])])"

definition links_answer :: "outside \<Rightarrow> int \<Rightarrow> (string \<Rightarrow> 'a option) option \<Rightarrow> http_reply \<Rightarrow> (outbound_error, 'a option) go_result" where
  "links_answer W status decode a = bindR (expect_status [status] a) (\<lambda>a.
     if status = 204 then Inr None
     else bindR (json_answer W 1048576 (case decode of None \<Rightarrow> \<lambda>_. None | Some d \<Rightarrow> d) a) (\<lambda>v. Inr (Some v)))"

definition links_oauth_call :: "links_env \<Rightarrow> links_oauth \<Rightarrow> string \<Rightarrow> string \<Rightarrow> string \<Rightarrow> string option \<Rightarrow> (string \<Rightarrow> 'a option) option \<Rightarrow> 'a option links_result" where
  "links_oauth_call X x http_method path key content decode =
     (case ow_url (le_outside X) path of None \<Rightarrow> (Inl (SdkCall OutRequest), [])
      | Some u \<Rightarrow> (case links_operation (lo_project x) http_method u of None \<Rightarrow> (Inl (SdkCall OutRequest), [])
         | Some (access, status, again) \<Rightarrow>
             if again \<and> bad_idempotency_key key then (Inl (SdkCall OutRequest), [])
             else (case exchange (le_outside X) (links_client_of x access) again http_method (ow_url (le_outside X) (lo_base x @ path))
                 (links_headers key content) content (le_answers X) of
                (Inl e, es) \<Rightarrow> (Inl (SdkCall e), [LinksByOAuth access es])
              | (Inr a, es) \<Rightarrow> (case links_answer (le_outside X) status decode a of Inl e \<Rightarrow> Inl (SdkCall e) | Inr v \<Rightarrow> Inr v, [LinksByOAuth access es]))))"

subsection \<open>The methods\<close>

definition link_path :: "string \<Rightarrow> string \<Rightarrow> (outbound_error, string) go_result" where
  "link_path project i =
     guardR (\<not> link_uuid project) (OutInput ''projectId'')
    (let p = ''/projects/'' @ project @ ''/links'' in
     if i = [] then Inr p else guardR (\<not> link_id i) (OutInput ''16-character id'') (Inr (p @ ''/'' @ i)))"

definition links_call :: "links_env \<Rightarrow> links_api \<Rightarrow> string \<Rightarrow> string \<Rightarrow> string \<Rightarrow> json option \<Rightarrow> (string \<Rightarrow> 'a option) option \<Rightarrow> bool \<Rightarrow> 'a option links_result" where
  "links_call X c http_method path key input decode idem =
     (let content = map_option write_json input in
      case lc_oauth c of Some x \<Rightarrow> links_oauth_call X x http_method path key content decode
      | None \<Rightarrow>
         if lc_key c = [] then (Inl (SdkCall OutNoKey), [])
         else let r = \<lparr>hq_method = http_method, hq_path = path, hq_query = [],
             hq_headers = [(''Content-Type'', ''application/json'')] @ (if key = [] then [] else [(''Idempotency-Key'', key)]) @
               [(''Authorization'', ''Bearer '' @ lc_key c)], hq_body = content, hq_idempotent = idem\<rparr> in
           (case transport_do r (le_final X) of
              Inl e \<Rightarrow> (Inl e, [LinksByKey r])
            | Inr a \<Rightarrow> (case decode of None \<Rightarrow> (Inr None, [LinksByKey r])
                | Some d \<Rightarrow> (case d (sp_body a) of None \<Rightarrow> Inl SdkDecode | Some v \<Rightarrow> Inr (Some v), [LinksByKey r]))))"

definition at_link :: "string \<Rightarrow> string \<Rightarrow> (string \<Rightarrow> 'a option links_result) \<Rightarrow> 'a option links_result" where
  "at_link project i f = (case link_path project i of Inl e \<Rightarrow> (Inl (SdkCall e), []) | Inr p \<Rightarrow> f p)"

record link_callback =
  lk_endpoint :: string
  lk_data :: "json option"

definition callback_json :: "link_callback \<Rightarrow> json" where
  "callback_json k = JObj ((''endpointKey'', JStr (lk_endpoint k)) # omit_nil ''data'' (lk_data k))"

record create_link_request =
  cl_target :: string
  cl_expires :: "string option"
  cl_callback :: "link_callback option"

definition create_link_json :: "create_link_request \<Rightarrow> json" where
  "create_link_json r = JObj ([(''targetUrl'', JStr (cl_target r))] @ omit_nil ''expiresAt'' (map_option JStr (cl_expires r)) @
     omit_nil ''callback'' (map_option callback_json (cl_callback r)))"

definition create_link :: "links_env \<Rightarrow> links_api \<Rightarrow> (string \<Rightarrow> 'a option) \<Rightarrow> string \<Rightarrow> create_link_request \<Rightarrow> string \<Rightarrow> 'a option links_result" where
  "create_link X c decode project r key = at_link project [] (\<lambda>p.
     if bad_idempotency_key key then (Inl (SdkCall (OutInput ''Idempotency-Key'')), [])
     else links_call X c ''POST'' p key (Some (create_link_json r)) (Some decode) True)"

definition get_link :: "links_env \<Rightarrow> links_api \<Rightarrow> (string \<Rightarrow> 'a option) \<Rightarrow> string \<Rightarrow> string \<Rightarrow> 'a option links_result" where
  "get_link X c decode project i = at_link project i (\<lambda>p. links_call X c ''GET'' p [] None (Some decode) True)"

definition disable_link :: "links_env \<Rightarrow> links_api \<Rightarrow> string \<Rightarrow> string \<Rightarrow> unit option links_result" where
  "disable_link X c project i = at_link project i (\<lambda>p. links_call X c ''DELETE'' p [] None None True)"

record link_endpoint =
  ln_integration :: string
  ln_key :: string
  ln_url :: string
  ln_enabled :: bool
  ln_version :: int

definition register_callback :: "links_env \<Rightarrow> links_api \<Rightarrow> (string \<Rightarrow> link_endpoint option) \<Rightarrow> string \<Rightarrow> string \<Rightarrow> bool \<Rightarrow> link_endpoint links_result" where
  "register_callback X c decode key address enabled = (case lc_application c of
     Some x \<Rightarrow>
       if \<not> application_endpoint_key key then (Inl (SdkCall OutRequest), [])
       else (case application_call (le_outside X) x ''PUT'' (callbacks_prefix @ key) (write_json (JObj [(''url'', JStr address), (''enabled'', JBool enabled)]))
           decode (le_answers X) of
          (Inl e, es) \<Rightarrow> (Inl (SdkCall e), [LinksByApplication es])
        | (Inr out, es) \<Rightarrow>
            (if ln_key out \<noteq> key \<or> \<not> integration_oauth_uuid (ln_integration out) \<or> ln_version out < 1 then Inl (SdkCall OutAnswer) else Inr out,
             [LinksByApplication es]))
   | None \<Rightarrow> (Inl (SdkCall OutRequest), []))"

text \<open>\<open>url.QueryEscape\<close>.\<close>

definition upper_hex :: "nat \<Rightarrow> char" where
  "upper_hex n = ''0123456789ABCDEF'' ! n"

definition query_escape :: "string \<Rightarrow> string" where
  "query_escape s = concat (map (\<lambda>c. if alnum_char c \<or> c \<in> {CHR ''-'', CHR ''_'', CHR ''.'', CHR ''~''} then [c]
     else if c = CHR '' '' then ''+'' else [CHR ''%'', upper_hex (byte c div 16), upper_hex (byte c mod 16)]) s)"

definition page_query :: "string \<Rightarrow> int \<Rightarrow> string" where
  "page_query cursor limit = ''?cursor='' @ query_escape cursor @ ''&limit='' @ format_int limit"

definition list_links :: "links_env \<Rightarrow> links_api \<Rightarrow> (string \<Rightarrow> 'a option) \<Rightarrow> string \<Rightarrow> string \<Rightarrow> int \<Rightarrow> 'a option links_result" where
  "list_links X c decode project cursor limit = at_link project [] (\<lambda>p.
     links_call X c ''GET'' (p @ page_query cursor limit) [] None (Some decode) True)"

definition link_deliveries :: "links_env \<Rightarrow> links_api \<Rightarrow> (string \<Rightarrow> 'a option) \<Rightarrow> string \<Rightarrow> string \<Rightarrow> string \<Rightarrow> int \<Rightarrow> 'a option links_result" where
  "link_deliveries X c decode project i cursor limit = at_link project i (\<lambda>p.
     links_call X c ''GET'' (p @ ''/deliveries'' @ page_query cursor limit) [] None (Some decode) True)"

definition replay_delivery :: "links_env \<Rightarrow> links_api \<Rightarrow> string \<Rightarrow> string \<Rightarrow> string \<Rightarrow> unit option links_result" where
  "replay_delivery X c project i event = at_link project i (\<lambda>p.
     if \<not> link_uuid event then (Inl (SdkCall (OutInput ''eventId'')), [])
     else links_call X c ''POST'' (p @ ''/deliveries/'' @ event @ ''/replay'') [] None None False)"

subsection \<open>What the methods send\<close>

text \<open>What \<open>url.Parse\<close> makes of a reference without scheme, whose path needs no escaping: it is split at the first question mark.\<close>

definition relative_url :: "string \<Rightarrow> url" where
  "relative_url s = \<lparr>u_scheme = [], u_user = False, u_host = [], u_hostname = [], u_opaque = [], u_path = takeWhile (\<lambda>c. c \<noteq> CHR ''?'') s,
     u_raw_path = [], u_raw_query = drop 1 (dropWhile (\<lambda>c. c \<noteq> CHR ''?'') s), u_force_query = False, u_fragment = []\<rparr>"

definition plain_path :: "string \<Rightarrow> bool" where
  "plain_path s \<longleftrightarrow> list_all (\<lambda>c. alnum_char c \<or> c = CHR ''/'' \<or> c = CHR ''-'') s"

definition plain_reference :: "string \<Rightarrow> bool" where
  "plain_reference s \<longleftrightarrow> has_prefix ''/projects/'' s \<and> plain_path (takeWhile (\<lambda>c. c \<noteq> CHR ''?'') s) \<and> last s \<noteq> CHR ''?'' \<and>
     list_all (\<lambda>c. 32 < byte c \<and> byte c < 127 \<and> c \<noteq> CHR ''#'') s"

text \<open>A call under these scopes, repeated only where it may be, every request of it with this idempotency key.\<close>

definition links_authorized :: "links_env \<Rightarrow> installation_binding \<Rightarrow> links_access \<Rightarrow> bool \<Rightarrow> string \<Rightarrow> string \<Rightarrow> string \<Rightarrow> 'a links_result \<Rightarrow> bool" where
  "links_authorized X b access again http_method path key m \<longleftrightarrow> (\<exists>c base content es. snd m = [LinksByOAuth access es] \<and>
     grant c b ''links'' [case access of LinksRead \<Rightarrow> ''links.read'' | LinksWrite \<Rightarrow> ''links.write''] \<and>
     sends_only (le_outside X) c again http_method (ow_url (le_outside X) (base @ path)) content es \<and>
     list_all (\<lambda>q. map_of (rq_headers q) ''Idempotency-Key'' = (if key = [] then None else Some [key])) (sent_requests es))"

lemma exchange_header:
  assumes "exchange W c idem http_method addr headers content an = (res, es)" "k \<noteq> ''Authorization''"
  shows "list_all (\<lambda>q. map_of (rq_headers q) k = map_of headers k) (sent_requests es)"
proof (cases addr)
  case (Some u)
  let ?r = "\<lparr>rq_method = http_method, rq_url = Some u, rq_host = u_host u, rq_headers = headers, rq_body = resource_body content\<rparr>"
  obtain retry r1 where "client_do (ow_fold W) c (Some ?r) retry (an_token1 an) (an_reply1 an) (an_token2 an) (an_reply2 an) = (r1, es)"
    using assms(1) Some by (auto simp: exchange_def do_idempotent_def do_request_def repeatable_def split: prod.splits sum.splits if_splits)
  then show ?thesis
  proof (cases rule: client_do_cases)
    case (again r t a q t2)
    then have "q = ?r" using replay_body [of r q content] by auto
    with again show ?thesis using assms(2) by (auto simp: bearer_def update_conv' split: sum.splits if_splits)
  qed (use assms(2) in \<open>auto simp: bearer_def update_conv'\<close>)
qed (use assms in \<open>simp add: exchange_def refuse_def\<close>)

lemma new_links_grants:
  assumes "new_links_oauth W base (Some b) = Inr (Some x)"
  shows "lo_project x = ib_project b"
    "grant (links_client_of x access) b ''links'' [case access of LinksRead \<Rightarrow> ''links.read'' | LinksWrite \<Rightarrow> ''links.write'']"
  using assms by (auto simp: new_links_oauth_def bindR_eq_Inr links_client_of_def split: links_access.split dest: scoped_client_grant)

lemma links_call_authorized:
  assumes x: "new_links_oauth (le_outside X) base (Some b) = Inr (Some x)" "lc_oauth c = Some x"
    and u: "ow_url (le_outside X) path = Some u" "links_operation (ib_project b) http_method u = Some (access, status, again)"
    and key: "again \<longrightarrow> \<not> bad_idempotency_key key"
  shows "links_authorized X b access again http_method path key (links_call X c http_method path key input decode idem)"
proof -
  let ?content = "map_option write_json input"
  obtain r es where e: "exchange (le_outside X) (links_client_of x access) again http_method (ow_url (le_outside X) (lo_base x @ path))
      (links_headers key ?content) ?content (le_answers X) = (r, es)" by fastforce
  have "links_call X c http_method path key input decode idem = links_oauth_call X x http_method path key ?content decode"
    by (simp add: links_call_def x(2) Let_def)
  moreover have "snd (links_oauth_call X x http_method path key ?content decode) = [LinksByOAuth access es]"
    using e key by (auto simp: links_oauth_call_def u new_links_grants(1) [OF x(1)] split: sum.split)
  moreover have "map_of (links_headers key ?content) ''Idempotency-Key'' = (if key = [] then None else Some [key])"
    by (simp add: links_headers_def json_headers_def)
  ultimately show ?thesis using exchange_sends [OF e] exchange_header [OF e, of "''Idempotency-Key''"] new_links_grants(2) [OF x(1), of access]
    unfolding links_authorized_def by auto
qed

subsection \<open>Every method is in the inventory\<close>

abbreviation plain_segment :: "string \<Rightarrow> bool" where
  "plain_segment s \<equiv> list_all (\<lambda>c. alnum_char c \<or> c = CHR ''-'') s"

lemma plain_segment_uuid: "integration_oauth_uuid s \<Longrightarrow> plain_segment s"
proof -
  have "uuid_chars i s \<Longrightarrow> plain_segment s" for i
    by (induction i s rule: uuid_chars.induct) (auto simp: lower_hex_char_def alnum_char_def split: if_splits)
  from this [of 0] show "integration_oauth_uuid s \<Longrightarrow> plain_segment s" by (simp add: integration_oauth_uuid_def)
qed

lemma plain_segment_id: "link_id s \<Longrightarrow> plain_segment s"
  by (auto simp: link_id_def list_all_iff)

lemma plain_segment_no_slash: "plain_segment s \<Longrightarrow> CHR ''/'' \<notin> set s"
  by (auto simp: list_all_iff alnum_char_def is_digit_def)

lemma plain_project_path: "plain_segment project \<Longrightarrow> list_all plain_segment segs \<Longrightarrow> plain_path (project_path project segs)"
  by (auto simp: project_path_def plain_path_def list_all_iff alnum_char_def)

lemma takeWhile_query:
  assumes "plain_path p" "q = [] \<or> hd q = CHR ''?''"
  shows "takeWhile (\<lambda>c. c \<noteq> CHR ''?'') (p @ q) = p"
proof -
  have "\<forall>c \<in> set p. c \<noteq> CHR ''?''" using assms(1) by (auto simp: plain_path_def list_all_iff alnum_char_def is_digit_def)
  then show ?thesis using assms(2) by (cases q) (simp_all add: takeWhile_append2 takeWhile_eq_all_conv)
qed

lemma plain_reference_path:
  assumes "plain_segment project" "list_all plain_segment segs" "segs \<noteq> []" "last segs \<noteq> []" "q = [] \<or> hd q = CHR ''?'' \<and> last q \<noteq> CHR ''?''"
    "list_all (\<lambda>c. 32 < byte c \<and> byte c < 127 \<and> c \<noteq> CHR ''#'') q"
  shows "plain_reference (project_path project segs @ q)" "u_path (relative_url (project_path project segs @ q)) = project_path project segs"
proof -
  let ?p = "project_path project segs"
  note pp = plain_project_path [OF assms(1,2)]
  have w: "takeWhile (\<lambda>c. c \<noteq> CHR ''?'') (?p @ q) = ?p" by (rule takeWhile_query [OF pp]) (use assms(5) in auto)
  then show "u_path (relative_url (?p @ q)) = ?p" by (simp add: relative_url_def)
  have all: "list_all (\<lambda>c. 32 < byte c \<and> byte c < 127 \<and> c \<noteq> CHR ''#'') ?p"
    using pp by (auto simp: plain_path_def list_all_iff alnum_char_def is_digit_def)
  have ne: "?p \<noteq> []" by (simp add: project_path_def)
  then have "last ?p \<in> set ?p" by simp
  then have "last ?p \<noteq> CHR ''?''" using pp by (auto simp: plain_path_def list_all_iff alnum_char_def is_digit_def)
  then have "last (?p @ q) \<noteq> CHR ''?''" using assms(5) by (auto simp: last_append)
  moreover have "has_prefix ''/projects/'' (?p @ q)" by (simp add: has_prefix_def project_path_def)
  ultimately show "plain_reference (?p @ q)" using w pp all assms(6) by (simp add: plain_reference_def)
qed

lemma links_operation_path:
  assumes "u_path u = project_path project segs" "u_scheme u = []" "u_host u = []" "u_fragment u = []" "u_raw_path u = []"
    "CHR ''/'' \<notin> set project" "list_all (\<lambda>s. CHR ''/'' \<notin> set s) segs" "segs \<noteq> []"
  shows "split_on CHR ''/'' (trim_prefix ''/'' (u_path u)) = ''projects'' # project # segs"
  using split_project_path [OF assms(6-8)] by (simp add: assms(1) trim_prefix_def has_prefix_def project_path_def)

lemma query_escape_chars: "c \<in> set (query_escape s) \<Longrightarrow> alnum_char c \<or> c \<in> {CHR ''-'', CHR ''_'', CHR ''.'', CHR ''~'', CHR ''+'', CHR ''%''}"
proof -
  have "alnum_char (upper_hex n)" if "n < 16" for n
  proof -
    have "\<forall>n \<in> set [0..<16]. alnum_char (upper_hex n)" by code_simp
    then show ?thesis using that by simp
  qed
  moreover have "byte c div 16 < 16" "byte c mod 16 < 16" for c
    by (simp_all add: less_mult_imp_div_less)
  ultimately show "c \<in> set (query_escape s) \<Longrightarrow> ?thesis" by (auto simp: query_escape_def split: if_splits)
qed

lemma printable_alnum: "alnum_char c \<Longrightarrow> 32 < byte c \<and> byte c < 127 \<and> c \<noteq> CHR ''#''"
  by (auto simp: alnum_char_def is_digit_def)

lemma printable_escape:
  assumes "alnum_char c \<or> c \<in> {CHR ''-'', CHR ''_'', CHR ''.'', CHR ''~'', CHR ''+'', CHR ''%''}"
  shows "32 < byte c \<and> byte c < 127 \<and> c \<noteq> CHR ''#''"
proof -
  have "list_all (\<lambda>c. 32 < byte c \<and> byte c < 127 \<and> c \<noteq> CHR ''#'') ''-_.~+%''" by code_simp
  then show ?thesis using assms printable_alnum by auto
qed

lemma printable_dash: "is_digit c \<or> c = CHR ''-'' \<Longrightarrow> 32 < byte c \<and> byte c < 127 \<and> c \<noteq> CHR ''#''"
  using printable_escape [of c] unfolding alnum_char_def by blast

lemma page_query_plain:
  "hd (page_query cursor limit) = CHR ''?''" "last (page_query cursor limit) \<noteq> CHR ''?''"
  "list_all (\<lambda>c. 32 < byte c \<and> byte c < 127 \<and> c \<noteq> CHR ''#'') (page_query cursor limit)"
proof -
  have d: "list_all (\<lambda>c. is_digit c \<or> c = CHR ''-'') (format_int limit)" and ne: "format_int limit \<noteq> []"
    using itoa_digits [of "nat limit"] itoa_digits [of "nat (- limit)"] by (auto simp: format_int_def list_all_iff)
  have "last (format_int limit) \<in> set (format_int limit)" using ne by simp
  then have "last (format_int limit) \<noteq> CHR ''?''" using d by (auto simp: list_all_iff is_digit_def)
  then show "hd (page_query cursor limit) = CHR ''?''" "last (page_query cursor limit) \<noteq> CHR ''?''" using ne by (simp_all add: page_query_def)
  have ok: "\<And>c. alnum_char c \<or> c \<in> {CHR ''-'', CHR ''_'', CHR ''.'', CHR ''~'', CHR ''+'', CHR ''%''} \<Longrightarrow> 32 < byte c \<and> byte c < 127 \<and> c \<noteq> CHR ''#''"
    using printable_escape .
  have "list_all (\<lambda>c. 32 < byte c \<and> byte c < 127 \<and> c \<noteq> CHR ''#'') (query_escape cursor)"
    unfolding list_all_iff by (intro ballI ok query_escape_chars)
  moreover have "list_all (\<lambda>c. 32 < byte c \<and> byte c < 127 \<and> c \<noteq> CHR ''#'') (format_int limit)"
    using d printable_dash unfolding list_all_iff by blast
  moreover have "list_all (\<lambda>c. 32 < byte c \<and> byte c < 127 \<and> c \<noteq> CHR ''#'') ''?cursor=''"
    "list_all (\<lambda>c. 32 < byte c \<and> byte c < 127 \<and> c \<noteq> CHR ''#'') ''&limit=''" by code_simp+
  ultimately show "list_all (\<lambda>c. 32 < byte c \<and> byte c < 127 \<and> c \<noteq> CHR ''#'') (page_query cursor limit)"
    unfolding page_query_def list_all_append by blast
qed

lemma link_method_authorized:
  assumes x: "new_links_oauth (le_outside X) base (Some b) = Inr (Some x)" "lc_oauth c = Some x"
    and W: "\<And>s. plain_reference s \<Longrightarrow> ow_url (le_outside X) s = Some (relative_url s)"
    and p: "integration_oauth_uuid (ib_project b)" "list_all plain_segment segs" "segs \<noteq> []" "last segs \<noteq> []"
    and q: "q = [] \<or> hd q = CHR ''?'' \<and> last q \<noteq> CHR ''?''" "list_all (\<lambda>c. 32 < byte c \<and> byte c < 127 \<and> c \<noteq> CHR ''#'') q"
    and op: "\<And>u. split_on CHR ''/'' (trim_prefix ''/'' (u_path u)) = ''projects'' # ib_project b # segs \<Longrightarrow> u_scheme u = [] \<Longrightarrow> u_host u = [] \<Longrightarrow>
      u_fragment u = [] \<Longrightarrow> u_raw_path u = [] \<Longrightarrow> q = [] \<longrightarrow> u_raw_query u = [] \<Longrightarrow> \<not> u_force_query u \<Longrightarrow>
      links_operation (ib_project b) http_method u = Some (access, status, again)"
    and key: "again \<longrightarrow> \<not> bad_idempotency_key key"
  shows "links_authorized X b access again http_method (project_path (ib_project b) segs @ q) key
    (links_call X c http_method (project_path (ib_project b) segs @ q) key input decode idem)"
proof -
  let ?path = "project_path (ib_project b) segs @ q" let ?u = "relative_url ?path"
  note R = plain_reference_path [OF plain_segment_uuid [OF p(1)] p(2-4) q]
  have "q = [] \<longrightarrow> dropWhile (\<lambda>c. c \<noteq> CHR ''?'') ?path = []"
    using takeWhile_query [OF plain_project_path [OF plain_segment_uuid [OF p(1)] p(2)], of "[]"]
    by (metis append_Nil2 dropWhile_eq_Nil_conv takeWhile_eq_all_conv)
  moreover have "u_raw_query ?u = drop 1 (dropWhile (\<lambda>c. c \<noteq> CHR ''?'') ?path)" by (simp only: relative_url_def url.select_convs)
  ultimately have raw: "q = [] \<longrightarrow> u_raw_query ?u = []" by (metis drop_Nil)
  have "split_on CHR ''/'' (trim_prefix ''/'' (u_path ?u)) = ''projects'' # ib_project b # segs"
    by (rule links_operation_path [OF R(2)]) (use p plain_segment_uuid plain_segment_no_slash in \<open>auto simp: relative_url_def list_all_iff\<close>)
  then have "links_operation (ib_project b) http_method ?u = Some (access, status, again)"
    by (rule op) (use raw in \<open>simp_all add: relative_url_def\<close>)
  from links_call_authorized [OF x W [OF R(1)] this key] show ?thesis .
qed

lemma link_path_Inr:
  assumes "integration_oauth_uuid project" "i = [] \<or> link_id i"
  shows "link_path project i = Inr (project_path project (''links'' # (if i = [] then [] else [i])))"
  using assms by (auto simp: link_path_def link_uuid_def integration_oauth_uuid_def guardR_def project_path_def)


text \<open>An empty id is no id: with an API key \<open>Disable\<close> sends its \<open>DELETE\<close> to the collection of all links of the project.\<close>

lemma disable_without_id:
  assumes "link_uuid project" "lc_oauth c = None" "lc_key c \<noteq> []"
  shows "\<exists>r. snd (disable_link X c project []) = [LinksByKey r] \<and> hq_method r = ''DELETE'' \<and> hq_path r = ''/projects/'' @ project @ ''/links''"
  using assms by (auto simp: disable_link_def at_link_def link_path_def guardR_def links_call_def Let_def split: sum.split option.split)

definition links_outside :: outside where
  "links_outside = outside_example\<lparr>ow_url := (\<lambda>s. if has_prefix ''/'' s then Some (relative_url s) else ow_url outside_example s)\<rparr>"

definition links_example :: links_oauth where
  "links_example = \<lparr>lo_project = ib_project binding_example, lo_base = ''https://api/x'', lo_read = client_for ''links'' [''links.read''],
     lo_write = client_for ''links'' [''links.write'']\<rparr>"

lemma new_links_example: "new_links_oauth links_outside ''https://api/x'' (Some binding_example) = Inr (Some links_example)"
proof -
  have same: "scoped_client links_outside ''https://api/x'' audience binding_example scopes = scoped_client outside_example ''https://api/x'' audience binding_example scopes"
    for audience scopes by (simp add: scoped_client_def new_client_def resource_base_def links_outside_def has_prefix_def)
  have "scoped_client outside_example ''https://api/x'' ''links'' binding_example [''links.read''] = Inr (client_for ''links'' [''links.read''])"
    by (rule scoped_example) (simp add: key_simps)
  moreover have "scoped_client outside_example ''https://api/x'' ''links'' binding_example [''links.write''] = Inr (client_for ''links'' [''links.write''])"
    by (rule scoped_example) (simp add: key_simps)
  ultimately show ?thesis by (simp add: new_links_oauth_def links_example_def bindR_def trim_right_char_def same)
qed

definition links_env_example :: links_env where
  "links_env_example = \<lparr>le_outside = links_outside, le_answers = answers_example, le_final = None\<rparr>"

definition links_api_example :: links_api where
  "links_api_example = \<lparr>lc_application = None, lc_oauth = Some links_example, lc_key = ''key''\<rparr>"


end
