(* ===== verification/Callbacks.thy ===== *)
theory Callbacks
  imports Server TransferSources LinksClient
begin

text \<open>
  Callbacks of the platform to an integration: \<open>src/integration/link_callbacks.go\<close> (events of short links) and \<open>copy.go\<close>,
  \<open>copy_files.go\<close> (the callbacks of scheme transfer), with \<open>ValidateCallbackResponse\<close> of \<open>src/schemetransfer/runtime.go\<close>. What the
  named contracts say of bytes, and what \<open>json.Unmarshal\<close> makes of bytes that conform to them, are arguments.
\<close>

subsection \<open>Events of links\<close>

record link_event =
  lv_id :: string
  lv_data :: "json option"
  lv_event :: string
  lv_occurred :: time

record link_verifier =
  lw_keys :: key_set
  lw_window :: duration

definition new_link_verifier :: "verifier_cfg \<Rightarrow> link_verifier" where
  "new_link_verifier cfg =
     \<lparr>lw_keys = new_key_set (if vc_jwks_url cfg = [] then ''https://link.aheron.pro/.well-known/link-jwks.json'' else vc_jwks_url cfg) (vc_cache_ttl cfg),
      lw_window = (if vc_window cfg \<le> 0 then 300 * second else vc_window cfg)\<rparr>"

record link_inbound =
  lb_method :: string
  lb_body :: "string option"
  lb_timestamp :: string
  lb_event :: string
  lb_at :: string
  lb_kid :: string
  lb_signature :: string

datatype link_reject = LinkMethod | LinkSize | LinkStale | LinkEventId | LinkOccurred | LinkKey sign_error | LinkSignature sign_error | LinkJson

definition dec_link_event :: "string \<Rightarrow> (string \<times> json option) option" where
  "dec_link_event body = (case parse_json body of
     Some (JObj ms) \<Rightarrow> (case json_field ''id'' dec_string [] ms of None \<Rightarrow> None | Some i \<Rightarrow> Some (i, json_raw ''data'' None ms))
   | Some JNull \<Rightarrow> Some ([], None)
   | _ \<Rightarrow> None)"

definition link_canonical :: "string \<Rightarrow> string \<Rightarrow> string \<Rightarrow> string" where
  "link_canonical event at body = ''links-callback-v1'' @ [CHR 0x0A] @ event @ [CHR 0x0A] @ at @ [CHR 0x0A] @ body"

text \<open>\<open>parse_time\<close>: \<open>time.Parse(time.RFC3339Nano, _)\<close>.\<close>

definition verify_link_event :: "ed25519 \<Rightarrow> (string \<Rightarrow> time option) \<Rightarrow> http_reply option \<Rightarrow> time \<Rightarrow> link_inbound \<Rightarrow> link_verifier \<Rightarrow>
    (link_reject, link_event) go_result \<times> link_verifier" where
  "verify_link_event E parse_time reply now r v =
     (if lb_method r \<noteq> ''POST'' then (Inl LinkMethod, v)
      else case lb_body r of None \<Rightarrow> (Inl LinkSize, v)
      | Some whole \<Rightarrow>
         let body = take 32769 whole in
         if 32768 < length body then (Inl LinkSize, v)
         else (case atoi (lb_timestamp r) of None \<Rightarrow> (Inl LinkStale, v)
         | Some secs \<Rightarrow>
            if unix_time secs < time_add now (wrap64 (- lw_window v)) \<or> time_add now (lw_window v) < unix_time secs then (Inl LinkStale, v)
            else if \<not> link_uuid (lb_event r) then (Inl LinkEventId, v)
            else (case parse_time (lb_at r) of None \<Rightarrow> (Inl LinkOccurred, v)
            | Some occurred \<Rightarrow> (case key_of reply now (lb_kid r) (lw_keys v) of
                (Inl e, ks) \<Rightarrow> (Inl (LinkKey e), v\<lparr>lw_keys := ks\<rparr>)
              | (Inr key, ks) \<Rightarrow>
                  (case verify_body E key (lb_timestamp r) (link_canonical (lb_event r) (lb_at r) body) (lb_signature r) of
                     Some e \<Rightarrow> (Inl (LinkSignature e), v\<lparr>lw_keys := ks\<rparr>)
                   | None \<Rightarrow> (case dec_link_event body of
                        None \<Rightarrow> (Inl LinkJson, v\<lparr>lw_keys := ks\<rparr>)
                      | Some (i, data) \<Rightarrow>
                          if \<not> link_id i then (Inl LinkJson, v\<lparr>lw_keys := ks\<rparr>)
                          else (Inr \<lparr>lv_id = i, lv_data = data, lv_event = lb_event r, lv_occurred = occurred\<rparr>, v\<lparr>lw_keys := ks\<rparr>)))))))"

text \<open>\<open>Handle\<close>: the status of the answer; \<open>None\<close> is the nil error of \<open>fn\<close>.\<close>

definition handle_link_event :: "ed25519 \<Rightarrow> (string \<Rightarrow> time option) \<Rightarrow> http_reply option \<Rightarrow> time \<Rightarrow> (link_event \<Rightarrow> 'e option) \<Rightarrow> link_inbound \<Rightarrow>
    link_verifier \<Rightarrow> int \<times> link_verifier" where
  "handle_link_event E parse_time reply now fn r v = (case verify_link_event E parse_time reply now r v of
     (Inl _, v) \<Rightarrow> (401, v) | (Inr ev, v) \<Rightarrow> (case fn ev of Some _ \<Rightarrow> 503 | None \<Rightarrow> 204, v))"

subsection \<open>The contracts of copy callbacks\<close>

record copy_contract =
  cb_validate :: "string \<Rightarrow> string \<Rightarrow> contract_error option" \<comment> \<open>\<open>Validate\<close>: the verdict of a named contract on bytes\<close>
  cb_import_request :: "string \<Rightarrow> import_request"
  cb_lookup_request :: "string \<Rightarrow> lookup_request"
  cb_prepare_request :: "string \<Rightarrow> prepare_request"
  cb_import_response :: "string \<Rightarrow> resource_item"
  cb_identify_response :: "string \<Rightarrow> identify_match list"
  cb_lookup_response :: "string \<Rightarrow> lookup_response"
  cb_prepare_response :: "string \<Rightarrow> copy_response"
  cb_validation_result :: "string \<Rightarrow> validation_result"
  cb_import_request_ok :: "import_request \<Rightarrow> contract_error option" \<comment> \<open>\<open>validateTyped\<close>, of each type\<close>
  cb_lookup_request_ok :: "lookup_request \<Rightarrow> contract_error option"
  cb_prepare_request_ok :: "prepare_request \<Rightarrow> contract_error option"
  cb_import_ok :: "resource_item \<Rightarrow> contract_error option"
  cb_identify_ok :: "identify_match list \<Rightarrow> contract_error option"
  cb_lookup_ok :: "lookup_response \<Rightarrow> contract_error option"
  cb_prepare_ok :: "copy_response \<Rightarrow> contract_error option"
  cb_result_ok :: "validation_result \<Rightarrow> contract_error option"
  cb_word :: "nat \<Rightarrow> bool"

definition after_valid :: "contract_error option \<Rightarrow> contract_error option \<Rightarrow> contract_error option" where
  "after_valid e next = (case e of Some x \<Rightarrow> Some x | None \<Rightarrow> next)"

definition validate_callback_response :: "copy_contract \<Rightarrow> copy_operation \<Rightarrow> string \<Rightarrow> string \<Rightarrow> contract_error option" where
  "validate_callback_response C op request resp = after_valid (validate_callback_request (cb_validate C) op request)
     (case op of
        ImportCopyFile \<Rightarrow> after_valid (cb_validate C ''importCopyFileResponse'' resp)
          (import_response_for (cb_import_request_ok C) (cb_import_ok C) (cb_import_response C resp) (cb_import_request C request))
      | ResourceValues \<Rightarrow>
          let req = cb_lookup_request C request in
          if lq_mode req = ''identify'' then after_valid (cb_validate C ''identifyResponse'' resp)
            (identify_response_for (cb_lookup_request_ok C) (cb_identify_ok C) (cb_identify_response C resp) req)
          else after_valid (cb_validate C ''lookupResponse'' resp)
            (lookup_response_for (cb_lookup_request_ok C) (cb_lookup_ok C) (cb_lookup_response C resp) req)
      | PrepareCopy \<Rightarrow> after_valid (cb_validate C ''prepareCopyResponse'' resp)
          (prepare_response_for (cb_word C) (cb_prepare_request_ok C) (cb_prepare_ok C) (cb_prepare_response C resp) (cb_prepare_request C request))
      | ValidateCopySettings \<Rightarrow> after_valid (cb_validate C ''validationResult'' resp)
          (validate_result (cb_result_ok C) (cb_validation_result C resp))
      | OtherOperation _ \<Rightarrow> Some (ContractError ''unknownCopyOperation'' []))"

subsection \<open>Copy callbacks\<close>

datatype copy_failure = CopyUnsupportedVersion | CopyUnknownSource | CopyUnknownBlock | CopyInvalidRequest | CopyConflict | CopyNotFound |
  CopyUnavailable | CopyOther

definition write_copy_error :: "int \<Rightarrow> string \<Rightarrow> string \<Rightarrow> response" where
  "write_copy_error status code message = \<lparr>rs_status = status, rs_json = Some (JObj [(''code'', JStr code), (''error'', JStr message)])\<rparr>"

definition copy_failure_response :: "copy_failure \<Rightarrow> response" where
  "copy_failure_response e = (case e of
     CopyUnsupportedVersion \<Rightarrow> write_copy_error 409 ''unsupportedVersion'' ''unsupported integration version''
   | CopyUnknownSource \<Rightarrow> write_copy_error 404 ''unknownSource'' ''unknown resource source''
   | CopyUnknownBlock \<Rightarrow> write_copy_error 404 ''unknownBlock'' ''unknown block''
   | CopyInvalidRequest \<Rightarrow> write_copy_error 400 ''invalidRequest'' ''invalid copy request''
   | CopyConflict \<Rightarrow> write_copy_error 409 ''copyConflict'' ''copy receipt conflict''
   | CopyNotFound \<Rightarrow> write_copy_error 404 ''resourceNotFound'' ''copy resource not found''
   | CopyUnavailable \<Rightarrow> write_copy_error 503 ''unavailable'' ''copy callback unavailable''
   | CopyOther \<Rightarrow> write_copy_error 500 ''callbackFailed'' ''copy callback failed'')"

datatype copy_answer = CopyReply string | CopyError response
datatype copy_step = AskedGuard int | Called string

definition metadata_version :: "string \<Rightarrow> int" where
  "metadata_version raw = (case parse_json raw of
     Some (JObj ms) \<Rightarrow> (case json_field ''integrationVersion'' dec_int 0 ms of Some n \<Rightarrow> n | None \<Rightarrow> 0) | _ \<Rightarrow> 0)"

text \<open>\<open>fn\<close> gives the bytes its result is marshalled to, \<open>None\<close> when that fails; what is called is recorded.\<close>

definition handle_copy :: "copy_contract \<Rightarrow> copy_operation \<Rightarrow> (int \<Rightarrow> copy_failure option) option \<Rightarrow> (string \<Rightarrow> (copy_failure, string option) go_result) \<Rightarrow>
    string \<Rightarrow> string \<Rightarrow> copy_answer \<times> copy_step list" where
  "handle_copy C op guard fn http_method raw =
     (if http_method \<noteq> ''POST'' then (CopyError (write_copy_error 405 ''invalidRequest'' ''POST is required''), [])
      else if validate_callback_request (cb_validate C) op raw \<noteq> None then (CopyError (write_copy_error 400 ''invalidRequest'' ''invalid copy request''), [])
      else (case guard of None \<Rightarrow> (CopyError (copy_failure_response CopyUnavailable), [])
      | Some g \<Rightarrow>
         let version = metadata_version raw in
         (case g version of Some e \<Rightarrow> (CopyError (copy_failure_response e), [AskedGuard version])
          | None \<Rightarrow> (case fn raw of
              Inl e \<Rightarrow> (CopyError (copy_failure_response e), [AskedGuard version, Called raw])
            | Inr out \<Rightarrow>
               (case (case out of None \<Rightarrow> None | Some b \<Rightarrow> if validate_callback_response C op raw b = None then Some b else None) of
                  None \<Rightarrow> (CopyError (write_copy_error 500 ''invalidResponse'' ''invalid copy response''), [AskedGuard version, Called raw])
                | Some b \<Rightarrow> (CopyReply b, [AskedGuard version, Called raw]))))))"

definition serve_copy :: "ed25519 \<Rightarrow> http_reply option \<Rightarrow> time \<Rightarrow> copy_contract \<Rightarrow> copy_operation \<Rightarrow> (int \<Rightarrow> copy_failure option) option \<Rightarrow>
    (string \<Rightarrow> (copy_failure, string option) go_result) \<Rightarrow> string \<Rightarrow> inbound \<Rightarrow> verifier \<Rightarrow> (copy_answer \<times> copy_step list) \<times> verifier" where
  "serve_copy E reply now C op guard fn http_method r v = (case verify_request E [] reply now r v of
     (Inl _, v) \<Rightarrow> ((CopyError reject, []), v) | (Inr (body, _), v) \<Rightarrow> (handle_copy C op guard fn http_method body, v))"

text \<open>The handlers; an absent one is \<open>None\<close>, and each gives the bytes of its result.\<close>

definition resource_values_fn :: "copy_contract \<Rightarrow> (lookup_request \<Rightarrow> (copy_failure, string option) go_result) option \<Rightarrow>
    (lookup_request \<Rightarrow> (copy_failure, string option) go_result) option \<Rightarrow> string \<Rightarrow> (copy_failure, string option) go_result" where
  "resource_values_fn C lookup identify raw =
     (let req = cb_lookup_request C raw in
      case (if lq_mode req = ''identify'' then identify else lookup) of None \<Rightarrow> Inl CopyUnavailable | Some f \<Rightarrow> f req)"

definition optional_fn :: "(string \<Rightarrow> 'r) \<Rightarrow> ('r \<Rightarrow> (copy_failure, string option) go_result) option \<Rightarrow> string \<Rightarrow> (copy_failure, string option) go_result" where
  "optional_fn decode fn raw = (case fn of None \<Rightarrow> Inl CopyUnavailable | Some f \<Rightarrow> f (decode raw))"

definition handle_resource_values where
  "handle_resource_values E reply now C guard lookup identify = serve_copy E reply now C ResourceValues guard (resource_values_fn C lookup identify)"

definition handle_prepare_copy where
  "handle_prepare_copy E reply now C guard fn = serve_copy E reply now C PrepareCopy guard (optional_fn (cb_prepare_request C) fn)"

definition handle_validate_copy_settings where
  "handle_validate_copy_settings E reply now C guard decode fn = serve_copy E reply now C ValidateCopySettings guard (optional_fn decode fn)"

definition handle_import_copy_file where
  "handle_import_copy_file E reply now C guard fn = serve_copy E reply now C ImportCopyFile guard (optional_fn (cb_import_request C) fn)"

subsection \<open>Properties\<close>

text \<open>
  C9. An event that reaches the handler came by POST in a body of at most 32 KiB, with a signature of the link service over its
  timestamp, its id, its time and the whole body, under a key of the link service's key set; its timestamp is within the window and its
  ids are well formed. Anything else is answered with 401 and never reaches the handler.
\<close>

theorem link_event_authentic:
  assumes "verify_link_event E parse_time reply now r v = (Inr ev, v')"
  shows "\<exists>body secs key sig. lb_method r = ''POST'' \<and> lb_body r = Some body \<and> length body \<le> 32768 \<and>
    atoi (lb_timestamp r) = Some secs \<and> time_add now (wrap64 (- lw_window v)) \<le> unix_time secs \<and> unix_time secs \<le> time_add now (lw_window v) \<and>
    fst (key_of reply now (lb_kid r) (lw_keys v)) = Inr key \<and> b64std_decode (lb_signature r) = Some sig \<and> length key = 32 \<and> length sig = 64 \<and>
    ed_verify E key (signing_input (lb_timestamp r) (link_canonical (lv_event ev) (lb_at r) body)) sig \<and>
    parse_time (lb_at r) = Some (lv_occurred ev) \<and> link_uuid (lv_event ev) \<and> link_id (lv_id ev) \<and> dec_link_event body = Some (lv_id ev, lv_data ev) \<and>
    fst (handle_link_event E parse_time reply now fn r v) = (if fn ev = None then 204 else 503)"
proof -
  obtain whole where w: "lb_body r = Some whole" "lb_method r = ''POST''"
    using assms by (auto simp: verify_link_event_def split: option.splits if_splits)
  define b where "b = take 32769 whole"
  note V = assms [unfolded verify_link_event_def w option.simps Let_def, folded b_def]
  from V have len: "\<not> 32768 < length b" by (simp split: if_splits)
  then have b: "b = whole" by (simp add: b_def min_def split: if_splits)
  from V len obtain secs occurred where t: "atoi (lb_timestamp r) = Some secs" "\<not> unix_time secs < time_add now (wrap64 (- lw_window v))"
    "\<not> time_add now (lw_window v) < unix_time secs" "link_uuid (lb_event r)" "parse_time (lb_at r) = Some occurred"
    by (auto split: option.splits if_splits)
  obtain res ks where K: "key_of reply now (lb_kid r) (lw_keys v) = (res, ks)" by fastforce
  from V len t K obtain key where key: "res = Inr key" by (cases res) simp_all
  from V len t K key have sg: "verify_body E key (lb_timestamp r) (link_canonical (lb_event r) (lb_at r) b) (lb_signature r) = None"
    by (simp split: option.splits)
  then obtain sig where sig: "b64std_decode (lb_signature r) = Some sig" "length key = 32" "length sig = 64"
    "ed_verify E key (signing_input (lb_timestamp r) (link_canonical (lb_event r) (lb_at r) b)) sig"
    by (auto simp: verify_body_def verify_input_def split: option.splits if_splits)
  from V len t K key sg obtain i data where d: "dec_link_event b = Some (i, data)" "link_id i"
    "ev = \<lparr>lv_id = i, lv_data = data, lv_event = lb_event r, lv_occurred = occurred\<rparr>"
    by (auto split: option.splits if_splits)
  have "fst (handle_link_event E parse_time reply now fn r v) = (if fn ev = None then 204 else 503)"
    by (simp add: handle_link_event_def assms split: option.split)
  with w len b t K key sig d show ?thesis by auto
qed

lemma unsigned_link_event:
  "verify_link_event E parse_time reply now r v = (Inl e, v') \<Longrightarrow> handle_link_event E parse_time reply now fn r v = (401, v')"
  by (simp add: handle_link_event_def)

text \<open>All answers that do not come from the callback.\<close>

definition copy_errors :: "response list" where
  "copy_errors = reject # write_copy_error 405 ''invalidRequest'' ''POST is required'' # write_copy_error 500 ''invalidResponse'' ''invalid copy response'' #
     map copy_failure_response [CopyUnsupportedVersion, CopyUnknownSource, CopyUnknownBlock, CopyInvalidRequest, CopyConflict, CopyNotFound, CopyUnavailable, CopyOther]"

lemma copy_failure_error: "copy_failure_response e \<in> set copy_errors"
  by (cases e) (simp_all add: copy_errors_def)

lemma invalid_request_error: "write_copy_error 400 ''invalidRequest'' ''invalid copy request'' \<in> set copy_errors"
  using copy_failure_error [of CopyInvalidRequest] by (simp add: copy_failure_response_def)

lemma handle_copy_cases:
  assumes "handle_copy C op guard fn http_method raw = (ans, steps)"
  obtains (failed) r where "ans = CopyError r" "r \<in> set copy_errors" "steps = []"
  | (guarded) g r where "guard = Some g" "ans = CopyError r" "r \<in> set copy_errors" "http_method = ''POST''" "validate_callback_request (cb_validate C) op raw = None"
      "steps = [AskedGuard (metadata_version raw)]"
  | (called) g r where "guard = Some g" "g (metadata_version raw) = None" "ans = CopyError r" "r \<in> set copy_errors" "http_method = ''POST''"
      "validate_callback_request (cb_validate C) op raw = None" "steps = [AskedGuard (metadata_version raw), Called raw]"
  | (answered) g out where "guard = Some g" "g (metadata_version raw) = None" "ans = CopyReply out" "http_method = ''POST''"
      "validate_callback_request (cb_validate C) op raw = None" "steps = [AskedGuard (metadata_version raw), Called raw]"
      "fn raw = Inr (Some out)" "validate_callback_response C op raw out = None"
proof -
  consider "http_method \<noteq> ''POST''" | "http_method = ''POST''" "validate_callback_request (cb_validate C) op raw \<noteq> None"
    | "http_method = ''POST''" "validate_callback_request (cb_validate C) op raw = None" "guard = None"
    | g where "http_method = ''POST''" "validate_callback_request (cb_validate C) op raw = None" "guard = Some g" by (cases guard) auto
  then show thesis
  proof cases
    case 1
    with assms show thesis by (intro failed) (auto simp: handle_copy_def copy_errors_def)
  next
    case 2
    with assms show thesis by (intro failed) (auto simp: handle_copy_def invalid_request_error)
  next
    case 3
    with assms show thesis by (intro failed) (auto simp: handle_copy_def copy_failure_error)
  next
    case (4 g)
    show thesis
    proof (cases "g (metadata_version raw)")
      case (Some e)
      with 4 assms show thesis by (intro guarded [OF 4(3)]) (auto simp: handle_copy_def copy_failure_error)
    next
      case None
      show thesis
      proof (cases "\<exists>out. fn raw = Inr (Some out) \<and> validate_callback_response C op raw out = None")
        case True
        with 4 None assms show thesis by (auto simp: handle_copy_def intro: answered [OF 4(3)])
      next
        case False
        show thesis
        proof (cases "fn raw")
          case (Inl e)
          with 4 None assms show thesis by (intro called [OF 4(3) None]) (auto simp: handle_copy_def copy_failure_error Let_def)
        next
          case (Inr out)
          have "(case out of None \<Rightarrow> None | Some b \<Rightarrow> if validate_callback_response C op raw b = None then Some b else None) = None"
            using False Inr by (cases out) auto
          with Inr 4 None assms show thesis by (intro called [OF 4(3) None]) (auto simp: handle_copy_def copy_errors_def Let_def)
        qed
      qed
    qed
  qed
qed

text \<open>
  C8. A callback of scheme transfer runs only on the body of a signed POST request that satisfies its contract, after the guard has accepted
  the version named in it; what is answered with success is what the callback returned, and satisfies the contract as an answer to that
  request; everything else is one of eleven fixed errors, which say nothing of what the callback returned or failed with.
\<close>

theorem copy_callback_checked:
  assumes "serve_copy E reply now C op guard fn http_method r v = ((ans, steps), v')"
  shows "(case steps of [] \<Rightarrow> True
      | _ \<Rightarrow> \<exists>body kid g. verify_request E [] reply now r v = (Inr (body, kid), v') \<and> http_method = ''POST'' \<and> guard = Some g \<and>
          validate_callback_request (cb_validate C) op body = None \<and> hd steps = AskedGuard (metadata_version body) \<and>
          set (tl steps) \<subseteq> (if g (metadata_version body) = None then {Called body} else {}) \<and> length steps \<le> 2) \<and>
    (case ans of CopyError e \<Rightarrow> e \<in> set copy_errors
      | CopyReply out \<Rightarrow> \<exists>body. last steps = Called body \<and> fn body = Inr (Some out) \<and> validate_callback_response C op body out = None)"
proof -
  obtain res v1 where V: "verify_request E [] reply now r v = (res, v1)" by fastforce
  show ?thesis
  proof (cases res)
    case (Inl e)
    with assms V have "steps = []" "ans = CopyError reject" by (auto simp: serve_copy_def)
    then show ?thesis by (simp add: copy_errors_def)
  next
    case (Inr bk)
    obtain body kid where bk: "bk = (body, kid)" by fastforce
    with assms V Inr have h: "handle_copy C op guard fn http_method body = (ans, steps)" and v: "v1 = v'" by (auto simp: serve_copy_def)
    show ?thesis using V Inr bk v by (cases rule: handle_copy_cases [OF h]) auto
  qed
qed

definition link_body_example :: string where
  "link_body_example = write_json (JObj [(''id'', JStr ''abcdefgh01234567'')])"

definition link_inbound_example :: link_inbound where
  "link_inbound_example = \<lparr>lb_method = ''POST'', lb_body = Some link_body_example,
     lb_timestamp = ''0'', lb_event = ''00000000-0000-0000-0000-000000000001'', lb_at = ''t'', lb_kid = ''k'', lb_signature = signature_example\<rparr>"

definition link_verifier_example :: link_verifier where
  "link_verifier_example = \<lparr>lw_keys = key_set_example, lw_window = 300 * second\<rparr>"

definition link_event_example :: link_event where
  "link_event_example = \<lparr>lv_id = ''abcdefgh01234567'', lv_data = None, lv_event = ''00000000-0000-0000-0000-000000000001'', lv_occurred = 0\<rparr>"

theorem link_event_authentic_witness:
  "verify_link_event any_cipher (\<lambda>_. Some 0) None 0 link_inbound_example link_verifier_example = (Inr link_event_example, link_verifier_example) \<and>
   fst (handle_link_event any_cipher (\<lambda>_. Some 0) None 0 (\<lambda>_. None :: unit option) link_inbound_example link_verifier_example) = 204"
proof -
  have "plain_json (JObj [(''id'', JStr ''abcdefgh01234567'')])" by code_simp
  then have "parse_json link_body_example = Some (JObj [(''id'', JStr ''abcdefgh01234567'')])"
    unfolding link_body_example_def by (intro parse_json_write) (simp_all add: max_depth_def)
  moreover have "fold_key ''id'' \<noteq> fold_key ''data''" by code_simp
  ultimately have dec: "dec_link_event link_body_example = Some (''abcdefgh01234567'', None)"
    by (simp add: dec_link_event_def dec_string_def)
  have ids: "link_id ''abcdefgh01234567''" "link_uuid ''00000000-0000-0000-0000-000000000001''" by code_simp+
  have "plain ''id''" "plain ''abcdefgh01234567''" by code_simp+
  then have "length link_body_example = 25" by (simp add: link_body_example_def quote_plain)
  then have whole: "take 32769 link_body_example = link_body_example" "\<not> 32768 < length link_body_example" by simp_all
  have now: "atoi ''0'' = Some 0" by (simp add: atoi_def is_digit_def digits_val_def digit_val_def int64_def)
  have win: "\<not> (unix_time 0 < time_add 0 (wrap64 (- (300 * second))) \<or> time_add 0 (300 * second) < unix_time 0)" by code_simp
  have v: "verify_link_event any_cipher (\<lambda>_. Some 0) None 0 link_inbound_example link_verifier_example = (Inr link_event_example, link_verifier_example)"
    unfolding verify_link_event_def link_inbound_example_def link_verifier_example_def link_inbound.select_convs link_verifier.select_convs option.case Let_def
      whole(1) now key_set_example_has prod.case sum.case verify_body_def signature_example_accepted(2) dec if_not_P [OF whole(2)] if_not_P [OF win]
    by (simp add: ids link_event_example_def)
  have "fst (handle_link_event any_cipher (\<lambda>_. Some 0) None 0 (\<lambda>_. None :: unit option) link_inbound_example link_verifier_example) =
      (if (None :: unit option) = None then 204 else 503)"
    using link_event_authentic [OF v, of "\<lambda>_. None :: unit option"] by blast
  with v show ?thesis by simp
qed

definition contract_example :: copy_contract where
  "contract_example = \<lparr>cb_validate = (\<lambda>_ _. None), cb_import_request = (\<lambda>_. undefined), cb_lookup_request = (\<lambda>_. example_lookup), cb_prepare_request = (\<lambda>_. undefined),
     cb_import_response = (\<lambda>_. undefined), cb_identify_response = (\<lambda>_. example_matches), cb_lookup_response = (\<lambda>_. undefined),
     cb_prepare_response = (\<lambda>_. undefined), cb_validation_result = (\<lambda>_. undefined), cb_import_request_ok = (\<lambda>_. None),
     cb_lookup_request_ok = (\<lambda>_. None), cb_prepare_request_ok = (\<lambda>_. None), cb_import_ok = (\<lambda>_. None), cb_identify_ok = indices_ok, cb_lookup_ok = (\<lambda>_. None),
     cb_prepare_ok = (\<lambda>_. None), cb_result_ok = (\<lambda>_. None), cb_word = (\<lambda>_. True)\<rparr>"

theorem copy_callback_checked_witness:
  "\<exists>r v. serve_copy any_cipher None 0 contract_example ResourceValues (Some (\<lambda>_. None)) (\<lambda>_. Inr (Some ''[]'')) ''POST'' r v =
      ((CopyReply ''[]'', [AskedGuard 0, Called ''{}'']), v) \<and>
     validate_callback_response contract_example ResourceValues ''{}'' ''[]'' = None"
proof -
  obtain r v where v: "verify_request any_cipher [] None 0 r v = (Inr (''{}'', ''k''), v)" using signed_example by blast
  have m: "metadata_version ''{}'' = 0" by code_simp
  have "identify_response_for (\<lambda>_. None) indices_ok example_matches example_lookup = None" by code_simp
  then have ok: "validate_callback_response contract_example ResourceValues ''{}'' ''[]'' = None"
    by (simp add: validate_callback_response_def validate_callback_request_def contract_example_def after_valid_def Let_def example_lookup_def)
  have s: "serve_copy any_cipher None 0 contract_example ResourceValues (Some (\<lambda>_. None)) (\<lambda>_. Inr (Some ''[]'')) ''POST'' r v =
      ((CopyReply ''[]'', [AskedGuard 0, Called ''{}'']), v)"
    using v m ok by (simp add: serve_copy_def handle_copy_def Let_def) (simp add: validate_callback_request_def contract_example_def)
  from copy_callback_checked [OF s] s show ?thesis by auto
qed

end
