(* ===== verification/Manifest.thy ===== *)
theory Manifest
  imports TransferSources LinksClient
begin

text \<open>
  \<open>src/integration/manifest.go\<close>: the declaration of an integration, checked and resolved against its public address;
  \<open>catalog.go\<close>: its publication at start. The verdicts of the JSON schemas are arguments, as in \<open>TransferSources\<close>; maps are lists in the
  order visited. Numbers in error texts are left out.
\<close>

subsection \<open>Declarations\<close>

record copy_rules =
  cu_version :: int
  cu_mode :: string

definition uses_callback_plan :: "copy_rules \<Rightarrow> bool" where
  "uses_callback_plan r \<longleftrightarrow> cu_version r = 2 \<and> cu_mode r = ''callback''"

definition copy_rules_json :: "copy_rules \<Rightarrow> json" where
  "copy_rules_json r = JObj [(''version'', int_json (cu_version r)), (''mode'', JStr (cu_mode r))]"

record value_source =
  vo_type :: string
  vo_key :: string
  vo_semantics :: string

definition remote_variable_values :: value_source where
  "remote_variable_values = \<lparr>vo_type = ''remote'', vo_key = [], vo_semantics = []\<rparr>"

record block =
  bl_key :: string
  bl_favorite :: bool
  bl_kind :: string
  bl_name :: string
  bl_description :: string
  bl_color :: string
  bl_iframe :: string
  bl_inputs :: "string list option"
  bl_outputs :: "string list option"
  bl_subflow :: "json option"
  bl_rules :: "copy_rules option"

record icon =
  ic_mime :: string
  ic_content :: string

record console_page =
  gp_key :: string
  gp_label :: string
  gp_path :: string
  gp_icon :: icon

record manifest =
  mf_mcp :: string
  mf_console :: string
  mf_pages :: "console_page list"
  mf_lifecycle :: string
  mf_action :: string
  mf_template :: string
  mf_trigger_sync :: string
  mf_values :: string
  mf_value_sources :: "(string \<times> value_source) list"
  mf_resource_values :: string
  mf_import_file :: string
  mf_prepare :: string
  mf_validate :: string
  mf_sources :: catalog
  mf_blocks :: "block list"
  mf_retired :: "string list"

datatype manifest_error =
    BadPath string string \<comment> \<open>field and path\<close>
  | NoBase string string
  | SourcesWithoutPath
  | BadTemplate
  | BadMCPPath
  | PrepareRequired
  | Declaration contract_error
  | BadValueSource string
  | TooManyPages
  | BadPage string
  | EmptyRetired
  | BadBlock string

subsection \<open>Addresses\<close>

definition absolute_http :: "string \<Rightarrow> bool" where
  "absolute_http p \<longleftrightarrow> has_prefix ''http://'' p \<or> has_prefix ''https://'' p"

definition resolve_url :: "string \<Rightarrow> string \<Rightarrow> string \<Rightarrow> (manifest_error, string) go_result" where
  "resolve_url base path field =
     (if path = [] then Inr []
      else if absolute_http path then Inr path
      else if \<not> has_prefix ''/'' path then Inl (BadPath field path)
      else if base = [] then Inl (NoBase field path) else Inr (base @ path))"

fun contains_dots :: "string \<Rightarrow> bool" where
  "contains_dots (c # d # s) \<longleftrightarrow> c = CHR ''.'' \<and> d = CHR ''.'' \<or> contains_dots (d # s)"
| "contains_dots s \<longleftrightarrow> False"

definition resolve_mcp :: "string \<Rightarrow> string \<Rightarrow> (manifest_error, string) go_result" where
  "resolve_mcp base p =
     (if p = [] then Inr []
      else if \<not> has_prefix ''/'' p \<or> has_prefix ''//'' p \<or> list_ex (\<lambda>c. c = CHR ''?'' \<or> c = CHR ''#'' \<or> c = CHR 0x5C) p \<or> contains_dots p
      then Inl BadMCPPath else Inr (base @ p))"

subsection \<open>Pages of the console\<close>

record resolved_page =
  rp_key :: string
  rp_label :: string
  rp_url :: string
  rp_icon :: "icon option"

definition validate_icon :: "string \<Rightarrow> icon \<Rightarrow> (manifest_error, icon) go_result" where
  "validate_icon page i =
     (if ic_mime i \<notin> {''image/svg+xml'', ''image/png'', ''image/webp''} \<or> ic_content i = [] \<or> 32768 < length (ic_content i)
      then Inl (BadPage page) else Inr i)"

definition resolve_page :: "string \<Rightarrow> console_page \<Rightarrow> (manifest_error, resolved_page) go_result" where
  "resolve_page base p =
     guardR (gp_label p = []) (BadPage (gp_key p))
    (guardR (gp_path p = []) (BadPage (gp_key p))
    (bindR (resolve_url base (gp_path p) (gp_key p)) (\<lambda>u.
     bindR (if ic_content (gp_icon p) \<noteq> [] \<or> ic_mime (gp_icon p) \<noteq> [] then bindR (validate_icon (gp_key p) (gp_icon p)) (\<lambda>i. Inr (Some i)) else Inr None) (\<lambda>i.
     Inr \<lparr>rp_key = gp_key p, rp_label = gp_label p, rp_url = u, rp_icon = i\<rparr>))))"

fun resolve_page_list :: "string \<Rightarrow> string list \<Rightarrow> console_page list \<Rightarrow> (manifest_error, resolved_page list) go_result" where
  "resolve_page_list base seen [] = Inr []"
| "resolve_page_list base seen (p # ps) =
     guardR (gp_key p = []) (BadPage [])
    (guardR (gp_key p \<in> set seen) (BadPage (gp_key p))
    (bindR (resolve_page base p) (\<lambda>q. bindR (resolve_page_list base (gp_key p # seen) ps) (\<lambda>qs. Inr (q # qs)))))"

definition resolve_console_pages :: "string \<Rightarrow> console_page list \<Rightarrow> (manifest_error, resolved_page list) go_result" where
  "resolve_console_pages base ps = (if 8 < length ps then Inl TooManyPages else resolve_page_list base [] ps)"

text \<open>\<open>IconFromFS\<close>: the content of the file, \<open>None\<close> when it cannot be read; \<open>ext\<close> its extension in lower case.\<close>

definition icon_from_fs :: "string option \<Rightarrow> string \<Rightarrow> icon option" where
  "icon_from_fs content ext = (case content of None \<Rightarrow> None
     | Some c \<Rightarrow> map_option (\<lambda>ty. \<lparr>ic_mime = ty, ic_content = c\<rparr>)
         (map_of [(''.svg'', ''image/svg+xml''), (''.png'', ''image/png''), (''.webp'', ''image/webp'')] ext))"

subsection \<open>Blocks\<close>

record resolved_block =
  rb_block :: block \<comment> \<open>with its ports not nil\<close>
  rb_iframe :: string

definition non_nil :: "string list option \<Rightarrow> string list option" where
  "non_nil xs = Some (case xs of None \<Rightarrow> [] | Some ys \<Rightarrow> ys)"

definition resolve_block :: "string \<Rightarrow> string list \<Rightarrow> string list \<Rightarrow> block \<Rightarrow> (manifest_error, resolved_block) go_result" where
  "resolve_block base retired seen b =
     guardR (bl_key b = []) (BadBlock [])
    (guardR (bl_key b \<in> set seen \<or> bl_key b \<in> set retired \<or> bl_kind b \<notin> {''action'', ''trigger'', ''subflow''} \<or> bl_name b = []) (BadBlock (bl_key b))
    (bindR (resolve_url base (if bl_iframe b = [] then ''/blocks/'' @ bl_key b else bl_iframe b) (bl_key b)) (\<lambda>u.
     Inr \<lparr>rb_block = b\<lparr>bl_inputs := non_nil (bl_inputs b), bl_outputs := non_nil (bl_outputs b)\<rparr>, rb_iframe = u\<rparr>)))"

fun resolve_blocks :: "string \<Rightarrow> string list \<Rightarrow> string list \<Rightarrow> block list \<Rightarrow> (manifest_error, resolved_block list) go_result" where
  "resolve_blocks base retired seen [] = Inr []"
| "resolve_blocks base retired seen (b # bs) =
     bindR (resolve_block base retired seen b) (\<lambda>r. bindR (resolve_blocks base retired (bl_key b # seen) bs) (\<lambda>rs. Inr (r # rs)))"

text \<open>The rules of the blocks by key, the last one of a key, in the order of the keys.\<close>

definition block_rules :: "block list \<Rightarrow> (string \<times> string option) list" where
  "block_rules bs = sort_members (fold (\<lambda>b. AList.update (bl_key b) (map_option (write_json \<circ> copy_rules_json) (bl_rules b))) bs [])"

definition block_keys :: "manifest \<Rightarrow> string list" where
  "block_keys m = map bl_key (mf_blocks m)"

subsection \<open>Resolution\<close>

record 's manifest_env =
  me_conforms :: "catalog \<Rightarrow> contract_error option"
  me_compile :: "json \<Rightarrow> 's option"
  me_rules_ok :: "string \<Rightarrow> contract_error option"

record manifest_body =
  my_mcp :: string
  my_import_file :: string
  my_resource_values :: string
  my_prepare :: string
  my_validate :: string
  my_sources :: catalog
  my_console :: string
  my_pages :: "resolved_page list"
  my_lifecycle :: string
  my_action :: string
  my_template :: string
  my_trigger_sync :: string
  my_values :: string
  my_value_sources :: "(string \<times> value_source) list"
  my_blocks :: "resolved_block list"
  my_retired :: "string list"

definition value_source_ok :: "catalog \<Rightarrow> value_source \<Rightarrow> bool" where
  "value_source_ok srcs s \<longleftrightarrow> vo_type s = ''remote'' \<and> (vo_key s = []) = (vo_semantics s = []) \<and>
     (vo_key s = [] \<or> vo_semantics s = ''resource'' \<and> map_of srcs (vo_key s) \<noteq> None)"

text \<open>A check of the declarations that may not return.\<close>

definition check_declaration :: "contract_error option option \<Rightarrow> (manifest_error, 'a) go_result option \<Rightarrow> (manifest_error, 'a) go_result option" where
  "check_declaration e next = (case e of None \<Rightarrow> None | Some (Some x) \<Rightarrow> Some (Inl (Declaration x)) | Some None \<Rightarrow> next)"

definition manifest_urls :: "string \<Rightarrow> manifest \<Rightarrow> (manifest_error, manifest_body) go_result" where
  "manifest_urls base m =
     bindR (resolve_url base (mf_console m) ''ConsolePath'') (\<lambda>console.
     bindR (resolve_url base (mf_lifecycle m) ''InstallationLifecyclePath'') (\<lambda>lifecycle.
     bindR (resolve_url base (mf_action m) ''ActionPath'') (\<lambda>action.
     bindR (resolve_url base (mf_trigger_sync m) ''TriggerSyncPath'') (\<lambda>trigger.
     bindR (resolve_url base (mf_values m) ''VariableValuesPath'') (\<lambda>vals.
     guardR (mf_value_sources m \<noteq> [] \<and> vals = []) SourcesWithoutPath
    (guardR (mf_template m \<noteq> [] \<and> parse_json (mf_template m) = None) BadTemplate
    (bindR (resolve_mcp base (mf_mcp m)) (\<lambda>mcp.
     bindR (resolve_url base (mf_resource_values m) ''ResourceValuesPath'') (\<lambda>resource.
     bindR (resolve_url base (mf_prepare m) ''PrepareCopyPath'') (\<lambda>prepare.
     bindR (resolve_url base (mf_validate m) ''ValidateCopySettingsPath'') (\<lambda>validate.
     bindR (resolve_url base (mf_import_file m) ''ImportCopyFilePath'') (\<lambda>import.
     Inr \<lparr>my_mcp = mcp, my_import_file = import, my_resource_values = resource, my_prepare = prepare, my_validate = validate, my_sources = mf_sources m,
       my_console = console, my_pages = [], my_lifecycle = lifecycle, my_action = action, my_template = mf_template m, my_trigger_sync = trigger,
       my_values = vals, my_value_sources = mf_value_sources m, my_blocks = [], my_retired = mf_retired m\<rparr>))))))))))))"

definition manifest_lists :: "string \<Rightarrow> manifest \<Rightarrow> manifest_body \<Rightarrow> (manifest_error, manifest_body) go_result" where
  "manifest_lists base m body =
     (case find (\<lambda>(_, s). \<not> value_source_ok (mf_sources m) s) (mf_value_sources m) of Some (key, _) \<Rightarrow> Inl (BadValueSource key)
      | None \<Rightarrow>
         bindR (resolve_console_pages base (mf_pages m)) (\<lambda>pages.
         guardR ([] \<in> set (mf_retired m)) EmptyRetired
        (bindR (resolve_blocks base (mf_retired m) [] (mf_blocks m)) (\<lambda>blocks.
         Inr (body\<lparr>my_pages := pages, my_blocks := blocks\<rparr>)))))"

definition resolve_manifest :: "'s manifest_env \<Rightarrow> string \<Rightarrow> manifest \<Rightarrow> (manifest_error, manifest_body) go_result option" where
  "resolve_manifest X base_url m =
     (let base = trim_right_char CHR ''/'' base_url in
      case manifest_urls base m of Inl e \<Rightarrow> Some (Inl e)
      | Inr body \<Rightarrow>
         check_declaration (validate_file_import_declaration (me_conforms X) (me_compile X) (mf_sources m) (my_import_file body))
          (if list_ex (\<lambda>b. case bl_rules b of None \<Rightarrow> False | Some r \<Rightarrow> uses_callback_plan r) (mf_blocks m) \<and> my_prepare body = [] then Some (Inl PrepareRequired)
           else check_declaration (validate_declaration (me_conforms X) (me_compile X) (me_rules_ok X) (mf_sources m) (block_rules (mf_blocks m))
               (my_resource_values body) (my_validate body))
             (Some (manifest_lists base m body))))"

subsection \<open>Publication\<close>

definition omit_empty_json :: "string \<Rightarrow> string \<Rightarrow> (string \<times> json) list" where
  "omit_empty_json name raw = (if raw = [] then [] else case parse_json raw of Some v \<Rightarrow> [(name, v)] | None \<Rightarrow> [])"

definition strings_json :: "string list option \<Rightarrow> json" where
  "strings_json xs = (case xs of None \<Rightarrow> JNull | Some ys \<Rightarrow> JArr (map JStr ys))"

definition page_json :: "resolved_page \<Rightarrow> json" where
  "page_json p = JObj ([(''key'', JStr (rp_key p)), (''label'', JStr (rp_label p)), (''url'', JStr (rp_url p))] @
     (case rp_icon p of None \<Rightarrow> [] | Some i \<Rightarrow> [(''icon'', JObj [(''mimeType'', JStr (ic_mime i)), (''content'', JStr (b64std (ic_content i)))])]))"

definition block_json :: "resolved_block \<Rightarrow> json" where
  "block_json r = (let b = rb_block r in JObj (
     omit_nil ''copyRules'' (map_option copy_rules_json (bl_rules b)) @ (if bl_favorite b then [(''favoriteByDefault'', JBool True)] else []) @
     [(''blockKey'', JStr (bl_key b)), (''kind'', JStr (bl_kind b)), (''name'', JStr (bl_name b))] @ omit_empty ''description'' (bl_description b) @
     omit_empty ''color'' (bl_color b) @ omit_empty ''iframeUrl'' (rb_iframe r) @ [(''inputs'', strings_json (bl_inputs b)), (''outputs'', strings_json (bl_outputs b))] @
     omit_nil ''subflowDeclaration'' (bl_subflow b)))"

definition value_source_json :: "value_source \<Rightarrow> json" where
  "value_source_json s = JObj ([(''type'', JStr (vo_type s))] @ omit_empty ''sourceKey'' (vo_key s) @ omit_empty ''valueSemantics'' (vo_semantics s))"

text \<open>\<open>sources_json\<close>: the sources as written; maps are written in the order of their keys.\<close>

definition manifest_json :: "(catalog \<Rightarrow> json) \<Rightarrow> manifest_body \<Rightarrow> json" where
  "manifest_json sources_json b = JObj (
     omit_empty ''mcpUrl'' (my_mcp b) @ omit_empty ''importCopyFileUrl'' (my_import_file b) @ omit_empty ''resourceValuesUrl'' (my_resource_values b) @
     omit_empty ''prepareCopyUrl'' (my_prepare b) @ omit_empty ''validateCopySettingsUrl'' (my_validate b) @
     (if my_sources b = [] then [] else [(''resourceSources'', sources_json (my_sources b))]) @ omit_empty ''consoleUrl'' (my_console b) @
     (if my_pages b = [] then [] else [(''consolePages'', JArr (map page_json (my_pages b)))]) @ omit_empty ''installationLifecycleUrl'' (my_lifecycle b) @
     omit_empty ''actionUrl'' (my_action b) @ omit_empty_json ''actionRequestTemplate'' (my_template b) @ omit_empty ''triggerSyncUrl'' (my_trigger_sync b) @
     omit_empty ''variableValuesUrl'' (my_values b) @
     (if my_value_sources b = [] then [] else [(''variableValueSources'', JObj (sort_members (map (\<lambda>(k, s). (k, value_source_json s)) (my_value_sources b))))]) @
     [(''blocks'', JArr (map block_json (my_blocks b)))] @ (if my_retired b = [] then [] else [(''retired'', JArr (map JStr (my_retired b)))]))"

record sync_result =
  sy_changed :: bool
  sy_version :: int
  sy_published :: bool
  sy_reason :: string

datatype sync_error = SyncManifest manifest_error | SyncCall outbound_error

definition catalog_sync :: "'s manifest_env \<Rightarrow> (catalog \<Rightarrow> json) \<Rightarrow> outside \<Rightarrow> (string \<Rightarrow> sync_result option) \<Rightarrow> application_oauth option \<Rightarrow> string \<Rightarrow>
    manifest \<Rightarrow> answers \<Rightarrow> ((sync_error, sync_result) go_result \<times> call_effect list) option" where
  "catalog_sync X sources_json W decode oauth base m an = (case resolve_manifest X base m of None \<Rightarrow> None
     | Some (Inl e) \<Rightarrow> Some (Inl (SyncManifest e), [])
     | Some (Inr body) \<Rightarrow> (case oauth of None \<Rightarrow> Some (Inl (SyncCall OutNoOAuth), [])
        | Some x \<Rightarrow> (case application_call W x ''POST'' ''/integrations/self/sync'' (write_json (manifest_json sources_json body)) decode an of
            (Inl e, es) \<Rightarrow> Some (Inl (SyncCall e), es)
          | (Inr out, es) \<Rightarrow> Some (if sy_version out < 1 then Inl (SyncCall OutAnswer) else Inr out, es))))"

text \<open>
  \<open>StartSyncWithObserver\<close>: \<open>results\<close> the outcome of each attempt, \<open>ended\<close> whether the context has ended after it, \<open>slept\<close> whether the
  pause after it passed (pause 0 is the jitter). What happens is recorded.
\<close>

datatype 'r sync_step = Paused duration | Attempted nat | Observed 'r | GaveUp nat

definition sleep_ctx :: "duration \<Rightarrow> bool \<Rightarrow> bool" where
  "sleep_ctx d passed \<longleftrightarrow> d \<le> 0 \<or> passed"

function sync_loop :: "(nat \<Rightarrow> ('e, 'r) go_result) \<Rightarrow> (nat \<Rightarrow> bool) \<Rightarrow> (nat \<Rightarrow> bool) \<Rightarrow> nat \<Rightarrow> duration \<Rightarrow> 'r sync_step list" where
  "sync_loop results ended slept attempt backoff =
     (if 5 < attempt then []
      else Attempted attempt # (case results attempt of
        Inr r \<Rightarrow> [Observed r]
      | Inl e \<Rightarrow>
          if ended attempt then []
          else if attempt = 5 then [GaveUp attempt]
          else Paused backoff # (if \<not> sleep_ctx backoff (slept attempt) then []
            else sync_loop results ended slept (attempt + 1) (if 30 * second < backoff * 2 then 30 * second else backoff * 2))))"
  by pat_completeness auto
termination by (relation "measure (\<lambda>(_, _, _, attempt, _). 6 - attempt)") auto

definition start_sync :: "(nat \<Rightarrow> ('e, 'r) go_result) \<Rightarrow> (nat \<Rightarrow> bool) \<Rightarrow> (nat \<Rightarrow> bool) \<Rightarrow> duration \<Rightarrow> 'r sync_step list" where
  "start_sync results ended slept jitter =
     Paused jitter # (if \<not> sleep_ctx jitter (slept 0) then [] else sync_loop results ended slept 1 (2 * second))"

declare sync_loop.simps [simp del]

subsection \<open>What a resolved manifest promises\<close>

definition served_at :: "string \<Rightarrow> string \<Rightarrow> string \<Rightarrow> bool" where
  "served_at base path u \<longleftrightarrow> (if path = [] then u = [] else if absolute_http path then u = path
     else has_prefix ''/'' path \<and> base \<noteq> [] \<and> u = base @ path)"

lemma resolve_url_Inr [simp]: "resolve_url base path field = Inr u \<longleftrightarrow> served_at base path u"
  by (auto simp: resolve_url_def served_at_def)

definition page_ok :: "string \<Rightarrow> console_page \<Rightarrow> resolved_page \<Rightarrow> bool" where
  "page_ok base p q \<longleftrightarrow> rp_key q = gp_key p \<and> gp_key p \<noteq> [] \<and> rp_label q = gp_label p \<and> gp_label p \<noteq> [] \<and> gp_path p \<noteq> [] \<and>
     served_at base (gp_path p) (rp_url q) \<and>
     (case rp_icon q of None \<Rightarrow> gp_icon p = \<lparr>ic_mime = [], ic_content = []\<rparr>
      | Some i \<Rightarrow> i = gp_icon p \<and> ic_mime i \<in> {''image/svg+xml'', ''image/png'', ''image/webp''} \<and> ic_content i \<noteq> [] \<and> length (ic_content i) \<le> 32768)"

definition block_ok :: "string \<Rightarrow> block \<Rightarrow> resolved_block \<Rightarrow> bool" where
  "block_ok base b r \<longleftrightarrow> rb_block r = b\<lparr>bl_inputs := non_nil (bl_inputs b), bl_outputs := non_nil (bl_outputs b)\<rparr> \<and> bl_key b \<noteq> [] \<and>
     bl_name b \<noteq> [] \<and> bl_kind b \<in> {''action'', ''trigger'', ''subflow''} \<and>
     served_at base (if bl_iframe b = [] then ''/blocks/'' @ bl_key b else bl_iframe b) (rb_iframe r)"

text \<open>Every page and block in its place, no key twice, no block both declared and retired.\<close>

definition lists_ok :: "string \<Rightarrow> manifest \<Rightarrow> manifest_body \<Rightarrow> bool" where
  "lists_ok base m b \<longleftrightarrow> list_all2 (page_ok base) (mf_pages m) (my_pages b) \<and> distinct (map gp_key (mf_pages m)) \<and> length (mf_pages m) \<le> 8 \<and>
     list_all2 (block_ok base) (mf_blocks m) (my_blocks b) \<and> distinct (block_keys m) \<and> set (block_keys m) \<inter> set (mf_retired m) = {}"

text \<open>Every endpoint at its address, and those that the declaration needs are there.\<close>

definition endpoints_ok :: "string \<Rightarrow> manifest \<Rightarrow> manifest_body \<Rightarrow> bool" where
  "endpoints_ok base m b \<longleftrightarrow>
     list_all (\<lambda>(path, u). served_at base path u) [(mf_console m, my_console b), (mf_lifecycle m, my_lifecycle b), (mf_action m, my_action b),
       (mf_trigger_sync m, my_trigger_sync b), (mf_values m, my_values b), (mf_resource_values m, my_resource_values b), (mf_prepare m, my_prepare b),
       (mf_validate m, my_validate b), (mf_import_file m, my_import_file b)] \<and>
     (mf_mcp m = [] \<and> my_mcp b = [] \<or> has_prefix ''/'' (mf_mcp m) \<and> my_mcp b = base @ mf_mcp m) \<and>
     (mf_value_sources m = [] \<or> my_values b \<noteq> []) \<and> (mf_sources m = [] \<or> my_resource_values b \<noteq> []) \<and>
     (list_all (\<lambda>b. bl_rules b = None) (mf_blocks m) \<or> my_validate b \<noteq> []) \<and>
     (list_all (\<lambda>b. \<forall>r. bl_rules b = Some r \<longrightarrow> \<not> uses_callback_plan r) (mf_blocks m) \<or> my_prepare b \<noteq> []) \<and>
     (list_all (\<lambda>(_, s). so_file_import s = None) (mf_sources m) \<or> my_import_file b \<noteq> []) \<and>
     list_all (\<lambda>(_, s). value_source_ok (mf_sources m) s) (mf_value_sources m)"

lemma resolve_page_ok: "resolve_page base p = Inr q \<Longrightarrow> gp_key p \<noteq> [] \<Longrightarrow> page_ok base p q"
  by (cases "gp_icon p") (auto simp: resolve_page_def page_ok_def guardR_eq_Inr bindR_eq_Inr validate_icon_def split: if_splits)

lemma resolve_page_list_ok:
  "resolve_page_list base seen ps = Inr qs \<Longrightarrow>
   list_all2 (page_ok base) ps qs \<and> distinct (map gp_key ps) \<and> set (map gp_key ps) \<inter> set seen = {}"
  by (induction base seen ps arbitrary: qs rule: resolve_page_list.induct)
    (auto simp: guardR_eq_Inr bindR_eq_Inr resolve_page_ok)

lemma resolve_block_ok: "resolve_block base retired seen b = Inr r \<Longrightarrow> block_ok base b r \<and> bl_key b \<notin> set seen \<and> bl_key b \<notin> set retired"
  by (auto simp: resolve_block_def block_ok_def guardR_eq_Inr bindR_eq_Inr)

lemma resolve_blocks_ok:
  "resolve_blocks base retired seen bs = Inr rs \<Longrightarrow>
   list_all2 (block_ok base) bs rs \<and> distinct (map bl_key bs) \<and> set (map bl_key bs) \<inter> (set seen \<union> set retired) = {}"
  by (induction base retired seen bs arbitrary: rs rule: resolve_blocks.induct)
    (fastforce simp: bindR_eq_Inr dest: resolve_block_ok)+

lemma manifest_lists_ok:
  assumes "manifest_lists base m body = Inr b"
  shows "lists_ok base m b \<and> list_all (\<lambda>(_, s). value_source_ok (mf_sources m) s) (mf_value_sources m) \<and>
    (\<exists>pages blocks. b = body\<lparr>my_pages := pages, my_blocks := blocks\<rparr>)"
proof -
  have v: "find (\<lambda>(_, s). \<not> value_source_ok (mf_sources m) s) (mf_value_sources m) = None"
    using assms by (auto simp: manifest_lists_def split: option.splits)
  with assms obtain pages blocks where pb: "resolve_console_pages base (mf_pages m) = Inr pages" "resolve_blocks base (mf_retired m) [] (mf_blocks m) = Inr blocks"
    "b = body\<lparr>my_pages := pages, my_blocks := blocks\<rparr>"
    by (auto simp: manifest_lists_def bindR_eq_Inr guardR_eq_Inr)
  then have "resolve_page_list base [] (mf_pages m) = Inr pages" "length (mf_pages m) \<le> 8"
    by (auto simp: resolve_console_pages_def split: if_splits)
  with resolve_page_list_ok resolve_blocks_ok [OF pb(2)] pb(3) have "lists_ok base m b"
    by (auto simp: lists_ok_def block_keys_def)
  moreover have "list_all (\<lambda>(_, s). value_source_ok (mf_sources m) s) (mf_value_sources m)"
    using v by (auto simp: find_None_iff list_all_iff)
  ultimately show ?thesis using pb(3) by blast
qed

lemma fold_update_last:
  "distinct (map f bs) \<Longrightarrow> b \<in> set bs \<Longrightarrow> map_of (fold (\<lambda>b. AList.update (f b) (g b)) bs al) (f b) = Some (g b)"
proof (induction bs arbitrary: al)
  case (Cons c cs)
  have keep: "k \<notin> f ` set cs \<Longrightarrow> map_of (fold (\<lambda>b. AList.update (f b) (g b)) cs al) k = map_of al k" for k al
    by (induction cs arbitrary: al) (auto simp: update_conv')
  from Cons show ?case by (cases "b = c") (auto simp: keep update_conv')
qed simp

lemma check_blocks_None: "check_blocks rules_ok [] rs = None \<Longrightarrow> (k, r) \<in> set rs \<Longrightarrow> r = None"
  by (induction rules_ok "[] :: string" rs rule: check_blocks.induct) (auto split: option.splits)

lemma block_rules_endpoint:
  assumes "check_blocks rules_ok [] (block_rules bs) = None" "distinct (map bl_key bs)"
  shows "list_all (\<lambda>b. bl_rules b = None) bs"
  unfolding list_all_iff
proof
  fix b assume "b \<in> set bs"
  then have "(bl_key b, map_option (write_json \<circ> copy_rules_json) (bl_rules b)) \<in> set (block_rules bs)"
    using fold_update_last [OF assms(2), of b "\<lambda>b. map_option (write_json \<circ> copy_rules_json) (bl_rules b)" "[]"]
    by (auto simp: block_rules_def dest: map_of_SomeD)
  from check_blocks_None [OF assms(1) this] show "bl_rules b = None" by simp
qed

lemma sources_return: "validate_resource_sources conforms compile srcs \<noteq> None"
proof -
  let ?v = "\<lparr>vi_state = (\<lambda>_. 0), vi_schemas = []\<rparr>"
  have v: "grounded compile srcs ?v" "\<forall>g. vi_state ?v g \<noteq> 1" by (simp_all add: grounded_def)
  have "visit_all compile srcs (map fst srcs) ?v \<noteq> None"
    using visit_all_verdict [of "map fst srcs" srcs compile ?v] v by auto
  then show ?thesis by (simp add: validate_resource_sources_def split: option.split)
qed

lemma resolve_manifest_returns: "resolve_manifest X base m \<noteq> None"
  using sources_return [of "me_conforms X" "me_compile X" "mf_sources m"]
  by (auto simp: resolve_manifest_def Let_def check_declaration_def validate_file_import_declaration_def validate_declaration_def
      split: sum.split option.split)

lemma manifest_urls_ok:
  assumes "manifest_urls base m = Inr b"
  shows "list_all (\<lambda>(path, u). served_at base path u) [(mf_console m, my_console b), (mf_lifecycle m, my_lifecycle b), (mf_action m, my_action b),
       (mf_trigger_sync m, my_trigger_sync b), (mf_values m, my_values b), (mf_resource_values m, my_resource_values b), (mf_prepare m, my_prepare b),
       (mf_validate m, my_validate b), (mf_import_file m, my_import_file b)] \<and>
     (mf_mcp m = [] \<and> my_mcp b = [] \<or> has_prefix ''/'' (mf_mcp m) \<and> my_mcp b = base @ mf_mcp m) \<and> (mf_value_sources m = [] \<or> my_values b \<noteq> [])"
  using assms by (auto simp: manifest_urls_def bindR_eq_Inr guardR_eq_Inr resolve_mcp_def split: if_splits)

text \<open>
  C19. A manifest is always resolved or refused. When it is resolved, every endpoint is at its address (none, an absolute one, or below
  the public address), the endpoints its declarations need are there, the sources of its variables are declared and the graph of resources
  is sound, every page and block is in its place, and no key is declared twice or both declared and retired.
\<close>

theorem resolved_manifest_sound:
  "case resolve_manifest X base_url m of None \<Rightarrow> False | Some (Inl _) \<Rightarrow> True
   | Some (Inr b) \<Rightarrow> (let base = trim_right_char CHR ''/'' base_url in endpoints_ok base m b \<and> lists_ok base m b \<and>
       (\<exists>schemas. validate_resource_sources (me_conforms X) (me_compile X) (mf_sources m) = Some (Inr schemas)))"
proof (cases "resolve_manifest X base_url m")
  case None
  with resolve_manifest_returns show ?thesis by blast
next
  case (Some r)
  show ?thesis
  proof (cases r)
    case (Inr b)
    define base where "base = trim_right_char CHR ''/'' base_url"
    note R = Some [unfolded resolve_manifest_def Let_def Inr, folded base_def]
    from R obtain b0 where u: "manifest_urls base m = Inr b0" by (cases "manifest_urls base m") auto
    note R = R [unfolded u sum.case]
    from R obtain schemas where srcs: "validate_resource_sources (me_conforms X) (me_compile X) (mf_sources m) = Some (Inr schemas)"
      by (auto simp: check_declaration_def validate_file_import_declaration_def split: option.splits sum.splits)
    have imp: "find (\<lambda>(_, s). so_file_import s \<noteq> None \<and> my_import_file b0 = []) (mf_sources m) = None"
      using R by (auto simp: check_declaration_def validate_file_import_declaration_def srcs split: option.splits)
    have prep: "\<not> (list_ex (\<lambda>b. case bl_rules b of None \<Rightarrow> False | Some r \<Rightarrow> uses_callback_plan r) (mf_blocks m) \<and> my_prepare b0 = [])"
      using R by (auto simp: check_declaration_def split: option.splits if_splits)
    have decl: "validate_declaration (me_conforms X) (me_compile X) (me_rules_ok X) (mf_sources m) (block_rules (mf_blocks m))
        (my_resource_values b0) (my_validate b0) = Some None"
      using R prep by (auto simp: check_declaration_def split: option.splits if_splits)
    have "manifest_lists base m b0 = Inr b"
      using R prep by (auto simp: check_declaration_def split: option.splits if_splits)
    note L = manifest_lists_ok [OF this]
    have rv: "mf_sources m = [] \<or> my_resource_values b0 \<noteq> []" and blocks: "check_blocks (me_rules_ok X) (my_validate b0) (block_rules (mf_blocks m)) = None"
      using decl by (auto simp: validate_declaration_def srcs split: if_splits)
    have "list_all (\<lambda>b. bl_rules b = None) (mf_blocks m) \<or> my_validate b0 \<noteq> []"
      using block_rules_endpoint blocks L by (auto simp: lists_ok_def block_keys_def)
    moreover have "list_all (\<lambda>b. \<forall>r. bl_rules b = Some r \<longrightarrow> \<not> uses_callback_plan r) (mf_blocks m) \<or> my_prepare b0 \<noteq> []"
      using prep by (auto simp: list_ex_iff list_all_iff)
    moreover have "list_all (\<lambda>(_, s). so_file_import s = None) (mf_sources m) \<or> my_import_file b0 \<noteq> []"
      using imp by (auto simp: find_None_iff list_all_iff)
    moreover from L obtain pages blocks where b: "b = b0\<lparr>my_pages := pages, my_blocks := blocks\<rparr>" by blast
    ultimately have "endpoints_ok base m b"
      using manifest_urls_ok [OF u] L rv unfolding endpoints_ok_def b by simp
    with L srcs show ?thesis by (simp add: Some Inr base_def Let_def)
  qed (simp add: Some)
qed

text \<open>The address of MCP is not refused without a public address, as every other one is: it is then sent as a path.\<close>

lemma mcp_without_base: "resolve_mcp [] ''/mcp'' = Inr ''/mcp'' \<and> resolve_url [] ''/console'' f = Inl (NoBase f ''/console'')"
  by (simp add: resolve_mcp_def resolve_url_def has_prefix_def absolute_http_def)

subsection \<open>Synchronisation at start\<close>

definition attempts_of :: "'r sync_step list \<Rightarrow> nat list" where
  "attempts_of log = concat (map (\<lambda>e. case e of Attempted n \<Rightarrow> [n] | _ \<Rightarrow> []) log)"

definition observed_of :: "'r sync_step list \<Rightarrow> 'r list" where
  "observed_of log = concat (map (\<lambda>e. case e of Observed r \<Rightarrow> [r] | _ \<Rightarrow> []) log)"

definition pauses_of :: "'r sync_step list \<Rightarrow> duration list" where
  "pauses_of log = concat (map (\<lambda>e. case e of Paused d \<Rightarrow> [d] | _ \<Rightarrow> []) log)"

lemmas log_parts = attempts_of_def observed_of_def pauses_of_def

lemma sync_loop_log:
  assumes "1 \<le> a" "a \<le> 5" "a < 5 \<longrightarrow> backoff = 2 ^ a * second"
  shows "\<exists>n k. a \<le> n \<and> n \<le> 5 \<and> k \<le> n \<and> k \<le> 4 \<and> a \<le> Suc k \<and> attempts_of (sync_loop results ended slept a backoff) = [a..<Suc n] \<and>
    (\<forall>i. a \<le> i \<longrightarrow> i < n \<longrightarrow> isl (results i)) \<and>
    observed_of (sync_loop results ended slept a backoff) = (case results n of Inr r \<Rightarrow> [r] | Inl _ \<Rightarrow> []) \<and>
    pauses_of (sync_loop results ended slept a backoff) = map (\<lambda>i. 2 ^ i * second) [a..<Suc k]"
  using assms
proof (induction results ended slept a backoff rule: sync_loop.induct)
  case (1 results ended slept a backoff)
  note loop = sync_loop.simps [of results ended slept a backoff]
  show ?case
  proof (cases "results a")
    case (Inr r)
    with 1 show ?thesis by (intro exI [of _ a] exI [of _ "a - 1"]) (auto simp: loop log_parts)
  next
    case (Inl e)
    show ?thesis
    proof (cases "ended a \<or> a = 5")
      case True
      with Inl 1 show ?thesis by (intro exI [of _ a] exI [of _ "a - 1"]) (auto simp: loop log_parts)
    next
      case go: False
      with 1 have a: "a < 5" "backoff = 2 ^ a * second" by auto
      show ?thesis
      proof (cases "sleep_ctx backoff (slept a)")
        case False
        then have "sync_loop results ended slept a backoff = [Attempted a, Paused backoff]" using Inl go a(1) unfolding loop by simp
        with Inl a show ?thesis by (intro exI [of _ a] exI [of _ a]) (simp add: log_parts)
      next
        case True
        let ?b = "if 30 * second < backoff * 2 then 30 * second else backoff * 2"
        have b: "a + 1 < 5 \<longrightarrow> ?b = 2 ^ (a + 1) * second"
        proof
          assume "a + 1 < 5"
          then have "a \<in> {1, 2, 3}" using 1(2) by auto
          then show "?b = 2 ^ (a + 1) * second" using a(2) by (auto simp: second_def)
        qed
        have p: "\<not> 5 < a" "\<not> ended a" "a \<noteq> 5" "\<not> \<not> sleep_ctx backoff (slept a)" "1 \<le> a + 1" "a + 1 \<le> 5" using go True a(1) by auto
        from 1(1) [OF p(1) Inl p(2-6) b] obtain n k where n: "a + 1 \<le> n" "n \<le> 5" "k \<le> n" "k \<le> 4" "a + 1 \<le> Suc k"
          "attempts_of (sync_loop results ended slept (a + 1) ?b) = [a + 1..<Suc n]"
          "\<forall>i. a + 1 \<le> i \<longrightarrow> i < n \<longrightarrow> isl (results i)"
          "observed_of (sync_loop results ended slept (a + 1) ?b) = (case results n of Inr r \<Rightarrow> [r] | Inl _ \<Rightarrow> [])"
          "pauses_of (sync_loop results ended slept (a + 1) ?b) = map (\<lambda>i. 2 ^ i * second) [a + 1..<Suc k]"
          by blast
        have log: "sync_loop results ended slept a backoff = Attempted a # Paused backoff # sync_loop results ended slept (a + 1) ?b"
          using p Inl True unfolding loop by simp
        have up: "[a..<Suc n] = a # [a + 1..<Suc n]" "[a..<Suc k] = a # [a + 1..<Suc k]" using n(1,5) by (simp_all add: upt_conv_Cons)
        have "attempts_of (sync_loop results ended slept a backoff) = [a..<Suc n]" using n(6) unfolding log up by (simp add: log_parts)
        moreover have "observed_of (sync_loop results ended slept a backoff) = (case results n of Inr r \<Rightarrow> [r] | Inl _ \<Rightarrow> [])"
          using n(8) unfolding log by (simp add: log_parts)
        moreover have "pauses_of (sync_loop results ended slept a backoff) = map (\<lambda>i. 2 ^ i * second) [a..<Suc k]"
          using n(9) a(2) unfolding log up by (simp add: log_parts)
        moreover have "\<forall>i. a \<le> i \<longrightarrow> i < n \<longrightarrow> isl (results i)"
        proof (intro allI impI)
          fix i assume "a \<le> i" "i < n"
          then show "isl (results i)" using n(7) Inl by (cases "i = a") auto
        qed
        ultimately show ?thesis using n(1-5) by (intro exI [of _ n] exI [of _ k]) simp
      qed
    qed
  qed
qed


end
